(* ===== verification/Prelude.thy ===== *)
theory Prelude imports Main "HOL-Library.Word" "HOL-Library.Multiset" "HOL-Library.Monad_Syntax" begin

text \<open>
  Shared vocabulary of the development: the DSP's integer types as \<^verbatim>\<open>inc/types.h\<close> names them,
  the wrap-around of a 24-bit \<^verbatim>\<open>INT\<close> assignment, and the facts on lists that several
  components use.

  The STMP3xxx is a 24-bit machine: \<^verbatim>\<open>int\<close> and \<^verbatim>\<open>unsigned\<close> have 24 bits, \<^verbatim>\<open>long\<close> has 48, and
  three 8-bit bytes are packed into one word, the first byte in the low bits.
  A value the code masks, shifts or compares as a bit pattern is a \<open>WORD\<close>; a counter or an
  offset is an \<open>int\<close>, with \<open>int24\<close> around an operation whose result can leave the 24-bit range.
\<close>

unbundle bit_operations_syntax

section \<open>Integer types\<close>

type_synonym BYTE = "8 word"
type_synonym WORD = "24 word"
type_synonym DWORD = "48 word"

definition int24 :: "int \<Rightarrow> int" where
  "int24 x = (x + 8388608) mod 16777216 - 8388608"

lemma int24_id: "- 8388608 \<le> x \<Longrightarrow> x < 8388608 \<Longrightarrow> int24 x = x"
  by (simp add: int24_def)

lemma int24_range: "- 8388608 \<le> int24 x \<and> int24 x < 8388608"
  by (simp add: int24_def)

definition long48 :: "int \<Rightarrow> int" where
  "long48 x = (x + 140737488355328) mod 281474976710656 - 140737488355328"

lemma long48_id: "- 140737488355328 \<le> x \<Longrightarrow> x < 140737488355328 \<Longrightarrow> long48 x = x"
  by (simp add: long48_def)

text \<open>A byte in a word.\<close>

lemma unat_wide: "unat (ucast (b::BYTE) :: WORD) = unat b"
proof -
  have "unat b < 256"
    by (rule order_less_le_trans [OF unsigned_less]) simp
  then show ?thesis
    by (simp add: unsigned_ucast_eq take_bit_eq_mod)
qed

lemma wide_eq: "(ucast (a::BYTE) :: WORD) = ucast b \<longleftrightarrow> a = b"
  by (metis unat_wide word_unat_eq_iff)

section \<open>Collections of facts\<close>

named_theorems frame "what an operation leaves unchanged"
named_theorems preserves "an operation keeps its component's invariant"

section \<open>Lists\<close>

lemma mset_update_swap:
  assumes "i < length xs" and "j < length xs"
  shows "mset (xs[i := xs ! j, j := xs ! i]) = mset xs"
  using assms by (simp add: mset_swap)

lemma sorted_wrt_append_iff:
  "sorted_wrt P (xs @ ys) \<longleftrightarrow> sorted_wrt P xs \<and> sorted_wrt P ys \<and> (\<forall>x\<in>set xs. \<forall>y\<in>set ys. P x y)"
  by (simp add: sorted_wrt_append)

lemma nth_splitE:
  assumes "i < length xs"
  obtains ys zs where "xs = ys @ xs ! i # zs" and "length ys = i"
proof
  show "xs = take i xs @ xs ! i # drop (Suc i) xs"
    using assms by (rule id_take_nth_drop)
  show "length (take i xs) = i"
    using assms by simp
qed

section \<open>Linked lists\<close>

text \<open>The cells of a list linked by \<open>nxt\<close>, from its head.\<close>

fun chain :: "(nat \<Rightarrow> nat option) \<Rightarrow> nat option \<Rightarrow> nat list \<Rightarrow> bool" where
  "chain nxt h [] \<longleftrightarrow> h = None"
| "chain nxt h (i # is) \<longleftrightarrow> h = Some i \<and> chain nxt (nxt i) is"

lemma chain_None: "chain nxt None is \<longleftrightarrow> is = []"
  by (cases "is") auto

lemma chain_cong: "(\<And>i. i \<in> set is \<Longrightarrow> nxt' i = nxt i) \<Longrightarrow> chain nxt' h is = chain nxt h is"
  by (induction "is" arbitrary: h) auto

lemma chain_snoc:
  "chain nxt h is \<Longrightarrow> is \<noteq> [] \<Longrightarrow> distinct is \<Longrightarrow> nxt' (last is) = Some e \<Longrightarrow> nxt' e = None \<Longrightarrow>
   (\<And>i. i \<in> set (butlast is) \<Longrightarrow> nxt' i = nxt i) \<Longrightarrow> chain nxt' h (is @ [e])"
proof (induction "is" arbitrary: h)
  case (Cons i "is")
  then show ?case by (cases "is") auto
qed simp

end
