(* ===== verification/MsgQueue.thy ===== *)
theory MsgQueue imports Prelude begin

text \<open>
  The kernel's message queues: the circular buffers of \<^verbatim>\<open>inc/kernel.h\<close>
  (\<^verbatim>\<open>CircularBufferDescriptor\<close>, whose \<^verbatim>\<open>_circ\<close> head pointer carries the modulo register),
  the space computations of \<^verbatim>\<open>System/data_management/queues.asm\<close>, the post routine of
  \<^verbatim>\<open>System/kernel/kernel_postmessage.asm\<close> and the fetch routine of
  \<^verbatim>\<open>System/kernel/kernel_syswaitonmessage.asm\<close>.
  The lemmas show that a queue is a first-in first-out list of words: a post appends the whole
  message or leaves the queue alone, a fetch removes the oldest message.
\<close>

section \<open>Circular buffers\<close>

record CircularBufferDescriptor =
  m_pHead :: nat
  m_modulo :: nat
  m_pTail :: nat

text \<open>
  The DSP's modulo addressing: with modulo register \<open>m\<close> a post-increment stays inside the block
  of \<open>m + 1\<close> words whose base is the pointer with its low bits cleared, as many bits as the
  least power of two above \<open>m\<close> has zeros.
\<close>

function circ_align :: "nat \<Rightarrow> nat \<Rightarrow> nat" where
  "circ_align m a = (if a = 0 \<or> m < a then a else circ_align m (2 * a))"
  by pat_completeness auto
termination
  by (relation "measure (\<lambda>(m, a). Suc m - a)") auto

declare circ_align.simps [simp del]

definition circ_base :: "nat \<Rightarrow> nat \<Rightarrow> nat" where
  "circ_base m p = p - p mod circ_align m 1"

definition circ_next :: "nat \<Rightarrow> nat \<Rightarrow> nat" where
  "circ_next m p = (if p = circ_base m p + m then circ_base m p else Suc p)"

definition QueueGetFilledSpace :: "CircularBufferDescriptor \<Rightarrow> int" where
  "QueueGetFilledSpace q =
     (let a = int (m_pHead q) - int (m_pTail q)
      in if 0 \<le> a then a else a + int (m_modulo q) + 1)"

definition QueueGetEmptySpace :: "CircularBufferDescriptor \<Rightarrow> int" where
  "QueueGetEmptySpace q =
     (let a = int (m_pTail q) - int (m_pHead q)
      in (if 0 < a then a else a + int (m_modulo q) + 1) - 1)"

text \<open>The copy loops of the post and fetch routines.\<close>

fun circ_write :: "nat \<Rightarrow> (nat \<Rightarrow> WORD) \<Rightarrow> nat \<Rightarrow> WORD list \<Rightarrow> (nat \<Rightarrow> WORD) \<times> nat" where
  "circ_write m mem p [] = (mem, p)"
| "circ_write m mem p (w # ws) = circ_write m (mem(p := w)) (circ_next m p) ws"

fun circ_read :: "nat \<Rightarrow> (nat \<Rightarrow> WORD) \<Rightarrow> nat \<Rightarrow> nat \<Rightarrow> WORD list \<times> nat" where
  "circ_read m mem p 0 = ([], p)"
| "circ_read m mem p (Suc n) =
     (let (ws, p') = circ_read m mem (circ_next m p) n in (mem p # ws, p'))"

text \<open>
  The result of a post is the word the routine returns in A: 0 for success, the message's length
  when there is no room. The message is the list of its words, its first word its length; the
  \<^verbatim>\<open>ccerror\<close> on a zero length is \<open>None\<close>.
\<close>

definition Kernel_AddMessageToQueue ::
  "CircularBufferDescriptor \<Rightarrow> WORD list \<Rightarrow> (nat \<Rightarrow> WORD)
     \<Rightarrow> (int \<times> CircularBufferDescriptor \<times> (nat \<Rightarrow> WORD)) option" where
  "Kernel_AddMessageToQueue q msg mem =
     (if QueueGetEmptySpace q < int (length msg) then Some (int (length msg), q, mem)
      else if msg = [] then None
      else let (mem', h) = circ_write (m_modulo q) mem (m_pHead q) msg
           in Some (0, q\<lparr>m_pHead := h\<rparr>, mem'))"

text \<open>
  \<open>SysGetMessage\<close> returns the message's words (the empty list for EVENT_TIMEOUT, no message
  waiting); its two \<^verbatim>\<open>ccerror\<close> checks, a zero length and a length above the filled space, are
  \<open>None\<close>.
\<close>

definition SysGetMessage ::
  "CircularBufferDescriptor \<Rightarrow> (nat \<Rightarrow> WORD) \<Rightarrow> (WORD list \<times> CircularBufferDescriptor) option" where
  "SysGetMessage q mem =
     (if QueueGetFilledSpace q = 0 then Some ([], q)
      else let len = mem (m_pTail q) in
        if len = 0 then None
        else if QueueGetFilledSpace q < uint len then None
        else let (ws, t) = circ_read (m_modulo q) mem (m_pTail q) (unat len)
             in Some (ws, q\<lparr>m_pTail := t\<rparr>))"

section \<open>Positions in a circular buffer\<close>

definition circ_at :: "nat \<Rightarrow> nat \<Rightarrow> nat \<Rightarrow> nat" where
  "circ_at m B i = B + i mod Suc m"

definition circ_block :: "nat \<Rightarrow> nat \<Rightarrow> bool" where
  "circ_block m B \<longleftrightarrow> B mod circ_align m 1 = 0"

lemma circ_align_gt: "0 < a \<Longrightarrow> m < circ_align m a"
  by (induction m a rule: circ_align.induct) (subst circ_align.simps, auto)

lemma circ_base_at: "circ_block m B \<Longrightarrow> circ_base m (circ_at m B i) = B"
proof -
  assume B: "circ_block m B"
  have "i mod Suc m < circ_align m 1"
    using circ_align_gt [of 1 m] mod_less_divisor [of "Suc m" i] by linarith
  with B have "circ_at m B i mod circ_align m 1 = i mod Suc m"
    by (auto simp: circ_block_def circ_at_def mod_eq_0_iff_dvd)
  then show ?thesis by (simp add: circ_base_def circ_at_def)
qed

lemma circ_next_at: "circ_block m B \<Longrightarrow> circ_next m (circ_at m B i) = circ_at m B (Suc i)"
proof -
  assume "circ_block m B"
  then have "circ_base m (circ_at m B i) = B" by (rule circ_base_at)
  then have "circ_next m (circ_at m B i) = (if circ_at m B i = B + m then B else Suc (circ_at m B i))"
    by (simp only: circ_next_def)
  then show ?thesis
    by (simp add: circ_at_def mod_Suc)
qed

lemma dvd_less_eq_0: "(n::nat) dvd a \<Longrightarrow> a < n \<Longrightarrow> a = 0"
  by (cases "a = 0") (auto dest: dvd_imp_le)

lemma circ_at_inj:
  assumes "circ_at m B (i + j) = circ_at m B (i + k)" and "j \<le> m" and "k \<le> m"
  shows "j = k"
proof -
  have "(i + j) mod Suc m = (i + k) mod Suc m"
    using assms(1) by (simp add: circ_at_def)
  then have "Suc m dvd (i + k) - (i + j)" "Suc m dvd (i + j) - (i + k)"
    by (metis mod_eq_dvd_iff_nat nat_le_linear diff_is_0_eq dvd_0_right)+
  then have "Suc m dvd k - j" "Suc m dvd j - k"
    by simp_all
  moreover have "k - j < Suc m" "j - k < Suc m"
    using assms(2,3) by linarith+
  ultimately have "k - j = 0" "j - k = 0"
    by (simp_all only: dvd_less_eq_0)
  then show ?thesis by simp
qed

lemma circ_read_at:
  "circ_block m B \<Longrightarrow> circ_read m mem (circ_at m B i) n
     = (map (\<lambda>j. mem (circ_at m B (i + j))) [0..<n], circ_at m B (i + n))"
proof (induction n arbitrary: i)
  case 0
  then show ?case by simp
next
  case (Suc n)
  have "map (\<lambda>j. mem (circ_at m B (i + j))) [0..<Suc n]
      = mem (circ_at m B i) # map (\<lambda>j. mem (circ_at m B (Suc i + j))) [0..<n]"
    by (simp only: upt_conv_Cons [of 0 "Suc n"] map_Suc_upt [symmetric] zero_less_Suc)
       (simp add: comp_def)
  with Suc show ?case by (simp add: circ_next_at)
qed

lemma circ_write_pos:
  "circ_block m B \<Longrightarrow> snd (circ_write m mem (circ_at m B i) ws) = circ_at m B (i + length ws)"
  by (induction ws arbitrary: mem i) (auto simp: circ_next_at)

lemma circ_write_other:
  "circ_block m B \<Longrightarrow> (\<And>j. j < length ws \<Longrightarrow> a \<noteq> circ_at m B (i + j))
     \<Longrightarrow> fst (circ_write m mem (circ_at m B i) ws) a = mem a"
proof (induction ws arbitrary: mem i)
  case Nil
  then show ?case by simp
next
  case (Cons w ws)
  have "fst (circ_write m (mem(circ_at m B i := w)) (circ_at m B (Suc i)) ws) a
      = (mem(circ_at m B i := w)) a"
    by (rule Cons.IH [OF Cons.prems(1)]) (use Cons.prems(2) [of "Suc j" for j] in auto)
  also have "\<dots> = mem a"
    using Cons.prems(2) [of 0] by simp
  finally show ?case
    using Cons.prems(1) by (simp add: circ_next_at)
qed

lemma circ_write_in:
  "circ_block m B \<Longrightarrow> length ws \<le> Suc m \<Longrightarrow> j < length ws
     \<Longrightarrow> fst (circ_write m mem (circ_at m B i) ws) (circ_at m B (i + j)) = ws ! j"
proof (induction ws arbitrary: mem i j)
  case Nil
  then show ?case by simp
next
  case (Cons w ws)
  show ?case
  proof (cases j)
    case 0
    have "circ_at m B i \<noteq> circ_at m B (Suc i + k)" if "k < length ws" for k
      using circ_at_inj [of m B i 0 "Suc k"] Cons.prems(2) that by auto
    then have "fst (circ_write m (mem(circ_at m B i := w)) (circ_at m B (Suc i)) ws) (circ_at m B i) = w"
      by (subst circ_write_other [OF Cons.prems(1)]) auto
    with 0 Cons.prems(1) show ?thesis by (simp add: circ_next_at)
  next
    case (Suc k)
    have "fst (circ_write m (mem(circ_at m B i := w)) (circ_at m B (Suc i)) ws)
        (circ_at m B (Suc i + k)) = ws ! k"
      by (rule Cons.IH) (use Cons.prems Suc in auto)
    with Suc Cons.prems(1) show ?thesis by (simp add: circ_next_at)
  qed
qed

section \<open>A queue is a list of words\<close>

text \<open>
  \<open>queue_rep q B t f\<close>: the buffer's block starts at \<open>B\<close>, the tail is at offset \<open>t\<close> and \<open>f\<close> words
  are filled. One word of the block always stays free.
\<close>

definition queue_rep :: "CircularBufferDescriptor \<Rightarrow> nat \<Rightarrow> nat \<Rightarrow> nat \<Rightarrow> bool" where
  "queue_rep q B t f \<longleftrightarrow> circ_block (m_modulo q) B \<and> f \<le> m_modulo q
     \<and> m_pTail q = circ_at (m_modulo q) B t \<and> m_pHead q = circ_at (m_modulo q) B (t + f)"

definition wf_queue :: "CircularBufferDescriptor \<Rightarrow> bool" where
  "wf_queue q \<longleftrightarrow> circ_base (m_modulo q) (m_pHead q) = circ_base (m_modulo q) (m_pTail q)
     \<and> m_pHead q \<le> circ_base (m_modulo q) (m_pHead q) + m_modulo q
     \<and> m_pTail q \<le> circ_base (m_modulo q) (m_pTail q) + m_modulo q"

definition queue_words :: "CircularBufferDescriptor \<Rightarrow> (nat \<Rightarrow> WORD) \<Rightarrow> WORD list" where
  "queue_words q mem = fst (circ_read (m_modulo q) mem (m_pTail q) (nat (QueueGetFilledSpace q)))"

lemma circ_at_diff:
  "f \<le> m \<Longrightarrow> int (circ_at m B (t + f)) - int (circ_at m B t)
     = (if t mod Suc m + f \<le> m then int f else int f - int (Suc m))"
proof -
  assume f: "f \<le> m"
  have "(t + f) mod Suc m = (t mod Suc m + f) mod Suc m"
    by (simp add: mod_add_left_eq)
  also have "\<dots> = (if t mod Suc m + f \<le> m then t mod Suc m + f else t mod Suc m + f - Suc m)"
  proof (cases "t mod Suc m + f \<le> m")
    case False
    moreover have "t mod Suc m + f - Suc m < Suc m"
      using f mod_less_divisor [of "Suc m" t] by linarith
    ultimately show ?thesis
      using False le_mod_geq [of "Suc m" "t mod Suc m + f"] by simp
  qed simp
  finally show ?thesis
    by (auto simp: circ_at_def)
qed

lemma queue_rep_filled: "queue_rep q B t f \<Longrightarrow> QueueGetFilledSpace q = int f"
  using circ_at_diff [of f "m_modulo q" B t]
  by (auto simp: queue_rep_def QueueGetFilledSpace_def Let_def split: if_splits)

lemma queue_rep_empty: "queue_rep q B t f \<Longrightarrow> QueueGetEmptySpace q = int (m_modulo q) - int f"
  using circ_at_diff [of f "m_modulo q" B t]
  by (auto simp: queue_rep_def QueueGetEmptySpace_def Let_def split: if_splits)

lemma queue_rep_words:
  "queue_rep q B t f
     \<Longrightarrow> queue_words q mem = map (\<lambda>j. mem (circ_at (m_modulo q) B (t + j))) [0..<f]"
  by (simp add: queue_words_def queue_rep_filled) (simp add: queue_rep_def circ_read_at)

lemma wf_queue_rep: "wf_queue q \<longleftrightarrow> (\<exists>B t f. queue_rep q B t f)"
proof
  assume "wf_queue q"
  define m B where "m = m_modulo q" and "B = circ_base m (m_pHead q)"
  have blk: "circ_block m B"
    by (simp add: B_def circ_base_def circ_block_def minus_mod_eq_mult_div)
  have le: "B \<le> m_pHead q" "B \<le> m_pTail q" "m_pHead q \<le> B + m" "m_pTail q \<le> B + m"
    using \<open>wf_queue q\<close> by (auto simp: wf_queue_def B_def m_def) (simp_all add: circ_base_def)
  define h t where "h = m_pHead q - B" and "t = m_pTail q - B"
  have ht: "h \<le> m" "t \<le> m" "m_pHead q = B + h" "m_pTail q = B + t"
    using le by (auto simp: h_def t_def)
  define f where "f = (if t \<le> h then h - t else h + Suc m - t)"
  have "(h + Suc m) mod Suc m = h"
    using ht(1) by (subst mod_add_self2) simp
  then have "(t + f) mod Suc m = h" "f \<le> m"
    using ht(1,2) by (auto simp: f_def)
  then have "queue_rep q B t f"
    using blk ht by (simp add: queue_rep_def m_def [symmetric] circ_at_def)
  then show "\<exists>B t f. queue_rep q B t f" by blast
next
  assume "\<exists>B t f. queue_rep q B t f"
  then show "wf_queue q"
    by (auto simp: queue_rep_def wf_queue_def circ_base_at) (auto simp: circ_at_def mod_Suc_le_divisor)
qed

section \<open>Posting and fetching\<close>

lemma queue_rep_head_update:
  "queue_rep q B t f \<Longrightarrow> f + n \<le> m_modulo q
     \<Longrightarrow> queue_rep (q\<lparr>m_pHead := circ_at (m_modulo q) B (t + f + n)\<rparr>) B t (f + n)"
  by (simp add: queue_rep_def add.assoc)

lemma queue_rep_tail_update:
  "queue_rep q B t f \<Longrightarrow> n \<le> f
     \<Longrightarrow> queue_rep (q\<lparr>m_pTail := circ_at (m_modulo q) B (t + n)\<rparr>) B (t + n) (f - n)"
  by (auto simp: queue_rep_def)

lemma post_words:
  assumes rep: "queue_rep q B t f" and room: "f + length msg \<le> m_modulo q"
    and w: "circ_write (m_modulo q) mem (m_pHead q) msg = (mem', h)"
  shows "queue_rep (q\<lparr>m_pHead := h\<rparr>) B t (f + length msg)"
    and "queue_words (q\<lparr>m_pHead := h\<rparr>) mem' = queue_words q mem @ msg"
proof -
  let ?m = "m_modulo q" and ?at = "circ_at (m_modulo q) B"
  have blk: "circ_block ?m B" and hd: "m_pHead q = ?at (t + f)"
    using rep by (auto simp: queue_rep_def)
  have h: "h = ?at (t + f + length msg)"
    using circ_write_pos [OF blk, of mem "t + f" msg] w hd by simp
  show rep': "queue_rep (q\<lparr>m_pHead := h\<rparr>) B t (f + length msg)"
    using queue_rep_head_update [OF rep room] h by simp
  have old: "mem' (?at (t + j)) = mem (?at (t + j))" if "j < f" for j
  proof -
    have "?at (t + j) \<noteq> ?at (t + f + i)" if "i < length msg" for i
      using circ_at_inj [of ?m B t j "f + i"] \<open>j < f\<close> room that by (auto simp: add.assoc)
    then have "fst (circ_write ?m mem (?at (t + f)) msg) (?at (t + j)) = mem (?at (t + j))"
      by (intro circ_write_other [OF blk]) simp
    then show ?thesis using w hd by simp
  qed
  have new: "mem' (?at (t + (f + i))) = msg ! i" if "i < length msg" for i
    using circ_write_in [OF blk _ that, of mem "t + f"] room w hd by (simp add: add.assoc)
  have new': "mem' (?at (t + i)) = msg ! (i - f)" if "f \<le> i" "i < f + length msg" for i
    using new [of "i - f"] that by simp
  show "queue_words (q\<lparr>m_pHead := h\<rparr>) mem' = queue_words q mem @ msg"
    using old new'
    by (intro nth_equalityI) (auto simp: queue_rep_words [OF rep] queue_rep_words [OF rep'] nth_append)
qed

lemma fetch_words:
  assumes rep: "queue_rep q B t f" and n: "n \<le> f"
    and r: "circ_read (m_modulo q) mem (m_pTail q) n = (ws, p)"
  shows "ws = take n (queue_words q mem)"
    and "queue_words (q\<lparr>m_pTail := p\<rparr>) mem = drop n (queue_words q mem)"
    and "queue_rep (q\<lparr>m_pTail := p\<rparr>) B (t + n) (f - n)"
proof -
  have blk: "circ_block (m_modulo q) B" and tl: "m_pTail q = circ_at (m_modulo q) B t"
    using rep by (auto simp: queue_rep_def)
  have p: "p = circ_at (m_modulo q) B (t + n)"
    and ws: "ws = map (\<lambda>j. mem (circ_at (m_modulo q) B (t + j))) [0..<n]"
    using r by (simp_all add: tl circ_read_at [OF blk])
  show rep': "queue_rep (q\<lparr>m_pTail := p\<rparr>) B (t + n) (f - n)"
    using queue_rep_tail_update [OF rep n] p by simp
  show "ws = take n (queue_words q mem)"
    using n by (simp add: ws queue_rep_words [OF rep] take_map)
  show "queue_words (q\<lparr>m_pTail := p\<rparr>) mem = drop n (queue_words q mem)"
    using n by (intro nth_equalityI)
      (auto simp: queue_rep_words [OF rep] queue_rep_words [OF rep'] add.assoc)
qed

text \<open>The three outcomes of a post.\<close>

lemma AddMessage_full:
  "QueueGetEmptySpace q < int (length msg)
     \<Longrightarrow> Kernel_AddMessageToQueue q msg mem = Some (int (length msg), q, mem)"
  by (simp add: Kernel_AddMessageToQueue_def)

lemma AddMessage_room:
  assumes "wf_queue q" and "msg \<noteq> []" and "int (length msg) \<le> QueueGetEmptySpace q"
  obtains q' mem' where "Kernel_AddMessageToQueue q msg mem = Some (0, q', mem')"
    and "wf_queue q'" and "m_modulo q' = m_modulo q"
    and "queue_words q' mem' = queue_words q mem @ msg"
proof -
  obtain B t f where rep: "queue_rep q B t f"
    using assms(1) by (auto simp: wf_queue_rep)
  obtain mem' h where w: "circ_write (m_modulo q) mem (m_pHead q) msg = (mem', h)"
    by fastforce
  have room: "f + length msg \<le> m_modulo q"
    using assms(3) queue_rep_empty [OF rep] by linarith
  have "Kernel_AddMessageToQueue q msg mem = Some (0, q\<lparr>m_pHead := h\<rparr>, mem')"
    using assms(2,3) w by (simp add: Kernel_AddMessageToQueue_def)
  moreover have "wf_queue (q\<lparr>m_pHead := h\<rparr>)"
    using post_words(1) [OF rep room w] by (auto simp: wf_queue_rep)
  ultimately show thesis
    using that post_words(2) [OF rep room w] by simp
qed

lemma queue_words_length: "wf_queue q \<Longrightarrow> int (length (queue_words q mem)) = QueueGetFilledSpace q"
  by (auto simp: wf_queue_rep queue_rep_words queue_rep_filled)

lemma queue_space_sum: "wf_queue q \<Longrightarrow> QueueGetFilledSpace q + QueueGetEmptySpace q = int (m_modulo q)"
  by (auto simp: wf_queue_rep queue_rep_filled queue_rep_empty)

lemma SysGetMessage_modulo: "SysGetMessage q mem = Some (msg, q') \<Longrightarrow> m_modulo q' = m_modulo q"
  by (auto simp: SysGetMessage_def Let_def split: if_splits prod.splits)

lemma SysGetMessage_first:
  assumes wf: "wf_queue q" and words: "queue_words q mem = msg @ rest"
    and len: "msg \<noteq> []" "hd msg = word_of_nat (length msg)" "length msg < 2 ^ 24"
  obtains q' where "SysGetMessage q mem = Some (msg, q')" and "wf_queue q'"
    and "queue_words q' mem = rest"
proof -
  obtain B t f where rep: "queue_rep q B t f"
    using wf by (auto simp: wf_queue_rep)
  have f: "f = length msg + length rest"
    using queue_rep_words [OF rep, of mem] words by (metis length_append length_map length_upt diff_zero)
  have "mem (m_pTail q) = hd (queue_words q mem)"
    using f len(1) by (simp add: queue_rep_words [OF rep] hd_map upt_conv_Cons) (use rep in \<open>simp add: queue_rep_def\<close>)
  then have hd: "mem (m_pTail q) = word_of_nat (length msg)"
    using words len by simp
  have un: "unat (word_of_nat (length msg) :: WORD) = length msg"
    using len(3) by (simp add: unat_of_nat)
  then have nz: "(word_of_nat (length msg) :: WORD) \<noteq> 0"
    using len(1) by (metis length_0_conv unat_0)
  obtain ws p where r: "circ_read (m_modulo q) mem (m_pTail q) (length msg) = (ws, p)"
    by fastforce
  have pos: "\<not> int (length msg) + int (length rest) = 0"
    using len(1) by (cases msg) auto
  note fw = fetch_words [OF rep _ r]
  have "SysGetMessage q mem = Some (ws, q\<lparr>m_pTail := p\<rparr>)"
    using f len(1) r nz un pos
    by (simp add: SysGetMessage_def queue_rep_filled [OF rep] hd uint_nat del: uint_word_of_int_eq)
  moreover have "wf_queue (q\<lparr>m_pTail := p\<rparr>)"
    using fw(3) f by (auto simp: wf_queue_rep)
  ultimately show thesis
    using that fw(1,2) f words by simp
qed

section \<open>The interface the kernel's clients use\<close>

text \<open>
  A message queue as its posting and waiting tasks see it: a state with an invariant, the words it
  holds, its capacity, a post and a fetch. A message is well formed when its first word is its
  length.
\<close>

definition wf_message :: "WORD list \<Rightarrow> bool" where
  "wf_message msg \<longleftrightarrow> msg \<noteq> [] \<and> length msg < 2 ^ 24 \<and> hd msg = word_of_nat (length msg)"

datatype queue_op = Post "WORD list" | Fetch

text \<open>What each operation gives its caller: the post's return value or the fetched message.\<close>

datatype queue_result = Posted int | Fetched "WORD list"

text \<open>The contract: a list of messages and a capacity in words.\<close>

fun fifo_step :: "nat \<Rightarrow> queue_op \<Rightarrow> WORD list list \<Rightarrow> queue_result \<times> WORD list list" where
  "fifo_step cap (Post msg) ms =
     (if length (concat ms) + length msg \<le> cap then (Posted 0, ms @ [msg])
      else (Posted (int (length msg)), ms))"
| "fifo_step cap Fetch [] = (Fetched [], [])"
| "fifo_step cap Fetch (m # ms) = (Fetched m, ms)"

fun fifo_run :: "nat \<Rightarrow> queue_op list \<Rightarrow> WORD list list \<Rightarrow> queue_result list \<times> WORD list list" where
  "fifo_run cap [] ms = ([], ms)"
| "fifo_run cap (c # cs) ms =
     (let (r, ms') = fifo_step cap c ms; (rs, ms'') = fifo_run cap cs ms' in (r # rs, ms''))"

fun queue_run :: "(WORD list \<Rightarrow> 's \<Rightarrow> (int \<times> 's) option) \<Rightarrow> ('s \<Rightarrow> (WORD list \<times> 's) option)
    \<Rightarrow> queue_op list \<Rightarrow> 's \<Rightarrow> (queue_result list \<times> 's) option" where
  "queue_run post fetch [] s = Some ([], s)"
| "queue_run post fetch (Post msg # cs) s =
     do { (r, s') \<leftarrow> post msg s; (rs, s'') \<leftarrow> queue_run post fetch cs s'; Some (Posted r # rs, s'') }"
| "queue_run post fetch (Fetch # cs) s =
     do { (m, s') \<leftarrow> fetch s; (rs, s'') \<leftarrow> queue_run post fetch cs s'; Some (Fetched m # rs, s'') }"

locale message_queue =
  fixes inv :: "'s \<Rightarrow> bool" and content :: "'s \<Rightarrow> WORD list" and cap :: "'s \<Rightarrow> nat"
    and post :: "WORD list \<Rightarrow> 's \<Rightarrow> (int \<times> 's) option"
    and fetch :: "'s \<Rightarrow> (WORD list \<times> 's) option"
  assumes post_room: "inv s \<Longrightarrow> msg \<noteq> [] \<Longrightarrow> length (content s) + length msg \<le> cap s
      \<Longrightarrow> \<exists>s'. post msg s = Some (0, s') \<and> inv s' \<and> cap s' = cap s \<and> content s' = content s @ msg"
    and post_full: "inv s \<Longrightarrow> cap s < length (content s) + length msg
      \<Longrightarrow> post msg s = Some (int (length msg), s)"
    and fetch_first: "inv s \<Longrightarrow> wf_message msg \<Longrightarrow> content s = msg @ rest
      \<Longrightarrow> \<exists>s'. fetch s = Some (msg, s') \<and> inv s' \<and> cap s' = cap s \<and> content s' = rest"
    and fetch_none: "inv s \<Longrightarrow> content s = [] \<Longrightarrow> fetch s = Some ([], s)"
begin

definition holds :: "WORD list list \<Rightarrow> 's \<Rightarrow> bool" where
  "holds ms s \<longleftrightarrow> inv s \<and> content s = concat ms \<and> (\<forall>m\<in>set ms. wf_message m)"

lemma post_step:
  assumes "holds ms s" and "wf_message msg"
  shows "\<exists>r s'. post msg s = Some (r, s') \<and> cap s' = cap s
    \<and> fifo_step (cap s) (Post msg) ms = (Posted r, snd (fifo_step (cap s) (Post msg) ms))
    \<and> holds (snd (fifo_step (cap s) (Post msg) ms)) s'"
proof (cases "length (content s) + length msg \<le> cap s")
  case True
  then show ?thesis
    using assms post_room [of s msg] by (fastforce simp: holds_def wf_message_def)
next
  case False
  then show ?thesis
    using assms post_full [of s msg] by (auto simp: holds_def)
qed

lemma fetch_step:
  assumes "holds ms s"
  shows "\<exists>m s'. fetch s = Some (m, s') \<and> cap s' = cap s
    \<and> fifo_step (cap s) Fetch ms = (Fetched m, snd (fifo_step (cap s) Fetch ms))
    \<and> holds (snd (fifo_step (cap s) Fetch ms)) s'"
proof (cases ms)
  case Nil
  then show ?thesis using assms fetch_none [of s] by (simp add: holds_def)
next
  case (Cons m ms')
  then show ?thesis using assms fetch_first [of s m "concat ms'"] by (auto simp: holds_def)
qed

lemma run_refines:
  assumes "holds ms s" and "\<forall>msg. Post msg \<in> set cs \<longrightarrow> wf_message msg"
  shows "\<exists>s'. queue_run post fetch cs s = Some (fst (fifo_run (cap s) cs ms), s')
    \<and> holds (snd (fifo_run (cap s) cs ms)) s'"
  using assms
proof (induction cs arbitrary: s ms)
  case Nil
  then show ?case by simp
next
  case (Cons c cs)
  show ?case
  proof (cases c)
    case (Post msg)
    then obtain r s' where "post msg s = Some (r, s')" "cap s' = cap s"
      "fifo_step (cap s) c ms = (Posted r, snd (fifo_step (cap s) c ms))"
      "holds (snd (fifo_step (cap s) c ms)) s'"
      using post_step [OF Cons.prems(1), of msg] Cons.prems(2) by auto
    then show ?thesis
      using Cons.IH [of "snd (fifo_step (cap s) c ms)" s'] Cons.prems(2) Post
      by (cases "fifo_step (cap s) c ms") (auto split: prod.splits)
  next
    case Fetch
    then obtain m s' where "fetch s = Some (m, s')" "cap s' = cap s"
      "fifo_step (cap s) c ms = (Fetched m, snd (fifo_step (cap s) c ms))"
      "holds (snd (fifo_step (cap s) c ms)) s'"
      using fetch_step [OF Cons.prems(1)] by auto
    then show ?thesis
      using Cons.IH [of "snd (fifo_step (cap s) c ms)" s'] Cons.prems(2) Fetch
      by (cases "fifo_step (cap s) c ms") (auto split: prod.splits)
  qed
qed

end

text \<open>The model's queue with its memory.\<close>

definition post_op where
  "post_op msg s = (case Kernel_AddMessageToQueue (fst s) msg (snd s) of
     None \<Rightarrow> None | Some (r, q, mem) \<Rightarrow> Some (r, (q, mem)))"

definition fetch_op where
  "fetch_op s = (case SysGetMessage (fst s) (snd s) of
     None \<Rightarrow> None | Some (m, q) \<Rightarrow> Some (m, (q, snd s)))"

interpretation mq: message_queue "\<lambda>s. wf_queue (fst s)" "\<lambda>s. queue_words (fst s) (snd s)"
    "\<lambda>s. m_modulo (fst s)" post_op fetch_op
proof (unfold_locales, goal_cases)
  case (1 s msg)
  then have le: "int (length msg) \<le> QueueGetEmptySpace (fst s)"
    using queue_words_length [of "fst s" "snd s"] queue_space_sum [of "fst s"] by linarith
  obtain q' mem' where "Kernel_AddMessageToQueue (fst s) msg (snd s) = Some (0, q', mem')"
    "wf_queue q'" "m_modulo q' = m_modulo (fst s)"
    "queue_words q' mem' = queue_words (fst s) (snd s) @ msg"
    by (rule AddMessage_room [OF 1(1,2) le])
  then show ?case by (simp add: post_op_def)
next
  case (2 s msg)
  then have "QueueGetEmptySpace (fst s) < int (length msg)"
    using queue_words_length [of "fst s" "snd s"] queue_space_sum [of "fst s"] by linarith
  then show ?case by (simp add: post_op_def AddMessage_full)
next
  case (3 s msg rest)
  then show ?case
    using SysGetMessage_first [of "fst s" "snd s" msg rest] SysGetMessage_modulo
    by (fastforce simp: fetch_op_def wf_message_def)
next
  case (4 s)
  then have "QueueGetFilledSpace (fst s) = 0"
    using queue_words_length [of "fst s" "snd s"] by simp
  then show ?case by (simp add: fetch_op_def SysGetMessage_def)
qed

section \<open>Properties\<close>

text \<open>
  C6. Any interleaving of posts of well-formed messages and fetches on a kernel message queue gives
  its callers exactly the results of a bounded first-in first-out list of messages: a post that
  does not fit returns the message's length and changes nothing, every other post returns 0, and a
  fetch returns the oldest message in full, or the empty list (EVENT_TIMEOUT) when none waits. No
  \<^verbatim>\<open>ccerror\<close> is ever reached.
\<close>

theorem message_queue_refines_fifo:
  assumes "wf_queue q" and "queue_words q mem = concat ms" and "\<forall>m\<in>set ms. wf_message m"
    and "\<forall>msg. Post msg \<in> set cs \<longrightarrow> wf_message msg"
  shows "\<exists>q' mem'. queue_run post_op fetch_op cs (q, mem)
      = Some (fst (fifo_run (m_modulo q) cs ms), (q', mem'))
    \<and> wf_queue q' \<and> queue_words q' mem' = concat (snd (fifo_run (m_modulo q) cs ms))"
  using mq.run_refines [of ms "(q, mem)" cs] assms by (auto simp: mq.holds_def)

theorem message_queue_refines_fifo_witness:
  "\<exists>q' mem'. queue_run post_op fetch_op [Post [2, 7], Post [3, 1, 1], Fetch, Post [3, 1, 1], Fetch, Fetch, Fetch]
      (\<lparr>m_pHead = 19, m_modulo = 4, m_pTail = 19\<rparr>, \<lambda>_. 0)
    = Some ([Posted 0, Posted 3, Fetched [2, 7], Posted 0, Fetched [3, 1, 1], Fetched [], Fetched []], (q', mem'))
    \<and> wf_queue q' \<and> queue_words q' mem' = []"
proof -
  let ?q = "\<lparr>m_pHead = 19, m_modulo = 4, m_pTail = 19\<rparr>"
  have a: "circ_align 4 1 = 8"
    by (simp add: circ_align.simps)
  have "wf_queue ?q" "queue_words ?q (\<lambda>_. 0) = concat []"
    using a by (simp_all add: wf_queue_def circ_base_def queue_words_def QueueGetFilledSpace_def)
  moreover have "\<forall>msg. Post msg \<in> set [Post [2, 7], Post [3, 1, 1], Fetch, Post [3, 1, 1], Fetch, Fetch, Fetch]
      \<longrightarrow> wf_message msg"
    by (auto simp: wf_message_def)
  ultimately show ?thesis
    using message_queue_refines_fifo [of ?q "\<lambda>_. 0" "[]"
        "[Post [2, 7], Post [3, 1, 1], Fetch, Post [3, 1, 1], Fetch, Fetch, Fetch]"]
    by simp
qed

text \<open>
  A post keeps the space accounting of a well-formed queue exact: afterwards the queue is well
  formed, the filled and the empty space the assembler routines compute are non-negative and add up
  to the modulo register, and the filled space has grown by the length of an accepted message
  (return value 0) or not at all.
\<close>

theorem AddMessage_space:
  assumes "wf_queue q" and "Kernel_AddMessageToQueue q msg mem = Some (r, q', mem')"
  shows "wf_queue q' \<and> 0 \<le> QueueGetFilledSpace q' \<and> 0 \<le> QueueGetEmptySpace q'
    \<and> QueueGetFilledSpace q' + QueueGetEmptySpace q' = int (m_modulo q)
    \<and> QueueGetFilledSpace q' = QueueGetFilledSpace q + (if r = 0 then int (length msg) else 0)"
proof (cases "QueueGetEmptySpace q < int (length msg)")
  case True
  then have "r = int (length msg)" "q' = q"
    using assms(2) AddMessage_full [of q msg mem] by simp_all
  moreover have "0 \<le> QueueGetEmptySpace q" "0 \<le> QueueGetFilledSpace q"
    using assms(1) by (auto simp: wf_queue_rep queue_rep_def queue_rep_empty queue_rep_filled)
  ultimately show ?thesis
    using assms(1) queue_space_sum [of q] by auto
next
  case False
  then have ne: "msg \<noteq> []" using assms(2) by (auto simp: Kernel_AddMessageToQueue_def)
  then obtain p mem'' where p: "Kernel_AddMessageToQueue q msg mem = Some (0, p, mem'')"
    "wf_queue p" "m_modulo p = m_modulo q" "queue_words p mem'' = queue_words q mem @ msg"
    using False assms(1) by (auto elim: AddMessage_room [of q msg mem])
  then have eq: "r = 0" "q' = p" using assms(2) by simp_all
  have fill: "QueueGetFilledSpace p = QueueGetFilledSpace q + int (length msg)"
    using p queue_words_length [of p mem''] queue_words_length [OF assms(1), of mem] by simp
  have "0 \<le> QueueGetFilledSpace q"
    using queue_words_length [OF assms(1), of mem] by simp
  then show ?thesis
    using eq fill p False queue_space_sum [of p] queue_space_sum [OF assms(1)] by simp
qed

theorem AddMessage_space_witness:
  "\<exists>r q' mem'. Kernel_AddMessageToQueue \<lparr>m_pHead = 2, m_modulo = 4, m_pTail = 3\<rparr> [2, 7] (\<lambda>_. 0)
      = Some (r, q', mem') \<and> r = 2 \<and> QueueGetFilledSpace q' + QueueGetEmptySpace q' = 4"
proof -
  have "wf_queue \<lparr>m_pHead = 2, m_modulo = 4, m_pTail = 3\<rparr>"
    by (simp add: wf_queue_def circ_base_def circ_align.simps)
  moreover have "Kernel_AddMessageToQueue \<lparr>m_pHead = 2, m_modulo = 4, m_pTail = 3\<rparr> [2, 7] (\<lambda>_. 0)
      = Some (2, \<lparr>m_pHead = 2, m_modulo = 4, m_pTail = 3\<rparr>, \<lambda>_. 0)"
    by (simp add: Kernel_AddMessageToQueue_def QueueGetEmptySpace_def)
  ultimately show ?thesis
    using AddMessage_space [of "\<lparr>m_pHead = 2, m_modulo = 4, m_pTail = 3\<rparr>" "[2, 7]" "\<lambda>_. 0"] by simp
qed

end
