(* ===== verification/Kernel.thy ===== *)
theory Kernel imports MsgQueue begin

text \<open>
  The cooperative kernel of \<^verbatim>\<open>System/kernel\<close>: task entries, synchronisation objects, the readiness
  test, the choice of the next task with its round-robin step, the waiting and releasing calls and
  the start-up of the task stacks. \<^verbatim>\<open>assert\<close> halts the player: a failed assertion is \<open>None\<close>.

  \<^verbatim>\<open>Kernel_GetNextTask\<close> is the same text in \<^verbatim>\<open>kernel_getnexttask.c\<close> and \<^verbatim>\<open>overlay_getnexttask.c\<close>, linked
  with one of two versions of \<^verbatim>\<open>Kernel_IsTaskReady\<close>; the model takes the readiness test as an argument
  and the locale \<open>task_poll\<close> states what the choice needs of it.
\<close>

section \<open>State\<close>

record TaskEntry =
  m_pMessageQueue :: WORD
  m_pWaitingOnPtr :: WORD
  m_wWaitingOnWord :: WORD
  m_wState :: WORD
  m_pStackPointer :: WORD
  m_wTaskID :: int
  m_lTimeout :: int
  m_wRegionResources :: "WORD list"
  m_wPriority :: WORD
  m_wStackSize :: int
  m_pEntryPoint :: WORD

record MemoryRegion =
  m_wResourceLoaded :: WORD
  m_StartAddress :: int
  m_EndAddress :: int

text \<open>
  Pointers are words; the objects they point to are reached through the maps \<open>tasks\<close> and \<open>queues\<close>
  and, for synchronisation objects, signal groups, stacks and message words, through Y memory. The
  NULL-terminated tables are lists without the terminator; \<open>g_RegionTable\<close> holds the regions
  themselves.
\<close>

record kernel =
  tasks :: "WORD \<Rightarrow> TaskEntry"
  queues :: "WORD \<Rightarrow> CircularBufferDescriptor"
  ymem :: "WORD \<Rightarrow> WORD"
  pmem :: "int \<Rightarrow> WORD"
  g_TaskList :: "WORD list"
  g_RegionTable :: "MemoryRegion list"
  g_RoutingTable :: "(WORD \<times> WORD) list"
  g_pCurrentTask :: WORD
  Kernel_pTempStack :: WORD
  g_lTimerTick :: int
  g_wCapCheckCounter :: int
  g_pTaskToLoad :: WORD
  glb_iLoadCount :: int

definition EVENT_TIMEOUT :: WORD where "EVENT_TIMEOUT = 0"
definition EVENT_MESSAGE :: WORD where "EVENT_MESSAGE = 1"
definition EVENT_OBJECT :: WORD where "EVENT_OBJECT = 2"
definition EVENT_QUEUE :: WORD where "EVENT_QUEUE = 4"
definition EVENT_SIGNAL :: WORD where "EVENT_SIGNAL = 5"
definition EVENT_RELEASING_OBJECT2 :: WORD where "EVENT_RELEASING_OBJECT2 = 6"
definition EVENT_RELEASING_OBJECT1 :: WORD where "EVENT_RELEASING_OBJECT1 = 7"
definition ISR_OWNER :: WORD where "ISR_OWNER = 0xffff"
definition KERNEL_OWNER :: WORD where "KERNEL_OWNER = 0"

lemmas event_defs = EVENT_TIMEOUT_def EVENT_MESSAGE_def EVENT_OBJECT_def EVENT_QUEUE_def
  EVENT_SIGNAL_def EVENT_RELEASING_OBJECT2_def EVENT_RELEASING_OBJECT1_def

abbreviation upd_task :: "WORD \<Rightarrow> (TaskEntry \<Rightarrow> TaskEntry) \<Rightarrow> kernel \<Rightarrow> kernel" where
  "upd_task t f k \<equiv> k\<lparr>tasks := (tasks k)(t := f (tasks k t))\<rparr>"

section \<open>The readiness test\<close>

definition GetTime :: "kernel \<Rightarrow> int" where
  "GetTime k = g_lTimerTick k"

definition Kernel_IsMessageAvailable :: "kernel \<Rightarrow> WORD \<Rightarrow> int" where
  "Kernel_IsMessageAvailable k t = QueueGetFilledSpace (queues k (m_pMessageQueue (tasks k t)))"

text \<open>The \<^verbatim>\<open>switch\<close> arms that only compute \<^verbatim>\<open>rtn\<close>, common to both versions.\<close>

definition waiting_done :: "kernel \<Rightarrow> WORD \<Rightarrow> bool option" where
  "waiting_done k t =
     (let e = tasks k t in
      if m_wState e = EVENT_OBJECT then
        (if m_pWaitingOnPtr e = 0 then None
         else let tmp = ymem k (m_pWaitingOnPtr e) in Some (tmp = 0 \<or> t = tmp))
      else if m_wState e = EVENT_MESSAGE then Some (Kernel_IsMessageAvailable k t \<noteq> 0)
      else if m_wState e = EVENT_QUEUE then
        (if m_pWaitingOnPtr e = 0 then None
         else Some (uint (m_wWaitingOnWord e) < QueueGetEmptySpace (queues k (m_pWaitingOnPtr e))))
      else Some False)"

definition Kernel_IsTaskReady :: "WORD \<Rightarrow> kernel \<Rightarrow> (bool \<times> kernel) option" where
  "Kernel_IsTaskReady t k =
     (if m_lTimeout (tasks k t) \<le> GetTime k then Some (True, k)
      else if m_wState (tasks k t) = EVENT_RELEASING_OBJECT1
           \<or> m_wState (tasks k t) = EVENT_RELEASING_OBJECT2
      then Some (False, upd_task t (m_wState_update (\<lambda>_. EVENT_TIMEOUT)) k)
      else do { r \<leftarrow> waiting_done k t; Some (r, k) })"

section \<open>Choosing the next task\<close>

text \<open>The first loop returns the index of the first ready task, if any.\<close>

fun find_ready :: "(WORD \<Rightarrow> 'k \<Rightarrow> (bool \<times> 'k) option) \<Rightarrow> WORD list \<Rightarrow> 'k \<Rightarrow> (nat option \<times> 'k) option" where
  "find_ready poll [] k = Some (None, k)"
| "find_ready poll (t # ts) k =
     do { (r, k') \<leftarrow> poll t k;
          if r then Some (Some 0, k')
          else do { (i, k'') \<leftarrow> find_ready poll ts k'; Some (map_option Suc i, k'') } }"

text \<open>The second loop moves entry \<open>i\<close> behind the following entries of no lower priority.\<close>

function sink_task :: "(WORD \<Rightarrow> WORD) \<Rightarrow> WORD list \<Rightarrow> nat \<Rightarrow> WORD list" where
  "sink_task prio xs i =
     (if Suc i < length xs \<and> prio (xs ! i) \<le> prio (xs ! Suc i)
      then sink_task prio (xs[i := xs ! Suc i, Suc i := xs ! i]) (Suc i) else xs)"
  by pat_completeness auto
termination
  by (relation "measure (\<lambda>(p, xs, i). length xs - i)") auto

declare sink_task.simps [simp del]

definition task_prio :: "kernel \<Rightarrow> WORD \<Rightarrow> WORD" where
  "task_prio k t = m_wPriority (tasks k t)"

definition Kernel_GetNextTask ::
  "(WORD \<Rightarrow> kernel \<Rightarrow> (bool \<times> kernel) option) \<Rightarrow> kernel \<Rightarrow> (WORD \<times> kernel) option" where
  "Kernel_GetNextTask poll k =
     do { (i, k') \<leftarrow> find_ready poll (g_TaskList k) k;
          case i of
            None \<Rightarrow> Some (0, k')
          | Some n \<Rightarrow> Some (g_TaskList k' ! n,
              k'\<lparr>g_TaskList := sink_task (task_prio k') (g_TaskList k') n\<rparr>) }"

section \<open>Calls made by tasks\<close>

definition Kernel_SetTimeout :: "int \<Rightarrow> kernel \<Rightarrow> kernel" where
  "Kernel_SetTimeout wTimeout k =
     (if g_pCurrentTask k \<noteq> KERNEL_OWNER then
        (let lValue = if wTimeout < 0 then 0x7fffffffffff else long48 (GetTime k + wTimeout)
         in upd_task (g_pCurrentTask k) (m_lTimeout_update (\<lambda>_. lValue)) k)
      else k)"

text \<open>
  A call that gives up the processor runs \<^verbatim>\<open>Kernel_ContextSwitch\<close>: \<open>switch\<close> is what the kernel and the
  other tasks do before this task runs again.
\<close>

definition SysWait :: "(kernel \<Rightarrow> kernel) \<Rightarrow> int \<Rightarrow> kernel \<Rightarrow> (WORD \<times> kernel) option" where
  "SysWait switch wTimeout k =
     (if g_pCurrentTask k = KERNEL_OWNER then None
      else let k1 = upd_task (g_pCurrentTask k) (m_wState_update (\<lambda>_. EVENT_TIMEOUT)) k
           in Some (EVENT_TIMEOUT, switch (Kernel_SetTimeout wTimeout k1)))"

text \<open>The fields \<^verbatim>\<open>counter.m_iOwner\<close> (16 bits) and \<^verbatim>\<open>counter.m_iCount\<close> (8 bits) of a SyncObject word.\<close>

definition m_iOwner :: "WORD \<Rightarrow> WORD" where "m_iOwner w = w AND 0xffff"
definition m_iCount :: "WORD \<Rightarrow> WORD" where "m_iCount w = drop_bit 16 w"

definition SysReleaseObject :: "(kernel \<Rightarrow> kernel) \<Rightarrow> WORD \<Rightarrow> kernel \<Rightarrow> kernel option" where
  "SysReleaseObject switch p k =
     (if g_pCurrentTask k \<noteq> KERNEL_OWNER then
        (let w = ymem k p in
         if m_iOwner w \<noteq> g_pCurrentTask k then None
         else
           let w' = (if m_iCount w \<noteq> 0 then m_iOwner w OR push_bit 16 (m_iCount w - 1) else 0);
               k1 = Kernel_SetTimeout 0 (k\<lparr>ymem := (ymem k)(p := w')\<rparr>);
               k2 = switch k1
           in Some (upd_task (g_pCurrentTask k2) (m_wState_update (\<lambda>_. EVENT_RELEASING_OBJECT2)) k2))
      else Some k)"

definition ISRReleaseObject :: "WORD \<Rightarrow> kernel \<Rightarrow> kernel" where
  "ISRReleaseObject p k =
     (if ymem k p = ISR_OWNER then k\<lparr>ymem := (ymem k)(p := 0)\<rparr> else k)"

text \<open>\<^verbatim>\<open>kernel_syswaitonobject.asm\<close>: take the object, count one more level, or wait for it.\<close>

definition SysWaitOnObject :: "(kernel \<Rightarrow> kernel) \<Rightarrow> int \<Rightarrow> WORD \<Rightarrow> kernel \<Rightarrow> WORD \<times> kernel" where
  "SysWaitOnObject switch wTimeout p k =
     (let k1 = Kernel_SetTimeout wTimeout k; t = g_pCurrentTask k1; w = ymem k1 p;
          grab = (\<lambda>k'. if ymem k' p = 0
            then (EVENT_OBJECT, k'\<lparr>ymem := (ymem k')(p := g_pCurrentTask k')\<rparr>)
            else (EVENT_TIMEOUT, k'))
      in if t = KERNEL_OWNER then (EVENT_OBJECT, k1)
         else if t = w \<or> t = w AND 0xffff
           then (EVENT_OBJECT, k1\<lparr>ymem := (ymem k1)(p := w + 0x10000)\<rparr>)
         else if w AND 0xffff = 0 then grab k1
         else grab (switch (upd_task t (\<lambda>e. e\<lparr>m_wState := EVENT_OBJECT, m_pWaitingOnPtr := p\<rparr>) k1)))"

definition SysSignal :: "WORD \<Rightarrow> nat \<Rightarrow> kernel \<Rightarrow> kernel" where
  "SysSignal p iGroup k = k\<lparr>ymem := (ymem k)(p := ymem k p OR push_bit iGroup 1)\<rparr>"

definition SysGetTaskID :: "kernel \<Rightarrow> int option" where
  "SysGetTaskID k =
     (if g_pCurrentTask k = KERNEL_OWNER then None else Some (m_wTaskID (tasks k (g_pCurrentTask k))))"

text \<open>
  The routing loop tests a pointer that never becomes NULL: it ends only on an entry of the
  message's type. Running past the table is \<open>None\<close>, as is the queue's own \<^verbatim>\<open>ccerror\<close>.
\<close>

fun find_route :: "(WORD \<times> WORD) list \<Rightarrow> WORD \<Rightarrow> WORD option" where
  "find_route [] ty = None"
| "find_route ((m_wMessageType, m_pDestination) # es) ty =
     (if m_wMessageType = ty then Some m_pDestination else find_route es ty)"

definition Kernel_SysPostMessage :: "WORD list \<Rightarrow> kernel \<Rightarrow> (int \<times> kernel) option" where
  "Kernel_SysPostMessage msg k =
     do { d \<leftarrow> find_route (g_RoutingTable k) ((msg ! 1) AND 0xff0000);
          (r, q, mem) \<leftarrow> Kernel_AddMessageToQueue (queues k d) msg (\<lambda>a. ymem k (word_of_nat a));
          Some (r, k\<lparr>queues := (queues k)(d := q), ymem := (\<lambda>a. mem (unat a))\<rparr>) }"

section \<open>Start-up and main loop\<close>

definition CAP_CHECK_COUNTER_MAX :: int where "CAP_CHECK_COUNTER_MAX = 1000"

definition Kernel_SwitchToTask :: "(kernel \<Rightarrow> kernel) \<Rightarrow> WORD \<Rightarrow> kernel \<Rightarrow> kernel" where
  "Kernel_SwitchToTask switch t k =
     (let k1 = switch (k\<lparr>g_pCurrentTask := t, Kernel_pTempStack := m_pStackPointer (tasks k t)\<rparr>)
      in upd_task t (m_pStackPointer_update (\<lambda>_. Kernel_pTempStack k1)) k1)"

text \<open>One turn of \<^verbatim>\<open>Kernel_MainLoop\<close>; \<open>update\<close> is \<^verbatim>\<open>ChipUpdateCapability\<close>.\<close>

definition capability_check :: "(kernel \<Rightarrow> kernel) \<Rightarrow> kernel \<Rightarrow> kernel" where
  "capability_check update k =
     (let k1 = k\<lparr>g_wCapCheckCounter := g_wCapCheckCounter k + 1\<rparr>
      in if CAP_CHECK_COUNTER_MAX \<le> g_wCapCheckCounter k1
         then update (k1\<lparr>g_wCapCheckCounter := 0\<rparr>) else k1)"

definition Kernel_MainLoop_turn ::
  "(WORD \<Rightarrow> kernel \<Rightarrow> (bool \<times> kernel) option) \<Rightarrow> (kernel \<Rightarrow> kernel) \<Rightarrow> (kernel \<Rightarrow> kernel)
     \<Rightarrow> kernel \<Rightarrow> kernel option" where
  "Kernel_MainLoop_turn poll switch update k =
     do { (t, k1) \<leftarrow> Kernel_GetNextTask poll k;
          Some (capability_check update (if t \<noteq> 0 then Kernel_SwitchToTask switch t k1 else k1)) }"

text \<open>
  \<^verbatim>\<open>Kernel_Startup\<close> numbers the tasks, fills each stack and pushes the starter frame; \<open>sr\<close> is the
  status register and \<open>starter\<close> the address of \<^verbatim>\<open>StarterFunction\<close>.
\<close>

definition stack_fill :: "WORD \<Rightarrow> int \<Rightarrow> WORD \<Rightarrow> (WORD \<Rightarrow> WORD) \<Rightarrow> (WORD \<Rightarrow> WORD)" where
  "stack_fill sp stacksize v mem =
     fold (\<lambda>i m. m(sp + word_of_nat i := v)) [0..<nat stacksize] mem"

definition push_frame :: "WORD \<Rightarrow> WORD \<Rightarrow> WORD \<Rightarrow> WORD \<Rightarrow> (WORD \<Rightarrow> WORD) \<Rightarrow> (WORD \<Rightarrow> WORD)" where
  "push_frame sp entry sr starter mem =
     mem(sp := entry, sp + 1 := sr, sp + 2 := starter, sp + 3 := 0)"

fun start_tasks :: "WORD \<Rightarrow> WORD \<Rightarrow> WORD list \<Rightarrow> int \<Rightarrow> kernel \<Rightarrow> kernel" where
  "start_tasks sr starter [] n k = k"
| "start_tasks sr starter (t # ts) n k =
     (let e = tasks k t; sp = m_pStackPointer e; n' = n + 1;
          mem = push_frame sp (m_pEntryPoint e) sr starter
                  (stack_fill sp (m_wStackSize e) (word_of_int n') (ymem k))
      in start_tasks sr starter ts n'
           (k\<lparr>tasks := (tasks k)(t := e\<lparr>m_wTaskID := n, m_pStackPointer := sp + 4\<rparr>), ymem := mem\<rparr>))"

definition Kernel_Startup :: "WORD \<Rightarrow> WORD \<Rightarrow> kernel \<Rightarrow> kernel" where
  "Kernel_Startup sr starter k = start_tasks sr starter (g_TaskList k) 1 k"

section \<open>The choice, for any readiness test\<close>

lemma find_ready_Some:
  assumes "find_ready poll ts k = Some (Some n, k')"
  shows "n < length ts \<and> (\<exists>k0. poll (ts ! n) k0 = Some (True, k'))"
  using assms
proof (induction ts arbitrary: k n)
  case (Cons t ts)
  obtain r k1 where p: "poll t k = Some (r, k1)"
    using Cons.prems by (cases "poll t k") auto
  show ?case
  proof (cases r)
    case True
    then show ?thesis using Cons.prems p by auto
  next
    case False
    then obtain m where "find_ready poll ts k1 = Some (Some m, k')" "n = Suc m"
      using Cons.prems p by (auto split: Option.bind_splits)
    then show ?thesis using Cons.IH [of k1 m] by auto
  qed
qed simp

lemma sink_task_mset: "mset (sink_task prio xs i) = mset xs"
proof (induction prio xs i rule: sink_task.induct)
  case (1 prio xs i)
  then show ?case
    by (subst sink_task.simps) (auto simp: mset_swap)
qed

lemma sink_task_length [simp]: "length (sink_task prio xs i) = length xs"
  using sink_task_mset [of prio xs i] by (metis size_mset)

text \<open>What the second loop does on a list split at the task.\<close>

lemma sink_task_split:
  assumes "\<forall>u\<in>set us. prio t \<le> prio u" and "zs \<noteq> [] \<longrightarrow> prio (hd zs) < prio t"
  shows "sink_task prio (ys @ t # us @ zs) (length ys) = ys @ us @ t # zs"
  using assms
proof (induction us arbitrary: ys)
  case Nil
  then show ?case
    by (subst sink_task.simps) (cases zs; auto simp: nth_append dest: leD)
next
  case (Cons u us)
  have "sink_task prio (ys @ t # (u # us) @ zs) (length ys)
      = sink_task prio ((ys @ [u]) @ t # us @ zs) (length (ys @ [u]))"
    using Cons.prems by (subst sink_task.simps) (auto simp: nth_append list_update_append)
  also have "\<dots> = (ys @ [u]) @ us @ t # zs"
    by (rule Cons.IH) (use Cons.prems in simp_all)
  finally show ?case by simp
qed

definition sorted_tasks :: "(WORD \<Rightarrow> WORD) \<Rightarrow> WORD list \<Rightarrow> bool" where
  "sorted_tasks prio = sorted_wrt (\<lambda>a b. prio b \<le> prio a)"

text \<open>In a sorted list the task ends up behind exactly the tasks of its own priority.\<close>

lemma sink_task_sorted:
  assumes sorted: "sorted_tasks prio xs" and n: "n < length xs" and t: "t = xs ! n"
  obtains ys us zs where "xs = ys @ t # us @ zs" and "length ys = n"
    and "sink_task prio xs n = ys @ us @ t # zs"
    and "\<forall>u\<in>set us. prio u = prio t" and "\<forall>z\<in>set zs. prio z < prio t"
    and "sorted_tasks prio (sink_task prio xs n)"
proof -
  obtain ys vs where xs: "xs = ys @ t # vs" and len: "length ys = n"
    using n unfolding t by (rule nth_splitE)
  define us zs where "us = takeWhile (\<lambda>u. prio t \<le> prio u) vs" and "zs = dropWhile (\<lambda>u. prio t \<le> prio u) vs"
  have vs: "vs = us @ zs" by (simp add: us_def zs_def)
  have srt: "sorted_tasks prio (ys @ t # us @ zs)"
    using sorted xs vs by simp
  then have le: "\<forall>v\<in>set (us @ zs). prio v \<le> prio t" and szs: "sorted_wrt (\<lambda>a b. prio b \<le> prio a) zs"
    by (simp_all add: sorted_tasks_def sorted_wrt_append)
  have us: "\<forall>u\<in>set us. prio u = prio t"
    using le by (auto simp: us_def dest: set_takeWhileD intro!: antisym)
  have hd: "zs \<noteq> [] \<longrightarrow> prio (hd zs) < prio t"
    using hd_dropWhile [of "\<lambda>u. prio t \<le> prio u" vs] by (auto simp: zs_def not_le)
  have zs: "\<forall>z\<in>set zs. prio z < prio t"
    using hd szs by (cases zs) (auto intro: le_less_trans)
  have sink: "sink_task prio xs n = ys @ us @ t # zs"
    using sink_task_split [of us prio t zs ys] us hd len unfolding xs vs by simp
  have "sorted_tasks prio (ys @ us @ t # zs)"
    using srt us zs by (auto simp: sorted_tasks_def sorted_wrt_append)
  with that [of ys us zs] show thesis
    using xs vs len sink us zs by simp
qed

lemma sink_task_keeps_sorted:
  "sorted_tasks prio xs \<Longrightarrow> n < length xs \<Longrightarrow> sorted_tasks prio (sink_task prio xs n)"
  by (rule sink_task_sorted [of prio xs n, OF _ _ refl])

section \<open>What the choice needs of a readiness test\<close>

definition wf_tasks :: "kernel \<Rightarrow> bool" where
  "wf_tasks k \<longleftrightarrow> 0 \<notin> set (g_TaskList k) \<and> distinct (g_TaskList k)
     \<and> sorted_tasks (task_prio k) (g_TaskList k)"

locale task_poll =
  fixes poll :: "WORD \<Rightarrow> kernel \<Rightarrow> (bool \<times> kernel) option"
  assumes poll_list: "poll t k = Some (r, k') \<Longrightarrow> g_TaskList k' = g_TaskList k"
    and poll_prio: "poll t k = Some (r, k') \<Longrightarrow> task_prio k' = task_prio k"
begin

lemma find_ready_frame:
  "find_ready poll ts k = Some (i, k') \<Longrightarrow> g_TaskList k' = g_TaskList k \<and> task_prio k' = task_prio k"
proof (induction ts arbitrary: k i)
  case (Cons t ts)
  obtain r k1 where p: "poll t k = Some (r, k1)"
    using Cons.prems by (cases "poll t k") auto
  have "k' = k1 \<or> (\<exists>j. find_ready poll ts k1 = Some (j, k'))"
    using Cons.prems p by (cases r) (auto split: Option.bind_splits)
  then show ?case
    using Cons.IH [of k1] poll_list [OF p] poll_prio [OF p] by auto
qed simp

lemma GetNextTask_wf:
  assumes "wf_tasks k" and "Kernel_GetNextTask poll k = Some (t, k')"
  shows "wf_tasks k' \<and> mset (g_TaskList k') = mset (g_TaskList k) \<and> task_prio k' = task_prio k"
proof -
  obtain i k1 where f: "find_ready poll (g_TaskList k) k = Some (i, k1)"
    using assms(2) by (auto simp: Kernel_GetNextTask_def split: Option.bind_splits)
  note fr = find_ready_frame [OF f]
  show ?thesis
  proof (cases i)
    case None
    then show ?thesis using assms f fr by (simp add: Kernel_GetNextTask_def wf_tasks_def)
  next
    case (Some n)
    let ?ys = "sink_task (task_prio k) (g_TaskList k) n"
    have k': "k' = k1\<lparr>g_TaskList := ?ys\<rparr>"
      using assms(2) f fr Some by (simp add: Kernel_GetNextTask_def)
    then have p: "task_prio k' = task_prio k"
      using fr by (auto simp: task_prio_def fun_eq_iff)
    have n: "n < length (g_TaskList k)"
      using find_ready_Some [of poll "g_TaskList k" k n k1] f Some by simp
    have "sorted_tasks (task_prio k) ?ys"
      by (rule sink_task_keeps_sorted [OF _ n]) (use assms(1) in \<open>simp add: wf_tasks_def\<close>)
    moreover have m: "mset ?ys = mset (g_TaskList k)" by (rule sink_task_mset)
    ultimately show ?thesis
      using assms(1) k' p mset_eq_setD [OF m] mset_eq_imp_distinct_iff [OF m]
      by (simp add: wf_tasks_def)
  qed
qed

end

text \<open>
  The base kernel's test has more to offer: whether a task is ready does not depend on the polling
  of the others.
\<close>

locale stable_poll = task_poll +
  fixes ready :: "kernel \<Rightarrow> WORD \<Rightarrow> bool option"
  assumes poll_ready: "ready k t = Some r \<Longrightarrow> \<exists>k'. poll t k = Some (r, k')"
    and poll_other: "poll t k = Some (r, k') \<Longrightarrow> u \<noteq> t \<Longrightarrow> ready k' u = ready k u"
begin

lemma find_ready_stable:
  assumes "distinct ts" and "\<forall>t\<in>set ts. ready k t \<noteq> None"
  shows "\<exists>i k'. find_ready poll ts k = Some (i, k')
    \<and> (case i of None \<Rightarrow> \<forall>t\<in>set ts. ready k t = Some False
       | Some n \<Rightarrow> n < length ts \<and> ready k (ts ! n) = Some True
                    \<and> (\<forall>t\<in>set (take n ts). ready k t = Some False))"
  using assms
proof (induction ts arbitrary: k)
  case Nil
  then show ?case by simp
next
  case (Cons t ts)
  obtain r where r: "ready k t = Some r" using Cons.prems by auto
  then obtain k1 where p: "poll t k = Some (r, k1)" using poll_ready by blast
  show ?case
  proof (cases r)
    case True
    then show ?thesis using p r by simp
  next
    case False
    have eq: "ready k1 u = ready k u" if "u \<in> set ts" for u
      by (rule poll_other [OF p]) (use that Cons.prems(1) in auto)
    obtain i k' where "find_ready poll ts k1 = Some (i, k')"
      "case i of None \<Rightarrow> \<forall>t\<in>set ts. ready k1 t = Some False
       | Some n \<Rightarrow> n < length ts \<and> ready k1 (ts ! n) = Some True
                    \<and> (\<forall>t\<in>set (take n ts). ready k1 t = Some False)"
      using Cons.IH [of k1] Cons.prems eq by auto
    then show ?thesis
      using p r False eq by (auto split: option.splits) (metis in_set_takeD)
  qed
qed

text \<open>One choice, with where the chosen task stood and where it goes.\<close>

lemma GetNextTask_cases:
  assumes wf: "wf_tasks k" and ok: "\<forall>t\<in>set (g_TaskList k). ready k t \<noteq> None"
  obtains (none) k' where "Kernel_GetNextTask poll k = Some (0, k')"
      and "\<forall>t\<in>set (g_TaskList k). ready k t = Some False" and "g_TaskList k' = g_TaskList k"
  | (some) t k' ys us zs where "Kernel_GetNextTask poll k = Some (t, k')"
      and "g_TaskList k = ys @ t # us @ zs" and "g_TaskList k' = ys @ us @ t # zs"
      and "t \<noteq> 0" and "ready k t = Some True" and "\<forall>u\<in>set ys. ready k u = Some False"
      and "\<forall>u\<in>set us. task_prio k u = task_prio k t" and "\<forall>u\<in>set zs. task_prio k u < task_prio k t"
proof -
  have d: "distinct (g_TaskList k)" and srt: "sorted_tasks (task_prio k) (g_TaskList k)"
    and z: "0 \<notin> set (g_TaskList k)"
    using wf by (auto simp: wf_tasks_def)
  obtain i k1 where f: "find_ready poll (g_TaskList k) k = Some (i, k1)"
    and i: "case i of None \<Rightarrow> \<forall>t\<in>set (g_TaskList k). ready k t = Some False
       | Some n \<Rightarrow> n < length (g_TaskList k) \<and> ready k (g_TaskList k ! n) = Some True
                    \<and> (\<forall>t\<in>set (take n (g_TaskList k)). ready k t = Some False)"
    using find_ready_stable [OF d ok] by blast
  note fr = find_ready_frame [OF f]
  show thesis
  proof (cases i)
    case None
    then show thesis using none [of k1] f fr i by (simp add: Kernel_GetNextTask_def)
  next
    case (Some n)
    then have n: "n < length (g_TaskList k)" and rn: "ready k (g_TaskList k ! n) = Some True"
      and bef: "\<forall>t\<in>set (take n (g_TaskList k)). ready k t = Some False"
      using i by auto
    obtain t where t: "t = g_TaskList k ! n" by simp
    obtain ys us zs where xs: "g_TaskList k = ys @ t # us @ zs" "length ys = n"
      "sink_task (task_prio k) (g_TaskList k) n = ys @ us @ t # zs"
      "\<forall>u\<in>set us. task_prio k u = task_prio k t" "\<forall>z\<in>set zs. task_prio k z < task_prio k t"
      by (rule sink_task_sorted [OF srt n t])
    have "take n (g_TaskList k) = ys" using xs(1,2) by simp
    moreover have "Kernel_GetNextTask poll k = Some (t, k1\<lparr>g_TaskList := ys @ us @ t # zs\<rparr>)"
      using f fr xs(3) t Some by (simp add: Kernel_GetNextTask_def)
    moreover have "t \<noteq> 0" using z xs(1) by auto
    moreover have "ready k t = Some True" using rn unfolding t .
    moreover have "g_TaskList (k1\<lparr>g_TaskList := ys @ us @ t # zs\<rparr>) = ys @ us @ t # zs" by simp
    ultimately show thesis
      using some xs(1,4,5) bef by blast
  qed
qed

lemma GetNextTask_best:
  assumes wf: "wf_tasks k" and ok: "\<forall>t\<in>set (g_TaskList k). ready k t \<noteq> None"
  shows "\<exists>t k'. Kernel_GetNextTask poll k = Some (t, k')
    \<and> (t = 0 \<longleftrightarrow> (\<forall>u\<in>set (g_TaskList k). ready k u = Some False))
    \<and> (t \<noteq> 0 \<longrightarrow> t \<in> set (g_TaskList k) \<and> ready k t = Some True
        \<and> (\<forall>u\<in>set (g_TaskList k). ready k u = Some True \<longrightarrow> task_prio k u \<le> task_prio k t))"
  using wf ok
proof (cases rule: GetNextTask_cases)
  case (some t k' ys us zs)
  then have "\<forall>u\<in>set (g_TaskList k). ready k u = Some True \<longrightarrow> task_prio k u \<le> task_prio k t"
    by (auto intro: less_imp_le)
  with some show ?thesis by simp
qed auto

text \<open>Rounds of the main loop; \<open>env n\<close> is what runs between the choices \<open>n\<close> and \<open>n + 1\<close>.\<close>

end

fun rounds :: "(WORD \<Rightarrow> kernel \<Rightarrow> (bool \<times> kernel) option) \<Rightarrow> (nat \<Rightarrow> WORD \<Rightarrow> kernel \<Rightarrow> kernel)
    \<Rightarrow> kernel \<Rightarrow> nat \<Rightarrow> kernel option" where
  "rounds poll env k 0 = Some k"
| "rounds poll env k (Suc n) =
     do { k1 \<leftarrow> rounds poll env k n; (t, k2) \<leftarrow> Kernel_GetNextTask poll k1; Some (env n t k2) }"

definition chosen_in where
  "chosen_in poll env k n t \<longleftrightarrow>
     (\<exists>k1 k2. rounds poll env k n = Some k1 \<and> Kernel_GetNextTask poll k1 = Some (t, k2))"

primrec task_index :: "WORD \<Rightarrow> WORD list \<Rightarrow> nat" where
  "task_index t [] = 0"
| "task_index t (u # us) = (if u = t then 0 else Suc (task_index t us))"

lemma task_index_append:
  "task_index t (xs @ ys) = (if t \<in> set xs then task_index t xs else length xs + task_index t ys)"
  by (induction xs) auto

context stable_poll begin

definition waits :: "WORD \<Rightarrow> kernel \<Rightarrow> bool" where
  "waits t k \<longleftrightarrow> (\<forall>u\<in>set (g_TaskList k). ready k u \<noteq> None)
     \<and> t \<in> set (g_TaskList k) \<and> ready k t = Some True
     \<and> (\<forall>u\<in>set (g_TaskList k). ready k u = Some True \<longrightarrow> task_prio k u \<le> task_prio k t)"

lemma waits_step:
  assumes wf: "wf_tasks k" and w: "waits t k"
  shows "\<exists>u k'. Kernel_GetNextTask poll k = Some (u, k')
    \<and> (u = t \<or> Suc (task_index t (g_TaskList k')) = task_index t (g_TaskList k))"
proof -
  have "\<forall>u\<in>set (g_TaskList k). ready k u \<noteq> None" using w by (simp add: waits_def)
  with wf show ?thesis
  proof (cases rule: GetNextTask_cases)
    case none
    then show ?thesis using w by (auto simp: waits_def)
  next
    case (some u k' ys us zs)
    have "u = t \<or> t \<in> set us" and "t \<notin> set ys"
      using w some by (auto simp: waits_def)
    then have "u = t \<or> Suc (task_index t (g_TaskList k')) = task_index t (g_TaskList k)"
      using some by (auto simp: task_index_append)
    with some show ?thesis by blast
  qed
qed

lemma chosen_within_index:
  assumes wf: "wf_tasks k"
    and env: "\<And>n u k'. g_TaskList (env n u k') = g_TaskList k' \<and> task_prio (env n u k') = task_prio k'"
    and w: "\<And>n k'. rounds poll env k n = Some k' \<Longrightarrow> waits t k'"
  shows "\<exists>n \<le> task_index t (g_TaskList k). chosen_in poll env k n t"
proof (rule ccontr)
  assume no: "\<not> ?thesis"
  have "\<exists>k'. rounds poll env k n = Some k' \<and> wf_tasks k'
      \<and> task_index t (g_TaskList k') + n = task_index t (g_TaskList k)"
    if "n \<le> Suc (task_index t (g_TaskList k))" for n
    using that
  proof (induction n)
    case 0
    then show ?case using wf by simp
  next
    case (Suc n)
    then obtain k' where k': "rounds poll env k n = Some k'" "wf_tasks k'"
      "task_index t (g_TaskList k') + n = task_index t (g_TaskList k)" by auto
    obtain u k2 where g: "Kernel_GetNextTask poll k' = Some (u, k2)"
      "u = t \<or> Suc (task_index t (g_TaskList k2)) = task_index t (g_TaskList k')"
      using waits_step [OF k'(2) w [OF k'(1)]] by blast
    have "u \<noteq> t"
      using no Suc.prems k'(1) g(1) unfolding chosen_in_def by auto
    moreover have "wf_tasks (env n u k2)"
      using GetNextTask_wf [OF k'(2) g(1)] env [of n u k2] by (auto simp: wf_tasks_def)
    ultimately show ?case using k' g env [of n u k2] by auto
  qed
  from this [of "Suc (task_index t (g_TaskList k))"] show False by auto
qed

end

section \<open>The base kernel\<close>

definition task_ready :: "kernel \<Rightarrow> WORD \<Rightarrow> bool option" where
  "task_ready k t =
     (if m_lTimeout (tasks k t) \<le> GetTime k then Some True
      else if m_wState (tasks k t) \<in> {EVENT_RELEASING_OBJECT1, EVENT_RELEASING_OBJECT2} then Some False
      else waiting_done k t)"

lemma IsTaskReady_state:
  "Kernel_IsTaskReady t k = Some (r, k')
     \<Longrightarrow> k' = k \<or> k' = upd_task t (m_wState_update (\<lambda>_. EVENT_TIMEOUT)) k"
  by (auto simp: Kernel_IsTaskReady_def split: if_splits Option.bind_splits)

lemma task_ready_upd_other: "u \<noteq> t \<Longrightarrow> task_ready (upd_task t f k) u = task_ready k u"
  by (simp add: task_ready_def waiting_done_def GetTime_def Kernel_IsMessageAvailable_def Let_def
      cong: if_cong)

interpretation base: stable_poll Kernel_IsTaskReady task_ready
proof (unfold_locales, goal_cases)
  case (1 t k r k')
  then show ?case by (auto dest: IsTaskReady_state)
next
  case (2 t k r k')
  then show ?case by (auto dest!: IsTaskReady_state simp: task_prio_def fun_eq_iff)
next
  case (3 k t r)
  then show ?case by (auto simp: Kernel_IsTaskReady_def task_ready_def split: if_splits)
next
  case (4 t k r k' u)
  then show ?case by (auto dest!: IsTaskReady_state simp: task_ready_upd_other)
qed

text \<open>A small system for the witnesses: three tasks, two of equal priority.\<close>

definition demo_task :: "WORD \<Rightarrow> TaskEntry" where
  "demo_task t = \<lparr>m_pMessageQueue = 0, m_pWaitingOnPtr = 0, m_wWaitingOnWord = 0,
     m_wState = EVENT_TIMEOUT, m_pStackPointer = 0x1000, m_wTaskID = 0,
     m_lTimeout = (if t = 0x100 then 9 else 0), m_wRegionResources = [],
     m_wPriority = (if t = 0x100 then 20 else 10), m_wStackSize = 3, m_pEntryPoint = t + 5\<rparr>"

definition demo_kernel :: kernel where
  "demo_kernel = \<lparr>tasks = demo_task, queues = \<lambda>_. \<lparr>m_pHead = 0, m_modulo = 7, m_pTail = 0\<rparr>,
     ymem = \<lambda>_. 0, pmem = \<lambda>_. 0, g_TaskList = [0x100, 0x200, 0x300], g_RegionTable = [],
     g_RoutingTable = [(0x010000, 1), (0x020000, 2)], g_pCurrentTask = 0x200, Kernel_pTempStack = 0,
     g_lTimerTick = 3, g_wCapCheckCounter = 0, g_pTaskToLoad = 0, glb_iLoadCount = 0\<rparr>"

lemmas demo_simps = demo_kernel_def demo_task_def wf_tasks_def sorted_tasks_def task_prio_def
  task_ready_def GetTime_def event_defs waiting_done_def

text \<open>
  C3. On a task table sorted by priority, with no wait pointer NULL, \<^verbatim>\<open>Kernel_GetNextTask\<close> of the
  base kernel returns NULL exactly when no task is ready; otherwise it returns a ready task such
  that no ready task has a higher priority. The table afterwards is a permutation of the old one,
  still sorted.
\<close>

theorem GetNextTask_highest_ready:
  assumes "wf_tasks k" and "\<forall>t\<in>set (g_TaskList k). task_ready k t \<noteq> None"
  shows "\<exists>t k'. Kernel_GetNextTask Kernel_IsTaskReady k = Some (t, k')
    \<and> (t = 0 \<longleftrightarrow> (\<forall>u\<in>set (g_TaskList k). task_ready k u = Some False))
    \<and> (t \<noteq> 0 \<longrightarrow> t \<in> set (g_TaskList k) \<and> task_ready k t = Some True
        \<and> (\<forall>u\<in>set (g_TaskList k). task_ready k u = Some True
             \<longrightarrow> m_wPriority (tasks k u) \<le> m_wPriority (tasks k t)))
    \<and> wf_tasks k' \<and> mset (g_TaskList k') = mset (g_TaskList k)"
proof -
  obtain t k' where g: "Kernel_GetNextTask Kernel_IsTaskReady k = Some (t, k')"
    and best: "(t = 0 \<longleftrightarrow> (\<forall>u\<in>set (g_TaskList k). task_ready k u = Some False))
    \<and> (t \<noteq> 0 \<longrightarrow> t \<in> set (g_TaskList k) \<and> task_ready k t = Some True
        \<and> (\<forall>u\<in>set (g_TaskList k). task_ready k u = Some True \<longrightarrow> task_prio k u \<le> task_prio k t))"
    using base.GetNextTask_best [OF assms] by blast
  show ?thesis
    using g best base.GetNextTask_wf [OF assms(1) g] unfolding task_prio_def by blast
qed

theorem GetNextTask_highest_ready_witness:
  "\<exists>t k'. Kernel_GetNextTask Kernel_IsTaskReady demo_kernel = Some (t, k')
    \<and> t \<noteq> 0 \<and> mset (g_TaskList k') = {#0x100, 0x200, 0x300#}"
proof -
  have "wf_tasks demo_kernel" by (simp add: demo_simps)
  moreover have "\<forall>t\<in>set (g_TaskList demo_kernel). task_ready demo_kernel t \<noteq> None"
    by (auto simp: demo_simps)
  moreover have "task_ready demo_kernel 0x200 = Some True" "0x200 \<in> set (g_TaskList demo_kernel)"
    "mset (g_TaskList demo_kernel) = {#0x100, 0x200, 0x300#}"
    by (simp_all add: demo_simps)
  ultimately show ?thesis
    using GetNextTask_highest_ready [of demo_kernel] by fastforce
qed

text \<open>
  C7. Round-robin fairness: a task that stays ready, with no ready task of higher priority, is chosen
  after at most as many other choices as there are tasks before it in the table, whatever the
  running tasks and interrupts do to the rest of the state between two choices.
\<close>

theorem GetNextTask_round_robin:
  assumes "wf_tasks k"
    and "\<And>n u k'. g_TaskList (env n u k') = g_TaskList k' \<and> task_prio (env n u k') = task_prio k'"
    and "\<And>n k' u. rounds Kernel_IsTaskReady env k n = Some k' \<Longrightarrow> u \<in> set (g_TaskList k') \<Longrightarrow>
      task_ready k' u = Some False \<or> task_ready k' u = Some True \<and> task_prio k' u \<le> task_prio k' t"
    and "\<And>n k'. rounds Kernel_IsTaskReady env k n = Some k' \<Longrightarrow>
      t \<in> set (g_TaskList k') \<and> task_ready k' t = Some True"
  shows "\<exists>n \<le> task_index t (g_TaskList k). chosen_in Kernel_IsTaskReady env k n t"
proof (rule base.chosen_within_index [OF assms(1,2)])
  fix n k' assume r: "rounds Kernel_IsTaskReady env k n = Some k'"
  show "base.waits t k'"
    unfolding base.waits_def using assms(3) [OF r] assms(4) [OF r] by force
qed

lemma demo_choice:
  "Kernel_GetNextTask Kernel_IsTaskReady (demo_kernel\<lparr>g_TaskList := [0x100, 0x200, 0x300]\<rparr>)
     = Some (0x200, demo_kernel\<lparr>g_TaskList := [0x100, 0x300, 0x200]\<rparr>)"
  "Kernel_GetNextTask Kernel_IsTaskReady (demo_kernel\<lparr>g_TaskList := [0x100, 0x300, 0x200]\<rparr>)
     = Some (0x300, demo_kernel\<lparr>g_TaskList := [0x100, 0x200, 0x300]\<rparr>)"
  by (simp_all add: Kernel_GetNextTask_def Kernel_IsTaskReady_def demo_simps sink_task.simps)

lemma demo_rounds:
  "\<exists>xs\<in>{[0x100, 0x200, 0x300], [0x100, 0x300, 0x200]}.
     rounds Kernel_IsTaskReady (\<lambda>n u k. k) demo_kernel n = Some (demo_kernel\<lparr>g_TaskList := xs\<rparr>)"
proof (induction n)
  case 0
  then show ?case by (simp add: demo_kernel_def)
next
  case (Suc n)
  then show ?case by (auto simp: demo_choice)
qed

theorem GetNextTask_round_robin_witness:
  "\<exists>n \<le> 2. chosen_in Kernel_IsTaskReady (\<lambda>n u k. k) demo_kernel n 0x300"
proof -
  have "\<exists>n \<le> task_index 0x300 (g_TaskList demo_kernel).
      chosen_in Kernel_IsTaskReady (\<lambda>n u k. k) demo_kernel n 0x300"
  proof (rule GetNextTask_round_robin)
    show "wf_tasks demo_kernel" by (simp add: demo_simps)
  next
    fix n k' u assume "rounds Kernel_IsTaskReady (\<lambda>n u k. k) demo_kernel n = Some k'"
      and "u \<in> set (g_TaskList k')"
    then show "task_ready k' u = Some False \<or>
        task_ready k' u = Some True \<and> task_prio k' u \<le> task_prio k' 0x300"
      using demo_rounds [of n] by (auto simp: demo_simps)
  next
    fix n k' assume "rounds Kernel_IsTaskReady (\<lambda>n u k. k) demo_kernel n = Some k'"
    then show "0x300 \<in> set (g_TaskList k') \<and> task_ready k' 0x300 = Some True"
      using demo_rounds [of n] by (auto simp: demo_simps)
  qed simp
  moreover have "task_index 0x300 (g_TaskList demo_kernel) = 2" by (simp add: demo_kernel_def)
  ultimately show ?thesis by simp
qed

section \<open>Synchronisation objects\<close>

text \<open>The word of an object held by task \<open>t\<close> at nesting depth \<open>n + 1\<close>.\<close>

definition held_word :: "WORD \<Rightarrow> nat \<Rightarrow> WORD" where
  "held_word t n = t + word_of_nat (65536 * n)"

lemma held_word_fields:
  assumes "t AND 0xffff = t" and "n < 256"
  shows "m_iOwner (held_word t n) = t" and "m_iCount (held_word t n) = word_of_nat n"
    and "unat (held_word t n) = unat t + 65536 * n"
proof -
  have t: "unat t < 65536"
  proof -
    have "t AND 0xffff = take_bit 16 t" by (simp add: take_bit_eq_mask mask_eq_exp_minus_1)
    then have "unat t = unat (take_bit 16 t)" using assms(1) by simp
    also have "\<dots> < 2 ^ 16" by (simp only: unsigned_take_bit_eq take_bit_nat_less_exp)
    finally show ?thesis by simp
  qed
  show u: "unat (held_word t n) = unat t + 65536 * n"
    using t assms(2) by (simp add: held_word_def unat_word_ariths unat_of_nat)
  show "m_iOwner (held_word t n) = t"
  proof (rule word_unat_eq_iff [THEN iffD2])
    have m: "m_iOwner (held_word t n) = take_bit 16 (held_word t n)"
      by (simp add: m_iOwner_def take_bit_eq_mask mask_eq_exp_minus_1)
    have "unat (m_iOwner (held_word t n)) = (unat t + 65536 * n) mod 65536"
      unfolding m unsigned_take_bit_eq u by (simp add: take_bit_eq_mod)
    also have "\<dots> = unat t" using t by simp
    finally show "unat (m_iOwner (held_word t n)) = unat t" .
  qed
  show "m_iCount (held_word t n) = word_of_nat n"
  proof (rule word_unat_eq_iff [THEN iffD2])
    have "unat (m_iCount (held_word t n)) = (unat t + 65536 * n) div 65536"
      unfolding m_iCount_def unsigned_drop_bit_eq u using t assms(2)
      by (simp add: drop_bit_eq_div take_bit_eq_mod)
    also have "\<dots> = n" using t by simp
    finally show "unat (m_iCount (held_word t n)) = unat (word_of_nat n :: WORD)"
      using assms(2) by (simp add: unat_of_nat)
  qed
qed

lemma held_word_Suc: "held_word t n + 0x10000 = held_word t (Suc n)"
  by (simp add: held_word_def algebra_simps)

lemma held_word_dec:
  assumes "t AND 0xffff = t" and "Suc n < 256"
  shows "m_iOwner (held_word t (Suc n)) OR push_bit 16 (m_iCount (held_word t (Suc n)) - 1) = held_word t n"
proof -
  have "m_iOwner (held_word t (Suc n)) AND push_bit 16 (word_of_nat n) = (0::WORD)"
  proof (rule bit_eqI)
    fix i
    have "m_iOwner (held_word t (Suc n)) = take_bit 16 (held_word t (Suc n))"
      by (simp add: m_iOwner_def take_bit_eq_mask mask_eq_exp_minus_1)
    then show "bit (m_iOwner (held_word t (Suc n)) AND push_bit 16 (word_of_nat n)) i = bit (0::WORD) i"
      by (auto simp: bit_simps)
  qed
  then have "m_iOwner (held_word t (Suc n)) OR push_bit 16 (word_of_nat n) = t + push_bit 16 (word_of_nat n)"
    using held_word_fields(1) [OF assms] by (simp add: disjunctive_add_eq_or)
  moreover have "m_iCount (held_word t (Suc n)) - 1 = word_of_nat n"
    using held_word_fields(2) [OF assms] by simp
  ultimately show ?thesis
    by (simp add: held_word_def push_bit_eq_mult mult.commute)
qed

fun wait_n :: "(kernel \<Rightarrow> kernel) \<Rightarrow> WORD \<Rightarrow> nat \<Rightarrow> kernel \<Rightarrow> WORD list \<times> kernel" where
  "wait_n switch p 0 k = ([], k)"
| "wait_n switch p (Suc n) k =
     (let (rs, k1) = wait_n switch p n k; (r, k2) = SysWaitOnObject switch (- 1) p k1 in (r # rs, k2))"

fun release_n :: "(kernel \<Rightarrow> kernel) \<Rightarrow> WORD \<Rightarrow> nat \<Rightarrow> kernel \<Rightarrow> kernel option" where
  "release_n switch p 0 k = Some k"
| "release_n switch p (Suc n) k = release_n switch p n k \<bind> SysReleaseObject switch p"

lemma SetTimeout_frame [simp]:
  "ymem (Kernel_SetTimeout n k) = ymem k" "g_pCurrentTask (Kernel_SetTimeout n k) = g_pCurrentTask k"
  by (simp_all add: Kernel_SetTimeout_def Let_def)

lemma wait_n_holds:
  assumes "t AND 0xffff = t" and "t \<noteq> 0" and "g_pCurrentTask k = t" and "ymem k p = 0" and "n < 256"
  shows "\<exists>k'. wait_n switch p (Suc n) k = (replicate (Suc n) EVENT_OBJECT, k')
    \<and> g_pCurrentTask k' = t \<and> ymem k' p = held_word t n"
  using assms(5)
proof (induction n)
  case 0
  have "t = 0 AND 0xffff \<longleftrightarrow> False" using assms(2) by simp
  then show ?case
    using assms by (auto simp: SysWaitOnObject_def Let_def KERNEL_OWNER_def held_word_def)
next
  case (Suc n)
  then obtain k' where k': "wait_n switch p (Suc n) k = (replicate (Suc n) EVENT_OBJECT, k')"
    "g_pCurrentTask k' = t" "ymem k' p = held_word t n" by auto
  have "held_word t n AND 0xffff = t"
    using held_word_fields(1) [OF assms(1)] Suc.prems by (simp add: m_iOwner_def)
  then have "SysWaitOnObject switch (- 1) p k'
      = (EVENT_OBJECT, (Kernel_SetTimeout (- 1) k')\<lparr>ymem := (ymem k')(p := held_word t (Suc n))\<rparr>)"
    using k' assms(2) by (simp add: SysWaitOnObject_def Let_def KERNEL_OWNER_def held_word_Suc)
  then show ?case
    by (subst wait_n.simps) (simp add: k' del: wait_n.simps)
qed

text \<open>What a release hands to the rest of the system when it gives up the processor.\<close>

lemma release_held:
  assumes "t AND 0xffff = t" and "t \<noteq> 0" and "g_pCurrentTask k = t" and "ymem k p = held_word t n" and "n < 256"
  shows "SysReleaseObject switch p k =
    (let k2 = switch (Kernel_SetTimeout 0
                 (k\<lparr>ymem := (ymem k)(p := (case n of 0 \<Rightarrow> 0 | Suc m \<Rightarrow> held_word t m))\<rparr>))
     in Some (upd_task (g_pCurrentTask k2) (m_wState_update (\<lambda>_. EVENT_RELEASING_OBJECT2)) k2))"
proof (cases n)
  case 0
  then show ?thesis
    using assms held_word_fields [OF assms(1), of 0] by (simp add: SysReleaseObject_def KERNEL_OWNER_def)
next
  case (Suc m)
  have "unat (m_iCount (held_word t n)) = n"
    using assms(5) held_word_fields(2) [OF assms(1,5)] by (simp add: unat_of_nat)
  then have "m_iCount (held_word t n) \<noteq> 0"
    using Suc by auto
  then show ?thesis
    using assms Suc held_word_fields(1) [OF assms(1,5)] held_word_dec [OF assms(1), of m]
    by (simp add: SysReleaseObject_def KERNEL_OWNER_def)
qed

lemma held_word_nonzero:
  "t AND 0xffff = t \<Longrightarrow> t \<noteq> 0 \<Longrightarrow> n < 256 \<Longrightarrow> held_word t n \<noteq> 0"
  using held_word_fields(3) [of t n] by (auto simp: unat_eq_0)

lemma release_n_holds:
  assumes t: "t AND 0xffff = t" "t \<noteq> 0"
    and keep: "\<And>k. g_pCurrentTask (switch k) = g_pCurrentTask k"
      "\<And>k. g_pCurrentTask k = t \<Longrightarrow> ymem k p \<noteq> 0 \<Longrightarrow> ymem (switch k) p = ymem k p"
    and k: "g_pCurrentTask k = t" "ymem k p = held_word t n" "n < 256" and m: "m \<le> n"
  shows "\<exists>k'. release_n switch p m k = Some k' \<and> g_pCurrentTask k' = t \<and> ymem k' p = held_word t (n - m)"
  using m
proof (induction m)
  case 0
  then show ?case using k by simp
next
  case (Suc m)
  then obtain k' where k': "release_n switch p m k = Some k'" "g_pCurrentTask k' = t"
    "ymem k' p = held_word t (n - m)" by auto
  let ?k1 = "Kernel_SetTimeout 0 (k'\<lparr>ymem := (ymem k')(p := held_word t (n - Suc m))\<rparr>)"
  have "n - m = Suc (n - Suc m)" using Suc.prems by simp
  then have "SysReleaseObject switch p k'
      = Some (upd_task t (m_wState_update (\<lambda>_. EVENT_RELEASING_OBJECT2)) (switch ?k1))"
    using release_held [OF t k'(2,3), of switch] k' k(3) keep(1) by (simp add: Let_def)
  moreover have "ymem (switch ?k1) p = held_word t (n - Suc m)"
    using keep(2) [of ?k1] k'(2) held_word_nonzero [OF t, of "n - Suc m"] k(3) by simp
  ultimately show ?case
    using k' keep(1) by simp
qed



text \<open>
  C12. Mutual exclusion: a task that waits on an object another task holds never changes the object
  unless it is free when the kernel lets the task run again; it is told EVENT_TIMEOUT then.
\<close>

theorem SysWaitOnObject_excludes:
  assumes "u AND 0xffff = u" and "u \<noteq> 0" and "n < 256" and "ymem k p = held_word u n"
    and "g_pCurrentTask k = t" and "t \<noteq> u" and "t AND 0xffff = t" and "t \<noteq> 0"
  shows "\<exists>k1. ymem k1 = ymem k \<and> g_pCurrentTask k1 = t \<and> m_wState (tasks k1 t) = EVENT_OBJECT
      \<and> m_pWaitingOnPtr (tasks k1 t) = p
      \<and> SysWaitOnObject switch n' p k =
          (if ymem (switch k1) p \<noteq> 0 then (EVENT_TIMEOUT, switch k1)
           else (EVENT_OBJECT, (switch k1)\<lparr>ymem := (ymem (switch k1))(p := g_pCurrentTask (switch k1))\<rparr>))"
proof -
  have own: "held_word u n AND 0xffff = u"
    using held_word_fields(1) [OF assms(1,3)] by (simp add: m_iOwner_def)
  then have "t \<noteq> held_word u n" using assms(6,7) by metis
  with own assms show ?thesis
    by (intro exI [of _ "upd_task t (\<lambda>e. e\<lparr>m_wState := EVENT_OBJECT, m_pWaitingOnPtr := p\<rparr>)
          (Kernel_SetTimeout n' k)"]) (simp add: SysWaitOnObject_def Let_def KERNEL_OWNER_def)
qed

theorem SysWaitOnObject_excludes_witness:
  "fst (SysWaitOnObject (\<lambda>k. k) 5 0x40 (demo_kernel\<lparr>ymem := \<lambda>_. held_word 0x300 2\<rparr>)) = EVENT_TIMEOUT"
proof -
  have "held_word 0x300 2 \<noteq> 0" by (rule held_word_nonzero) simp_all
  then show ?thesis
    using SysWaitOnObject_excludes [where u = "0x300" and n = 2 and t = "0x200"
        and k = "demo_kernel\<lparr>ymem := \<lambda>_. held_word 0x300 2\<rparr>" and p = "0x40" and switch = "\<lambda>k. k" and n' = 5]
    by (auto simp: demo_kernel_def)
qed

section \<open>Waiting, posting, start-up\<close>



text \<open>The capability check: the counter of \<^verbatim>\<open>Kernel_MainLoop\<close> over \<open>n\<close> turns.\<close>

fun MainLoop_turns where
  "MainLoop_turns poll switch update k 0 = Some k"
| "MainLoop_turns poll switch update k (Suc n) =
     MainLoop_turns poll switch update k n \<bind> Kernel_MainLoop_turn poll switch update"

lemma GetNextTask_counter:
  assumes "\<And>t k r k'. poll t k = Some (r, k') \<Longrightarrow> g_wCapCheckCounter k' = g_wCapCheckCounter k"
    and "Kernel_GetNextTask poll k = Some (t, k')"
  shows "g_wCapCheckCounter k' = g_wCapCheckCounter k"
proof -
  have "find_ready poll ts k = Some (i, k1) \<Longrightarrow> g_wCapCheckCounter k1 = g_wCapCheckCounter k" for ts k i k1
    by (induction ts arbitrary: k i) (auto split: Option.bind_splits if_splits dest!: assms(1))
  then show ?thesis
    using assms(2) by (auto simp: Kernel_GetNextTask_def split: Option.bind_splits option.splits)
qed

text \<open>
  \<^verbatim>\<open>Kernel_MainLoop\<close> refreshes the hardware capabilities once every 1000 turns: whatever the tasks do
  (they have no access to the counter), after \<open>n\<close> turns from a reset counter the counter is
  \<open>n mod 1000\<close>, so it is back at 0, after an update, exactly at the multiples of 1000.
\<close>

theorem MainLoop_capability_counter:
  assumes "\<And>t k r k'. poll t k = Some (r, k') \<Longrightarrow> g_wCapCheckCounter k' = g_wCapCheckCounter k"
    and "\<And>k. g_wCapCheckCounter (switch k) = g_wCapCheckCounter k"
    and "\<And>k. g_wCapCheckCounter (update k) = g_wCapCheckCounter k"
    and "g_wCapCheckCounter k = 0"
    and "MainLoop_turns poll switch update k n = Some k'"
  shows "g_wCapCheckCounter k' = int n mod 1000"
  using assms(5)
proof (induction n arbitrary: k')
  case 0
  then show ?case using assms(4) by simp
next
  case (Suc n)
  then obtain k1 where k1: "MainLoop_turns poll switch update k n = Some k1"
    "Kernel_MainLoop_turn poll switch update k1 = Some k'"
    by (auto split: Option.bind_splits)
  then obtain t k2 where g: "Kernel_GetNextTask poll k1 = Some (t, k2)"
    by (auto simp: Kernel_MainLoop_turn_def split: Option.bind_splits)
  define k3 where "k3 = (if t \<noteq> 0 then Kernel_SwitchToTask switch t k2 else k2)"
  have "g_wCapCheckCounter k2 = int n mod 1000"
    using GetNextTask_counter [OF assms(1) g] Suc.IH [OF k1(1)] by simp
  then have c: "g_wCapCheckCounter k3 = int n mod 1000"
    by (simp add: k3_def Kernel_SwitchToTask_def Let_def assms(2))
  have "k' = capability_check update k3"
    using k1(2) g by (simp add: Kernel_MainLoop_turn_def k3_def)
  then have "g_wCapCheckCounter k' = (if 1000 \<le> int n mod 1000 + 1 then 0 else int n mod 1000 + 1)"
    by (simp add: capability_check_def CAP_CHECK_COUNTER_MAX_def Let_def assms(3) c)
  moreover have "int (Suc n mod 1000) = (if 1000 \<le> int (n mod 1000) + 1 then 0 else int (n mod 1000) + 1)"
    using mod_Suc [of n 1000] mod_less_divisor [of 1000 n] by auto
  ultimately show ?case by (simp only: zmod_int of_nat_numeral)
qed

theorem MainLoop_capability_counter_witness:
  "\<exists>k'. MainLoop_turns Kernel_IsTaskReady (\<lambda>k. k) (\<lambda>k. k) demo_kernel 1 = Some k'
    \<and> g_wCapCheckCounter k' = 1 mod 1000"
proof -
  obtain k' where k': "MainLoop_turns Kernel_IsTaskReady (\<lambda>k. k) (\<lambda>k. k) demo_kernel 1 = Some k'"
    using demo_choice(1) by (auto simp: Kernel_MainLoop_turn_def demo_kernel_def Let_def)
  have "g_wCapCheckCounter k' = int 1 mod 1000"
    by (rule MainLoop_capability_counter [OF _ _ _ _ k'])
      (auto dest!: IsTaskReady_state simp: demo_kernel_def)
  with k' show ?thesis by auto
qed

text \<open>
  A task that releases an object and waits for nothing is ready again at once: \<^verbatim>\<open>SysReleaseObject\<close> sets
  the timeout to the present before it switches, so the state the kernel sees is ready whatever
  \<^verbatim>\<open>m_wState\<close> says, and the interim state EVENT_RELEASING_OBJECT2 is only written after the task has
  got the processor back.
\<close>

theorem SysReleaseObject_ready_at_switch:
  assumes "g_pCurrentTask k = t" and "t \<noteq> 0" and "m_iOwner (ymem k p) = t"
    and "GetTime k < 140737488355328" and "- 140737488355328 \<le> GetTime k"
  shows "\<exists>k1. SysReleaseObject switch p k
      = Some (upd_task (g_pCurrentTask (switch k1)) (m_wState_update (\<lambda>_. EVENT_RELEASING_OBJECT2)) (switch k1))
    \<and> Kernel_IsTaskReady t k1 = Some (True, k1) \<and> m_wState (tasks k1 t) = m_wState (tasks k t)"
proof -
  let ?w = "ymem k p"
  let ?k = "k\<lparr>ymem := (ymem k)(p := (if m_iCount ?w \<noteq> 0
      then m_iOwner ?w OR push_bit 16 (m_iCount ?w - 1) else 0))\<rparr>"
  let ?k1 = "Kernel_SetTimeout 0 ?k"
  have "long48 (GetTime k) = GetTime k" using assms(4,5) by (simp add: long48_id)
  then have "m_lTimeout (tasks ?k1 t) = GetTime ?k1" "m_wState (tasks ?k1 t) = m_wState (tasks k t)"
    using assms(1,2) by (simp_all add: Kernel_SetTimeout_def KERNEL_OWNER_def GetTime_def)
  then show ?thesis
    using assms(1-3)
    by (intro exI [of _ ?k1])
       (simp add: SysReleaseObject_def KERNEL_OWNER_def Let_def Kernel_IsTaskReady_def)
qed

theorem SysReleaseObject_ready_at_switch_witness:
  "\<exists>k1. SysReleaseObject (\<lambda>k. k) 0x40 (demo_kernel\<lparr>ymem := \<lambda>_. 0x200\<rparr>)
      = Some (upd_task (g_pCurrentTask k1) (m_wState_update (\<lambda>_. EVENT_RELEASING_OBJECT2)) k1)
    \<and> Kernel_IsTaskReady 0x200 k1 = Some (True, k1)"
  using SysReleaseObject_ready_at_switch [of "demo_kernel\<lparr>ymem := \<lambda>_. 0x200\<rparr>" "0x200" "0x40" "\<lambda>k. k"]
  by (auto simp: demo_kernel_def m_iOwner_def GetTime_def)

end
