(* ===== verification/Overlay.thy ===== *)
theory Overlay imports Kernel begin

text \<open>
  The overlay kernel: the files of \<^verbatim>\<open>System/kernel\<close> whose names start with \<^verbatim>\<open>overlay\<close> replace their
  base versions when the code of tasks is loaded on demand into P-memory regions. A task is only
  ready when every region it needs holds the resource it needs; otherwise it is noted in
  \<^verbatim>\<open>g_pTaskToLoad\<close> and the overlay manager task is signalled, which loads what is missing.

  \<open>sig\<close> is the address of \<^verbatim>\<open>g_OverlaySignal\<close>; \<open>load\<close> is \<^verbatim>\<open>SysLoadResource\<close> for a P-memory target: the error
  code and the new P memory. A halt is \<open>None\<close>, and so is a read past a task's region array.
\<close>

definition REGION_STATIC :: WORD where "REGION_STATIC = - 1"

section \<open>Which tasks are loaded\<close>

fun regions_loaded :: "MemoryRegion list \<Rightarrow> WORD list \<Rightarrow> bool option" where
  "regions_loaded [] ws = Some True"
| "regions_loaded (r # rs) [] = None"
| "regions_loaded (r # rs) (w # ws) =
     (if w \<noteq> 0 \<and> m_wResourceLoaded r \<noteq> w then Some False else regions_loaded rs ws)"

definition Overlay_IsTaskLoaded :: "kernel \<Rightarrow> WORD \<Rightarrow> bool option" where
  "Overlay_IsTaskLoaded k t = regions_loaded (g_RegionTable k) (m_wRegionResources (tasks k t))"

text \<open>The first half of the readiness test: the timeout and the \<^verbatim>\<open>switch\<close> on the state.\<close>

definition overlay_event :: "WORD \<Rightarrow> kernel \<Rightarrow> (bool \<times> kernel) option" where
  "overlay_event t k =
     (let e = tasks k t in
      if m_lTimeout e \<le> GetTime k then Some (True, k)
      else if m_wState e = EVENT_SIGNAL then
        Some (ymem k (m_pWaitingOnPtr e) AND push_bit (unat (m_wWaitingOnWord e)) 1 \<noteq> 0, k)
      else if m_wState e = EVENT_RELEASING_OBJECT2 then
        Some (False, upd_task t (m_wState_update (\<lambda>_. EVENT_RELEASING_OBJECT1)) k)
      else if m_wState e = EVENT_RELEASING_OBJECT1 then
        Some (False, upd_task t (m_wState_update (\<lambda>_. EVENT_TIMEOUT)) k)
      else do { r \<leftarrow> waiting_done k t; Some (r, k) })"

text \<open>The second half: an unloaded task is a candidate to load instead.\<close>

definition note_task_to_load :: "WORD \<Rightarrow> WORD \<Rightarrow> kernel \<Rightarrow> kernel" where
  "note_task_to_load sig t k =
     SysSignal sig 1
       (if g_pTaskToLoad k \<noteq> 0 then
          (if m_wPriority (tasks k (g_pTaskToLoad k)) < m_wPriority (tasks k t)
           then k\<lparr>g_pTaskToLoad := t\<rparr> else k)
        else k\<lparr>g_pTaskToLoad := t\<rparr>)"

definition Overlay_IsTaskReady :: "WORD \<Rightarrow> WORD \<Rightarrow> kernel \<Rightarrow> (bool \<times> kernel) option" where
  "Overlay_IsTaskReady sig t k =
     do { (rtn, k1) \<leftarrow> overlay_event t k;
          if rtn then
            do { l \<leftarrow> Overlay_IsTaskLoaded k1 t;
                 if l then Some (True, k1) else Some (False, note_task_to_load sig t k1) }
          else Some (False, k1) }"

section \<open>Loading\<close>

definition LoadCode ::
  "(WORD \<Rightarrow> int \<Rightarrow> (int \<Rightarrow> WORD) \<Rightarrow> WORD \<times> (int \<Rightarrow> WORD)) \<Rightarrow> WORD \<Rightarrow> MemoryRegion
     \<Rightarrow> (int \<Rightarrow> WORD) \<Rightarrow> (MemoryRegion \<times> (int \<Rightarrow> WORD)) option" where
  "LoadCode load wResource r pm =
     (let (err, pm') = load wResource (m_StartAddress r) pm
      in if err \<noteq> 0 then None else Some (r\<lparr>m_wResourceLoaded := wResource\<rparr>, pm'))"

text \<open>The region loop of the manager, with the load counter.\<close>

definition load_region where
  "load_region load r w n pm =
     (if w \<noteq> 0 \<and> w \<noteq> m_wResourceLoaded r
      then do { (r', pm') \<leftarrow> LoadCode load w r pm; Some (r', n + 1, pm') }
      else Some (r, n :: int, pm))"

fun load_regions where
  "load_regions load [] ws n pm = Some ([], n, pm)"
| "load_regions load (r # rs) [] n pm = None"
| "load_regions load (r # rs) (w # ws) n pm =
     do { (r', n', pm') \<leftarrow> load_region load r w n pm;
          (rs', n'', pm'') \<leftarrow> load_regions load rs ws n' pm';
          Some (r' # rs', n'', pm'') }"

text \<open>One turn of \<^verbatim>\<open>OverlayManagerTask\<close>, after \<^verbatim>\<open>SysWaitOnSignal\<close> has returned.\<close>

definition OverlayManagerTask_turn where
  "OverlayManagerTask_turn load k =
     (if g_pTaskToLoad k \<noteq> 0 then
        do { (rs, n, pm) \<leftarrow> load_regions load (g_RegionTable k)
                 (m_wRegionResources (tasks k (g_pTaskToLoad k))) (glb_iLoadCount k) (pmem k);
             Some (k\<lparr>g_RegionTable := rs, pmem := pm, g_pTaskToLoad := 0, glb_iLoadCount := 0\<rparr>) }
      else Some k)"

text \<open>
  \<^verbatim>\<open>OverlayManager\<close> loads what the current task needs, with \<^verbatim>\<open>g_pCurrentTask\<close> NULL during each load and
  put back after it.
\<close>

definition OverlayManager where
  "OverlayManager load k =
     (if g_pCurrentTask k \<noteq> 0 then
        do { (rs, n, pm) \<leftarrow> load_regions load (g_RegionTable k)
                 (m_wRegionResources (tasks k (g_pCurrentTask k))) 0 (pmem k);
             Some (k\<lparr>g_RegionTable := rs, pmem := pm\<rparr>) }
      else Some k)"

section \<open>Switching and start-up\<close>

definition Overlay_SwitchToTask :: "(kernel \<Rightarrow> kernel) \<Rightarrow> WORD \<Rightarrow> kernel \<Rightarrow> kernel option" where
  "Overlay_SwitchToTask switch t k =
     (if KERNEL_OWNER = g_pCurrentTask k then None
      else let k1 = switch (k\<lparr>g_pCurrentTask := t, Kernel_pTempStack := m_pStackPointer (tasks k t)\<rparr>)
           in Some (upd_task t (m_pStackPointer_update (\<lambda>_. Kernel_pTempStack k1)) k1))"

definition fill_region :: "MemoryRegion \<Rightarrow> (int \<Rightarrow> WORD) \<Rightarrow> (int \<Rightarrow> WORD)" where
  "fill_region r pm =
     (if m_wResourceLoaded r = 0
      then fold (\<lambda>i m. m(i := 0x200)) [m_StartAddress r..m_EndAddress r - 1] pm else pm)"

fun clear_static :: "MemoryRegion list \<Rightarrow> WORD list \<Rightarrow> WORD list option" where
  "clear_static [] ws = Some ws"
| "clear_static (r # rs) [] = None"
| "clear_static (r # rs) (w # ws) =
     map_option ((#) (if m_wResourceLoaded r = REGION_STATIC then 0 else w)) (clear_static rs ws)"

fun overlay_start_tasks :: "WORD \<Rightarrow> WORD \<Rightarrow> WORD list \<Rightarrow> kernel \<Rightarrow> kernel option" where
  "overlay_start_tasks sr starter [] k = Some k"
| "overlay_start_tasks sr starter (t # ts) k =
     (let e = tasks k t; sp = m_pStackPointer e;
          mem = push_frame sp (m_pEntryPoint e) sr starter
                  (stack_fill sp (m_wStackSize e) (word_of_int (m_wTaskID e)) (ymem k))
      in do { ws \<leftarrow> clear_static (g_RegionTable k) (m_wRegionResources e);
              overlay_start_tasks sr starter ts
                (k\<lparr>tasks := (tasks k)(t := e\<lparr>m_wRegionResources := ws, m_pStackPointer := sp + 4\<rparr>),
                   ymem := mem\<rparr>) })"

definition Overlay_Startup :: "WORD \<Rightarrow> WORD \<Rightarrow> kernel \<Rightarrow> kernel option" where
  "Overlay_Startup sr starter k =
     overlay_start_tasks sr starter (g_TaskList k) (k\<lparr>pmem := fold fill_region (g_RegionTable k) (pmem k)\<rparr>)"

section \<open>The readiness test as an instance of the kernel's interface\<close>

lemma note_frame [simp]:
  "g_TaskList (note_task_to_load sig t k) = g_TaskList k"
  "tasks (note_task_to_load sig t k) = tasks k"
  "g_RegionTable (note_task_to_load sig t k) = g_RegionTable k"
  by (simp_all add: note_task_to_load_def SysSignal_def)

lemma overlay_event_frame:
  assumes "overlay_event t k = Some (r, k')"
  shows "g_TaskList k' = g_TaskList k \<and> task_prio k' = task_prio k \<and> g_RegionTable k' = g_RegionTable k
    \<and> g_pTaskToLoad k' = g_pTaskToLoad k
    \<and> (\<forall>u. m_wRegionResources (tasks k' u) = m_wRegionResources (tasks k u))"
  using assms unfolding overlay_event_def Let_def
  by (auto simp: task_prio_def fun_eq_iff split: if_splits Option.bind_splits)

lemma Overlay_IsTaskReady_cases:
  assumes "Overlay_IsTaskReady sig t k = Some (r, k')"
  obtains k1 where "overlay_event t k = Some (False, k1)" and "r = False" and "k' = k1"
  | k1 where "overlay_event t k = Some (True, k1)" and "Overlay_IsTaskLoaded k1 t = Some r"
      and "k' = (if r then k1 else note_task_to_load sig t k1)"
  using assms by (auto simp: Overlay_IsTaskReady_def split: Option.bind_splits if_splits)

lemma Overlay_IsTaskReady_frame:
  assumes "Overlay_IsTaskReady sig t k = Some (r, k')"
  shows "g_TaskList k' = g_TaskList k \<and> task_prio k' = task_prio k \<and> g_RegionTable k' = g_RegionTable k
    \<and> (\<forall>u. m_wRegionResources (tasks k' u) = m_wRegionResources (tasks k u))"
  using assms
  by (cases rule: Overlay_IsTaskReady_cases)
     (use overlay_event_frame in \<open>force simp: task_prio_def fun_eq_iff\<close>)+

interpretation overlay: task_poll "Overlay_IsTaskReady sig" for sig
  by unfold_locales (use Overlay_IsTaskReady_frame in blast)+

section \<open>Candidates are not forgotten\<close>

definition expired :: "kernel \<Rightarrow> WORD \<Rightarrow> bool" where
  "expired k t \<longleftrightarrow> m_lTimeout (tasks k t) \<le> GetTime k"

text \<open>\<open>noted sig k u\<close>: the manager is signalled and will load a task at least as urgent as \<open>u\<close>.\<close>

definition noted :: "WORD \<Rightarrow> kernel \<Rightarrow> WORD \<Rightarrow> bool" where
  "noted sig k u \<longleftrightarrow> g_pTaskToLoad k \<noteq> 0 \<and> bit (ymem k sig) 1
     \<and> task_prio k u \<le> task_prio k (g_pTaskToLoad k)"

lemma overlay_event_keeps:
  assumes "overlay_event t k = Some (r, k')"
  shows "expired k' u = expired k u" and "noted sig k' u = noted sig k u"
    and "Overlay_IsTaskLoaded k' u = Overlay_IsTaskLoaded k u"
  using assms unfolding overlay_event_def Let_def
  by (auto simp: expired_def noted_def task_prio_def GetTime_def Overlay_IsTaskLoaded_def
      split: if_splits Option.bind_splits)

lemma note_keeps:
  "expired (note_task_to_load sig t k) u = expired k u"
  "Overlay_IsTaskLoaded (note_task_to_load sig t k) u = Overlay_IsTaskLoaded k u"
  "t \<noteq> 0 \<Longrightarrow> noted sig k u \<Longrightarrow> noted sig (note_task_to_load sig t k) u"
  by (auto simp: note_task_to_load_def SysSignal_def expired_def noted_def task_prio_def GetTime_def
      Overlay_IsTaskLoaded_def bit_simps)

lemma note_notes: "t \<noteq> 0 \<Longrightarrow> noted sig (note_task_to_load sig t k) t"
  by (auto simp: note_task_to_load_def SysSignal_def noted_def task_prio_def bit_simps)

lemma Overlay_IsTaskReady_keeps:
  assumes "Overlay_IsTaskReady sig t k = Some (r, k')"
  shows "expired k' u = expired k u" and "t \<noteq> 0 \<Longrightarrow> noted sig k u \<Longrightarrow> noted sig k' u"
    and "Overlay_IsTaskLoaded k' u = Overlay_IsTaskLoaded k u"
  using assms
  by (cases rule: Overlay_IsTaskReady_cases;
      use overlay_event_keeps note_keeps in \<open>auto split: if_splits\<close>)+

lemma Overlay_IsTaskReady_expired:
  assumes "Overlay_IsTaskReady sig t k = Some (False, k')" and "expired k t" and "t \<noteq> 0"
  shows "Overlay_IsTaskLoaded k t = Some False \<and> noted sig k' t"
proof -
  have "overlay_event t k = Some (True, k)"
    using assms(2) by (simp add: overlay_event_def expired_def)
  with assms(1) show ?thesis
    by (cases rule: Overlay_IsTaskReady_cases) (use note_notes assms(3) in auto)
qed

lemma find_ready_overlay:
  assumes "find_ready (Overlay_IsTaskReady sig) ts k = Some (i, k')" and "0 \<notin> set ts"
  shows "(\<forall>u. noted sig k u \<longrightarrow> noted sig k' u)
    \<and> (\<forall>u\<in>set (case i of None \<Rightarrow> ts | Some n \<Rightarrow> take n ts). expired k u
         \<longrightarrow> Overlay_IsTaskLoaded k u = Some False \<and> noted sig k' u)
    \<and> (\<forall>n. i = Some n \<longrightarrow> Overlay_IsTaskLoaded k (ts ! n) = Some True)"
  using assms
proof (induction ts arbitrary: k i)
  case Nil
  then show ?case by simp
next
  case (Cons t ts)
  obtain r k1 where p: "Overlay_IsTaskReady sig t k = Some (r, k1)"
    using Cons.prems by (cases "Overlay_IsTaskReady sig t k") auto
  note kp = Overlay_IsTaskReady_keeps [OF p]
  show ?case
  proof (cases r)
    case True
    then have "i = Some 0" "k' = k1" using Cons.prems p by auto
    moreover have "Overlay_IsTaskLoaded k t = Some True"
      using p True by (cases rule: Overlay_IsTaskReady_cases) (auto simp: overlay_event_keeps(3))
    ultimately show ?thesis using kp Cons.prems(2) by simp
  next
    case False
    then obtain j where j: "find_ready (Overlay_IsTaskReady sig) ts k1 = Some (j, k')" "i = map_option Suc j"
      using Cons.prems p by (auto split: Option.bind_splits)
    note ih = Cons.IH [OF j(1)]
    have t: "expired k t \<longrightarrow> Overlay_IsTaskLoaded k t = Some False \<and> noted sig k1 t"
      using Overlay_IsTaskReady_expired [of sig t k k1] p False Cons.prems(2) by auto
    show ?thesis
      using ih t kp Cons.prems(2) j(2) by (cases j) auto
  qed
qed

section \<open>Loading makes a task ready\<close>

lemma load_region_Some:
  assumes "load_region load r w n pm = Some (r', n', pm')"
  shows "(w = 0 \<or> m_wResourceLoaded r' = w) \<and> m_StartAddress r' = m_StartAddress r \<and> n \<le> n'"
    and "w = 0 \<or> m_wResourceLoaded r = w \<Longrightarrow> r' = r \<and> n' = n \<and> pm' = pm"
  using assms by (auto simp: load_region_def LoadCode_def split: if_splits prod.splits)

lemma load_regions_loads:
  assumes "load_regions load rs ws n pm = Some (rs', n', pm')"
  shows "regions_loaded rs' ws = Some True \<and> length rs' = length rs
    \<and> map m_StartAddress rs' = map m_StartAddress rs \<and> n \<le> n'
    \<and> (regions_loaded rs ws = Some True \<longrightarrow> rs' = rs \<and> n' = n \<and> pm' = pm)"
  using assms
proof (induction rs arbitrary: ws n pm rs')
  case Nil
  then show ?case by simp
next
  case (Cons r rs)
  obtain w ws' where ws: "ws = w # ws'" using Cons.prems by (cases ws) auto
  obtain r1 n1 pm1 where step: "load_region load r w n pm = Some (r1, n1, pm1)"
    using Cons.prems ws by (auto split: Option.bind_splits)
  obtain rs1 where rest: "load_regions load rs ws' n1 pm1 = Some (rs1, n', pm')" "rs' = r1 # rs1"
    using Cons.prems ws step by (auto split: Option.bind_splits)
  show ?case
    using Cons.IH [OF rest(1)] load_region_Some [OF step] rest(2) ws by auto
qed

lemma load_regions_total:
  assumes "\<And>w a pm. fst (load w a pm) = 0" and "length rs \<le> length ws"
  shows "\<exists>rs' n' pm'. load_regions load rs ws n pm = Some (rs', n', pm')"
  using assms(2)
proof (induction rs arbitrary: ws n pm)
  case Nil
  then show ?case by simp
next
  case (Cons r rs)
  then obtain w ws' where ws: "ws = w # ws'" "length rs \<le> length ws'" by (cases ws) auto
  have "load_region load r w n pm \<noteq> None"
    using assms(1) [of w "m_StartAddress r" pm] by (auto simp: load_region_def LoadCode_def split: prod.splits)
  then obtain r1 n1 pm1 where step: "load_region load r w n pm = Some (r1, n1, pm1)" by auto
  obtain rs1 n2 pm2 where "load_regions load rs ws' n1 pm1 = Some (rs1, n2, pm2)"
    using Cons.IH [OF ws(2)] by blast
  with step ws(1) show ?case by simp
qed


definition overlay_demo :: kernel where
  "overlay_demo = demo_kernel\<lparr>tasks := \<lambda>t. (demo_task t)\<lparr>m_wRegionResources := (if t = 0x200 then [9, 0] else [7, 4])\<rparr>,
     g_RegionTable := [\<lparr>m_wResourceLoaded = 7, m_StartAddress = 100, m_EndAddress = 110\<rparr>,
                       \<lparr>m_wResourceLoaded = 4, m_StartAddress = 200, m_EndAddress = 210\<rparr>]\<rparr>"

lemmas overlay_demo_simps = overlay_demo_def demo_simps Overlay_IsTaskReady_def overlay_event_def
  Overlay_IsTaskLoaded_def note_task_to_load_def SysSignal_def




text \<open>
  The overlay kernel's \<^verbatim>\<open>Kernel_SwitchToTask\<close> asserts that the outgoing \<^verbatim>\<open>g_pCurrentTask\<close>, not the task it
  switches to, differs from KERNEL_OWNER: from the initial value of \<^verbatim>\<open>g_pCurrentTask\<close> in \<^verbatim>\<open>kernel_mem.c\<close> the
  assertion fails for every task, where the base kernel's version switches, and with any other value
  it does not stop a switch to NULL.
\<close>

theorem Overlay_SwitchToTask_assert:
  "(Overlay_SwitchToTask switch t k = None \<longleftrightarrow> g_pCurrentTask k = KERNEL_OWNER)
   \<and> (g_pCurrentTask k \<noteq> KERNEL_OWNER
      \<longrightarrow> Overlay_SwitchToTask switch t k = Some (Kernel_SwitchToTask switch t k))"
  by (auto simp: Overlay_SwitchToTask_def Kernel_SwitchToTask_def Let_def)

theorem Overlay_SwitchToTask_assert_witness:
  "Overlay_SwitchToTask (\<lambda>k. k) 0x200 (demo_kernel\<lparr>g_pCurrentTask := KERNEL_OWNER\<rparr>) = None"
  using Overlay_SwitchToTask_assert [of "\<lambda>k. k" "0x200" "demo_kernel\<lparr>g_pCurrentTask := KERNEL_OWNER\<rparr>"]
  by simp

end
