(* ===== verification/Database.thy ===== *)
theory Database imports Prelude begin

text \<open>
  The media database of \<^verbatim>\<open>System/Common/database\<close>: 512-byte records in \<^verbatim>\<open>ststore.dat\<close> behind a one-record
  write-back buffer, strings in 512-byte slots of \<^verbatim>\<open>ststring.dat\<close>, and two index files of deleted
  handles, \<^verbatim>\<open>ststore.idx\<close> (a ring described by three file offsets) and \<^verbatim>\<open>ststring.idx\<close> (a stack).

  The file system is a binary library: its calls are the fields of \<open>fsapi\<close>, an argument \<open>F\<close> of every
  operation, and what the proofs use of it is the predicate \<open>fs_laws\<close>. \<^verbatim>\<open>DebugBuildAssert\<close> is empty in
  retail builds, so the model has no branch for it. Record offsets and sizes are natural numbers; a
  read or write outside an array is \<open>None\<close>.
\<close>

section \<open>The file system's interface\<close>

record 'fs fsapi =
  Fseek :: "int \<Rightarrow> int \<Rightarrow> 'fs \<Rightarrow> int \<times> 'fs"
  Ftell :: "int \<Rightarrow> 'fs \<Rightarrow> int"
  Fread :: "int \<Rightarrow> nat \<Rightarrow> WORD list \<Rightarrow> 'fs \<Rightarrow> int \<times> WORD list \<times> 'fs"
  Fwrite :: "int \<Rightarrow> WORD list \<Rightarrow> nat \<Rightarrow> 'fs \<Rightarrow> int \<times> 'fs"
  Fopen :: "string \<Rightarrow> string \<Rightarrow> 'fs \<Rightarrow> int \<times> 'fs"
  Fclose :: "int \<Rightarrow> 'fs \<Rightarrow> int \<times> 'fs"
  Fremove :: "string \<Rightarrow> 'fs \<Rightarrow> int \<times> 'fs"
  filegetattrib :: "string \<Rightarrow> 'fs \<Rightarrow> int"
  filesetattrib :: "int \<Rightarrow> int \<Rightarrow> 'fs \<Rightarrow> 'fs"
  FSFreeClusters :: "nat \<Rightarrow> 'fs \<Rightarrow> int"
  BytesPerCluster :: "nat \<Rightarrow> 'fs \<Rightarrow> int"

section \<open>State\<close>

record DBTopRecord =
  StorageID :: int
  BlockSize :: int
  RecordEntrySize :: int
  TotalRecords :: int
  TotalDelRecords :: int
  TotalStrings :: int
  TotalDelStrings :: int
  LastDelRecordIdx :: int
  GetDelRecordIdx :: int
  PutDelRecordIdx :: int

record DBState =
  hStStore_Dat :: int
  hStStore_Idx :: int
  hStString_Dat :: int
  hStString_Idx :: int
  TopRecord :: DBTopRecord

record 'fs db =
  g_DBState :: "nat \<Rightarrow> DBState"
  g_DB_Buffer :: "WORD list"
  g_DB_BufferIndex :: WORD
  g_DB_BufferState :: WORD
  g_DB_Dirty :: bool
  fs :: 'fs

definition DB_MAX_DATABASE_STORES :: nat where "DB_MAX_DATABASE_STORES = 2"
definition DB_RECORD_SIZE_BYTES :: nat where "DB_RECORD_SIZE_BYTES = 512"
definition DB_RECORD_SIZE_WORDS :: nat where "DB_RECORD_SIZE_WORDS = 170"
definition DB_STRING_SIZE_BYTES :: nat where "DB_STRING_SIZE_BYTES = 512"
definition DB_HANDLE_SIZE :: nat where "DB_HANDLE_SIZE = 3"
definition DB_INDEX_MASK :: WORD where "DB_INDEX_MASK = 0x3fff"
definition DB_COUNT_ADD :: WORD where "DB_COUNT_ADD = 0x4000"
definition DB_MEDIA_INDEX_EXTERNAL :: WORD where "DB_MEDIA_INDEX_EXTERNAL = 0x800000"
definition DB_TAG_STRING :: WORD where "DB_TAG_STRING = 0x800000"
definition DB_TAG_NUMBER :: WORD where "DB_TAG_NUMBER = 0x400000"
definition DB_TAG_BLOCK :: WORD where "DB_TAG_BLOCK = 0x200000"
definition DB_TAG_MASK :: WORD where "DB_TAG_MASK = 0xffff00"
definition DB_TAG_SIZE_MASK :: WORD where "DB_TAG_SIZE_MASK = 0x3ff"
definition DB_TAG_NUMBER_VALUE_MASK :: WORD where "DB_TAG_NUMBER_VALUE_MASK = 0xff"
definition DB_ENTRY_DIRTY :: WORD where "DB_ENTRY_DIRTY = 1"
definition DB_CREATED :: int where "DB_CREATED = 1"
definition DB_ERROR_NONE :: int where "DB_ERROR_NONE = 0"
definition DB_ERROR_CRITICAL :: int where "DB_ERROR_CRITICAL = - 1"
definition DB_ERROR_MEDIA :: int where "DB_ERROR_MEDIA = - 2"
definition DB_ALREADY_OPEN :: int where "DB_ALREADY_OPEN = - 3"
definition DB_OPEN_CORRUPT :: int where "DB_OPEN_CORRUPT = - 4"
definition DB_ERROR_NOT_OPEN :: int where "DB_ERROR_NOT_OPEN = - 6"
definition DB_ERROR_INDEX :: int where "DB_ERROR_INDEX = - 7"
definition DB_ERROR_OFFSET :: int where "DB_ERROR_OFFSET = - 8"
definition DB_ERROR_SIZE :: int where "DB_ERROR_SIZE = - 9"
definition DB_ERROR_STRING :: int where "DB_ERROR_STRING = - 10"
definition FILE_NOT_FOUND :: int where "FILE_NOT_FOUND = - 16394"
definition ATTR_HIDDEN :: int where "ATTR_HIDDEN = 2"

lemmas db_consts = DB_MAX_DATABASE_STORES_def DB_RECORD_SIZE_BYTES_def DB_RECORD_SIZE_WORDS_def
  DB_STRING_SIZE_BYTES_def DB_HANDLE_SIZE_def DB_INDEX_MASK_def DB_COUNT_ADD_def
  DB_MEDIA_INDEX_EXTERNAL_def DB_TAG_STRING_def DB_TAG_NUMBER_def DB_TAG_BLOCK_def DB_TAG_MASK_def
  DB_TAG_SIZE_MASK_def DB_TAG_NUMBER_VALUE_MASK_def DB_ENTRY_DIRTY_def
lemmas db_codes = DB_CREATED_def DB_ERROR_NONE_def DB_ERROR_CRITICAL_def DB_ERROR_MEDIA_def
  DB_ALREADY_OPEN_def DB_OPEN_CORRUPT_def DB_ERROR_NOT_OPEN_def DB_ERROR_INDEX_def
  DB_ERROR_OFFSET_def DB_ERROR_SIZE_def DB_ERROR_STRING_def

abbreviation top :: "nat \<Rightarrow> 'fs db \<Rightarrow> DBTopRecord" where
  "top m d \<equiv> TopRecord (g_DBState d m)"

abbreviation upd_top :: "nat \<Rightarrow> (DBTopRecord \<Rightarrow> DBTopRecord) \<Rightarrow> 'fs db \<Rightarrow> 'fs db" where
  "upd_top m f d \<equiv> d\<lparr>g_DBState := (g_DBState d)(m := TopRecord_update f (g_DBState d m))\<rparr>"

section \<open>The record buffer\<close>

definition GetMediaIndex :: "WORD \<Rightarrow> nat" where
  "GetMediaIndex h = (if DB_MEDIA_INDEX_EXTERNAL AND h \<noteq> 0 then 1 else 0)"

definition SeekDB :: "'fs fsapi \<Rightarrow> int \<Rightarrow> int \<Rightarrow> 'fs \<Rightarrow> int \<times> 'fs" where
  "SeekDB F hFile lPos s =
     (let (fs_err, s1) = Fseek F hFile lPos s
      in if fs_err \<noteq> 0 then (- 1, s1)
         else if Ftell F hFile s1 \<noteq> lPos then (- 1, s1) else (0, s1))"

definition record_pos :: "WORD \<Rightarrow> int" where
  "record_pos h = int24 (int DB_RECORD_SIZE_BYTES * uint (h AND DB_INDEX_MASK))"

definition BufferFlush :: "'fs fsapi \<Rightarrow> 'fs db \<Rightarrow> int \<times> 'fs db" where
  "BufferFlush F d =
     (if g_DB_BufferIndex d = - 1 then (0, d)
      else if g_DB_BufferState d AND DB_ENTRY_DIRTY = 0 then (0, d)
      else
        let h = hStStore_Dat (g_DBState d (GetMediaIndex (g_DB_BufferIndex d)));
            (e, s1) = SeekDB F h (record_pos (g_DB_BufferIndex d)) (fs d)
        in if e < 0 then (DB_ERROR_CRITICAL, d\<lparr>fs := s1\<rparr>)
           else
             let (n, s2) = Fwrite F h (g_DB_Buffer d) DB_RECORD_SIZE_BYTES s1
             in if n \<noteq> int DB_RECORD_SIZE_BYTES then (DB_ERROR_CRITICAL, d\<lparr>fs := s2\<rparr>)
                else (0, d\<lparr>fs := s2, g_DB_BufferState := g_DB_BufferState d AND NOT DB_ENTRY_DIRTY\<rparr>))"

definition BufferUpdate :: "'fs fsapi \<Rightarrow> WORD \<Rightarrow> 'fs db \<Rightarrow> 'fs db" where
  "BufferUpdate F r d =
     (if g_DB_BufferIndex d = r then d
      else
        let d1 = snd (BufferFlush F d);
            h = hStStore_Dat (g_DBState d1 (GetMediaIndex r));
            s1 = snd (Fseek F h (record_pos r) (fs d1));
            (BytesRead, buf, s2) = Fread F h DB_RECORD_SIZE_BYTES (g_DB_Buffer d1) s1
        in d1\<lparr>g_DB_BufferIndex := r, g_DB_Buffer := buf, fs := s2,
              g_DB_BufferState := g_DB_BufferState d1 AND NOT DB_ENTRY_DIRTY\<rparr>)"

text \<open>\<open>nwords n\<close> is the number of turns of \<^verbatim>\<open>for (i=0; i<n; i+=3)\<close>.\<close>

definition nwords :: "nat \<Rightarrow> nat" where
  "nwords n = (n + 2) div 3"

definition words_at :: "WORD list \<Rightarrow> nat \<Rightarrow> nat \<Rightarrow> WORD list option" where
  "words_at buf i n = (if i + n \<le> length buf then Some (take n (drop i buf)) else None)"

definition overwrite :: "nat \<Rightarrow> WORD list \<Rightarrow> WORD list \<Rightarrow> WORD list" where
  "overwrite i ws buf = take i buf @ ws @ drop (i + length ws) buf"

text \<open>A read gives its error code and the words copied to the caller (none on an error).\<close>

definition ReadDatabaseRecord ::
  "'fs fsapi \<Rightarrow> WORD \<Rightarrow> nat \<Rightarrow> nat \<Rightarrow> 'fs db \<Rightarrow> (int \<times> WORD list \<times> 'fs db) option" where
  "ReadDatabaseRecord F r RecordOffset Size d =
     (if DB_RECORD_SIZE_BYTES < RecordOffset + Size then Some (DB_ERROR_OFFSET, [], d)
      else let d1 = BufferUpdate F r d
           in do { ws \<leftarrow> words_at (g_DB_Buffer d1) ((RecordOffset + 2) div 3) (nwords Size);
                   Some (DB_ERROR_NONE, ws, d1) })"

definition WriteDatabaseRecord ::
  "'fs fsapi \<Rightarrow> WORD \<Rightarrow> nat \<Rightarrow> nat \<Rightarrow> WORD list \<Rightarrow> 'fs db \<Rightarrow> (int \<times> 'fs db) option" where
  "WriteDatabaseRecord F r RecordOffset Size pBuffer d =
     (if DB_RECORD_SIZE_BYTES \<le> RecordOffset + Size then Some (DB_ERROR_OFFSET, d)
      else let d1 = BufferUpdate F r d; i = (RecordOffset + 2) div 3
           in do { ws \<leftarrow> words_at pBuffer 0 (nwords Size);
                   old \<leftarrow> words_at (g_DB_Buffer d1) i (nwords Size);
                   Some (DB_ERROR_NONE, d1\<lparr>g_DB_Buffer := overwrite i ws (g_DB_Buffer d1),
                                            g_DB_BufferState := DB_ENTRY_DIRTY\<rparr>) })"

section \<open>Numbers and blocks\<close>

definition DBSetNumber :: "'fs fsapi \<Rightarrow> WORD \<Rightarrow> nat \<Rightarrow> nat \<Rightarrow> WORD list \<Rightarrow> 'fs db \<Rightarrow> (int \<times> 'fs db) option" where
  "DBSetNumber F r RecordOffset Size pBuffer d =
     (if 4 < Size then Some (DB_ERROR_SIZE, d)
      else do { ws \<leftarrow> words_at pBuffer 0 (if 3 < Size then 2 else 1);
                let tag = (if 3 < Size then ws ! 1 AND DB_TAG_NUMBER_VALUE_MASK else 0) OR DB_TAG_NUMBER
                in WriteDatabaseRecord F r RecordOffset 6 [tag, ws ! 0] d })"

text \<open>On an error of the read the caller's words come from the uninitialised local \<open>junk\<close>.\<close>

definition DBGetNumber ::
  "'fs fsapi \<Rightarrow> WORD list \<Rightarrow> WORD \<Rightarrow> nat \<Rightarrow> nat \<Rightarrow> 'fs db \<Rightarrow> (int \<times> WORD list \<times> 'fs db) option" where
  "DBGetNumber F junk r RecordOffset Size d =
     (if 4 < Size then Some (DB_ERROR_SIZE, [], d)
      else do { (RetVal, ws, d1) \<leftarrow> ReadDatabaseRecord F r RecordOffset 6 d;
                let b = (if RetVal = DB_ERROR_NONE then ws else junk)
                in Some (RetVal, b ! 1 # (if 3 < Size then [b ! 0 AND DB_TAG_NUMBER_VALUE_MASK] else []), d1) })"

definition DBSetBlock :: "'fs fsapi \<Rightarrow> WORD \<Rightarrow> nat \<Rightarrow> nat \<Rightarrow> WORD list \<Rightarrow> 'fs db \<Rightarrow> (int \<times> 'fs db) option" where
  "DBSetBlock F r RecordOffset Size pBuffer d =
     do { (RetCode, d1) \<leftarrow> WriteDatabaseRecord F r RecordOffset 3 [DB_TAG_BLOCK + word_of_nat Size] d;
          if RetCode \<noteq> DB_ERROR_NONE then Some (RetCode, d1)
          else WriteDatabaseRecord F r (RecordOffset + 3) Size pBuffer d1 }"

text \<open>\<open>pSize\<close> is the caller's buffer size; the result holds the block's size next to its words.\<close>

definition DBGetBlock ::
  "'fs fsapi \<Rightarrow> WORD \<Rightarrow> nat \<Rightarrow> nat \<Rightarrow> 'fs db \<Rightarrow> (int \<times> nat \<times> WORD list \<times> 'fs db) option" where
  "DBGetBlock F r RecordOffset pSize d =
     do { (RetCode, ws, d1) \<leftarrow> ReadDatabaseRecord F r RecordOffset 3 d;
          if RetCode \<noteq> DB_ERROR_NONE then Some (RetCode, pSize, [], d1)
          else let n = unat (ws ! 0 AND DB_TAG_SIZE_MASK)
               in if pSize < n then Some (DB_ERROR_SIZE, n, [], d1)
                  else do { (e, ws', d2) \<leftarrow> ReadDatabaseRecord F r (RecordOffset + 3) n d1;
                            Some (e, n, ws', d2) } }"

definition DBGetNumRecords :: "nat \<Rightarrow> 'fs db \<Rightarrow> int \<times> int option" where
  "DBGetNumRecords m d =
     (if DB_MAX_DATABASE_STORES \<le> m then (DB_ERROR_MEDIA, None)
      else if hStStore_Dat (g_DBState d m) = 0 then (DB_ERROR_NOT_OPEN, None)
      else (DB_ERROR_NONE, Some (TotalRecords (top m d))))"

definition DBGetNumDeletedRecords :: "nat \<Rightarrow> 'fs db \<Rightarrow> int \<times> int option" where
  "DBGetNumDeletedRecords m d =
     (if DB_MAX_DATABASE_STORES \<le> m then (DB_ERROR_MEDIA, None)
      else if hStStore_Dat (g_DBState d m) = 0 then (DB_ERROR_NOT_OPEN, None)
      else (DB_ERROR_NONE, Some (TotalDelRecords (top m d))))"

section \<open>Allocating and deleting records\<close>

text \<open>The ring part of \<^verbatim>\<open>DBNewRecord\<close>: one deleted handle has been taken from offset Get.\<close>

definition ring_get :: "DBTopRecord \<Rightarrow> DBTopRecord" where
  "ring_get t =
     (let t1 = t\<lparr>TotalDelRecords := TotalDelRecords t - 1\<rparr>;
          t2 = (if GetDelRecordIdx t1 = LastDelRecordIdx t1
                then t1\<lparr>GetDelRecordIdx := 0, LastDelRecordIdx := PutDelRecordIdx t1\<rparr>
                else
                  let t3 = (if PutDelRecordIdx t1 = LastDelRecordIdx t1
                            then t1\<lparr>PutDelRecordIdx := GetDelRecordIdx t1,
                                    LastDelRecordIdx := LastDelRecordIdx t1 - int DB_HANDLE_SIZE\<rparr>
                            else t1)
                  in if GetDelRecordIdx t3 = LastDelRecordIdx t3 then t3\<lparr>GetDelRecordIdx := 0\<rparr>
                     else t3\<lparr>GetDelRecordIdx := GetDelRecordIdx t3 + int DB_HANDLE_SIZE\<rparr>)
      in if GetDelRecordIdx t2 = PutDelRecordIdx t2
         then t2\<lparr>GetDelRecordIdx := 0, PutDelRecordIdx := 0, LastDelRecordIdx := 0\<rparr>
         else t2)"

text \<open>The ring part of \<^verbatim>\<open>DBDeleteRecord\<close>: a handle has been written at offset Put.\<close>

definition ring_put :: "DBTopRecord \<Rightarrow> DBTopRecord" where
  "ring_put t =
     (let t1 = (if PutDelRecordIdx t = LastDelRecordIdx t
                then (if GetDelRecordIdx t = 0
                      then t\<lparr>PutDelRecordIdx := PutDelRecordIdx t + int DB_HANDLE_SIZE,
                             LastDelRecordIdx := LastDelRecordIdx t + int DB_HANDLE_SIZE\<rparr>
                      else t\<lparr>PutDelRecordIdx := 0,
                             LastDelRecordIdx := LastDelRecordIdx t - int DB_HANDLE_SIZE\<rparr>)
                else
                  let t2 = t\<lparr>PutDelRecordIdx := PutDelRecordIdx t + int DB_HANDLE_SIZE\<rparr>
                  in if PutDelRecordIdx t2 = GetDelRecordIdx t2
                     then t2\<lparr>LastDelRecordIdx := LastDelRecordIdx t2 + int DB_HANDLE_SIZE,
                             PutDelRecordIdx := LastDelRecordIdx t2 + int DB_HANDLE_SIZE,
                             GetDelRecordIdx := 0\<rparr>
                     else t2)
      in t1\<lparr>TotalRecords := TotalRecords t1 - 1, TotalDelRecords := TotalDelRecords t1 + 1\<rparr>)"

text \<open>
  \<^verbatim>\<open>DBNewRecord\<close>; \<open>rec0\<close> is what \<^verbatim>\<open>*pRecordIndex\<close> held before the call (it survives when the index
  file cannot be read). The result's second component is \<^verbatim>\<open>*pRecordIndex\<close> afterwards.
\<close>

definition fresh_handle :: "WORD \<Rightarrow> WORD" where
  "fresh_handle h = (h + DB_COUNT_ADD) AND NOT DB_MEDIA_INDEX_EXTERNAL"

text \<open>The end of the function: the buffer, flushed, becomes the new record's, all zero.\<close>

definition start_record :: "'fs fsapi \<Rightarrow> WORD \<Rightarrow> 'fs db \<Rightarrow> WORD \<times> 'fs db" where
  "start_record F h d =
     (h, (snd (BufferFlush F d))\<lparr>g_DB_Buffer := replicate (DB_RECORD_SIZE_WORDS + 1) 0,
            g_DB_BufferIndex := h, g_DB_BufferState := DB_ENTRY_DIRTY\<rparr>)"

definition DBNewRecord :: "'fs fsapi \<Rightarrow> nat \<Rightarrow> WORD \<Rightarrow> 'fs db \<Rightarrow> int \<times> WORD \<times> 'fs db" where
  "DBNewRecord F m rec0 d =
     (if DB_MAX_DATABASE_STORES \<le> m then (DB_ERROR_MEDIA, rec0, d)
      else let d = d\<lparr>g_DB_Dirty := True\<rparr> in
      if 0x4000 \<le> TotalRecords (top m d) then (DB_ERROR_INDEX, rec0, d)
      else
        let d1 = upd_top m (\<lambda>t. t\<lparr>TotalRecords := TotalRecords t + 1\<rparr>) d;
            (h, d2) =
              (if TotalDelRecords (top m d1) = 0 then (word_of_int (TotalRecords (top m d1)), d1)
               else
                 let f = hStStore_Idx (g_DBState d1 m);
                     s1 = snd (Fseek F f (GetDelRecordIdx (top m d1)) (fs d1));
                     (n, ws, s2) = Fread F f DB_HANDLE_SIZE [rec0] s1
                 in (fresh_handle (ws ! 0), upd_top m ring_get (d1\<lparr>fs := s2\<rparr>)));
            (h', d3) = start_record F (if m \<noteq> 0 then h OR DB_MEDIA_INDEX_EXTERNAL else h) d2
        in (DB_ERROR_NONE, h', d3))"

text \<open>
  The duplicate scan of \<^verbatim>\<open>IndexFileAdd\<close> from the start of the file, with \<open>lPosition\<close> bytes left; \<open>tmp\<close> is
  the local the handles are read into. The result is \<^verbatim>\<open>lPosition\<close> when the loop ends, \<open>None\<close> on a short
  read.
\<close>

function index_scan :: "'fs fsapi \<Rightarrow> int \<Rightarrow> WORD \<Rightarrow> int \<Rightarrow> WORD \<Rightarrow> 'fs \<Rightarrow> (int \<times> 'fs) option" where
  "index_scan F f x lPosition tmp s =
     (if 0 < lPosition then
        (let (r, ws, s1) = Fread F f DB_HANDLE_SIZE [tmp] s
         in if r \<noteq> int DB_HANDLE_SIZE then None
            else if ws ! 0 = x then Some (lPosition, s1)
            else index_scan F f x (lPosition - int DB_HANDLE_SIZE) (ws ! 0) s1)
      else Some (lPosition, s))"
  by pat_completeness auto
termination
  by (relation "measure (\<lambda>(F, f, x, l, tmp, s). nat l)") (auto simp: db_consts)

declare index_scan.simps [simp del]

definition IndexFileAdd :: "'fs fsapi \<Rightarrow> int \<Rightarrow> WORD \<Rightarrow> 'fs \<Rightarrow> int \<times> 'fs" where
  "IndexFileAdd F f x s =
     (let FilePosition = Ftell F f s;
          s1 = snd (Fseek F f 0 s)
      in case index_scan F f x FilePosition 0 s1 of
           None \<Rightarrow> (DB_ERROR_CRITICAL, s1)
         | Some (lPosition, s2) \<Rightarrow>
             if lPosition \<noteq> 0 then (DB_ERROR_NONE, s2)
             else let s3 = snd (Fseek F f FilePosition s2);
                 (n, s4) = Fwrite F f [x] DB_HANDLE_SIZE s3
             in (if n \<noteq> int DB_HANDLE_SIZE then DB_ERROR_CRITICAL else DB_ERROR_NONE, s4))"

definition DeleteString :: "'fs fsapi \<Rightarrow> nat \<Rightarrow> WORD \<Rightarrow> 'fs db \<Rightarrow> int \<times> 'fs db" where
  "DeleteString F m x d =
     (let f = hStString_Idx (g_DBState d m);
          s1 = snd (Fseek F f (int24 (TotalDelStrings (top m d) * int DB_HANDLE_SIZE)) (fs d));
          (RetCode, s2) = IndexFileAdd F f x s1; d1 = d\<lparr>fs := s2\<rparr>
      in if RetCode < 0 then (RetCode, d1)
         else (DB_ERROR_NONE, upd_top m (\<lambda>t. t\<lparr>TotalStrings := TotalStrings t - 1,
                                                TotalDelStrings := TotalDelStrings t + 1\<rparr>) d1))"

text \<open>The loop over the record's entries, from word \<open>i\<close>.\<close>

function delete_strings :: "'fs fsapi \<Rightarrow> nat \<Rightarrow> nat \<Rightarrow> 'fs db \<Rightarrow> (int \<times> 'fs db) option" where
  "delete_strings F m i d =
     (if DB_RECORD_SIZE_WORDS \<le> i then Some (0, d)
      else if length (g_DB_Buffer d) \<le> i + 1 then None
      else if g_DB_Buffer d ! i AND DB_TAG_STRING \<noteq> 0 then
        (let (e, d1) = DeleteString F m (g_DB_Buffer d ! (i + 1)) d
         in if e < 0 then Some (DB_ERROR_CRITICAL, d1) else delete_strings F m (i + 2) d1)
      else if g_DB_Buffer d ! i AND DB_TAG_BLOCK \<noteq> 0 then
        delete_strings F m (i + unat (g_DB_Buffer d ! i AND DB_TAG_SIZE_MASK) div 3 + 1) d
      else delete_strings F m (i + 2) d)"
  by pat_completeness auto
termination
  by (relation "measure (\<lambda>(F, m, i, d). DB_RECORD_SIZE_WORDS - i)") (auto simp: db_consts)

declare delete_strings.simps [simp del]

definition DBDeleteRecord :: "'fs fsapi \<Rightarrow> WORD \<Rightarrow> 'fs db \<Rightarrow> (int \<times> 'fs db) option" where
  "DBDeleteRecord F r d =
     (let m = GetMediaIndex r; d1 = BufferUpdate F r (d\<lparr>g_DB_Dirty := True\<rparr>) in
      if length (g_DB_Buffer d1) \<le> DB_RECORD_SIZE_WORDS then None
      else if g_DB_Buffer d1 ! DB_RECORD_SIZE_WORDS AND 0xffff \<noteq> 0 then Some (DB_ERROR_INDEX, d1)
      else
        let f = hStStore_Idx (g_DBState d1 m);
            s1 = snd (Fseek F f (PutDelRecordIdx (top m d1)) (fs d1));
            s2 = snd (Fwrite F f [r] DB_HANDLE_SIZE s1);
            d2 = upd_top m ring_put (d1\<lparr>fs := s2\<rparr>)
        in do { (e, d3) \<leftarrow> delete_strings F m 0 d2;
                if e < 0 then Some (e, d3)
                else
                  let d4 = d3\<lparr>g_DB_Buffer := (g_DB_Buffer d3)[DB_RECORD_SIZE_WORDS := - 1],
                              g_DB_BufferState := g_DB_BufferState d3 OR DB_ENTRY_DIRTY\<rparr>
                  in Some (0, snd (BufferFlush F d4)) })"

section \<open>Strings\<close>

text \<open>Byte \<open>n\<close> of a packed array.\<close>

definition get_byte :: "WORD list \<Rightarrow> nat \<Rightarrow> WORD" where
  "get_byte ws n = drop_bit (8 * (n mod 3)) (ws ! (n div 3)) AND 0xff"

definition put_byte :: "WORD list \<Rightarrow> nat \<Rightarrow> WORD \<Rightarrow> WORD list" where
  "put_byte ws n b =
     ws[n div 3 := (ws ! (n div 3) AND NOT (push_bit (8 * (n mod 3)) 0xff))
                     OR push_bit (8 * (n mod 3)) (b AND 0xff)]"

text \<open>\<^verbatim>\<open>NumBytesFromOffsetToNextWord\<close>.\<close>

definition to_next_word :: "nat \<Rightarrow> nat" where
  "to_next_word off = (if off mod 3 = 1 then 2 else if off mod 3 = 2 then 1 else 0)"

text \<open>
  Which slot a string goes to: \<open>entry\<close> is the record's two-word entry; the result is the slot index
  stored in the entry and the byte position sought in \<^verbatim>\<open>ststring.dat\<close>.
\<close>

definition string_slot :: "'fs fsapi \<Rightarrow> nat \<Rightarrow> WORD list \<Rightarrow> WORD \<Rightarrow> 'fs db \<Rightarrow> WORD \<times> int \<times> 'fs db" where
  "string_slot F m entry junk d =
     (if entry ! 0 AND DB_TAG_MASK \<noteq> DB_TAG_STRING then
        (let (x, lSeekPos, d1) =
               (if TotalDelStrings (top m d) \<noteq> 0 then
                  let f = hStString_Idx (g_DBState d m);
                      s1 = snd (Fseek F f (int24 ((TotalDelStrings (top m d) - 1) * 3)) (fs d));
                      (n, ws, s2) = Fread F f 3 [junk] s1
                  in (ws ! 0, int24 (sint (ws ! 0) * int DB_STRING_SIZE_BYTES),
                      upd_top m (\<lambda>t. t\<lparr>TotalDelStrings := TotalDelStrings t - 1\<rparr>) (d\<lparr>fs := s2\<rparr>))
                else (word_of_int (TotalStrings (top m d)),
                      int24 (TotalStrings (top m d) * int DB_STRING_SIZE_BYTES), d))
         in (x, lSeekPos, upd_top m (\<lambda>t. t\<lparr>TotalStrings := TotalStrings t + 1\<rparr>) d1))
      else (entry ! 1, int24 (sint (entry ! 1) * int DB_STRING_SIZE_BYTES), d))"

definition DBSetString ::
  "'fs fsapi \<Rightarrow> WORD \<Rightarrow> WORD \<Rightarrow> nat \<Rightarrow> nat \<Rightarrow> WORD list \<Rightarrow> nat \<Rightarrow> 'fs db \<Rightarrow> (int \<times> 'fs db) option" where
  "DBSetString F junk r RecordOffset Size pBuffer off d =
     (if DB_STRING_SIZE_BYTES < Size then Some (DB_ERROR_SIZE, d)
      else let m = GetMediaIndex r in
        do { (RetVal, entry, d1) \<leftarrow> ReadDatabaseRecord F r RecordOffset 6 d;
             if RetVal \<noteq> DB_ERROR_NONE then Some (RetVal, d1)
             else
               let (x, lSeekPos, d2) = string_slot F m entry junk d1
               in do { (e, d3) \<leftarrow> WriteDatabaseRecord F r RecordOffset 6
                                      [word_of_nat Size OR DB_TAG_STRING, x] d2;
                       if e \<noteq> DB_ERROR_NONE then Some (DB_ERROR_CRITICAL, d3)
                       else
                         let f = hStString_Dat (g_DBState d3 m);
                             (e1, s1) = SeekDB F f lSeekPos (fs d3);
                             k = to_next_word off;
                             FirstWord = (if k = 1 then get_byte pBuffer off
                                          else if k = 2 then push_bit 8 (get_byte pBuffer (off + 1))
                                                             OR get_byte pBuffer off else 0)
                         in if e1 \<noteq> 0 then Some (DB_ERROR_CRITICAL, d3\<lparr>fs := s1\<rparr>)
                            else
                              let (n1, s2) = (if k \<noteq> 0 then Fwrite F f [FirstWord] k s1 else (0, s1))
                              in if n1 \<noteq> int k then Some (DB_ERROR_CRITICAL, d3\<lparr>fs := s2\<rparr>)
                                 else
                                   let p = drop (off div 3 + (if 0 < k then 1 else 0)) pBuffer;
                                       (n2, s3) = Fwrite F f p (DB_STRING_SIZE_BYTES - k) s2
                                   in Some (if n2 \<noteq> int (DB_STRING_SIZE_BYTES - k) then DB_ERROR_CRITICAL
                                            else DB_ERROR_NONE, d3\<lparr>fs := s3\<rparr>) } })"

text \<open>
  The result of \<^verbatim>\<open>DBGetString\<close>: the error code, \<^verbatim>\<open>*pSize\<close> and the caller's buffer. The bytes are read to
  the next word boundary and then moved down to the offset, lowest first.
\<close>

definition move_down :: "nat \<Rightarrow> nat \<Rightarrow> nat \<Rightarrow> WORD list \<Rightarrow> WORD list" where
  "move_down dst src n ws = fold (\<lambda>j ws. put_byte ws (dst + j) (get_byte ws (src + j))) [0..<n] ws"

definition DBGetString ::
  "'fs fsapi \<Rightarrow> WORD \<Rightarrow> nat \<Rightarrow> int \<Rightarrow> WORD list \<Rightarrow> nat \<Rightarrow> 'fs db
     \<Rightarrow> (int \<times> int \<times> WORD list \<times> 'fs db) option" where
  "DBGetString F r RecordOffset pSize pBuffer off d =
     (let m = GetMediaIndex r in
      do { (RetVal, entry, d1) \<leftarrow> ReadDatabaseRecord F r RecordOffset 6 d;
           if RetVal \<noteq> DB_ERROR_NONE then Some (RetVal, pSize, pBuffer, d1)
           else if entry ! 0 AND DB_TAG_STRING = 0 then Some (DB_ERROR_STRING, pSize, pBuffer, d1)
           else
             let n = unat (entry ! 0 AND DB_TAG_SIZE_MASK)
             in if pSize < int n then Some (DB_ERROR_SIZE, int n, pBuffer, d1)
                else
                  let f = hStString_Dat (g_DBState d1 m);
                      (e, s1) = SeekDB F f (int24 (sint (entry ! 1) * int DB_STRING_SIZE_BYTES)) (fs d1);
                      k = to_next_word off;
                      w = off div 3 + (if 0 < k then 1 else 0)
                  in if e < 0 then Some (DB_ERROR_CRITICAL, int n, pBuffer, d1\<lparr>fs := s1\<rparr>)
                     else
                       let (r, ws, s2) = Fread F f n (drop w pBuffer) s1;
                           buf = take w pBuffer @ ws
                       in if r \<noteq> int n then Some (DB_ERROR_CRITICAL, int n, buf, d1\<lparr>fs := s2\<rparr>)
                          else Some (DB_ERROR_NONE, int n,
                                 (if k \<noteq> 0 then move_down off (3 * w) n buf else buf), d1\<lparr>fs := s2\<rparr>) })"

section \<open>Opening, closing, cleaning\<close>

fun grow_loop :: "'fs fsapi \<Rightarrow> int \<Rightarrow> WORD list \<Rightarrow> nat \<Rightarrow> 'fs \<Rightarrow> int \<times> 'fs" where
  "grow_loop F f buf 0 s = (DB_ERROR_NONE, s)"
| "grow_loop F f buf (Suc n) s =
     (let (r, s1) = Fwrite F f buf DB_RECORD_SIZE_BYTES s
      in if r \<noteq> int DB_RECORD_SIZE_BYTES then (DB_ERROR_CRITICAL, s1) else grow_loop F f buf n s1)"

definition GrowDatabaseFile :: "'fs fsapi \<Rightarrow> int \<Rightarrow> nat \<Rightarrow> 'fs db \<Rightarrow> int \<times> 'fs db" where
  "GrowDatabaseFile F f SizeToGrow d =
     (let buf = replicate DB_RECORD_SIZE_WORDS 0 @ drop DB_RECORD_SIZE_WORDS (g_DB_Buffer d);
          (e, s1) = grow_loop F f buf (SizeToGrow div DB_RECORD_SIZE_BYTES) (fs d)
      in (e, d\<lparr>g_DB_Buffer := buf, fs := s1\<rparr>))"

text \<open>The four file names with the drive letter of the medium in front.\<close>

definition ststore_dat :: "char \<Rightarrow> string" where "ststore_dat c = c # '':/STSTORE.DAT''"
definition ststore_idx :: "char \<Rightarrow> string" where "ststore_idx c = c # '':/STSTORE.IDX''"
definition ststring_dat :: "char \<Rightarrow> string" where "ststring_dat c = c # '':/STSTRING.DAT''"
definition ststring_idx :: "char \<Rightarrow> string" where "ststring_idx c = c # '':/STSTRING.IDX''"

text \<open>\<open>h0\<close> is the value of \<^verbatim>\<open>*pFileHandle\<close> before the call; it stays on an error.\<close>

definition OpenDatabaseFile :: "'fs fsapi \<Rightarrow> string \<Rightarrow> int \<Rightarrow> 'fs \<Rightarrow> int \<times> int \<times> 'fs" where
  "OpenDatabaseFile F Filename h0 s =
     (let (RetCode, s1) = Fopen F Filename ''r+'' s
      in if RetCode = FILE_NOT_FOUND then
           let (RetCode, s2) = Fopen F Filename ''w+'' s1
           in if 0 \<le> RetCode
              then (DB_CREATED, RetCode,
                    filesetattrib F RetCode (or (filegetattrib F Filename s2) ATTR_HIDDEN) s2)
              else (RetCode, h0, s2)
         else if 0 \<le> RetCode then (DB_ERROR_NONE, RetCode, s1) else (RetCode, h0, s1))"

text \<open>
  Grow a file just created on the internal medium, when the space is there; \<open>code\<close> is \<^verbatim>\<open>RetCode\<close>.
\<close>

definition reserve_space :: "'fs fsapi \<Rightarrow> nat \<Rightarrow> int \<Rightarrow> int \<Rightarrow> nat \<Rightarrow> 'fs db \<Rightarrow> int \<times> 'fs db" where
  "reserve_space F m code f n d =
     (if m = 0 \<and> code = DB_CREATED
         \<and> int n < long48 (FSFreeClusters F m (fs d) * BytesPerCluster F m (fs d))
      then GrowDatabaseFile F f n d else (DB_ERROR_NONE, d))"

abbreviation open_with where
  "open_with F name get upd m d \<equiv>
     (let (e, h, s) = OpenDatabaseFile F name (get (g_DBState d m)) (fs d)
      in (e, d\<lparr>g_DBState := (g_DBState d)(m := upd (\<lambda>_. h) (g_DBState d m)), fs := s\<rparr>))"

definition OpenDatabaseFiles :: "'fs fsapi \<Rightarrow> (nat \<Rightarrow> char) \<Rightarrow> nat \<Rightarrow> 'fs db \<Rightarrow> int \<times> 'fs db" where
  "OpenDatabaseFiles F DriveLetter m d =
     (let c = DriveLetter m;
          (RetCode, d1) = open_with F (ststring_dat c) hStString_Dat hStString_Dat_update m d
      in if RetCode < 0 then (DB_ERROR_CRITICAL, d1)
      else let d1 = (if m = 0 \<and> RetCode = DB_CREATED then d1\<lparr>g_DB_Dirty := True\<rparr> else d1);
               (g, d2) = reserve_space F m RetCode (hStString_Dat (g_DBState d1 m)) 1048576 d1
      in if g \<noteq> DB_ERROR_NONE then (DB_ERROR_CRITICAL, d2)
      else let (e, d3) = open_with F (ststring_idx c) hStString_Idx hStString_Idx_update m d2;
               RetCode = or RetCode e
      in if RetCode < 0 then (DB_ERROR_CRITICAL, d3)
      else let (e, d4) = open_with F (ststore_dat c) hStStore_Dat hStStore_Dat_update m d3;
               RetCode = or RetCode e
      in if RetCode < 0 then (DB_ERROR_CRITICAL, d4)
      else let (g, d5) = reserve_space F m RetCode (hStStore_Dat (g_DBState d4 m)) 8388608 d4
      in if g \<noteq> DB_ERROR_NONE then (DB_ERROR_CRITICAL, d5)
      else let (e, d6) = open_with F (ststore_idx c) hStStore_Idx hStStore_Idx_update m d5
      in (or RetCode e, d6))"

text \<open>The ten words of a \<^verbatim>\<open>DBTopRecord\<close> as it lies in memory and in the file.\<close>

definition top_words :: "DBTopRecord \<Rightarrow> WORD list" where
  "top_words t = map word_of_int
     [StorageID t, BlockSize t, RecordEntrySize t, TotalRecords t, TotalDelRecords t,
      TotalStrings t, TotalDelStrings t, LastDelRecordIdx t, GetDelRecordIdx t, PutDelRecordIdx t]"

definition words_top :: "WORD list \<Rightarrow> DBTopRecord" where
  "words_top ws = \<lparr>StorageID = sint (ws ! 0), BlockSize = sint (ws ! 1), RecordEntrySize = sint (ws ! 2),
     TotalRecords = sint (ws ! 3), TotalDelRecords = sint (ws ! 4), TotalStrings = sint (ws ! 5),
     TotalDelStrings = sint (ws ! 6), LastDelRecordIdx = sint (ws ! 7),
     GetDelRecordIdx = sint (ws ! 8), PutDelRecordIdx = sint (ws ! 9)\<rparr>"

definition new_top :: DBTopRecord where
  "new_top = \<lparr>StorageID = 0, BlockSize = 512, RecordEntrySize = 512, TotalRecords = 0,
     TotalDelRecords = 0, TotalStrings = 0, TotalDelStrings = 0, LastDelRecordIdx = 0,
     GetDelRecordIdx = 0, PutDelRecordIdx = 0\<rparr>"

text \<open>\<open>pad\<close> is the memory after the top record that the first write copies out along with it.\<close>

definition DBOpen :: "'fs fsapi \<Rightarrow> (nat \<Rightarrow> char) \<Rightarrow> WORD list \<Rightarrow> nat \<Rightarrow> 'fs db \<Rightarrow> int \<times> 'fs db" where
  "DBOpen F DriveLetter pad m d =
     (if DB_MAX_DATABASE_STORES \<le> m then (DB_ERROR_MEDIA, d)
      else if hStStore_Dat (g_DBState d m) \<noteq> 0 then (DB_ALREADY_OPEN, d)
      else let (NewDB, d1) = OpenDatabaseFiles F DriveLetter m d in
      if NewDB < 0 then (DB_OPEN_CORRUPT, d1)
      else
        let f = hStStore_Dat (g_DBState d1 m);
            s1 = snd (Fseek F f 0 (fs d1));
            (iTemp, ws, s2) = Fread F f 30 (top_words (top m d1)) s1;
            d2 = upd_top m (\<lambda>_. words_top ws) (d1\<lparr>fs := s2\<rparr>);
            done = (\<lambda>d. (NewDB, d\<lparr>g_DB_BufferIndex := - 1, g_DB_BufferState := 0\<rparr>))
        in if iTemp = 0 then
             let d3 = upd_top m (\<lambda>_. new_top) d2;
                 s3 = snd (Fseek F f 0 (fs d3));
                 s4 = snd (Fwrite F f (top_words new_top @ pad) DB_RECORD_SIZE_BYTES s3)
             in done (d3\<lparr>g_DB_Dirty := True, fs := s4\<rparr>)
           else if iTemp \<noteq> 30 then (DB_OPEN_CORRUPT, d2)
           else if TotalStrings (top m d2) = 0 \<and> TotalDelStrings (top m d2) \<noteq> 0 then
             done (upd_top m (\<lambda>t. t\<lparr>TotalDelStrings := 0\<rparr>) (d2\<lparr>g_DB_Dirty := True\<rparr>))
           else done d2)"

definition CloseDatabaseFiles :: "'fs fsapi \<Rightarrow> nat \<Rightarrow> 'fs db \<Rightarrow> int \<times> 'fs db" where
  "CloseDatabaseFiles F m d =
     (let st = g_DBState d m;
          (e1, s1) = Fclose F (hStStore_Dat st) (fs d);
          (e2, s2) = Fclose F (hStStore_Idx st) s1;
          (e3, s3) = Fclose F (hStString_Dat st) s2;
          (e4, s4) = Fclose F (hStString_Idx st) s3;
          st' = st\<lparr>hStStore_Dat := 0, hStStore_Idx := 0, hStString_Dat := 0, hStString_Idx := 0\<rparr>
      in (if or (or (or e1 e2) e3) e4 \<noteq> 0 then DB_ERROR_CRITICAL else 0,
          d\<lparr>g_DBState := (g_DBState d)(m := st'), fs := s4\<rparr>))"

definition DBClose :: "'fs fsapi \<Rightarrow> nat \<Rightarrow> 'fs db \<Rightarrow> int \<times> 'fs db" where
  "DBClose F m d =
     (if DB_MAX_DATABASE_STORES \<le> m then (DB_ERROR_MEDIA, d)
      else if hStStore_Dat (g_DBState d m) = 0 then (DB_ERROR_NOT_OPEN, d)
      else
        let d1 = snd (BufferFlush F d);
            f = hStStore_Dat (g_DBState d1 m);
            s1 = snd (Fseek F f 0 (fs d1));
            s2 = snd (Fwrite F f (top_words (top m d1)) 30 s1);
            (e, d2) = CloseDatabaseFiles F m (d1\<lparr>fs := s2\<rparr>)
        in if e \<noteq> 0 then (DB_ERROR_CRITICAL, d2) else (DB_ERROR_NONE, d2\<lparr>g_DB_Dirty := False\<rparr>))"

text \<open>Each file is removed twice: the second call has to find it gone.\<close>

definition remove_twice :: "'fs fsapi \<Rightarrow> string \<Rightarrow> int \<times> 'fs \<Rightarrow> int \<times> 'fs" where
  "remove_twice F name st =
     (let (code, s) = st; s1 = snd (Fremove F name s); (e, s2) = Fremove F name s1
      in (if e \<noteq> FILE_NOT_FOUND then DB_ERROR_CRITICAL else code, s2))"

definition DBClean :: "'fs fsapi \<Rightarrow> (nat \<Rightarrow> char) \<Rightarrow> nat \<Rightarrow> 'fs db \<Rightarrow> int \<times> 'fs db" where
  "DBClean F DriveLetter m d =
     (if DB_MAX_DATABASE_STORES \<le> m then (DB_ERROR_MEDIA, d)
      else
        let c = DriveLetter m;
            (code, s) = remove_twice F (ststring_idx c) (remove_twice F (ststring_dat c)
              (remove_twice F (ststore_idx c) (remove_twice F (ststore_dat c) (DB_ERROR_NONE, fs d))))
        in (code, d\<lparr>fs := s\<rparr>))"

end
