(* ===== verification/FileStore.thy ===== *)
theory FileStore imports Database begin

text \<open>
  What the database uses of the file system, as one predicate on the calls: \<open>fs_laws F cont pos H\<close>
  says that on the open handles \<open>H\<close> a file is a list of bytes with a position, that seeking inside it
  succeeds, that a read returns the bytes at the position (fewer at the end of the file) and a write
  replaces or appends them, and that no call changes another file. Words go to the file as three bytes each, lowest first. A file system in
  memory satisfies the laws.
\<close>

section \<open>Words and bytes\<close>

definition word_bytes :: "WORD \<Rightarrow> BYTE list" where
  "word_bytes w = [ucast w, ucast (drop_bit 8 w), ucast (drop_bit 16 w)]"

definition word3 :: "BYTE \<Rightarrow> BYTE \<Rightarrow> BYTE \<Rightarrow> WORD" where
  "word3 a b c = ucast a OR push_bit 8 (ucast b) OR push_bit 16 (ucast c)"

definition bytes_of :: "WORD list \<Rightarrow> BYTE list" where
  "bytes_of ws = concat (map word_bytes ws)"

lemma word_bytes_length [simp]: "length (word_bytes w) = 3"
  by (simp add: word_bytes_def)

lemma bytes_of_simps [simp]: "bytes_of [] = []" "bytes_of (w # ws) = word_bytes w @ bytes_of ws"
  "bytes_of (us @ ws) = bytes_of us @ bytes_of ws" "length (bytes_of ws) = 3 * length ws"
proof -
  show "length (bytes_of ws) = 3 * length ws" by (induction ws) (simp_all add: bytes_of_def)
qed (simp_all add: bytes_of_def)

lemma word_bytes_word3 [simp]: "word_bytes (word3 a b c) = [a, b, c]"
proof -
  have "ucast (word3 a b c) = a" "ucast (drop_bit 8 (word3 a b c)) = b" "ucast (drop_bit 16 (word3 a b c)) = c"
    by (rule bit_word_eqI; auto simp: word3_def bit_simps dest: bit_imp_le_length)+
  then show ?thesis by (simp add: word_bytes_def)
qed

lemma word3_word_bytes: "word3 (ucast w) (ucast (drop_bit 8 w)) (ucast (drop_bit 16 w)) = w"
proof (rule bit_word_eqI)
  fix n assume "n < LENGTH(24)"
  then show "bit (word3 (ucast w) (ucast (drop_bit 8 w)) (ucast (drop_bit 16 w))) n = bit w n"
    by (cases "n < 8"; cases "n < 16") (auto simp: word3_def bit_simps dest: bit_imp_le_length)
qed

lemma word_bytes_inj [simp]: "word_bytes v = word_bytes w \<longleftrightarrow> v = w"
proof
  assume "word_bytes v = word_bytes w"
  then have "ucast v = (ucast w :: BYTE)" "ucast (drop_bit 8 v) = (ucast (drop_bit 8 w) :: BYTE)"
    "ucast (drop_bit 16 v) = (ucast (drop_bit 16 w) :: BYTE)"
    by (simp_all only: word_bytes_def list.inject)
  then show "v = w"
    by (metis word3_word_bytes)
qed simp

lemma bytes_of_take_drop: "bytes_of (take i ws) = take (3 * i) (bytes_of ws)"
  "bytes_of (drop i ws) = drop (3 * i) (bytes_of ws)"
proof -
  show "bytes_of (take i ws) = take (3 * i) (bytes_of ws)"
  proof (induction ws arbitrary: i)
    case (Cons w ws)
    then show ?case by (cases i) simp_all
  qed simp
  show "bytes_of (drop i ws) = drop (3 * i) (bytes_of ws)"
  proof (induction ws arbitrary: i)
    case (Cons w ws)
    then show ?case by (cases i) simp_all
  qed simp
qed

lemma bytes_of_inj: "length us = length ws \<Longrightarrow> bytes_of us = bytes_of ws \<longleftrightarrow> us = ws"
  by (induction us ws rule: list_induct2) auto

section \<open>The laws\<close>

definition fs_laws :: "'fs fsapi \<Rightarrow> ('fs \<Rightarrow> int \<Rightarrow> BYTE list) \<Rightarrow> ('fs \<Rightarrow> int \<Rightarrow> nat) \<Rightarrow> int set \<Rightarrow> bool" where
  "fs_laws F cont pos H \<longleftrightarrow> (\<forall>h\<in>H. \<forall>s.
     (\<forall>p. p \<le> length (cont s h) \<longrightarrow>
        (\<exists>s'. Fseek F h (int p) s = (0, s') \<and> cont s' = cont s \<and> pos s' = (pos s)(h := p)))
   \<and> Ftell F h s = int (pos s h)
   \<and> (\<forall>n ws. n \<le> 3 * length ws \<longrightarrow>
        (\<exists>r ws' s'. Fread F h n ws s = (int r, ws', s') \<and> r = min n (length (cont s h) - pos s h)
           \<and> length ws' = length ws \<and> take r (bytes_of ws') = take r (drop (pos s h) (cont s h))
           \<and> drop (nwords r) ws' = drop (nwords r) ws
           \<and> cont s' = cont s \<and> pos s' = (pos s)(h := pos s h + r)))
   \<and> (\<forall>n ws. n \<le> 3 * length ws \<and> pos s h \<le> length (cont s h) \<longrightarrow>
        (\<exists>s'. Fwrite F h ws n s = (int n, s')
           \<and> cont s' = (cont s)(h := take (pos s h) (cont s h) @ take n (bytes_of ws)
                                      @ drop (pos s h + n) (cont s h))
           \<and> pos s' = (pos s)(h := pos s h + n)))
   \<and> (\<forall>p. cont (snd (Fseek F h p s)) = cont s)
   \<and> (\<forall>n ws. cont (snd (snd (Fread F h n ws s))) = cont s)
   \<and> (\<forall>n ws h'. h' \<noteq> h \<longrightarrow> cont (snd (Fwrite F h ws n s)) h' = cont s h'))"

lemma fs_seek:
  assumes "fs_laws F cont pos H" and "h \<in> H" and "p \<le> length (cont s h)"
  obtains s' where "Fseek F h (int p) s = (0, s')" and "cont s' = cont s" and "pos s' = (pos s)(h := p)"
  using assms unfolding fs_laws_def by blast

lemma fs_tell: "fs_laws F cont pos H \<Longrightarrow> h \<in> H \<Longrightarrow> Ftell F h s = int (pos s h)"
  unfolding fs_laws_def by blast

lemma fs_read:
  assumes "fs_laws F cont pos H" and "h \<in> H" and "n \<le> 3 * length ws" and "pos s h + n \<le> length (cont s h)"
  obtains ws' s' where "Fread F h n ws s = (int n, ws', s')" and "length ws' = length ws"
    and "take n (bytes_of ws') = take n (drop (pos s h) (cont s h))"
    and "cont s' = cont s" and "pos s' = (pos s)(h := pos s h + n)"
proof -
  have n: "min n (length (cont s h) - pos s h) = n" using assms(4) by simp
  have "\<forall>h\<in>H. \<forall>s n ws. n \<le> 3 * length ws \<longrightarrow>
        (\<exists>r ws' s'. Fread F h n ws s = (int r, ws', s') \<and> r = min n (length (cont s h) - pos s h)
           \<and> length ws' = length ws \<and> take r (bytes_of ws') = take r (drop (pos s h) (cont s h))
           \<and> drop (nwords r) ws' = drop (nwords r) ws
           \<and> cont s' = cont s \<and> pos s' = (pos s)(h := pos s h + r))"
    using assms(1) unfolding fs_laws_def by blast
  then obtain r ws' s' where "Fread F h n ws s = (int r, ws', s')" "r = n" "length ws' = length ws"
    "take r (bytes_of ws') = take r (drop (pos s h) (cont s h))" "cont s' = cont s"
    "pos s' = (pos s)(h := pos s h + r)"
    using assms(2,3) n by metis
  then show thesis using that by simp
qed

lemma fs_write:
  assumes "fs_laws F cont pos H" and "h \<in> H" and "n \<le> 3 * length ws" and "pos s h \<le> length (cont s h)"
  obtains s' where "Fwrite F h ws n s = (int n, s')"
    and "cont s' = (cont s)(h := take (pos s h) (cont s h) @ take n (bytes_of ws) @ drop (pos s h + n) (cont s h))"
    and "pos s' = (pos s)(h := pos s h + n)"
  using assms unfolding fs_laws_def by blast

lemma fs_frame:
  assumes "fs_laws F cont pos H" and "h \<in> H"
  shows "cont (snd (Fseek F h p s)) = cont s" and "cont (snd (snd (Fread F h n ws s))) = cont s"
    and "h' \<noteq> h \<Longrightarrow> cont (snd (Fwrite F h ws n s)) h' = cont s h'"
  using assms unfolding fs_laws_def by blast+

lemma SeekDB_frame: "fs_laws F cont pos H \<Longrightarrow> h \<in> H \<Longrightarrow> cont (snd (SeekDB F h p s)) = cont s"
  using fs_frame(1) [of F cont pos H h p s] by (auto simp: SeekDB_def split: prod.splits)

text \<open>\<^verbatim>\<open>SeekDB\<close> inside a file.\<close>

lemma SeekDB_ok:
  assumes "fs_laws F cont pos H" and "h \<in> H" and "p \<le> length (cont s h)"
  obtains s' where "SeekDB F h (int p) s = (0, s')" and "cont s' = cont s" and "pos s' = (pos s)(h := p)"
proof -
  obtain s' where "Fseek F h (int p) s = (0, s')" "cont s' = cont s" "pos s' = (pos s)(h := p)"
    using assms by (rule fs_seek)
  then show thesis
    using that [of s'] fs_tell [OF assms(1,2), of s'] by (simp add: SeekDB_def)
qed

section \<open>A file system in memory\<close>

fun pack :: "BYTE list \<Rightarrow> WORD list \<Rightarrow> WORD list" where
  "pack (a # b # c # bs) (w # ws) = word3 a b c # pack bs ws"
| "pack [a, b] (w # ws) = word3 a b 0 # ws"
| "pack [a] (w # ws) = word3 a 0 0 # ws"
| "pack _ ws = ws"

lemma pack_bytes: "length bs \<le> 3 * length ws \<Longrightarrow>
  length (pack bs ws) = length ws \<and> take (length bs) (bytes_of (pack bs ws)) = bs
    \<and> drop (nwords (length bs)) (pack bs ws) = drop (nwords (length bs)) ws"
proof (induction bs ws rule: pack.induct)
  case (1 a b c bs w ws)
  moreover have "nwords (length (a # b # c # bs)) = Suc (nwords (length bs))"
    by (simp add: nwords_def)
  ultimately show ?case by simp
qed (auto simp: nwords_def)

type_synonym memfs = "(int \<Rightarrow> BYTE list) \<times> (int \<Rightarrow> nat)"

definition mem_fs :: "memfs fsapi" where
  "mem_fs = \<lparr>
     Fseek = (\<lambda>h p (c, q). if 0 \<le> p \<and> p \<le> int (length (c h)) then (0, (c, q(h := nat p))) else (- 1, (c, q))),
     Ftell = (\<lambda>h (c, q). int (q h)),
     Fread = (\<lambda>h n ws (c, q). let bs = take (min n (length (c h) - q h)) (drop (q h) (c h))
                in (int (length bs), pack bs ws, (c, q(h := q h + length bs)))),
     Fwrite = (\<lambda>h ws n (c, q).
                (int n, (c(h := take (q h) (c h) @ take n (bytes_of ws) @ drop (q h + n) (c h)), q(h := q h + n)))),
     Fopen = (\<lambda>name mode s. (1, s)), Fclose = (\<lambda>h s. (0, s)), Fremove = (\<lambda>name s. (FILE_NOT_FOUND, s)),
     filegetattrib = (\<lambda>_ _. 0), filesetattrib = (\<lambda>_ _ s. s), FSFreeClusters = (\<lambda>_ _. 0), BytesPerCluster = (\<lambda>_ _. 0)\<rparr>"

lemma mem_fs_laws: "fs_laws mem_fs fst snd H"
  unfolding fs_laws_def
proof (intro ballI allI conjI impI, goal_cases)
  case (1 h s p)
  then show ?case by (cases s) (simp add: mem_fs_def)
next
  case (2 h s)
  then show ?case by (cases s) (simp add: mem_fs_def)
next
  case (3 h s n ws)
  obtain c q where s: "s = (c, q)" by (cases s)
  let ?bs = "take (min n (length (c h) - q h)) (drop (q h) (c h))"
  have len: "length ?bs = min n (length (c h) - q h)" by simp
  have "length ?bs \<le> 3 * length ws" using 3 by simp
  note p = pack_bytes [OF this]
  show ?case
    by (rule exI [of _ "length ?bs"], rule exI [of _ "pack ?bs ws"], rule exI [of _ "(c, q(h := q h + length ?bs))"])
       (use p len in \<open>simp add: mem_fs_def s Let_def\<close>)
next
  case (4 h s n ws)
  then show ?case by (cases s) (simp add: mem_fs_def)
next
  case (5 h s p)
  then show ?case by (cases s) (simp add: mem_fs_def)
next
  case (6 h s n ws)
  then show ?case by (cases s) (simp add: mem_fs_def Let_def)
next
  case (7 h s n ws h')
  then show ?case by (cases s) (simp add: mem_fs_def)
qed

end
