(* ===== verification/DatabaseRing.thy ===== *)
theory DatabaseRing imports Database begin

text \<open>
  The ring of deleted record handles in \<^verbatim>\<open>ststore.idx\<close>. Its three file offsets Get, Put and Last are in
  one of two shapes, which \<open>ring_rep\<close> states with slot numbers; the lemmas show that putting a handle
  adds one slot, that getting one removes the slot it read, and that the retail build's disabled
  assertions on the offsets would always hold. The locale \<open>handle_pool\<close> is the contract a record
  allocator needs of such a ring; its client lemma is that no two records share a place in the file.
\<close>

section \<open>The ring's slots\<close>

definition ring_slots :: "nat \<Rightarrow> nat \<Rightarrow> nat \<Rightarrow> nat set" where
  "ring_slots g p l = (if g \<le> p then {g..<p} else {g..l} \<union> {0..<p})"

definition ring_shape :: "nat \<Rightarrow> nat \<Rightarrow> nat \<Rightarrow> bool" where
  "ring_shape g p l \<longleftrightarrow> g = 0 \<and> p = l \<or> p < g \<and> g \<le> l"

definition ring_rep :: "DBTopRecord \<Rightarrow> nat \<Rightarrow> nat \<Rightarrow> nat \<Rightarrow> bool" where
  "ring_rep t g p l \<longleftrightarrow> ring_shape g p l \<and> GetDelRecordIdx t = 3 * int g \<and> PutDelRecordIdx t = 3 * int p
     \<and> LastDelRecordIdx t = 3 * int l \<and> TotalDelRecords t = int (card (ring_slots g p l))"

lemma finite_ring_slots [simp]: "finite (ring_slots g p l)"
  by (simp add: ring_slots_def)

lemma card_ring_slots:
  "ring_shape g p l \<Longrightarrow> card (ring_slots g p l) = (if g \<le> p then p - g else Suc l - g + p)"
  unfolding ring_shape_def ring_slots_def by (subst card_Un_disjoint | auto)+

lemma ring_put_rep:
  assumes "ring_rep t g p l"
  shows "p \<notin> ring_slots g p l"
    and "\<exists>g' p' l'. ring_rep (ring_put t) g' p' l' \<and> ring_slots g' p' l' = insert p (ring_slots g p l)"
proof -
  have shape: "ring_shape g p l" and f: "GetDelRecordIdx t = 3 * int g" "PutDelRecordIdx t = 3 * int p"
    "LastDelRecordIdx t = 3 * int l" "TotalDelRecords t = int (card (ring_slots g p l))"
    using assms by (auto simp: ring_rep_def)
  show p: "p \<notin> ring_slots g p l"
    by (auto simp: ring_slots_def)
  have card: "card (insert p (ring_slots g p l)) = Suc (card (ring_slots g p l))"
    using p by simp
  consider (flat) "g = 0" "p = l" | (full) "Suc p = g" "g \<le> l" | (wrapped) "Suc p < g" "g \<le> l"
    using shape unfolding ring_shape_def by (metis Suc_lessI)
  then show "\<exists>g' p' l'. ring_rep (ring_put t) g' p' l' \<and> ring_slots g' p' l' = insert p (ring_slots g p l)"
  proof cases
    case flat
    then have s: "ring_slots 0 (Suc p) (Suc l) = insert p (ring_slots g p l)"
      by (auto simp: ring_slots_def)
    have "ring_rep (ring_put t) 0 (Suc p) (Suc l)"
      using flat f card unfolding ring_rep_def s
      by (simp add: ring_put_def ring_shape_def DB_HANDLE_SIZE_def)
    with s show ?thesis by blast
  next
    case full
    then have s: "ring_slots 0 (Suc l) (Suc l) = insert p (ring_slots g p l)"
      by (auto simp: ring_slots_def)
    have "ring_rep (ring_put t) 0 (Suc l) (Suc l)"
      using full f card unfolding ring_rep_def s
      by (simp add: ring_put_def ring_shape_def DB_HANDLE_SIZE_def)
    with s show ?thesis by blast
  next
    case wrapped
    then have s: "ring_slots g (Suc p) l = insert p (ring_slots g p l)"
      by (auto simp: ring_slots_def)
    have "ring_rep (ring_put t) g (Suc p) l"
      using wrapped f card unfolding ring_rep_def s
      by (simp add: ring_put_def ring_shape_def DB_HANDLE_SIZE_def)
    with s show ?thesis by blast
  qed
qed

lemma ring_get_rep:
  assumes "ring_rep t g p l" and "TotalDelRecords t \<noteq> 0"
  shows "g \<in> ring_slots g p l"
    and "\<exists>g' p' l'. ring_rep (ring_get t) g' p' l' \<and> ring_slots g' p' l' = ring_slots g p l - {g}"
proof -
  have shape: "ring_shape g p l" and f: "GetDelRecordIdx t = 3 * int g" "PutDelRecordIdx t = 3 * int p"
    "LastDelRecordIdx t = 3 * int l" "TotalDelRecords t = int (card (ring_slots g p l))"
    using assms(1) by (auto simp: ring_rep_def)
  have ne: "ring_slots g p l \<noteq> {}" using assms(2) f(4) by auto
  then show g: "g \<in> ring_slots g p l"
    using shape by (auto simp: ring_slots_def ring_shape_def split: if_splits)
  have card: "int (card (ring_slots g p l - {g})) = int (card (ring_slots g p l)) - 1"
    using g card_Suc_Diff1 [of "ring_slots g p l" g] by simp
  consider (one) "g = 0" "p = 1" "l = 1" | (flat) "g = 0" "p = l" "2 \<le> l"
    | (empty) "g = l" "p = 0" "p < g" | (last) "g = l" "0 < p" "p < g" | (wrapped) "p < g" "g < l"
    using shape ne by (fastforce simp: ring_shape_def ring_slots_def)
  then show "\<exists>g' p' l'. ring_rep (ring_get t) g' p' l' \<and> ring_slots g' p' l' = ring_slots g p l - {g}"
  proof cases
    case one
    then have s: "ring_slots 0 0 0 = ring_slots g p l - {g}" by (auto simp: ring_slots_def)
    have "ring_rep (ring_get t) 0 0 0"
      using one f card unfolding ring_rep_def s
      by (simp add: ring_get_def Let_def ring_shape_def DB_HANDLE_SIZE_def)
    with s show ?thesis by blast
  next
    case flat
    then have s: "ring_slots 1 0 (l - 1) = ring_slots g p l - {g}" by (auto simp: ring_slots_def)
    have "ring_rep (ring_get t) 1 0 (l - 1)"
      using flat f card unfolding ring_rep_def s
      by (simp add: ring_get_def Let_def ring_shape_def DB_HANDLE_SIZE_def of_nat_diff)
    with s show ?thesis by blast
  next
    case empty
    then have s: "ring_slots 0 0 0 = ring_slots g p l - {g}" by (auto simp: ring_slots_def)
    have "ring_rep (ring_get t) 0 0 0"
      using empty f card unfolding ring_rep_def s
      by (simp add: ring_get_def Let_def ring_shape_def DB_HANDLE_SIZE_def)
    with s show ?thesis by blast
  next
    case last
    then have s: "ring_slots 0 p p = ring_slots g p l - {g}" by (auto simp: ring_slots_def)
    have "ring_rep (ring_get t) 0 p p"
      using last f card unfolding ring_rep_def s
      by (simp add: ring_get_def Let_def ring_shape_def DB_HANDLE_SIZE_def)
    with s show ?thesis by blast
  next
    case wrapped
    then have s: "ring_slots (Suc g) p l = ring_slots g p l - {g}" by (auto simp: ring_slots_def)
    have "ring_rep (ring_get t) (Suc g) p l"
      using wrapped f card unfolding ring_rep_def s
      by (simp add: ring_get_def Let_def ring_shape_def DB_HANDLE_SIZE_def)
    with s show ?thesis by blast
  qed
qed

section \<open>A pool of handles\<close>

definition file_index :: "WORD \<Rightarrow> nat" where
  "file_index h = unat (h AND DB_INDEX_MASK)"

lemma index_mask: "h AND DB_INDEX_MASK = take_bit 14 h"
  by (simp add: DB_INDEX_MASK_def take_bit_eq_mask mask_eq_exp_minus_1)

lemma bit_external: "bit DB_MEDIA_INDEX_EXTERNAL n \<longleftrightarrow> n = 23"
proof -
  have e: "DB_MEDIA_INDEX_EXTERNAL = push_bit 23 (1 :: WORD)" by (simp add: DB_MEDIA_INDEX_EXTERNAL_def)
  show ?thesis unfolding e by (auto simp only: bit_simps) auto
qed

lemma file_index_mod: "file_index h = unat h mod 16384"
  unfolding file_index_def index_mask unsigned_take_bit_eq by (simp add: take_bit_eq_mod)

lemma file_index_bits: "(\<And>n. n < 14 \<Longrightarrow> bit h n = bit h' n) \<Longrightarrow> file_index h = file_index h'"
  unfolding file_index_def index_mask
  by (rule arg_cong [where f = unat]) (auto simp: bit_eq_iff bit_simps)

lemma file_index_fresh: "file_index (fresh_handle h) = file_index h"
proof -
  have "unat (h + DB_COUNT_ADD) mod 16384 = unat h mod 16384"
    by (simp add: DB_COUNT_ADD_def unat_word_ariths mod_mod_cancel)
  then have "file_index (h + DB_COUNT_ADD) = file_index h" by (simp only: file_index_mod)
  moreover have "file_index (fresh_handle h) = file_index (h + DB_COUNT_ADD)"
    by (rule file_index_bits) (auto simp: fresh_handle_def bit_external bit_simps)
  ultimately show ?thesis by simp
qed

locale handle_pool =
  fixes inv :: "'s \<Rightarrow> bool" and pool :: "'s \<Rightarrow> WORD multiset" and total :: "'s \<Rightarrow> int" and del :: "'s \<Rightarrow> int"
    and bump :: "'s \<Rightarrow> 's" and put :: "WORD \<Rightarrow> 's \<Rightarrow> 's" and get :: "'s \<Rightarrow> WORD \<times> 's"
  assumes del_size: "inv s \<Longrightarrow> del s = int (size (pool s))"
    and bump: "inv s \<Longrightarrow> inv (bump s) \<and> pool (bump s) = pool s \<and> total (bump s) = total s + 1"
    and put: "inv s \<Longrightarrow> inv (put h s) \<and> pool (put h s) = add_mset h (pool s) \<and> total (put h s) = total s - 1"
    and get: "inv s \<Longrightarrow> pool s \<noteq> {#} \<Longrightarrow> inv (snd (get s)) \<and> pool s = add_mset (fst (get s)) (pool (snd (get s)))
      \<and> total (snd (get s)) = total s"
begin

text \<open>The allocation as \<^verbatim>\<open>DBNewRecord\<close> does it on medium \<open>m\<close>.\<close>

definition alloc :: "nat \<Rightarrow> 's \<Rightarrow> WORD \<times> 's" where
  "alloc m s =
     (let s1 = bump s;
          (h, s2) = (if del s1 = 0 then (word_of_int (total s1), s1)
                     else (fresh_handle (fst (get s1)), snd (get s1)))
      in (if m \<noteq> 0 then h OR DB_MEDIA_INDEX_EXTERNAL else h, s2))"

definition slots_used :: "nat \<Rightarrow> WORD multiset \<Rightarrow> 's \<Rightarrow> bool" where
  "slots_used n live s \<longleftrightarrow> inv s \<and> total s = int (size live)
     \<and> image_mset file_index (live + pool s) = mset_set {1..n}"

lemma alloc_slots:
  assumes u: "slots_used n live s" and room: "total s + del s < 0x3fff"
  shows "\<exists>n'. slots_used n' (add_mset (fst (alloc m s)) live) (snd (alloc m s)) \<and> n \<le> n'"
proof -
  let ?s1 = "bump s"
  have s1: "inv ?s1" "pool ?s1 = pool s" "total ?s1 = total s + 1" and t: "total s = int (size live)"
    and idx: "image_mset file_index (live + pool s) = mset_set {1..n}"
    using u bump by (auto simp: slots_used_def)
  have n: "n = size live + size (pool s)"
    using arg_cong [OF idx, of size] by simp
  have ext: "file_index (if m \<noteq> 0 then h OR DB_MEDIA_INDEX_EXTERNAL else h) = file_index h" for h
    by (cases "m = 0") (auto simp: bit_external bit_simps intro!: file_index_bits)
  show ?thesis
  proof (cases "pool s = {#}")
    case True
    then have "del ?s1 = 0" using del_size [OF s1(1)] s1(2) by simp
    then have a: "alloc m s = ((if m \<noteq> 0 then word_of_int (total s + 1) OR DB_MEDIA_INDEX_EXTERNAL
        else word_of_int (total s + 1)), ?s1)"
      using s1(3) by (simp add: alloc_def)
    have "unat (word_of_int (total s + 1) :: WORD) = Suc n"
    proof -
      have "total s + 1 = int (Suc n)" "Suc n < 2 ^ 24"
        using t n True room del_size [of s] u by (auto simp: slots_used_def)
      then show ?thesis by (simp only: of_int_of_nat_eq) (simp add: unat_of_nat del: of_nat_Suc)
    qed
    then have "file_index (fst (alloc m s)) = Suc n"
      using room t n True del_size [of s] u ext [of "word_of_int (total s + 1)"]
      by (simp add: a file_index_mod slots_used_def)
    then have "slots_used (Suc n) (add_mset (fst (alloc m s)) live) (snd (alloc m s))"
      using idx True s1 t by (simp add: slots_used_def a atLeastAtMostSuc_conv)
    then show ?thesis by (blast intro: le_SucI)
  next
    case False
    then have "del ?s1 \<noteq> 0" using del_size [OF s1(1)] s1(2) by simp
    then have a: "file_index (fst (alloc m s)) = file_index (fst (get ?s1))" "snd (alloc m s) = snd (get ?s1)"
      using ext [of "fresh_handle (fst (get ?s1))"]
      by (simp_all add: alloc_def Let_def file_index_fresh)
    have "slots_used n (add_mset (fst (alloc m s)) live) (snd (alloc m s))"
      using get [OF s1(1)] s1 False idx t a by (simp add: slots_used_def)
    then show ?thesis by blast
  qed
qed

lemma free_slots:
  assumes "slots_used n live s" and "h \<in># live"
  shows "slots_used n (live - {#h#}) (put h s)"
proof -
  have "image_mset file_index (live - {#h#} + pool (put h s)) = image_mset file_index (live + pool s)"
    using assms put [of s h] by (simp add: slots_used_def multiset_add_sub_el_shuffle [symmetric] ) 
  then show ?thesis
    using assms put [of s h] by (auto simp: slots_used_def size_Diff_singleton of_nat_diff dest: multi_member_split)
qed

lemma slots_distinct:
  assumes "slots_used n live s" and "h \<in># live" and "h' \<in># live - {#h#} + pool s"
  shows "file_index h \<noteq> file_index h'"
proof
  assume eq: "file_index h = file_index h'"
  obtain live' where live: "live = add_mset h live'" using assms(2) by (blast dest: multi_member_split)
  then obtain rest where rest: "live' + pool s = add_mset h' rest"
    using assms(3) by (metis add_mset_remove_trivial multi_member_split)
  have "image_mset file_index (live + pool s) = add_mset (file_index h) (add_mset (file_index h) (image_mset file_index rest))"
    using live rest eq by simp
  then have "count (add_mset (file_index h) (add_mset (file_index h) (image_mset file_index rest))) (file_index h)
      = count (mset_set {1..n}) (file_index h)"
    using assms(1) by (simp add: slots_used_def)
  then have "count (mset_set {1..n}) (file_index h) \<ge> 2"
    by simp
  then show False
    by (simp add: count_mset_set' split: if_splits)
qed

end

section \<open>The database's ring as such a pool\<close>

text \<open>The top record and the words of the index file.\<close>

type_synonym ring_state = "DBTopRecord \<times> (nat \<Rightarrow> WORD)"

definition ring_inv :: "ring_state \<Rightarrow> bool" where
  "ring_inv s \<longleftrightarrow> (\<exists>g p l. ring_rep (fst s) g p l)"

definition live_slots :: "DBTopRecord \<Rightarrow> nat set" where
  "live_slots t = ring_slots (nat (GetDelRecordIdx t div 3)) (nat (PutDelRecordIdx t div 3))
                    (nat (LastDelRecordIdx t div 3))"

definition ring_pool :: "ring_state \<Rightarrow> WORD multiset" where
  "ring_pool s = image_mset (snd s) (mset_set (live_slots (fst s)))"

definition ring_bump :: "ring_state \<Rightarrow> ring_state" where
  "ring_bump s = ((fst s)\<lparr>TotalRecords := TotalRecords (fst s) + 1\<rparr>, snd s)"

definition put_op :: "WORD \<Rightarrow> ring_state \<Rightarrow> ring_state" where
  "put_op h s = (ring_put (fst s), (snd s)(nat (PutDelRecordIdx (fst s) div 3) := h))"

definition get_op :: "ring_state \<Rightarrow> WORD \<times> ring_state" where
  "get_op s = (snd s (nat (GetDelRecordIdx (fst s) div 3)), (ring_get (fst s), snd s))"

lemma live_slots_rep: "ring_rep t g p l \<Longrightarrow> live_slots t = ring_slots g p l"
  by (simp add: live_slots_def ring_rep_def)

lemma ring_total [simp]: "TotalRecords (ring_put t) = TotalRecords t - 1" "TotalRecords (ring_get t) = TotalRecords t"
  by (simp_all add: ring_put_def ring_get_def Let_def)

interpretation rp: handle_pool ring_inv ring_pool "\<lambda>s. TotalRecords (fst s)" "\<lambda>s. TotalDelRecords (fst s)"
    ring_bump put_op get_op
proof (unfold_locales, goal_cases)
  case (1 s)
  then show ?case by (auto simp: ring_inv_def ring_pool_def live_slots_rep) (simp add: ring_rep_def)
next
  case (2 s)
  then show ?case by (simp add: ring_inv_def ring_pool_def ring_bump_def live_slots_def ring_rep_def)
next
  case (3 s h)
  then obtain g p l where r: "ring_rep (fst s) g p l" by (auto simp: ring_inv_def)
  obtain g' p' l' where r': "ring_rep (ring_put (fst s)) g' p' l'"
    "ring_slots g' p' l' = insert p (ring_slots g p l)" "p \<notin> ring_slots g p l"
    using ring_put_rep [OF r] by blast
  have "nat (PutDelRecordIdx (fst s) div 3) = p" using r by (simp add: ring_rep_def)
  moreover have "image_mset ((snd s)(p := h)) (mset_set (ring_slots g p l))
      = image_mset (snd s) (mset_set (ring_slots g p l))"
    using r'(3) by (intro image_mset_cong) auto
  ultimately show ?case
    using r' by (auto simp: ring_inv_def ring_pool_def put_op_def live_slots_rep [OF r] live_slots_rep [OF r'(1)])
next
  case (4 s)
  then obtain g p l where r: "ring_rep (fst s) g p l" by (auto simp: ring_inv_def)
  have "TotalDelRecords (fst s) \<noteq> 0"
    using 4(2) r by (auto simp: ring_pool_def live_slots_rep [OF r]) (auto simp: ring_rep_def)
  then obtain g' p' l' where r': "ring_rep (ring_get (fst s)) g' p' l'"
    "ring_slots g' p' l' = ring_slots g p l - {g}" "g \<in> ring_slots g p l"
    using ring_get_rep [OF r] by blast
  have "nat (GetDelRecordIdx (fst s) div 3) = g" using r by (simp add: ring_rep_def)
  moreover have "mset_set (ring_slots g p l) = add_mset g (mset_set (ring_slots g p l - {g}))"
    using r'(3) by (simp add: mset_set.remove)
  ultimately show ?case
    using r' by (auto simp: ring_inv_def ring_pool_def get_op_def live_slots_rep [OF r] live_slots_rep [OF r'(1)])
qed

end
