(* ===== verification/DatabaseAlloc.thy ===== *)
theory DatabaseAlloc imports DatabaseRing FileStore begin

text \<open>
  Record allocation on top of the file system: \<^verbatim>\<open>DBNewRecord\<close> and \<^verbatim>\<open>DBDeleteRecord\<close> act on the ring of
  deleted handles as the pool's \<open>alloc\<close> and \<open>put\<close>, whatever else they do to the record buffer and the
  string files, so that two live records never share a place in \<^verbatim>\<open>ststore.dat\<close>.
\<close>

section \<open>What flushing and loading the buffer leave alone\<close>

lemma BufferFlush_db [simp]:
  "g_DBState (snd (BufferFlush F d)) = g_DBState d"
  "g_DB_Buffer (snd (BufferFlush F d)) = g_DB_Buffer d"
  "g_DB_BufferIndex (snd (BufferFlush F d)) = g_DB_BufferIndex d"
  by (simp_all add: BufferFlush_def Let_def split: prod.splits)

abbreviation dat_handle :: "'fs db \<Rightarrow> WORD \<Rightarrow> int" where
  "dat_handle d r \<equiv> hStStore_Dat (g_DBState d (GetMediaIndex r))"

lemma BufferFlush_frame:
  assumes "fs_laws F cont pos H" and "dat_handle d (g_DB_BufferIndex d) \<in> H"
    and "f \<noteq> dat_handle d (g_DB_BufferIndex d)"
  shows "cont (fs (snd (BufferFlush F d))) f = cont (fs d) f"
proof -
  let ?h = "dat_handle d (g_DB_BufferIndex d)"
  obtain e s1 where s1: "SeekDB F ?h (record_pos (g_DB_BufferIndex d)) (fs d) = (e, s1)" by fastforce
  obtain n s2 where s2: "Fwrite F ?h (g_DB_Buffer d) DB_RECORD_SIZE_BYTES s1 = (n, s2)" by fastforce
  have "cont s1 = cont (fs d)"
    using SeekDB_frame [OF assms(1,2), of "record_pos (g_DB_BufferIndex d)" "fs d"] s1 by simp
  moreover have "cont s2 f = cont s1 f"
    using fs_frame(3) [OF assms(1,2,3), of "g_DB_Buffer d" DB_RECORD_SIZE_BYTES s1] s2 by simp
  ultimately show ?thesis
    using s1 s2 by (simp add: BufferFlush_def Let_def)
qed

lemma BufferUpdate_frame:
  assumes laws: "fs_laws F cont pos H"
    and b: "dat_handle d (g_DB_BufferIndex d) \<in> H" "f \<noteq> dat_handle d (g_DB_BufferIndex d)"
    and r: "dat_handle d r \<in> H"
  shows "cont (fs (BufferUpdate F r d)) f = cont (fs d) f \<and> g_DBState (BufferUpdate F r d) = g_DBState d"
proof (cases "g_DB_BufferIndex d = r")
  case False
  let ?d1 = "snd (BufferFlush F d)"
  obtain e s1 where s1: "Fseek F (dat_handle d r) (record_pos r) (fs ?d1) = (e, s1)" by fastforce
  obtain n ws s2 where s2: "Fread F (dat_handle d r) DB_RECORD_SIZE_BYTES (g_DB_Buffer d) s1 = (n, ws, s2)"
    by (metis prod_cases3)
  have "cont s1 = cont (fs ?d1)" "cont s2 = cont s1"
    using fs_frame(1) [OF laws r, of "record_pos r" "fs ?d1"] s1
      fs_frame(2) [OF laws r, of DB_RECORD_SIZE_BYTES "g_DB_Buffer d" s1] s2 by simp_all
  then show ?thesis
    using False s1 s2 BufferFlush_frame [OF laws b] by (simp add: BufferUpdate_def Let_def)
qed (simp add: BufferUpdate_def)

lemma index_scan_frame:
  "fs_laws F cont pos H \<Longrightarrow> f \<in> H \<Longrightarrow> index_scan F f x l tmp s = Some (l', s') \<Longrightarrow> cont s' = cont s"
proof (induction F f x l tmp s rule: index_scan.induct)
  case (1 F f x l tmp s)
  obtain r ws s1 where rd: "Fread F f DB_HANDLE_SIZE [tmp] s = (r, ws, s1)" by (metis prod_cases3)
  have c: "cont s1 = cont s"
    using fs_frame(2) [OF 1(2,3), of DB_HANDLE_SIZE "[tmp]" s] rd by simp
  note eq = 1(4) [unfolded index_scan.simps [of F f x l tmp s]]
  show ?case
  proof (cases "0 < l \<and> r = int DB_HANDLE_SIZE \<and> ws ! 0 \<noteq> x")
    case True
    then show ?thesis
      using 1(1) [OF _ refl rd [symmetric] refl] 1(2,3) eq rd c by simp
  next
    case False
    then show ?thesis using eq rd c by (auto split: if_splits)
  qed
qed

lemma IndexFileAdd_frame:
  assumes laws: "fs_laws F cont pos H" "f \<in> H" and "f' \<noteq> f"
  shows "cont (snd (IndexFileAdd F f x s)) f' = cont s f'"
proof -
  obtain e s1 where s1: "Fseek F f 0 s = (e, s1)" by fastforce
  have c1: "cont s1 = cont s" using fs_frame(1) [OF laws, of 0 s] s1 by simp
  show ?thesis
  proof (cases "index_scan F f x (Ftell F f s) 0 s1")
    case None
    then show ?thesis using s1 c1 by (simp add: IndexFileAdd_def)
  next
    case (Some ls)
    obtain l s2 where ls: "ls = (l, s2)" by fastforce
    obtain e3 s3 where s3: "Fseek F f (Ftell F f s) s2 = (e3, s3)" by fastforce
    obtain n s4 where s4: "Fwrite F f [x] DB_HANDLE_SIZE s3 = (n, s4)" by fastforce
    have "cont s2 = cont s1" using index_scan_frame [OF laws] Some ls by blast
    moreover have "cont s3 = cont s2" using fs_frame(1) [OF laws, of "Ftell F f s" s2] s3 by simp
    moreover have "cont s4 f' = cont s3 f'"
      using fs_frame(3) [OF laws assms(3), of "[x]" DB_HANDLE_SIZE s3] s4 by simp
    ultimately show ?thesis
      using s1 c1 Some ls s3 s4 by (simp add: IndexFileAdd_def)
  qed
qed

text \<open>What a deletion of strings keeps: the other files and the record counts of the ring.\<close>

definition ring_part :: "DBTopRecord \<Rightarrow> int \<times> int \<times> int \<times> int \<times> int" where
  "ring_part t = (GetDelRecordIdx t, PutDelRecordIdx t, LastDelRecordIdx t, TotalDelRecords t, TotalRecords t)"

definition strings_frame where
  "strings_frame cont m f' d d' \<longleftrightarrow> cont (fs d') f' = cont (fs d) f' \<and> ring_part (top m d') = ring_part (top m d)
     \<and> hStStore_Idx (g_DBState d' m) = hStStore_Idx (g_DBState d m)
     \<and> hStString_Idx (g_DBState d' m) = hStString_Idx (g_DBState d m)
     \<and> (\<forall>r. dat_handle d' r = dat_handle d r)
     \<and> g_DB_BufferIndex d' = g_DB_BufferIndex d"

lemma DeleteString_frame:
  assumes laws: "fs_laws F cont pos H" and f: "hStString_Idx (g_DBState d m) \<in> H" "f' \<noteq> hStString_Idx (g_DBState d m)"
  shows "strings_frame cont m f' d (snd (DeleteString F m x d))"
proof -
  let ?f = "hStString_Idx (g_DBState d m)"
  obtain e s1 where s1: "Fseek F ?f (int24 (TotalDelStrings (top m d) * int DB_HANDLE_SIZE)) (fs d) = (e, s1)"
    by fastforce
  obtain c s2 where s2: "IndexFileAdd F ?f x s1 = (c, s2)" by fastforce
  have "cont s1 = cont (fs d)" "cont s2 f' = cont s1 f'"
    using fs_frame(1) [OF laws f(1), of _ "fs d"] s1 IndexFileAdd_frame [OF laws f, of x s1] s2
    by (metis snd_conv)+
  then show ?thesis
    using s1 s2 by (simp add: DeleteString_def Let_def strings_frame_def ring_part_def)
qed

lemma strings_frame_trans:
  "strings_frame cont m f' d d1 \<Longrightarrow> strings_frame cont m f' d1 d2 \<Longrightarrow> strings_frame cont m f' d d2"
  by (simp add: strings_frame_def)

lemma delete_strings_frame:
  "fs_laws F cont pos H \<Longrightarrow> hStString_Idx (g_DBState d m) \<in> H \<Longrightarrow> f' \<noteq> hStString_Idx (g_DBState d m)
     \<Longrightarrow> delete_strings F m i d = Some (e, d') \<Longrightarrow> strings_frame cont m f' d d'"
proof (induction F m i d rule: delete_strings.induct)
  case (1 F m i d)
  note eq = 1(7) [unfolded delete_strings.simps [of F m i d]]
  obtain e1 d1 where ds: "DeleteString F m (g_DB_Buffer d ! (i + 1)) d = (e1, d1)" by fastforce
  have fr: "strings_frame cont m f' d d1"
    using DeleteString_frame [OF 1(4-6), of "g_DB_Buffer d ! (i + 1)"] ds by simp
  then have h: "hStString_Idx (g_DBState d1 m) = hStString_Idx (g_DBState d m)"
    by (simp add: strings_frame_def)
  have self: "strings_frame cont m f' d d" by (simp add: strings_frame_def)
  show ?case
  proof (cases "DB_RECORD_SIZE_WORDS \<le> i \<or> length (g_DB_Buffer d) \<le> i + 1")
    case True
    then show ?thesis using eq self by (auto split: if_splits)
  next
    case False
    show ?thesis
    proof (cases "g_DB_Buffer d ! i AND DB_TAG_STRING = 0")
      case True
      then show ?thesis
        using eq False 1(2,3) 1(4-6) by (simp split: if_splits)
    next
      case str: False
      show ?thesis
      proof (cases "e1 < 0")
        case True
        then show ?thesis using eq False str ds fr by simp
      next
        case False
        then have "delete_strings F m (i + 2) d1 = Some (e, d')"
          using eq \<open>\<not> (DB_RECORD_SIZE_WORDS \<le> i \<or> length (g_DB_Buffer d) \<le> i + 1)\<close> str ds by simp
        then have "strings_frame cont m f' d1 d'"
          using 1(1) [OF _ _ str refl ds [symmetric] False 1(4)] 1(5,6) h
            \<open>\<not> (DB_RECORD_SIZE_WORDS \<le> i \<or> length (g_DB_Buffer d) \<le> i + 1)\<close> by simp
        then show ?thesis using fr by (rule strings_frame_trans [rotated])
      qed
    qed
  qed
qed

section \<open>The ring as the database sees it\<close>

definition index_word :: "BYTE list \<Rightarrow> nat \<Rightarrow> WORD" where
  "index_word c j = word3 (c ! (3 * j)) (c ! (3 * j + 1)) (c ! (3 * j + 2))"

definition ring_view :: "('fs \<Rightarrow> int \<Rightarrow> BYTE list) \<Rightarrow> 'fs db \<Rightarrow> nat \<Rightarrow> ring_state" where
  "ring_view cont d m = (top m d, index_word (cont (fs d) (hStStore_Idx (g_DBState d m))))"

text \<open>The index file holds every slot of the ring, and its handle is a file of its own.\<close>

definition index_ok where
  "index_ok cont H d m \<longleftrightarrow> ring_inv (ring_view cont d m)
     \<and> (\<forall>j\<in>live_slots (top m d). 3 * j + 3 \<le> length (cont (fs d) (hStStore_Idx (g_DBState d m))))
     \<and> hStStore_Idx (g_DBState d m) \<in> H \<and> hStString_Idx (g_DBState d m) \<in> H
     \<and> hStStore_Idx (g_DBState d m) \<noteq> hStString_Idx (g_DBState d m)
     \<and> (\<forall>r. dat_handle d r \<in> H \<and> dat_handle d r \<noteq> hStStore_Idx (g_DBState d m))"

lemma read_index_word:
  assumes laws: "fs_laws F cont pos H" "f \<in> H" and j: "3 * j + 3 \<le> length (cont s f)"
  shows "\<exists>s'. Fread F f DB_HANDLE_SIZE [w] (snd (Fseek F f (3 * int j) s)) = (3, [index_word (cont s f) j], s')
    \<and> cont s' = cont s"
proof -
  obtain s1 where s1: "Fseek F f (int (3 * j)) s = (0, s1)" "cont s1 = cont s" "pos s1 = (pos s)(f := 3 * j)"
    by (rule fs_seek [OF laws, of "3 * j" s]) (use j in auto)
  obtain ws s2 where s2: "Fread F f 3 [w] s1 = (int 3, ws, s2)" "length ws = length [w]"
    "take 3 (bytes_of ws) = take 3 (drop (pos s1 f) (cont s1 f))" "cont s2 = cont s1"
    by (rule fs_read [OF laws, of 3 "[w]" s1]) (use j s1 in auto)
  obtain v where v: "ws = [v]" using s2(2) by (cases ws) auto
  have "word_bytes v = [cont s f ! (3 * j), cont s f ! (3 * j + 1), cont s f ! (3 * j + 2)]"
    using s2(3) s1 v j by (simp add: take_Suc_conv_app_nth numeral_3_eq_3 add.commute)
  then have "v = index_word (cont s f) j"
    by (metis index_word_def word_bytes_inj word_bytes_word3)
  then show ?thesis
    using s1 s2 v by (simp add: DB_HANDLE_SIZE_def)
qed

definition same_index where
  "same_index cont d' d m \<longleftrightarrow> hStStore_Idx (g_DBState d' m) = hStStore_Idx (g_DBState d m)
     \<and> hStString_Idx (g_DBState d' m) = hStString_Idx (g_DBState d m)
     \<and> (\<forall>r. dat_handle d' r = dat_handle d r)
     \<and> cont (fs d') (hStStore_Idx (g_DBState d m)) = cont (fs d) (hStStore_Idx (g_DBState d m))"

lemma NewRecord_ring:
  assumes laws: "fs_laws F cont pos H" and m: "m < 2" and ok: "index_ok cont H d m"
    and room: "TotalRecords (top m d) < 0x4000"
  shows "\<exists>d'. DBNewRecord F m rec0 d = (DB_ERROR_NONE, fst (rp.alloc m (ring_view cont d m)), d')
    \<and> ring_view cont d' m = snd (rp.alloc m (ring_view cont d m)) \<and> same_index cont d' d m"
proof -
  define d1 where "d1 = upd_top m (\<lambda>t. t\<lparr>TotalRecords := TotalRecords t + 1\<rparr>) (d\<lparr>g_DB_Dirty := True\<rparr>)"
  let ?f = "hStStore_Idx (g_DBState d m)" and ?v = "ring_view cont d m"
  have f: "?f \<in> H" and dat: "dat_handle d r \<in> H" "dat_handle d r \<noteq> ?f" for r
    using ok by (auto simp: index_ok_def)
  have d1: "hStStore_Idx (g_DBState d1 m) = ?f" "dat_handle d1 r = dat_handle d r" "fs d1 = fs d"
    "g_DB_BufferIndex d1 = g_DB_BufferIndex d" "top m d1 = (top m d)\<lparr>TotalRecords := TotalRecords (top m d) + 1\<rparr>"
    "hStString_Idx (g_DBState d1 m) = hStString_Idx (g_DBState d m)" for r
    by (auto simp: d1_def)
  have finish: "\<exists>d'. start_record F h d2 = (h, d') \<and> ring_view cont d' m = (t, index_word (cont (fs d) ?f))
      \<and> same_index cont d' d m"
    if "cont (fs d2) = cont (fs d)" "top m d2 = t" "hStStore_Idx (g_DBState d2 m) = ?f"
      "\<And>r. dat_handle d2 r = dat_handle d r" "hStString_Idx (g_DBState d2 m) = hStString_Idx (g_DBState d m)" for h t d2
    using BufferFlush_frame [OF laws, of d2 ?f] that dat dat(2) [symmetric]
    by (auto simp: start_record_def ring_view_def same_index_def intro!: arg_cong [where f = index_word])
  let ?ext = "\<lambda>h. if m \<noteq> 0 then h OR DB_MEDIA_INDEX_EXTERNAL else h"
  show ?thesis
  proof (cases "TotalDelRecords (top m d) = 0")
    case True
    let ?h = "word_of_int (TotalRecords (top m d) + 1) :: WORD"
    have "rp.alloc m ?v = (?ext ?h, ring_bump ?v)"
      using True by (simp add: rp.alloc_def ring_bump_def ring_view_def)
    moreover have "ring_bump ?v = (top m d1, index_word (cont (fs d) ?f))"
      using d1 by (simp add: ring_bump_def ring_view_def)
    moreover have "DBNewRecord F m rec0 d = (let (h', d3) = start_record F (?ext ?h) d1 in (DB_ERROR_NONE, h', d3))"
      using m room True by (simp add: DBNewRecord_def Let_def DB_MAX_DATABASE_STORES_def d1_def)
    ultimately show ?thesis
      using finish [of d1 "top m d1" "?ext ?h"] d1 by auto
  next
    case False
    obtain g p l where r: "ring_rep (top m d) g p l"
      using ok by (auto simp: index_ok_def ring_inv_def ring_view_def)
    have "g \<in> live_slots (top m d)"
      using ring_get_rep(1) [OF r False] live_slots_rep [OF r] by simp
    then have "3 * g + 3 \<le> length (cont (fs d) ?f)"
      using ok by (auto simp: index_ok_def)
    from read_index_word [OF laws f this, of rec0]
    obtain s2 where s2: "Fread F ?f DB_HANDLE_SIZE [rec0] (snd (Fseek F ?f (3 * int g) (fs d)))
        = (3, [index_word (cont (fs d) ?f) g], s2)" "cont s2 = cont (fs d)"
      by blast
    let ?h = "fresh_handle (index_word (cont (fs d) ?f) g)" and ?d2 = "upd_top m ring_get (d1\<lparr>fs := s2\<rparr>)"
    have get: "GetDelRecordIdx (top m d) = 3 * int g" using r by (simp add: ring_rep_def)
    have "rp.alloc m ?v = (?ext ?h, (ring_get (top m d1), index_word (cont (fs d) ?f)))"
      using False get by (simp add: rp.alloc_def ring_bump_def ring_view_def get_op_def d1(5))
    moreover have "DBNewRecord F m rec0 d = (let (h', d3) = start_record F (?ext ?h) ?d2 in (DB_ERROR_NONE, h', d3))"
      using m room False s2(1) get
      by (simp add: DBNewRecord_def Let_def DB_MAX_DATABASE_STORES_def d1_def)
    ultimately show ?thesis
      using finish [of ?d2 "ring_get (top m d1)" "?ext ?h"] s2(2) d1 by (auto simp: d1_def)
  qed
qed

lemma ring_put_file:
  assumes "ring_rep t g p l" and "\<forall>j\<in>live_slots t. 3 * j + 3 \<le> n"
  shows "3 * p \<le> n"
proof (cases "g \<le> p \<and> p = 0")
  case False
  then have "(if g \<le> p then p - 1 else l) \<in> live_slots t" "p \<le> Suc (if g \<le> p then p - 1 else l)"
    using assms(1) by (auto simp: live_slots_rep [OF assms(1)] ring_rep_def ring_shape_def ring_slots_def)
  then show ?thesis using assms(2) by fastforce
qed simp

lemma index_word_write:
  assumes "3 * p \<le> length c"
  shows "index_word (take (3 * p) c @ word_bytes r @ drop (3 * p + 3) c) p = r"
    and "j \<noteq> p \<Longrightarrow> 3 * j + 3 \<le> length c
      \<Longrightarrow> index_word (take (3 * p) c @ word_bytes r @ drop (3 * p + 3) c) j = index_word c j"
proof -
  let ?c = "take (3 * p) c @ word_bytes r @ drop (3 * p + 3) c"
  have "?c ! (3 * p) = word_bytes r ! 0" "?c ! (3 * p + 1) = word_bytes r ! 1" "?c ! (3 * p + 2) = word_bytes r ! 2"
    using assms by (simp_all add: nth_append)
  then show "index_word ?c p = r"
    by (simp add: index_word_def word_bytes_def word3_word_bytes)
next
  assume j: "j \<noteq> p" "3 * j + 3 \<le> length c"
  let ?c = "take (3 * p) c @ word_bytes r @ drop (3 * p + 3) c"
  have "?c ! (3 * j + i) = c ! (3 * j + i)" if "i < 3" for i
  proof (cases "j < p")
    case True
    then have "3 * j + i < 3 * p" using that by linarith
    then show ?thesis using assms by (simp add: nth_append)
  next
    case False
    then have "3 * p + 3 \<le> 3 * j + i" using j(1) by linarith
    then have "\<not> 3 * j + i - 3 * p < 3" "\<not> 3 * j + i < 3 * p" by linarith+
    then show ?thesis using assms j(2) that by (simp add: nth_append)
  qed
  from this [of 0] this [of 1] this [of 2] show "index_word ?c j = index_word c j"
    by (simp add: index_word_def)
qed

lemma live_slots_get: "ring_inv (t, i) \<Longrightarrow> TotalDelRecords t \<noteq> 0 \<Longrightarrow> live_slots (ring_get t) \<subseteq> live_slots t"
  using ring_get_rep(2) by (fastforce simp: ring_inv_def live_slots_rep)

lemma ring_part_cong:
  assumes "ring_part t' = ring_part t"
  shows "ring_rep t' = ring_rep t" and "live_slots t' = live_slots t" and "TotalRecords t' = TotalRecords t"
    and "TotalDelRecords t' = TotalDelRecords t"
  using assms by (auto simp: ring_part_def ring_rep_def live_slots_def fun_eq_iff)

lemma DeleteRecord_ring:
  assumes laws: "fs_laws F cont pos H" and ok: "index_ok cont H d (GetMediaIndex r)"
    and del: "DBDeleteRecord F r d = Some (0, d')"
  shows "index_ok cont H d' (GetMediaIndex r)
    \<and> ring_pool (ring_view cont d' (GetMediaIndex r)) = ring_pool (put_op r (ring_view cont d (GetMediaIndex r)))
    \<and> TotalRecords (top (GetMediaIndex r) d') = TotalRecords (top (GetMediaIndex r) d) - 1"
proof -
  let ?m = "GetMediaIndex r"
  let ?f = "hStStore_Idx (g_DBState d ?m)"
  have f: "?f \<in> H" and sf: "hStString_Idx (g_DBState d ?m) \<in> H" "?f \<noteq> hStString_Idx (g_DBState d ?m)"
    and dat: "\<And>q. dat_handle d q \<in> H" "\<And>q. ?f \<noteq> dat_handle d q"
    using ok by (auto simp: index_ok_def)
  define d1 where "d1 = BufferUpdate F r (d\<lparr>g_DB_Dirty := True\<rparr>)"
  have d1: "cont (fs d1) ?f = cont (fs d) ?f" "g_DBState d1 = g_DBState d"
    using BufferUpdate_frame [OF laws, of "d\<lparr>g_DB_Dirty := True\<rparr>" ?f r] dat by (simp_all add: d1_def)
  obtain g p l where rr: "ring_rep (top ?m d) g p l"
    using ok by (auto simp: index_ok_def ring_inv_def ring_view_def)
  have put: "PutDelRecordIdx (top ?m d) = int (3 * p)" using rr by (simp add: ring_rep_def)
  have plen: "3 * p \<le> length (cont (fs d1) ?f)"
    using ring_put_file [OF rr] ok d1(1) by (auto simp: index_ok_def)
  obtain s1 where s1: "Fseek F ?f (int (3 * p)) (fs d1) = (0, s1)" "cont s1 = cont (fs d1)"
    "pos s1 = (pos (fs d1))(?f := 3 * p)"
    by (rule fs_seek [OF laws f plen])
  obtain s2 where s2: "Fwrite F ?f [r] 3 s1 = (int 3, s2)"
    "cont s2 = (cont s1)(?f := take (pos s1 ?f) (cont s1 ?f) @ take 3 (bytes_of [r]) @ drop (pos s1 ?f + 3) (cont s1 ?f))"
    by (rule fs_write [OF laws f, of 3 "[r]" s1]) (use s1 plen in auto)
  let ?c = "cont (fs d) ?f" and ?c' = "take (3 * p) (cont (fs d) ?f) @ word_bytes r @ drop (3 * p + 3) (cont (fs d) ?f)"
  have c2: "cont s2 ?f = ?c'"
    using s1 s2(2) d1(1) by simp
  define d2 where "d2 = upd_top ?m ring_put (d1\<lparr>fs := s2\<rparr>)"
  have d2: "top ?m d2 = ring_put (top ?m d)" "fs d2 = s2" "hStStore_Idx (g_DBState d2 ?m) = ?f"
    "hStString_Idx (g_DBState d2 ?m) = hStString_Idx (g_DBState d ?m)" "\<And>q. dat_handle d2 q = dat_handle d q"
    using d1(2) by (auto simp: d2_def)
  obtain e d3 where d3: "delete_strings F ?m 0 d2 = Some (e, d3)"
    and d': "e \<ge> 0 \<and> d' = snd (BufferFlush F (d3\<lparr>g_DB_Buffer := (g_DB_Buffer d3)[DB_RECORD_SIZE_WORDS := - 1],
                              g_DB_BufferState := g_DB_BufferState d3 OR DB_ENTRY_DIRTY\<rparr>))"
    using del d1(2) s1 s2(1) put
    by (fastforce simp: DBDeleteRecord_def Let_def d1_def [symmetric] d2_def DB_HANDLE_SIZE_def DB_ERROR_INDEX_def
        split: if_splits Option.bind_splits)
  have fr: "strings_frame cont ?m ?f d2 d3"
    by (rule delete_strings_frame [OF laws _ _ d3]) (use sf d2 in auto)
  note rp = ring_part_cong [of "top ?m d3" "ring_put (top ?m d)"]
  have d3f: "ring_part (top ?m d3) = ring_part (ring_put (top ?m d))" "cont (fs d3) ?f = ?c'"
    "hStStore_Idx (g_DBState d3 ?m) = ?f" "hStString_Idx (g_DBState d3 ?m) = hStString_Idx (g_DBState d ?m)"
    "\<And>q. dat_handle d3 q = dat_handle d q"
    using fr d2 c2 by (auto simp: strings_frame_def)
  have st: "g_DBState d' = g_DBState d3" using d' by simp
  have c': "cont (fs d') ?f = ?c'"
    using d' BufferFlush_frame [OF laws, of "d3\<lparr>g_DB_Buffer := (g_DB_Buffer d3)[DB_RECORD_SIZE_WORDS := - 1],
                              g_DB_BufferState := g_DB_BufferState d3 OR DB_ENTRY_DIRTY\<rparr>" ?f] dat d3f by simp
  obtain g' p' l' where rr': "ring_rep (ring_put (top ?m d)) g' p' l'"
    "ring_slots g' p' l' = insert p (ring_slots g p l)" "p \<notin> ring_slots g p l"
    using ring_put_rep [OF rr] by blast
  have live: "live_slots (top ?m d') = insert p (live_slots (top ?m d))"
    using rp(2) [OF d3f(1)] st live_slots_rep [OF rr'(1)] live_slots_rep [OF rr] rr'(2) by simp
  have len: "3 * j + 3 \<le> length ?c" if "j \<in> live_slots (top ?m d)" for j
    using ok that by (auto simp: index_ok_def)
  have plen': "3 * p \<le> length ?c" using plen d1(1) by simp
  then have len': "length ?c \<le> length ?c'" "3 * p + 3 \<le> length ?c'" by auto
  have "index_ok cont H d' ?m"
    unfolding index_ok_def
  proof (intro conjI)
    show "ring_inv (ring_view cont d' ?m)"
      using rr'(1) rp(1) [OF d3f(1)] st by (auto simp: ring_inv_def ring_view_def)
    show "\<forall>j\<in>live_slots (top ?m d'). 3 * j + 3 \<le> length (cont (fs d') (hStStore_Idx (g_DBState d' ?m)))"
      using live len [THEN le_trans, OF _ len'(1)] len'(2) st d3f(3) c' by (simp del: length_append)
  qed (use ok st d3f in \<open>auto simp: index_ok_def\<close>)
  moreover have "ring_pool (ring_view cont d' ?m) = ring_pool (put_op r (ring_view cont d ?m))"
  proof -
    have "ring_pool (ring_view cont d' ?m) = image_mset (index_word ?c') (mset_set (insert p (live_slots (top ?m d))))"
      using live st d3f(3) c' by (simp add: ring_pool_def ring_view_def)
    also have "\<dots> = image_mset ((index_word ?c)(p := r)) (mset_set (insert p (live_slots (top ?m d))))"
      using index_word_write [OF plen'] len
      by (intro image_mset_cong) (auto simp: live_slots_def)
    also have "\<dots> = ring_pool (put_op r (ring_view cont d ?m))"
      using put live_slots_rep [OF rr'(1)] live_slots_rep [OF rr] rr'(2)
      by (simp add: ring_pool_def put_op_def ring_view_def)
    finally show ?thesis .
  qed
  moreover have "TotalRecords (top ?m d') = TotalRecords (top ?m d) - 1"
    using rp(3) [OF d3f(1)] st by simp
  ultimately show ?thesis by blast
qed

lemma NewRecord_index_ok:
  assumes ok: "index_ok cont H d m" and view: "ring_view cont d' m = snd (rp.alloc m (ring_view cont d m))"
    and same: "same_index cont d' d m"
  shows "index_ok cont H d' m"
proof -
  let ?v = "ring_view cont d m"
  have inv: "ring_inv (ring_bump ?v)"
    using ok rp.bump [of ?v] by (simp add: index_ok_def)
  have "ring_inv (ring_view cont d' m) \<and> live_slots (top m d') \<subseteq> live_slots (top m d)"
  proof (cases "TotalDelRecords (top m d) = 0")
    case True
    then have v: "ring_view cont d' m = ring_bump ?v"
      using view by (simp add: rp.alloc_def ring_bump_def ring_view_def)
    have "top m d' = fst (ring_view cont d' m)" by (simp add: ring_view_def)
    then have "top m d' = fst (ring_bump ?v)" using v by simp
    with v inv show ?thesis by (simp add: ring_bump_def live_slots_def ring_view_def)
  next
    case False
    then have v: "ring_view cont d' m = snd (get_op (ring_bump ?v))"
      using view by (simp add: rp.alloc_def ring_bump_def ring_view_def Let_def)
    moreover have "ring_pool (ring_bump ?v) \<noteq> {#}"
      using False rp.del_size [OF inv] by (auto simp: ring_bump_def ring_view_def)
    ultimately have "ring_inv (ring_view cont d' m)"
      using rp.get [OF inv] by simp
    moreover have "top m d' = ring_get (fst (ring_bump ?v))"
      using v by (simp add: ring_view_def get_op_def)
    moreover have "live_slots (ring_get (fst (ring_bump ?v))) \<subseteq> live_slots (fst (ring_bump ?v))"
      by (rule live_slots_get [of _ "snd ?v"]) (use inv False in \<open>simp_all add: ring_bump_def ring_view_def\<close>)
    ultimately show ?thesis by (simp add: ring_bump_def ring_view_def live_slots_def)
  qed
  with ok same show ?thesis
    by (auto simp: index_ok_def same_index_def)
qed

lemma slots_used_pool:
  "rp.slots_used n live s \<Longrightarrow> ring_inv s' \<Longrightarrow> ring_pool s' = ring_pool s \<Longrightarrow> TotalRecords (fst s') = TotalRecords (fst s)
     \<Longrightarrow> rp.slots_used n live s'"
  by (simp add: rp.slots_used_def)

text \<open>
  \<open>records_ok n live cont H d m\<close>: on medium \<open>m\<close> the live handles together with the deleted ones occupy
  the places 1 to \<open>n\<close> of \<^verbatim>\<open>ststore.dat\<close>, each exactly once.
\<close>

definition records_ok where
  "records_ok n live cont H d m \<longleftrightarrow> index_ok cont H d m
     \<and> TotalRecords (top m d) = int (size live)
     \<and> image_mset file_index (live + ring_pool (ring_view cont d m)) = mset_set {1..n}"

lemma records_ok_slots:
  "records_ok n live cont H d m \<longleftrightarrow> index_ok cont H d m \<and> rp.slots_used n live (ring_view cont d m)"
  by (auto simp: records_ok_def rp.slots_used_def index_ok_def) (simp_all add: ring_view_def)

text \<open>A database in memory with one live record, for the witnesses.\<close>

definition demo_db :: "memfs db" where
  "demo_db = \<lparr>g_DBState = \<lambda>m. \<lparr>hStStore_Dat = 1, hStStore_Idx = 2, hStString_Dat = 3, hStString_Idx = 4,
       TopRecord = new_top\<lparr>TotalRecords := 1\<rparr>\<rparr>,
     g_DB_Buffer = replicate 171 0, g_DB_BufferIndex = 1, g_DB_BufferState = 1, g_DB_Dirty = False,
     fs = (\<lambda>h. if h = 1 then replicate 1024 0 else [], \<lambda>_. 0)\<rparr>"

lemma demo_records_ok: "records_ok 1 {#1#} fst UNIV demo_db m"
proof -
  have r: "ring_rep (top m demo_db) 0 0 0"
    by (simp add: demo_db_def new_top_def ring_rep_def ring_shape_def ring_slots_def)
  have l: "live_slots (top m demo_db) = {}"
    using live_slots_rep [OF r] by (simp add: ring_slots_def)
  have "index_ok fst UNIV demo_db m"
    using r l by (auto simp: index_ok_def ring_inv_def ring_view_def) (simp_all add: demo_db_def)
  moreover have "file_index 1 = 1" by (simp add: file_index_def DB_INDEX_MASK_def)
  ultimately show ?thesis
    using l by (simp add: records_ok_def ring_pool_def ring_view_def) (simp add: demo_db_def new_top_def)
qed

lemma delete_strings_zero:
  "g_DB_Buffer d = replicate 171 0 \<Longrightarrow> delete_strings F m i d = Some (0, d)"
proof (induction "170 - i" arbitrary: i rule: less_induct)
  case less
  then show ?case
    by (subst delete_strings.simps) (auto simp: DB_RECORD_SIZE_WORDS_def)
qed

text \<open>
  C4. \<^verbatim>\<open>DBNewRecord\<close>, with fewer than 0x3fff records ever handed out, always succeeds with a handle whose place in
  \<^verbatim>\<open>ststore.dat\<close> is neither 0 (the top record's) nor that of any live record, and afterwards the live
  and deleted handles again occupy a range of places exactly once.
\<close>

theorem DBNewRecord_no_clash:
  assumes "fs_laws F cont pos H" and "m < 2" and "records_ok n live cont H d m"
    and "TotalRecords (top m d) + TotalDelRecords (top m d) < 0x3fff"
  shows "\<exists>h d' n'. DBNewRecord F m rec0 d = (DB_ERROR_NONE, h, d')
    \<and> records_ok n' (add_mset h live) cont H d' m
    \<and> file_index h \<noteq> 0 \<and> (\<forall>h'\<in>#live. file_index h' \<noteq> file_index h)"
proof -
  let ?v = "ring_view cont d m"
  have ok: "index_ok cont H d m" and su: "rp.slots_used n live ?v"
    using assms(3) by (simp_all add: records_ok_slots)
  have "TotalDelRecords (top m d) \<ge> 0"
    using rp.del_size [of ?v] ok by (simp add: index_ok_def ring_view_def)
  then have room: "TotalRecords (top m d) < 0x4000" using assms(4) by simp
  obtain d' where d': "DBNewRecord F m rec0 d = (DB_ERROR_NONE, fst (rp.alloc m ?v), d')"
    "ring_view cont d' m = snd (rp.alloc m ?v)" "same_index cont d' d m"
    using NewRecord_ring [OF assms(1,2) ok room] by blast
  let ?h = "fst (rp.alloc m ?v)"
  have "TotalRecords (fst ?v) + TotalDelRecords (fst ?v) < 0x3fff"
    using assms(4) by (simp add: ring_view_def)
  from rp.alloc_slots [OF su this, of m] obtain n' where
    su': "rp.slots_used n' (add_mset ?h live) (ring_view cont d' m)"
    using d'(2) by auto
  have "records_ok n' (add_mset ?h live) cont H d' m"
    using su' NewRecord_index_ok [OF ok d'(2,3)] by (simp add: records_ok_slots)
  moreover have "file_index ?h \<in> set_mset (mset_set {1..n'})"
    using su' unfolding rp.slots_used_def by (metis image_mset_add_mset union_mset_add_mset_left union_single_eq_member)
  moreover have "\<forall>h'\<in>#live. file_index h' \<noteq> file_index ?h"
    using rp.slots_distinct [OF su', of ?h] by fastforce
  ultimately show ?thesis
    using d'(1) by auto
qed

theorem DBNewRecord_no_clash_witness:
  "\<exists>h d' n'. DBNewRecord mem_fs 0 0 demo_db = (DB_ERROR_NONE, h, d')
    \<and> records_ok n' (add_mset h {#1#}) fst UNIV d' 0 \<and> file_index h \<noteq> file_index 1"
proof -
  have "TotalRecords (top 0 demo_db) + TotalDelRecords (top 0 demo_db) < 0x3fff"
    by (simp add: demo_db_def new_top_def)
  from DBNewRecord_no_clash [OF mem_fs_laws _ demo_records_ok this, of 0] show ?thesis by fastforce
qed

text \<open>
  C5. \<^verbatim>\<open>DBDeleteRecord\<close> of a live record, when it succeeds, takes exactly that handle out of the live
  ones and adds it to the deleted ones; no other handle is lost or duplicated, whatever strings the
  record had.
\<close>

theorem DBDeleteRecord_frees:
  assumes "fs_laws F cont pos H" and "records_ok n live cont H d (GetMediaIndex r)" and "r \<in># live"
    and "DBDeleteRecord F r d = Some (0, d')"
  shows "records_ok n (live - {#r#}) cont H d' (GetMediaIndex r)"
proof -
  let ?m = "GetMediaIndex r"
  have ok: "index_ok cont H d ?m" and su: "rp.slots_used n live (ring_view cont d ?m)"
    using assms(2) by (simp_all add: records_ok_slots)
  note dr = DeleteRecord_ring [OF assms(1) ok assms(4)]
  have inv: "ring_inv (ring_view cont d' ?m)" using dr by (simp add: index_ok_def)
  have "TotalRecords (fst (ring_view cont d' ?m)) = TotalRecords (fst (put_op r (ring_view cont d ?m)))"
    using dr by (simp add: ring_view_def put_op_def)
  with slots_used_pool [OF rp.free_slots [OF su assms(3)] inv] dr
  show ?thesis by (simp add: records_ok_slots)
qed

theorem DBDeleteRecord_frees_witness:
  "\<exists>d'. DBDeleteRecord mem_fs 1 demo_db = Some (0, d') \<and> records_ok 1 {#} fst UNIV d' 0"
proof -
  have m: "GetMediaIndex 1 = 0" by (simp add: GetMediaIndex_def DB_MEDIA_INDEX_EXTERNAL_def)
  obtain d' where d': "DBDeleteRecord mem_fs 1 demo_db = Some (0, d')"
    using m by (simp add: DBDeleteRecord_def Let_def delete_strings_zero BufferUpdate_def demo_db_def
        DB_RECORD_SIZE_WORDS_def)
  have "records_ok 1 ({#1#} - {#1#}) fst UNIV d' (GetMediaIndex 1)"
    by (rule DBDeleteRecord_frees [OF mem_fs_laws demo_records_ok _ d']) simp
  with m d' show ?thesis by simp
qed

text \<open>
  The bound the code tests is too weak by one: with 0x3fff live records and none deleted
  \<^verbatim>\<open>DBNewRecord\<close> still reports success, and the handle it returns has place 0 of \<^verbatim>\<open>ststore.dat\<close>, where
  \<^verbatim>\<open>DBClose\<close> keeps the top record.
\<close>

theorem DBNewRecord_place_zero:
  assumes "fs_laws F cont pos H" and "m < 2" and "index_ok cont H d m"
    and "TotalRecords (top m d) = 0x3fff" and "TotalDelRecords (top m d) = 0"
  shows "\<exists>h d'. DBNewRecord F m rec0 d = (DB_ERROR_NONE, h, d') \<and> file_index h = 0 \<and> record_pos h = 0"
proof -
  let ?v = "ring_view cont d m"
  obtain d' where d': "DBNewRecord F m rec0 d = (DB_ERROR_NONE, fst (rp.alloc m ?v), d')"
    using NewRecord_ring [OF assms(1-3)] assms(4) by auto
  have h: "fst (rp.alloc m ?v) = (if m \<noteq> 0 then 0x4000 OR DB_MEDIA_INDEX_EXTERNAL else 0x4000)"
    using assms(4,5) by (simp add: rp.alloc_def ring_bump_def ring_view_def)
  then have "file_index (fst (rp.alloc m ?v)) = 0"
    by (simp add: file_index_def DB_MEDIA_INDEX_EXTERNAL_def DB_INDEX_MASK_def)
  moreover from this have "record_pos (fst (rp.alloc m ?v)) = 0"
    by (simp add: record_pos_def file_index_def int24_def uint_nat)
  ultimately show ?thesis using d' by blast
qed

theorem DBNewRecord_place_zero_witness:
  "\<exists>h d'. DBNewRecord mem_fs 0 0 (upd_top 0 (\<lambda>t. t\<lparr>TotalRecords := 0x3fff\<rparr>) demo_db) = (DB_ERROR_NONE, h, d')
    \<and> record_pos h = 0"
proof -
  let ?d = "upd_top 0 (\<lambda>t. t\<lparr>TotalRecords := 0x3fff\<rparr>) demo_db"
  have r: "ring_rep (top 0 ?d) 0 0 0"
    by (simp add: demo_db_def new_top_def ring_rep_def ring_shape_def ring_slots_def)
  have "index_ok fst UNIV ?d 0"
    using r live_slots_rep [OF r] by (auto simp: index_ok_def ring_inv_def ring_view_def ring_slots_def)
      (simp_all add: demo_db_def)
  moreover have "TotalRecords (top 0 ?d) = 0x3fff" "TotalDelRecords (top 0 ?d) = 0"
    by (simp_all add: demo_db_def new_top_def)
  ultimately show ?thesis
    using DBNewRecord_place_zero [OF mem_fs_laws, of 0 UNIV ?d 0] by auto
qed

end
