(* ===== verification/DatabaseBuffer.thy ===== *)
theory DatabaseBuffer imports DatabaseRing FileStore begin

text \<open>
  The record buffer is a transparent cache: \<open>rec_bytes\<close> is what a place of \<^verbatim>\<open>ststore.dat\<close> holds as a
  caller sees it, in the buffer or in the file, and flushing the buffer, loading another record and
  reading leave it unchanged everywhere, a write changes it only for its own record. So a value set
  in a record is read back later, whatever was done to other records in between.
\<close>

section \<open>A record as its callers see it\<close>

definition slot :: "WORD \<Rightarrow> nat \<times> nat" where
  "slot r = (GetMediaIndex r, file_index r)"

definition file_slot :: "('fs \<Rightarrow> int \<Rightarrow> BYTE list) \<Rightarrow> 'fs db \<Rightarrow> nat \<times> nat \<Rightarrow> BYTE list" where
  "file_slot cont d s = take 512 (drop (512 * snd s) (cont (fs d) (hStStore_Dat (g_DBState d (fst s)))))"

definition buffered :: "'fs db \<Rightarrow> nat \<times> nat \<Rightarrow> bool" where
  "buffered d s \<longleftrightarrow> g_DB_BufferIndex d \<noteq> - 1 \<and> slot (g_DB_BufferIndex d) = s"

definition buffer_bytes :: "'fs db \<Rightarrow> BYTE list" where
  "buffer_bytes d = take 512 (bytes_of (g_DB_Buffer d))"

definition rec_bytes :: "('fs \<Rightarrow> int \<Rightarrow> BYTE list) \<Rightarrow> 'fs db \<Rightarrow> nat \<times> nat \<Rightarrow> BYTE list" where
  "rec_bytes cont d s = (if buffered d s then buffer_bytes d else file_slot cont d s)"

abbreviation dat_file where
  "dat_file cont d s \<equiv> cont (fs d) (hStStore_Dat (g_DBState d (fst s)))"

definition in_file where
  "in_file cont d s \<longleftrightarrow> 512 * snd s + 512 \<le> length (dat_file cont d s)"

definition present where
  "present cont d s \<longleftrightarrow> buffered d s \<or> in_file cont d s"

abbreviation dirty :: "'fs db \<Rightarrow> bool" where
  "dirty d \<equiv> g_DB_BufferState d AND DB_ENTRY_DIRTY \<noteq> 0"

text \<open>The buffer has its size; a clean buffer agrees with its file, a dirty one has a place in it.\<close>

definition buf_ok where
  "buf_ok cont H d \<longleftrightarrow> length (g_DB_Buffer d) = 171
     \<and> (\<forall>m < 2. hStStore_Dat (g_DBState d m) \<in> H) \<and> hStStore_Dat (g_DBState d 0) \<noteq> hStStore_Dat (g_DBState d 1)
     \<and> (\<forall>s. buffered d s \<longrightarrow> 512 * snd s \<le> length (dat_file cont d s)
            \<and> (\<not> dirty d \<longrightarrow> buffer_bytes d = file_slot cont d s))"

lemma record_pos_slot: "record_pos r = int (512 * snd (slot r))"
proof -
  have "uint (r AND DB_INDEX_MASK) = int (file_index r)"
    unfolding file_index_def by (rule uint_nat)
  then have "record_pos r = int24 (512 * int (file_index r))"
    by (simp only: record_pos_def DB_RECORD_SIZE_BYTES_def) simp
  moreover have "file_index r < 16384" by (simp add: file_index_mod)
  ultimately show ?thesis
    by (simp add: slot_def int24_id)
qed

lemma media_less [simp]: "GetMediaIndex r < 2"
  by (simp add: GetMediaIndex_def)

lemma slot_replace:
  assumes "512 * i \<le> length c" and "length x = 512"
  shows "take 512 (drop (512 * j) (take (512 * i) c @ x @ drop (512 * i + 512) c))
    = (if j = i then x else take 512 (drop (512 * j) c))"
proof -
  consider "j = i" | "j < i" "512 * j + 512 \<le> 512 * i" | "i < j" "512 * i + 512 \<le> 512 * j"
    by (cases j i rule: linorder_cases) auto
  then show ?thesis
  proof cases
    case 1
    then show ?thesis using assms by simp
  next
    case 2
    then show ?thesis using assms by (simp add: min_def take_drop)
  next
    case 3
    then have "512 * j - 512 * i - 512 + (512 * i + 512) = 512 * j" by linarith
    with 3 show ?thesis using assms by (simp add: min_def)
  qed
qed

lemma dat_distinct:
  assumes "buf_ok cont H d" and "m < 2" and "m' < 2" and "hStStore_Dat (g_DBState d m) = hStStore_Dat (g_DBState d m')"
  shows "m = m'"
  using assms by (auto simp: buf_ok_def less_2_cases_iff)

lemma and_not_and: "(x AND NOT c) AND c = (0 :: WORD)"
  by (rule bit_eqI) (auto simp: bit_simps)

section \<open>Flushing\<close>

lemma BufferFlush_ok:
  assumes laws: "fs_laws F cont pos H" and ok: "buf_ok cont H d"
  obtains d' where "BufferFlush F d = (0, d')" and "buf_ok cont H d'" and "\<not> dirty d' \<or> g_DB_BufferIndex d' = - 1"
    and "g_DBState d' = g_DBState d" and "g_DB_Buffer d' = g_DB_Buffer d" and "g_DB_BufferIndex d' = g_DB_BufferIndex d"
    and "\<And>s. fst s < 2 \<Longrightarrow> rec_bytes cont d' s = rec_bytes cont d s"
    and "\<And>s. fst s < 2 \<Longrightarrow> file_slot cont d' s = rec_bytes cont d s"
    and "\<And>s. fst s < 2 \<Longrightarrow> present cont d s \<Longrightarrow> in_file cont d' s"
proof (cases "g_DB_BufferIndex d = - 1 \<or> \<not> dirty d")
  case True
  have same: "file_slot cont d s = rec_bytes cont d s" for s
  proof (cases "buffered d s")
    case b: True
    then have "\<not> dirty d" using True by (auto simp: buffered_def)
    then have "buffer_bytes d = file_slot cont d s"
      using ok b unfolding buf_ok_def by blast
    then show ?thesis by (simp add: rec_bytes_def)
  qed (simp add: rec_bytes_def)
  moreover have "in_file cont d s" if "fst s < 2" "present cont d s" for s
  proof (cases "buffered d s")
    case b: True
    then have "length (file_slot cont d s) = 512"
      using same [of s] ok by (simp add: rec_bytes_def buffer_bytes_def buf_ok_def)
    then show ?thesis by (simp add: in_file_def file_slot_def min_def split: if_splits)
  qed (use that in \<open>simp add: present_def\<close>)
  ultimately show thesis
    using True ok that [of d] by (auto simp: BufferFlush_def)
next
  case False
  let ?r = "g_DB_BufferIndex d"
  let ?s = "slot ?r"
  let ?h = "hStStore_Dat (g_DBState d (fst ?s))" and ?i = "snd ?s"
  let ?c = "cont (fs d) ?h"
  have buf: "buffered d ?s" using False by (simp add: buffered_def)
  have h: "?h \<in> H" and i: "512 * ?i \<le> length ?c" and len: "length (g_DB_Buffer d) = 171"
    using ok buf by (auto simp: buf_ok_def slot_def)
  obtain s1 where s1: "SeekDB F ?h (int (512 * ?i)) (fs d) = (0, s1)" "cont s1 = cont (fs d)"
    "pos s1 = (pos (fs d))(?h := 512 * ?i)"
    by (rule SeekDB_ok [OF laws h i])
  obtain s2 where s2: "Fwrite F ?h (g_DB_Buffer d) 512 s1 = (int 512, s2)"
    "cont s2 = (cont s1)(?h := take (pos s1 ?h) (cont s1 ?h) @ take 512 (bytes_of (g_DB_Buffer d))
        @ drop (pos s1 ?h + 512) (cont s1 ?h))"
    by (rule fs_write [OF laws h, of 512 "g_DB_Buffer d" s1]) (use s1 i len in auto)
  define d' where "d' = d\<lparr>fs := s2, g_DB_BufferState := g_DB_BufferState d AND NOT DB_ENTRY_DIRTY\<rparr>"
  have fl: "BufferFlush F d = (0, d')"
    using False s1(1) s2(1) record_pos_slot [of ?r]
    by (simp add: BufferFlush_def Let_def slot_def DB_RECORD_SIZE_BYTES_def d'_def)
  have bb: "length (buffer_bytes d) = 512" using len by (simp add: buffer_bytes_def)
  have fil: "dat_file cont d' s = (if fst s = fst ?s then take (512 * ?i) ?c @ buffer_bytes d @ drop (512 * ?i + 512) ?c
      else dat_file cont d s)" if "fst s < 2" for s
    using s1 s2(2) dat_distinct [OF ok that, of "fst ?s"] by (auto simp: d'_def buffer_bytes_def slot_def)
  have fs': "file_slot cont d' s = (if s = ?s then buffer_bytes d else file_slot cont d s)" if "fst s < 2" for s
    using fil [OF that] slot_replace [OF i bb, of "snd s"] by (auto simp: file_slot_def prod_eq_iff)
  have b': "buffered d' s = buffered d s" "buffer_bytes d' = buffer_bytes d" for s
    by (simp_all add: buffered_def buffer_bytes_def d'_def)
  have clean: "\<not> dirty d'" by (simp add: d'_def and_not_and)
  have ge: "length (dat_file cont d s) \<le> length (dat_file cont d' s)" if "fst s < 2" for s
    using fil [OF that] i bb by (auto simp: min_def)
  have rec': "rec_bytes cont d' s = rec_bytes cont d s" if "fst s < 2" for s
    using fs' [OF that] b' buf by (auto simp: rec_bytes_def buffered_def)
  show thesis
  proof (rule that [OF fl])
    show "buf_ok cont H d'"
      unfolding buf_ok_def
    proof (intro conjI allI impI)
      fix s assume s: "buffered d' s"
      then have "buffered d s" using b'(1) by simp
      then have eq: "s = ?s" by (simp add: buffered_def)
      then have "fst s < 2" by (simp add: slot_def)
      then show "512 * snd s \<le> length (dat_file cont d' s)"
        using ge [of s] i eq by simp
      show "buffer_bytes d' = file_slot cont d' s"
        using fs' [OF \<open>fst s < 2\<close>] eq b' by simp
    qed (use ok in \<open>auto simp: buf_ok_def d'_def\<close>)
    show "file_slot cont d' s = rec_bytes cont d s" if "fst s < 2" for s
      using fs' [OF that] buf by (auto simp: rec_bytes_def buffered_def)
    show "in_file cont d' s" if "fst s < 2" "present cont d s" for s
    proof (cases "buffered d s")
      case True
      then have "s = ?s" by (simp add: buffered_def)
      then show ?thesis using fil [OF that(1)] i bb by (simp add: in_file_def)
    next
      case False
      then show ?thesis using that ge [OF that(1)] by (simp add: present_def in_file_def)
    qed
  qed (use clean rec' in \<open>simp_all add: d'_def\<close>)
qed

section \<open>Loading another record\<close>

lemma BufferUpdate_ok:
  assumes laws: "fs_laws F cont pos H" and ok: "buf_ok cont H d" and r: "r \<noteq> - 1" and pr: "present cont d (slot r)"
  obtains "buf_ok cont H (BufferUpdate F r d)" and "g_DB_BufferIndex (BufferUpdate F r d) = r"
    and "g_DBState (BufferUpdate F r d) = g_DBState d"
    and "buffer_bytes (BufferUpdate F r d) = rec_bytes cont d (slot r)"
    and "\<And>s. fst s < 2 \<Longrightarrow> rec_bytes cont (BufferUpdate F r d) s = rec_bytes cont d s"
    and "\<And>s. fst s < 2 \<Longrightarrow> present cont d s \<Longrightarrow> present cont (BufferUpdate F r d) s"
proof (cases "g_DB_BufferIndex d = r")
  case True
  then have "BufferUpdate F r d = d" "buffered d (slot r)"
    using r by (simp_all add: BufferUpdate_def buffered_def)
  with True ok that show thesis by (simp add: rec_bytes_def)
next
  case False
  obtain d1 where d1: "BufferFlush F d = (0, d1)" "buf_ok cont H d1" "g_DBState d1 = g_DBState d"
    "g_DB_Buffer d1 = g_DB_Buffer d"
    and v: "\<And>s. fst s < 2 \<Longrightarrow> rec_bytes cont d1 s = rec_bytes cont d s"
      "\<And>s. fst s < 2 \<Longrightarrow> file_slot cont d1 s = rec_bytes cont d s"
      "\<And>s. fst s < 2 \<Longrightarrow> present cont d s \<Longrightarrow> in_file cont d1 s"
    using BufferFlush_ok [OF laws ok] by metis
  let ?h = "hStStore_Dat (g_DBState d1 (GetMediaIndex r))"
  have sl: "fst (slot r) < 2" by (simp add: slot_def)
  have len: "length (g_DB_Buffer d1) = 171" and h: "?h \<in> H"
    using d1(2) by (auto simp: buf_ok_def)
  have inf: "512 * snd (slot r) + 512 \<le> length (cont (fs d1) ?h)"
    using v(3) [OF sl pr] by (simp add: in_file_def slot_def)
  obtain s1 where s1: "Fseek F ?h (int (512 * snd (slot r))) (fs d1) = (0, s1)" "cont s1 = cont (fs d1)"
    "pos s1 = (pos (fs d1))(?h := 512 * snd (slot r))"
    by (rule fs_seek [OF laws h, of "512 * snd (slot r)" "fs d1"]) (use inf in auto)
  obtain ws s2 where s2: "Fread F ?h 512 (g_DB_Buffer d1) s1 = (int 512, ws, s2)" "length ws = length (g_DB_Buffer d1)"
    "take 512 (bytes_of ws) = take 512 (drop (pos s1 ?h) (cont s1 ?h))" "cont s2 = cont s1"
    by (rule fs_read [OF laws h, of 512 "g_DB_Buffer d1" s1]) (use s1 inf len in auto)
  let ?d' = "BufferUpdate F r d"
  have d': "?d' = d1\<lparr>g_DB_BufferIndex := r, g_DB_Buffer := ws, fs := s2,
              g_DB_BufferState := g_DB_BufferState d1 AND NOT DB_ENTRY_DIRTY\<rparr>"
    using False d1(1) s1(1) s2(1) record_pos_slot [of r]
    by (simp add: BufferUpdate_def Let_def DB_RECORD_SIZE_BYTES_def)
  have c: "cont (fs ?d') = cont (fs d1)" using s1 s2 by (simp add: d')
  have st: "g_DBState ?d' = g_DBState d" using d1(3) by (simp add: d')
  have fsl: "file_slot cont ?d' s = file_slot cont d1 s" for s
    using c st d1(3) by (simp add: file_slot_def)
  have bb: "buffer_bytes ?d' = file_slot cont d1 (slot r)"
    using s1 s2(3) by (simp add: d' buffer_bytes_def file_slot_def slot_def)
  have buf: "buffered ?d' s \<longleftrightarrow> s = slot r" for s
    using r by (auto simp: buffered_def d')
  have inf': "in_file cont ?d' s \<longleftrightarrow> in_file cont d1 s" for s
    using c st d1(3) by (simp add: in_file_def)
  show thesis
  proof (rule that)
    show "buf_ok cont H ?d'"
      unfolding buf_ok_def
    proof (intro conjI allI impI)
      fix s assume "buffered ?d' s"
      then have s: "s = slot r" using buf by simp
      show "512 * snd s \<le> length (dat_file cont ?d' s)"
        using inf' [of s] v(3) [OF sl pr] s by (simp add: in_file_def)
      show "buffer_bytes ?d' = file_slot cont ?d' s" using bb fsl s by simp
    qed (use d1(2) s2(2) len in \<open>auto simp: buf_ok_def d'\<close>)
    show "g_DB_BufferIndex ?d' = r" by (simp add: d')
    show "g_DBState ?d' = g_DBState d" by (rule st)
    show "buffer_bytes ?d' = rec_bytes cont d (slot r)" using bb v(2) [OF sl] by simp
    have "rec_bytes cont ?d' s = file_slot cont d1 s" for s
      using buf [of s] bb fsl by (cases "s = slot r") (simp_all add: rec_bytes_def)
    then show "rec_bytes cont ?d' s = rec_bytes cont d s" if "fst s < 2" for s
      using v(2) [OF that] by simp
    show "present cont ?d' s" if "fst s < 2" "present cont d s" for s
      using v(3) [OF that] inf' by (simp add: present_def)
  qed
qed

section \<open>Reading and writing\<close>

lemma Read_ok:
  assumes "fs_laws F cont pos H" and "buf_ok cont H d" and "r \<noteq> - 1" and "present cont d (slot r)"
    and rd: "ReadDatabaseRecord F r off n d = Some (e, ws, d')"
  shows "buf_ok cont H d' \<and> (\<forall>s. fst s < 2 \<longrightarrow> rec_bytes cont d' s = rec_bytes cont d s
      \<and> (present cont d s \<longrightarrow> present cont d' s))"
  using assms(2) rd
  by (rule_tac BufferUpdate_ok [OF assms(1-4)])
     (auto simp: ReadDatabaseRecord_def Let_def split: if_splits Option.bind_splits)

lemma Write_ok:
  assumes laws: "fs_laws F cont pos H" and ok: "buf_ok cont H d" and r: "r \<noteq> - 1" "present cont d (slot r)"
    and wr: "WriteDatabaseRecord F r off n ws d = Some (e, d')"
  shows "buf_ok cont H d' \<and> (\<forall>s. fst s < 2 \<longrightarrow> (s \<noteq> slot r \<longrightarrow> rec_bytes cont d' s = rec_bytes cont d s)
      \<and> (present cont d s \<longrightarrow> present cont d' s))"
proof (cases "512 \<le> off + n")
  case True
  then show ?thesis using wr ok by (simp add: WriteDatabaseRecord_def DB_RECORD_SIZE_BYTES_def)
next
  case False
  let ?d1 = "BufferUpdate F r d" and ?i = "(off + 2) div 3"
  obtain us where us: "words_at ws 0 (nwords n) = Some us" and "?i + nwords n \<le> length (g_DB_Buffer ?d1)"
    and d': "d' = ?d1\<lparr>g_DB_Buffer := overwrite ?i us (g_DB_Buffer ?d1), g_DB_BufferState := DB_ENTRY_DIRTY\<rparr>"
    using wr False
    by (auto simp: WriteDatabaseRecord_def DB_RECORD_SIZE_BYTES_def Let_def words_at_def split: if_splits)
  then have lens: "length (overwrite ?i us (g_DB_Buffer ?d1)) = length (g_DB_Buffer ?d1)"
    by (auto simp: words_at_def overwrite_def split: if_splits)
  show ?thesis
  proof (rule BufferUpdate_ok [OF laws ok r])
    assume u: "buf_ok cont H ?d1" "g_DB_BufferIndex ?d1 = r" "g_DBState ?d1 = g_DBState d"
      "\<And>s. fst s < 2 \<Longrightarrow> rec_bytes cont ?d1 s = rec_bytes cont d s"
      "\<And>s. fst s < 2 \<Longrightarrow> present cont d s \<Longrightarrow> present cont ?d1 s"
    have b: "buffered d' s = buffered ?d1 s" "file_slot cont d' s = file_slot cont ?d1 s"
      "in_file cont d' s = in_file cont ?d1 s" for s
      by (simp_all add: d' buffered_def file_slot_def in_file_def)
    have "buf_ok cont H d'"
      unfolding buf_ok_def
    proof (intro conjI allI impI)
      fix s assume "buffered d' s"
      then show "512 * snd s \<le> length (dat_file cont d' s)"
        using u(1) b(1) by (simp add: buf_ok_def d')
    qed (use u(1) lens in \<open>auto simp: buf_ok_def d' DB_ENTRY_DIRTY_def\<close>)
    moreover have "rec_bytes cont d' s = rec_bytes cont d s" if "fst s < 2" "s \<noteq> slot r" for s
    proof -
      have "\<not> buffered ?d1 s" using u(2) that(2) by (auto simp: buffered_def)
      then show ?thesis using u(4) [OF that(1)] b by (simp add: rec_bytes_def)
    qed
    ultimately show ?thesis
      using u(5) b by (simp add: present_def)
  qed
qed

section \<open>Values survive\<close>

text \<open>The whole words of a buffer are determined by the bytes that go to the file.\<close>

lemma buffer_words:
  assumes "buffer_bytes d = buffer_bytes d'" and "length (g_DB_Buffer d) = 171" and "length (g_DB_Buffer d') = 171"
  shows "take 170 (g_DB_Buffer d) = take 170 (g_DB_Buffer d')"
proof -
  have "bytes_of (take 170 (g_DB_Buffer d)) = take 510 (buffer_bytes d)"
    "bytes_of (take 170 (g_DB_Buffer d')) = take 510 (buffer_bytes d')"
    by (simp_all add: bytes_of_take_drop buffer_bytes_def)
  with assms show ?thesis
    by (intro bytes_of_inj [THEN iffD1]) simp_all
qed

lemma words_at_take: "i + n \<le> 170 \<Longrightarrow> length b = 171 \<Longrightarrow> words_at b i n = Some (take n (drop i (take 170 b)))"
  by (simp add: words_at_def drop_take)

lemma overwrite_words:
  assumes "length ws = n" and "i + n \<le> length b"
  shows "take n (drop i (overwrite i ws b)) = ws"
  using assms by (simp add: overwrite_def)

text \<open>What a successful write of at most the record's whole words leaves to be read.\<close>

lemma Write_Read:
  assumes laws: "fs_laws F cont pos H" and ok: "buf_ok cont H d" "buf_ok cont H d2" and r: "r \<noteq> - 1" "present cont d (slot r)"
    and wr: "WriteDatabaseRecord F r off n ws d = Some (0, d1)" and fit: "(off + 2) div 3 + nwords n \<le> 170"
    and pr2: "present cont d2 (slot r)" and same: "rec_bytes cont d2 (slot r) = rec_bytes cont d1 (slot r)"
  shows "\<exists>d3. ReadDatabaseRecord F r off n d2 = Some (0, take (nwords n) ws, d3)"
proof -
  let ?u = "BufferUpdate F r d" and ?u2 = "BufferUpdate F r d2" and ?i = "(off + 2) div 3"
  have off: "\<not> 512 \<le> off + n"
    using wr by (auto simp: WriteDatabaseRecord_def DB_RECORD_SIZE_BYTES_def DB_ERROR_OFFSET_def)
  then have us: "words_at ws 0 (nwords n) = Some (take (nwords n) ws)" and len: "nwords n \<le> length ws"
    and d1: "d1 = ?u\<lparr>g_DB_Buffer := overwrite ?i (take (nwords n) ws) (g_DB_Buffer ?u), g_DB_BufferState := DB_ENTRY_DIRTY\<rparr>"
    using wr by (auto simp: WriteDatabaseRecord_def DB_RECORD_SIZE_BYTES_def Let_def words_at_def split: if_splits)
  have u: "buf_ok cont H ?u" "g_DB_BufferIndex ?u = r"
    by (rule BufferUpdate_ok [OF laws ok(1) r], simp)+
  have u2: "buf_ok cont H ?u2" "buffer_bytes ?u2 = rec_bytes cont d2 (slot r)"
    by (rule BufferUpdate_ok [OF laws ok(2) r(1) pr2], simp)+
  have lu: "length (g_DB_Buffer ?u) = 171" "length (g_DB_Buffer ?u2) = 171"
    using u(1) u2(1) by (simp_all add: buf_ok_def)
  have l1: "length (g_DB_Buffer d1) = 171"
    using lu len fit by (simp add: d1 overwrite_def)
  have "buffered d1 (slot r)" using u(2) r(1) by (simp add: d1 buffered_def)
  then have "buffer_bytes ?u2 = buffer_bytes d1" using u2(2) same by (simp add: rec_bytes_def)
  then have t: "take 170 (g_DB_Buffer ?u2) = take 170 (g_DB_Buffer d1)"
    using buffer_words lu(2) l1 by blast
  have "take (nwords n) (drop ?i (take 170 (g_DB_Buffer d1))) = take (nwords n) (drop ?i (g_DB_Buffer d1))"
    using fit by (simp add: drop_take min_def)
  also have "\<dots> = take (nwords n) ws"
    using len fit lu(1) by (simp add: d1 overwrite_words)
  finally have "words_at (g_DB_Buffer ?u2) ?i (nwords n) = Some (take (nwords n) ws)"
    using words_at_take [OF fit lu(2)] t by simp
  with off show ?thesis
    by (simp add: ReadDatabaseRecord_def DB_RECORD_SIZE_BYTES_def Let_def DB_ERROR_NONE_def)
qed

text \<open>Other uses of the database between a set and a get.\<close>

datatype record_op = ReadOp WORD nat nat | WriteOp WORD nat nat "WORD list"

fun op_record :: "record_op \<Rightarrow> WORD" where
  "op_record (ReadOp r off n) = r"
| "op_record (WriteOp r off n ws) = r"

fun run_op :: "'fs fsapi \<Rightarrow> record_op \<Rightarrow> 'fs db \<Rightarrow> 'fs db option" where
  "run_op F (ReadOp r off n) d = map_option (snd \<circ> snd) (ReadDatabaseRecord F r off n d)"
| "run_op F (WriteOp r off n ws) d = map_option snd (WriteDatabaseRecord F r off n ws d)"

fun run_ops :: "'fs fsapi \<Rightarrow> record_op list \<Rightarrow> 'fs db \<Rightarrow> 'fs db option" where
  "run_ops F [] d = Some d"
| "run_ops F (c # cs) d = run_op F c d \<bind> run_ops F cs"

lemma run_op_ok:
  assumes "fs_laws F cont pos H" and "buf_ok cont H d" and "op_record c \<noteq> - 1"
    and "present cont d (slot (op_record c))" and "run_op F c d = Some d'"
  shows "buf_ok cont H d' \<and> (\<forall>s. fst s < 2 \<longrightarrow> (s \<noteq> slot (op_record c) \<longrightarrow> rec_bytes cont d' s = rec_bytes cont d s)
      \<and> (present cont d s \<longrightarrow> present cont d' s))"
proof (cases c)
  case (ReadOp r off n)
  then obtain e ws where "ReadDatabaseRecord F r off n d = Some (e, ws, d')"
    using assms(5) by (cases "ReadDatabaseRecord F r off n d") auto
  from Read_ok [OF assms(1,2) _ _ this] show ?thesis using assms(3,4) ReadOp by simp
next
  case (WriteOp r off n ws)
  then obtain e where "WriteDatabaseRecord F r off n ws d = Some (e, d')"
    using assms(5) by (cases "WriteDatabaseRecord F r off n ws d") auto
  from Write_ok [OF assms(1,2) _ _ this] show ?thesis using assms(3,4) WriteOp by simp
qed

lemma run_ops_ok:
  assumes laws: "fs_laws F cont pos H"
  shows "buf_ok cont H d \<Longrightarrow> run_ops F cs d = Some d'
    \<Longrightarrow> \<forall>c\<in>set cs. op_record c \<noteq> - 1 \<and> present cont d (slot (op_record c)) \<and> slot (op_record c) \<noteq> slot r
    \<Longrightarrow> present cont d (slot r)
    \<Longrightarrow> buf_ok cont H d' \<and> present cont d' (slot r) \<and> rec_bytes cont d' (slot r) = rec_bytes cont d (slot r)"
proof (induction cs arbitrary: d)
  case Nil
  then show ?case by simp
next
  case (Cons c cs)
  then obtain d1 where d1: "run_op F c d = Some d1" "run_ops F cs d1 = Some d'"
    by (auto split: Option.bind_splits)
  have s2: "fst (slot q) < 2" for q by (simp add: slot_def)
  have c: "op_record c \<noteq> - 1" "present cont d (slot (op_record c))" "slot (op_record c) \<noteq> slot r"
    using Cons.prems(3) by simp_all
  note st = run_op_ok [OF laws Cons.prems(1) c(1,2) d1(1)]
  have ok1: "buf_ok cont H d1" "\<And>q. present cont d (slot q) \<Longrightarrow> present cont d1 (slot q)"
    "rec_bytes cont d1 (slot r) = rec_bytes cont d (slot r)"
    using st s2 c(3) by metis+
  have "\<forall>c\<in>set cs. op_record c \<noteq> - 1 \<and> present cont d1 (slot (op_record c)) \<and> slot (op_record c) \<noteq> slot r"
    using Cons.prems(3) ok1(2) by simp
  from Cons.IH [OF ok1(1) d1(2) this ok1(2) [OF Cons.prems(4)]] ok1(3) show ?case by simp
qed

section \<open>Tags\<close>

lemma tag_mask_word: "(w :: WORD) AND DB_TAG_MASK = push_bit 8 (drop_bit 8 w)"
proof -
  have e: "DB_TAG_MASK = push_bit 8 (mask 16)" by (simp add: DB_TAG_MASK_def mask_eq_exp_minus_1)
  show ?thesis
    unfolding e by (rule bit_eqI) (auto simp: bit_simps dest: bit_imp_le_length)
qed

lemma string_tag:
  assumes "n \<le> 512"
  shows "(word_of_nat n OR DB_TAG_STRING) AND DB_TAG_MASK = DB_TAG_STRING \<longleftrightarrow> n < 256"
proof -
  have t: "DB_TAG_STRING AND DB_TAG_MASK = DB_TAG_STRING"
    by (simp add: DB_TAG_STRING_def DB_TAG_MASK_def)
  have "drop_bit 8 (word_of_nat n :: WORD) = word_of_nat (n div 256)"
    using assms by (intro word_unat_eq_iff [THEN iffD2])
      (simp add: unat_of_nat unat_div drop_bit_eq_div)
  then have "word_of_nat n AND DB_TAG_MASK = push_bit 8 (word_of_nat (n div 256))"
    by (simp add: tag_mask_word)
  moreover have "n div 256 = 0 \<or> n div 256 = 1 \<or> n div 256 = 2" "n div 256 = 0 \<longleftrightarrow> n < 256"
    using assms by auto
  moreover have "(word_of_nat n OR DB_TAG_STRING) AND DB_TAG_MASK = (word_of_nat n AND DB_TAG_MASK) OR DB_TAG_STRING"
    using t by (simp add: bit.conj_disj_distrib2)
  ultimately show ?thesis
    by (elim disjE) (auto simp: DB_TAG_STRING_def)
qed

lemma block_size_bits:
  assumes "n < 1024" and "bit (word_of_nat n :: WORD) i"
  shows "i < 10"
proof -
  have "word_of_nat n = (take_bit 10 (word_of_nat n) :: WORD)"
    using assms(1) by (intro word_unat_eq_iff [THEN iffD2])
      (simp add: unat_of_nat unat_mod take_bit_eq_mod)
  then show ?thesis using assms(2) by (metis bit_take_bit_iff)
qed

lemma bit_pow21: "bit (push_bit 21 1 :: WORD) i \<longleftrightarrow> i = 21"
  by (auto simp only: bit_simps) auto

lemma bit_pow23: "bit (push_bit 23 1 :: WORD) i \<longleftrightarrow> i = 23"
  by (auto simp only: bit_simps) auto

section \<open>Properties\<close>

text \<open>A database in memory with three records in the file and the second in the buffer.\<close>

definition demo_store :: "memfs db" where
  "demo_store = \<lparr>g_DBState = \<lambda>m. \<lparr>hStStore_Dat = 10 + int m, hStStore_Idx = 20 + int m, hStString_Dat = 30 + int m,
       hStString_Idx = 40 + int m, TopRecord = new_top\<lparr>TotalRecords := 3\<rparr>\<rparr>,
     g_DB_Buffer = replicate 171 0, g_DB_BufferIndex = 2, g_DB_BufferState = 1, g_DB_Dirty = False,
     fs = (\<lambda>h. if h = 10 then replicate 2048 0 else [], \<lambda>_. 0)\<rparr>"

lemma small_slot [simp]: "slot 1 = (0, 1)" "slot 2 = (0, 2)" "slot 3 = (0, 3)"
  by (simp_all add: slot_def GetMediaIndex_def DB_MEDIA_INDEX_EXTERNAL_def file_index_mod)

lemma demo_store_ok: "buf_ok fst UNIV demo_store" "present fst demo_store (0, 1)" "present fst demo_store (0, 2)"
  "present fst demo_store (0, 3)"
  by (auto simp: buf_ok_def present_def in_file_def buffered_def demo_store_def DB_ENTRY_DIRTY_def)

text \<open>
  C2. A number stored in a record is read back unchanged, after any sequence of reads and writes of other
  records: \<^verbatim>\<open>DBGetNumber\<close> returns the low word and, for a four-byte number, the high byte that
  \<^verbatim>\<open>DBSetNumber\<close> was given, when the number's two words lie in the first 170 words of the record and no
  handle is the buffer's invalid index.
\<close>

theorem number_roundtrip:
  assumes "fs_laws F cont pos H" and "buf_ok cont H d" and "r \<noteq> - 1" and "present cont d (slot r)"
    and "off \<le> 504" and "n \<le> 4" and "DBSetNumber F r off n [lo, hi] d = Some (DB_ERROR_NONE, d1)"
    and "run_ops F cs d1 = Some d2"
    and "\<forall>c\<in>set cs. op_record c \<noteq> - 1 \<and> present cont d (slot (op_record c)) \<and> slot (op_record c) \<noteq> slot r"
  shows "\<exists>d3. DBGetNumber F junk r off n d2
    = Some (DB_ERROR_NONE, lo # (if 3 < n then [hi AND 0xff] else []), d3)"
proof -
  define tag where "tag = (if 3 < n then hi AND DB_TAG_NUMBER_VALUE_MASK else 0) OR DB_TAG_NUMBER"
  have s2: "fst (slot q) < 2" for q by (simp add: slot_def)
  have wr: "WriteDatabaseRecord F r off 6 [tag, lo] d = Some (0, d1)"
    using assms(6,7) by (auto simp: DBSetNumber_def words_at_def tag_def DB_ERROR_NONE_def split: if_splits)
  note w = Write_ok [OF assms(1-4) wr]
  have d1: "buf_ok cont H d1" "\<And>q. present cont d (slot q) \<Longrightarrow> present cont d1 (slot q)"
    using w s2 by metis+
  have "\<forall>c\<in>set cs. op_record c \<noteq> - 1 \<and> present cont d1 (slot (op_record c)) \<and> slot (op_record c) \<noteq> slot r"
    using assms(9) d1(2) by simp
  note r2 = run_ops_ok [OF assms(1) d1(1) assms(8) this d1(2) [OF assms(4)]]
  have "(off + 2) div 3 + nwords 6 \<le> 170" using assms(5) by (simp add: nwords_def)
  then obtain d3 where rd: "ReadDatabaseRecord F r off 6 d2 = Some (0, take (nwords 6) [tag, lo], d3)"
    using Write_Read [OF assms(1,2) _ assms(3,4) wr] r2 by blast
  have nw: "nwords 6 = 2" by (simp add: nwords_def)
  have "tag AND DB_TAG_NUMBER_VALUE_MASK = hi AND 0xff" if "3 < n"
  proof -
    have "DB_TAG_NUMBER AND DB_TAG_NUMBER_VALUE_MASK = 0"
      by (simp add: DB_TAG_NUMBER_def DB_TAG_NUMBER_VALUE_MASK_def)
    then have "tag AND DB_TAG_NUMBER_VALUE_MASK = hi AND DB_TAG_NUMBER_VALUE_MASK"
      using that by (simp add: tag_def bit.conj_disj_distrib2 and.assoc)
    then show ?thesis by (simp add: DB_TAG_NUMBER_VALUE_MASK_def)
  qed
  with rd assms(6) nw show ?thesis
    by (simp add: DBGetNumber_def DB_ERROR_NONE_def)
qed

theorem number_roundtrip_witness:
  "\<exists>d1 d2 d3. DBSetNumber mem_fs 1 12 4 [0xabcdef, 0x77] demo_store = Some (DB_ERROR_NONE, d1)
    \<and> run_ops mem_fs [WriteOp 2 12 6 [7, 8], ReadOp 3 0 3] d1 = Some d2
    \<and> DBGetNumber mem_fs [] 1 12 4 d2 = Some (DB_ERROR_NONE, [0xabcdef, 0x77], d3)"
proof -
  have total: "\<exists>d'. WriteDatabaseRecord mem_fs r 12 6 [x, y] d = Some (DB_ERROR_NONE, d')"
    if "buf_ok fst UNIV d" "r \<noteq> - 1" "present fst d (slot r)" for r x y d
    by (rule BufferUpdate_ok [OF mem_fs_laws that]) (simp add: WriteDatabaseRecord_def Let_def nwords_def
        words_at_def DB_RECORD_SIZE_BYTES_def buf_ok_def DB_ERROR_NONE_def)
  have rtotal: "\<exists>ws d'. ReadDatabaseRecord mem_fs r 0 3 d = Some (DB_ERROR_NONE, ws, d')"
    if "buf_ok fst UNIV d" "r \<noteq> - 1" "present fst d (slot r)" for r d
    by (rule BufferUpdate_ok [OF mem_fs_laws that]) (simp add: ReadDatabaseRecord_def Let_def nwords_def
        words_at_def DB_RECORD_SIZE_BYTES_def buf_ok_def DB_ERROR_NONE_def)
  have s2: "fst (slot q) < 2" for q by (simp add: slot_def)
  obtain d1 where w1: "WriteDatabaseRecord mem_fs 1 12 6 [0x77 OR DB_TAG_NUMBER, 0xabcdef] demo_store = Some (DB_ERROR_NONE, d1)"
    using total [OF demo_store_ok(1), of 1] demo_store_ok(2) by auto
  note ok1 = Write_ok [OF mem_fs_laws demo_store_ok(1) _ _ w1]
  have d1: "buf_ok fst UNIV d1" "present fst d1 (0, 2)" "present fst d1 (0, 3)"
    using ok1 demo_store_ok(2-4) by auto
  obtain d2 where w2: "WriteDatabaseRecord mem_fs 2 12 6 [7, 8] d1 = Some (DB_ERROR_NONE, d2)"
    using total [OF d1(1), of 2] d1(2) by auto
  note ok2 = Write_ok [OF mem_fs_laws d1(1) _ _ w2]
  have d2: "buf_ok fst UNIV d2" "present fst d2 (0, 3)" using ok2 d1 by auto
  obtain ws d3 where r3: "ReadDatabaseRecord mem_fs 3 0 3 d2 = Some (DB_ERROR_NONE, ws, d3)"
    using rtotal [OF d2(1), of 3] d2(2) by auto
  have set: "DBSetNumber mem_fs 1 12 4 [0xabcdef, 0x77] demo_store = Some (DB_ERROR_NONE, d1)"
    using w1 by (simp add: DBSetNumber_def words_at_def DB_TAG_NUMBER_VALUE_MASK_def)
  have run: "run_ops mem_fs [WriteOp 2 12 6 [7, 8], ReadOp 3 0 3] d1 = Some d3"
    using w2 r3 by simp
  have "\<exists>d4. DBGetNumber mem_fs [] 1 12 4 d3 = Some (DB_ERROR_NONE, 0xabcdef # (if 3 < (4::nat) then [0x77 AND 0xff] else []), d4)"
    by (rule number_roundtrip [OF mem_fs_laws demo_store_ok(1) _ _ _ _ set run])
       (use demo_store_ok in simp_all)
  with set run show ?thesis by auto
qed

text \<open>
  Setting a string again keeps its place in \<^verbatim>\<open>ststring.dat\<close> exactly when its present size is below 256:
  the test on the entry's tag masks only eight of the ten size bits away, so an entry for a string of
  256 to 512 bytes is taken for an empty one, and one more string place is used up.
\<close>

theorem string_slot_reuse:
  assumes "n \<le> 512" and "entry ! 0 = word_of_nat n OR DB_TAG_STRING"
  shows "if n < 256 then string_slot F m entry junk d = (entry ! 1, int24 (sint (entry ! 1) * 512), d)
    else \<exists>x p d'. string_slot F m entry junk d = (x, p, d')
           \<and> TotalStrings (top m d') = TotalStrings (top m d) + 1"
proof (cases "n < 256")
  case True
  then have "entry ! 0 AND DB_TAG_MASK = DB_TAG_STRING"
    using string_tag [OF assms(1)] assms(2) by simp
  with True show ?thesis by (simp add: string_slot_def DB_STRING_SIZE_BYTES_def)
next
  case False
  then have "entry ! 0 AND DB_TAG_MASK \<noteq> DB_TAG_STRING"
    using string_tag [OF assms(1)] assms(2) by simp
  with False show ?thesis by (auto simp: string_slot_def Let_def split: prod.splits)
qed

theorem string_slot_reuse_witness:
  "\<exists>x p d'. string_slot mem_fs 0 [word_of_nat 300 OR DB_TAG_STRING, 5] 0 demo_store = (x, p, d')
     \<and> TotalStrings (top 0 d') = 1"
  using string_slot_reuse [of 300 "[word_of_nat 300 OR DB_TAG_STRING, 5]" mem_fs 0 0 demo_store]
  by (simp add: demo_store_def new_top_def)

text \<open>
  Deleting a record walks its entries from tag to tag; over a block of \<open>n\<close> bytes it steps \<open>n div 3\<close>
  words past the header, while \<^verbatim>\<open>DBSetBlock\<close> stores \<open>nwords n\<close> words: the walk resumes at the word after the
  block's data exactly when 3 divides \<open>n\<close>, and inside the data, on its last word, otherwise.
\<close>

theorem delete_block_step:
  assumes "n < 1024" and "i < 170" and "length (g_DB_Buffer d) = 171"
    and "g_DB_Buffer d ! i = DB_TAG_BLOCK + word_of_nat n"
  shows "delete_strings F m i d = delete_strings F m (i + 1 + n div 3) d
    \<and> (i + 1 + n div 3 = i + 1 + nwords n \<longleftrightarrow> 3 dvd n)
    \<and> (\<not> 3 dvd n \<longrightarrow> i + 1 + n div 3 = i + nwords n)"
proof -
  have disj: "(word_of_nat n :: WORD) AND push_bit 21 1 = 0"
  proof (rule bit_eqI)
    fix j
    show "bit ((word_of_nat n :: WORD) AND push_bit 21 1) j = bit (0 :: WORD) j"
      unfolding bit_and_iff bit_pow21 using block_size_bits [OF assms(1), of j] by auto
  qed
  have w: "g_DB_Buffer d ! i = push_bit 21 1 OR word_of_nat n"
    using assms(4) disjunctive_add_eq_or [OF disj] by (simp add: DB_TAG_BLOCK_def add.commute or.commute)
  have "g_DB_Buffer d ! i AND DB_TAG_STRING = 0"
  proof -
    have e: "DB_TAG_STRING = push_bit 23 (1 :: WORD)" by (simp add: DB_TAG_STRING_def)
    show ?thesis
      unfolding w e
    proof (rule bit_eqI)
      fix j
      show "bit ((push_bit 21 1 OR word_of_nat n :: WORD) AND push_bit 23 1) j = bit (0 :: WORD) j"
        unfolding bit_and_iff bit_or_iff bit_pow21 bit_pow23 using block_size_bits [OF assms(1), of j] by auto
    qed
  qed
  moreover have "g_DB_Buffer d ! i AND DB_TAG_BLOCK \<noteq> 0"
  proof -
    have e: "DB_TAG_BLOCK = push_bit 21 (1 :: WORD)" by (simp add: DB_TAG_BLOCK_def)
    have "bit (g_DB_Buffer d ! i AND DB_TAG_BLOCK) 21"
      unfolding w e bit_and_iff bit_or_iff bit_pow21 by simp
    then show ?thesis by (metis bit_0_eq bot_apply bot_bool_def)
  qed
  moreover have "unat (g_DB_Buffer d ! i AND DB_TAG_SIZE_MASK) = n"
  proof -
    have e: "DB_TAG_SIZE_MASK = mask 10" by (simp add: DB_TAG_SIZE_MASK_def mask_eq_exp_minus_1)
    have "g_DB_Buffer d ! i AND DB_TAG_SIZE_MASK = word_of_nat n"
      unfolding w e
    proof (rule bit_eqI)
      fix j
      show "bit ((push_bit 21 1 OR word_of_nat n :: WORD) AND mask 10) j = bit (word_of_nat n :: WORD) j"
        unfolding bit_and_iff bit_or_iff bit_pow21 bit_mask_iff using block_size_bits [OF assms(1), of j] by auto
    qed
    then show ?thesis using assms(1) by (simp add: unat_of_nat)
  qed
  ultimately have "delete_strings F m i d = delete_strings F m (i + n div 3 + 1) d"
    using assms(2,3) by (subst delete_strings.simps) (simp add: DB_RECORD_SIZE_WORDS_def)
  moreover have "(n + 2) div 3 = (if 3 dvd n then n div 3 else n div 3 + 1)"
    by (auto simp: dvd_eq_mod_eq_0) presburger+
  ultimately show ?thesis by (simp add: nwords_def)
qed

theorem delete_block_step_witness:
  "delete_strings mem_fs 0 0 (demo_store\<lparr>g_DB_Buffer := (replicate 171 0)[0 := DB_TAG_BLOCK + word_of_nat 4]\<rparr>)
    = delete_strings mem_fs 0 2 (demo_store\<lparr>g_DB_Buffer := (replicate 171 0)[0 := DB_TAG_BLOCK + word_of_nat 4]\<rparr>)
   \<and> 2 < 0 + 1 + nwords 4"
  using delete_block_step [of 4 0 "demo_store\<lparr>g_DB_Buffer := (replicate 171 0)[0 := DB_TAG_BLOCK + word_of_nat 4]\<rparr>" mem_fs 0]
  by (simp add: nwords_def numeral_2_eq_2)

end
