(* ===== verification/BatteryCharge.thy ===== *)
theory BatteryCharge imports Prelude begin

text \<open>
  The battery charger: the state machine of \<^verbatim>\<open>System/hardware/batterycharge/batterychargetask.c\<close>,
  the switches of \<^verbatim>\<open>batterycharge.c\<close> and the two link-time alternatives that decide how much
  current the battery may have, \<^verbatim>\<open>nimh/nimh.c\<close> and \<^verbatim>\<open>liion/liion.c\<close>, with the constants of
  \<^verbatim>\<open>Projects/SDK/lcdexample/battery_config.h\<close>.

  One record holds the globals of the three files and the two fields of the charger register
  \<^verbatim>\<open>HW_VDD5V_PWR_CHARGE\<close> that the code writes; \<open>writes\<close> is the history of the values written to
  \<^verbatim>\<open>BATT_CURRENT\<close>. What the machine reads from outside in one turn (the clock, the battery voltage,
  the presence of 5V, the polarity pin, the linear-charger flag) is a record \<open>inputs\<close>.
  The flag \<open>player\<close> is the build switch \<^verbatim>\<open>STMP_BUILD_PLAYER\<close>.

  The state machine relies on its battery only through the locale \<open>charge_limit\<close>, which both
  batteries are shown to satisfy.
\<close>

section \<open>State\<close>

record charger =
  g_bBatteryChargeEnabled :: bool
  g_bBatteryChargePermanentlyDisabled :: bool
  PWD :: bool
  BATT_CURRENT :: "6 word"
  writes :: "6 word list"
  g_bTrickleChargingNow :: bool
  g_wBatteryState :: nat
  g_dwTimeOut :: DWORD
  g_wVBatt_mV_Charging :: WORD
  g_wVBatt_mV_NotCharging :: WORD
  g_iThreshholdcount :: WORD
  g_ChargeTimes :: DWORD

record inputs =
  GetTime :: DWORD
  Batt_mV :: WORD
  VDD5V_PRESENT :: bool
  case_level :: WORD
  g_bChargerLinearEnabled :: bool

definition set_current :: "6 word \<Rightarrow> charger \<Rightarrow> charger" where
  "set_current c s = s\<lparr>BATT_CURRENT := c, writes := writes s @ [c]\<rparr>"

section \<open>batterycharge.c\<close>

definition BatteryChargeStopCharging :: "bool \<Rightarrow> charger \<Rightarrow> charger" where
  "BatteryChargeStopCharging player s =
     (let s = set_current 0 (s\<lparr>PWD := True\<rparr>)
      in if player then s else s\<lparr>g_bTrickleChargingNow := False\<rparr>)"

definition BatteryChargeDisableCharging :: "bool \<Rightarrow> bool \<Rightarrow> charger \<Rightarrow> charger" where
  "BatteryChargeDisableCharging player bPermanent s =
     (let s = BatteryChargeStopCharging player s;
          s = (if bPermanent then s\<lparr>g_bBatteryChargePermanentlyDisabled := True\<rparr> else s)
      in s\<lparr>g_bBatteryChargeEnabled := False\<rparr>)"

definition BatteryChargeEnableCharging :: "charger \<Rightarrow> charger" where
  "BatteryChargeEnableCharging s = s\<lparr>g_bBatteryChargeEnabled := True\<rparr>"

definition BatteryChargeIsCharging :: "inputs \<Rightarrow> charger \<Rightarrow> bool" where
  "BatteryChargeIsCharging e s \<longleftrightarrow> \<not> PWD s \<and> VDD5V_PRESENT e"

definition BatteryChargeIsTrickleCharging :: "inputs \<Rightarrow> charger \<Rightarrow> bool" where
  "BatteryChargeIsTrickleCharging e s \<longleftrightarrow>
     \<not> PWD s \<and> VDD5V_PRESENT e \<and> g_bTrickleChargingNow s"

section \<open>nimh.c\<close>

definition "NIMH_UNKNOWN = (0::nat)"
definition "NIMH_CONDITIONING = (1::nat)"
definition "NIMH_CHARGING = (2::nat)"
definition "NIMH_WAITING_FOR_FINISH = (3::nat)"
definition "NIMH_CHARGED = (4::nat)"

definition "NIMH_VOLTAGE_THRESHHOLD_MV = (1800::WORD)"
definition "NIMH_EQUILIBRIUM_CHARGING_TIMEOUT_MS = (12 * 60 * 60 * 1000::DWORD)"
definition "NIMH_EQUILIBRIUM_CHARGING_CURRENT_LIMIT = (75::WORD)"
definition "NIMH_TRICKLE_CHARGE_ENABLE = (1::WORD)"
definition "NIMH_TRICKLE_CHARGE_CURRENT = (10::WORD)"
definition "BATTERY_CASE_POLARITY_DETECT_ENABLE = (0::WORD)"
definition "NIMH_BATTERY_CASE_LOGIC_LEVEL = (0::WORD)"
definition "NIMH_POLARITY_NOT_DETECTED = (- 2::WORD)"

definition nimh_Sample :: "bool \<Rightarrow> inputs \<Rightarrow> charger \<Rightarrow> charger" where
  "nimh_Sample bCharging e s =
     (if bCharging then s\<lparr>g_wVBatt_mV_Charging := Batt_mV e\<rparr>
      else s\<lparr>g_wVBatt_mV_NotCharging := Batt_mV e\<rparr>)"

definition CompareBatteryCasePolarityToConfigured :: "WORD \<Rightarrow> inputs \<Rightarrow> bool" where
  "CompareBatteryCasePolarityToConfigured level e \<longleftrightarrow> case_level e = level"

text \<open>The detection flag is a static that an emulator can set, hence an argument here.\<close>

definition nimh_Initialize :: "WORD \<Rightarrow> bool \<Rightarrow> inputs \<Rightarrow> charger \<Rightarrow> WORD \<times> charger" where
  "nimh_Initialize detect player e s =
     (let s = nimh_Sample False e s
      in if detect \<noteq> 0 \<and> \<not> CompareBatteryCasePolarityToConfigured NIMH_BATTERY_CASE_LOGIC_LEVEL e
         then (NIMH_POLARITY_NOT_DETECTED, BatteryChargeDisableCharging player True s)
         else (0, s\<lparr>g_wBatteryState := NIMH_CHARGING,
                    g_dwTimeOut := GetTime e + NIMH_EQUILIBRIUM_CHARGING_TIMEOUT_MS\<rparr>))"

definition nimh_GetCurrentLimit :: "WORD \<Rightarrow> bool \<Rightarrow> inputs \<Rightarrow> charger \<Rightarrow> WORD \<times> charger" where
  "nimh_GetCurrentLimit trickle player e s =
     (if g_wBatteryState s = NIMH_CHARGED
      then (if trickle \<noteq> 0
            then (NIMH_TRICKLE_CHARGE_CURRENT, s\<lparr>g_bTrickleChargingNow := True\<rparr>)
            else (0, s))
      else if g_wBatteryState s = NIMH_CHARGING
      then (if GetTime e > g_dwTimeOut s
            then (let s = s\<lparr>g_wBatteryState := NIMH_CHARGED\<rparr>
                  in if trickle \<noteq> 0 then (NIMH_TRICKLE_CHARGE_CURRENT, s)
                     else (0, BatteryChargeDisableCharging player True s))
            else if g_wVBatt_mV_Charging s > NIMH_VOLTAGE_THRESHHOLD_MV
            then (0, BatteryChargeDisableCharging player True (s\<lparr>g_wBatteryState := NIMH_CHARGED\<rparr>))
            else (NIMH_EQUILIBRIUM_CHARGING_CURRENT_LIMIT, s))
      else (0, s))"

section \<open>liion.c\<close>

definition "LIION_UNKNOWN = (0::nat)"
definition "LIION_CONDITIONING = (1::nat)"
definition "LIION_CHARGING = (2::nat)"
definition "LIION_WAITING_FOR_FINISH = (3::nat)"
definition "LIION_CHARGED = (4::nat)"

definition "LIION_CONDITIONING_VOLTAGE_THRESHHOLD = (3000::WORD)"
definition "LIION_CONDITIONING_CURRENT_LIMIT = (40::WORD)"
definition "LIION_CHARGING_TIMEOUT = (4 * 60 * 60 * 1000::DWORD)"
definition "LIION_CHARGING_DIFFERENTIAL_THRESHHOLD = (20::WORD)"
definition "LIION_CHARGING_DIFFERENTIAL_THRESHHOLD_COUNT player = (if player then 5 else 10::WORD)"
definition "LIION_CHARGING_CURRENT_LIMIT = (400::WORD)"
definition "LIION_TOPOFF_TIMEOUT player = (if player then 15 * 60 * 1000 else 2 * 60 * 1000::DWORD)"
definition "MAX_CHARGE_TIMES = (600 * 60 * 4::DWORD)"

definition liion_Sample :: "bool \<Rightarrow> inputs \<Rightarrow> charger \<Rightarrow> charger" where
  "liion_Sample bCharging e s =
     (if bCharging then s\<lparr>g_wVBatt_mV_Charging := Batt_mV e\<rparr>
      else let s = s\<lparr>g_wVBatt_mV_NotCharging := Batt_mV e\<rparr>
           in if g_wVBatt_mV_Charging s - g_wVBatt_mV_NotCharging s \<le> LIION_CHARGING_DIFFERENTIAL_THRESHHOLD
              then s\<lparr>g_iThreshholdcount := g_iThreshholdcount s + 1\<rparr>
              else s\<lparr>g_iThreshholdcount := 0\<rparr>)"

definition liion_Initialize :: "bool \<Rightarrow> inputs \<Rightarrow> charger \<Rightarrow> WORD \<times> charger" where
  "liion_Initialize player e s =
     (let s = liion_Sample False e s;
          s = (if g_wVBatt_mV_NotCharging s > LIION_CONDITIONING_VOLTAGE_THRESHHOLD
               then s\<lparr>g_wBatteryState := LIION_CHARGING\<rparr>
               else s\<lparr>g_wBatteryState := LIION_CONDITIONING\<rparr>);
          s = s\<lparr>g_dwTimeOut := GetTime e + LIION_CHARGING_TIMEOUT\<rparr>
      in (0, if player then s else s\<lparr>g_ChargeTimes := 0\<rparr>))"

definition liion_expired :: "bool \<Rightarrow> inputs \<Rightarrow> charger \<Rightarrow> bool" where
  "liion_expired player e s =
     (if player then GetTime e > g_dwTimeOut s else g_ChargeTimes s > MAX_CHARGE_TIMES)"

definition liion_GetCurrentLimit :: "bool \<Rightarrow> inputs \<Rightarrow> charger \<Rightarrow> WORD \<times> charger" where
  "liion_GetCurrentLimit player e s =
     (if g_wBatteryState s = LIION_CONDITIONING
      then (if liion_expired player e s then (0, BatteryChargeDisableCharging player True s)
            else if g_wVBatt_mV_NotCharging s > LIION_CONDITIONING_VOLTAGE_THRESHHOLD
            then (0, s\<lparr>g_wBatteryState := LIION_CHARGING\<rparr>)
            else (LIION_CONDITIONING_CURRENT_LIMIT, s))
      else if g_wBatteryState s = LIION_CHARGING
      then (if liion_expired player e s then (0, BatteryChargeDisableCharging player True s)
            else (LIION_CHARGING_CURRENT_LIMIT,
                  if g_iThreshholdcount s > LIION_CHARGING_DIFFERENTIAL_THRESHHOLD_COUNT player
                  then s\<lparr>g_wBatteryState := LIION_WAITING_FOR_FINISH,
                         g_dwTimeOut := GetTime e + LIION_TOPOFF_TIMEOUT player\<rparr>
                  else s))
      else if g_wBatteryState s = LIION_WAITING_FOR_FINISH
      then (if liion_expired player e s
            then (0, BatteryChargeDisableCharging player False (s\<lparr>g_wBatteryState := LIION_CHARGED\<rparr>))
            else (LIION_CHARGING_CURRENT_LIMIT, s))
      else (0, s))"

section \<open>batterychargetask.c\<close>

datatype charge_state =
  BATTERY_CHARGE_UNINITIALIZED | BATTERY_CHARGE_WAIT_FOR_5V |
  BATTERY_CHARGE_NORMAL | BATTERY_CHARGE_BROKEN_BATTERY

definition BATT_CURRENT_BITS :: "(WORD \<times> WORD) list" where
  "BATT_CURRENT_BITS = [(200, 0x10), (100, 0x08), (50, 0x04), (25, 0x02), (10, 0x01)]"

definition "HW_VDD5V_PWR_CHARGE_BATT_CURRENT_100MA = (0x08::WORD)"
definition "HW_VDD5V_PWR_CHARGE_BATT_CURRENT_200MA = (0x10::WORD)"

definition POWER_OFF_FREQUENCY :: "bool \<Rightarrow> WORD" where
  "POWER_OFF_FREQUENCY player = (if player then 40 else 500)"

text \<open>A battery: its initialisation, its sampling and its current limit.\<close>

record battery =
  BatteryChargeImplementationInitialize :: "bool \<Rightarrow> inputs \<Rightarrow> charger \<Rightarrow> WORD \<times> charger"
  BatteryChargeImplementationSample :: "bool \<Rightarrow> inputs \<Rightarrow> charger \<Rightarrow> charger"
  BatteryChargeImplementatonGetCurrentLimit :: "bool \<Rightarrow> inputs \<Rightarrow> charger \<Rightarrow> WORD \<times> charger"

definition nimh :: "WORD \<Rightarrow> battery" where
  "nimh detect = \<lparr>BatteryChargeImplementationInitialize = nimh_Initialize detect,
     BatteryChargeImplementationSample = nimh_Sample,
     BatteryChargeImplementatonGetCurrentLimit = nimh_GetCurrentLimit NIMH_TRICKLE_CHARGE_ENABLE\<rparr>"

definition liion :: battery where
  "liion = \<lparr>BatteryChargeImplementationInitialize = liion_Initialize,
     BatteryChargeImplementationSample = liion_Sample,
     BatteryChargeImplementatonGetCurrentLimit = liion_GetCurrentLimit\<rparr>"

fun current_bits :: "(WORD \<times> WORD) list \<Rightarrow> WORD \<Rightarrow> WORD \<Rightarrow> WORD" where
  "current_bits [] wCurrentLimit wBitfield = wBitfield"
| "current_bits ((mA, field) # t) wCurrentLimit wBitfield =
     (if wCurrentLimit \<ge> mA then current_bits t (wCurrentLimit - mA) (wBitfield OR field)
      else current_bits t wCurrentLimit wBitfield)"

definition step_up :: "WORD \<Rightarrow> charger \<Rightarrow> charger" where
  "step_up wBitfield s =
     (let s = (if wBitfield > HW_VDD5V_PWR_CHARGE_BATT_CURRENT_100MA
               then (set_current (ucast HW_VDD5V_PWR_CHARGE_BATT_CURRENT_100MA) s)\<lparr>PWD := False\<rparr> else s);
          s = (if wBitfield > HW_VDD5V_PWR_CHARGE_BATT_CURRENT_200MA
               then (set_current (ucast HW_VDD5V_PWR_CHARGE_BATT_CURRENT_200MA) s)\<lparr>PWD := False\<rparr> else s)
      in set_current (ucast wBitfield) (s\<lparr>PWD := False\<rparr>))"

definition BatteryChargeStateMachineBroken :: "charger \<Rightarrow> charge_state \<times> charger" where
  "BatteryChargeStateMachineBroken s = (BATTERY_CHARGE_BROKEN_BATTERY, s)"

definition BatteryChargeStateMachineInitialize ::
    "battery \<Rightarrow> bool \<Rightarrow> inputs \<Rightarrow> charger \<Rightarrow> charge_state \<times> charger" where
  "BatteryChargeStateMachineInitialize b player e s =
     (if \<not> player \<and> \<not> g_bChargerLinearEnabled e then (BATTERY_CHARGE_BROKEN_BATTERY, s)
      else let (r, s) = BatteryChargeImplementationInitialize b player e s
           in if \<not> player \<and> r \<noteq> 0 then (BATTERY_CHARGE_BROKEN_BATTERY, s)
              else (BATTERY_CHARGE_WAIT_FOR_5V, BatteryChargeEnableCharging s))"

definition BatteryChargeStateMachineWaitFor5V :: "inputs \<Rightarrow> charger \<Rightarrow> charge_state \<times> charger" where
  "BatteryChargeStateMachineWaitFor5V e s =
     (let s = set_current 0 s
      in (if g_bBatteryChargePermanentlyDisabled s then BATTERY_CHARGE_BROKEN_BATTERY
          else if VDD5V_PRESENT e then BATTERY_CHARGE_NORMAL
          else BATTERY_CHARGE_WAIT_FOR_5V, s))"

definition apply_limit :: "WORD \<Rightarrow> charger \<Rightarrow> charger" where
  "apply_limit wCurrentLimit s =
     (if wCurrentLimit \<noteq> 0 \<and> g_bBatteryChargeEnabled s
      then let wBitfield = current_bits BATT_CURRENT_BITS wCurrentLimit 0
           in if ucast (BATT_CURRENT s) \<noteq> wBitfield then step_up wBitfield s else s
      else s)"

definition BatteryChargeStateMachineNormal ::
    "battery \<Rightarrow> bool \<Rightarrow> WORD \<Rightarrow> inputs \<Rightarrow> charger \<Rightarrow> charge_state \<times> charger" where
  "BatteryChargeStateMachineNormal b player wCounter e s =
     (if wCounter > POWER_OFF_FREQUENCY player then (BATTERY_CHARGE_WAIT_FOR_5V, s)
      else let s = BatteryChargeImplementationSample b (wCounter \<noteq> 0) e s;
               (wCurrentLimit, s) = BatteryChargeImplementatonGetCurrentLimit b player e s
           in (BATTERY_CHARGE_NORMAL, apply_limit wCurrentLimit s))"

record machine =
  g_wBatteryChargeState :: charge_state
  g_wBatteryChargeCounter :: WORD
  charger :: charger

definition machine_step :: "battery \<Rightarrow> bool \<Rightarrow> inputs \<Rightarrow> machine \<Rightarrow> charge_state \<times> charger" where
  "machine_step b player e m =
     (case g_wBatteryChargeState m of
        BATTERY_CHARGE_UNINITIALIZED \<Rightarrow> BatteryChargeStateMachineInitialize b player e (charger m)
      | BATTERY_CHARGE_WAIT_FOR_5V \<Rightarrow> BatteryChargeStateMachineWaitFor5V e (charger m)
      | BATTERY_CHARGE_NORMAL \<Rightarrow>
          BatteryChargeStateMachineNormal b player (g_wBatteryChargeCounter m) e (charger m)
      | BATTERY_CHARGE_BROKEN_BATTERY \<Rightarrow> BatteryChargeStateMachineBroken (charger m))"

definition BatteryChargeStateMachine :: "battery \<Rightarrow> bool \<Rightarrow> inputs \<Rightarrow> machine \<Rightarrow> machine" where
  "BatteryChargeStateMachine b player e m =
     (let (wNewState, s) = machine_step b player e m;
          c = (if wNewState = g_wBatteryChargeState m then g_wBatteryChargeCounter m + 1 else 0)
      in \<lparr>g_wBatteryChargeState = wNewState, g_wBatteryChargeCounter = c,
          charger = (if player then s else s\<lparr>g_ChargeTimes := g_ChargeTimes s + 1\<rparr>)\<rparr>)"

definition power_on :: "charger \<Rightarrow> machine" where
  "power_on s = \<lparr>g_wBatteryChargeState = BATTERY_CHARGE_UNINITIALIZED,
     g_wBatteryChargeCounter = 0, charger = s\<rparr>"

text \<open>The states the machine can be in after any sequence of turns with any inputs.\<close>

inductive charge_reach :: "battery \<Rightarrow> bool \<Rightarrow> machine \<Rightarrow> machine \<Rightarrow> bool" for b player m where
  start: "charge_reach b player m m"
| turn: "charge_reach b player m m' \<Longrightarrow>
     charge_reach b player m (BatteryChargeStateMachine b player e m')"

section \<open>The current setting is the best one\<close>

definition milliamps :: "WORD \<Rightarrow> nat" where
  "milliamps c = (\<Sum>(mA, field) \<leftarrow> BATT_CURRENT_BITS. if c AND field \<noteq> 0 then unat mA else 0)"

fun total :: "nat list \<Rightarrow> bool list \<Rightarrow> nat" where
  "total (w # ws) (b # bs) = (if b then w else 0) + total ws bs"
| "total ws bs = 0"

fun greedy :: "nat list \<Rightarrow> nat \<Rightarrow> bool list" where
  "greedy [] n = []"
| "greedy (w # ws) n = (if w \<le> n then True # greedy ws (n - w) else False # greedy ws n)"

fun dominating :: "nat list \<Rightarrow> bool" where
  "dominating [] = True"
| "dominating (w # ws) \<longleftrightarrow> sum_list ws < w \<and> dominating ws"

lemma total_le_sum_list: "total ws bs \<le> sum_list ws"
  by (induction ws bs rule: total.induct) auto

lemma greedy_le: "total ws (greedy ws n) \<le> n"
proof (induction ws arbitrary: n)
  case (Cons w ws)
  show ?case using Cons [of "n - w"] Cons [of n] by auto
qed simp

lemma greedy_best:
  "dominating ws \<Longrightarrow> total ws bs \<le> n \<Longrightarrow> total ws bs \<le> total ws (greedy ws n)"
proof (induction ws arbitrary: n bs)
  case (Cons w ws)
  show ?case
  proof (cases bs)
    case bs: (Cons b bs')
    show ?thesis
      using Cons.IH [of bs' "n - w"] Cons.IH [of bs' n] Cons.prems total_le_sum_list [of ws bs'] bs
      by (auto split: if_splits)
  qed simp
qed simp

lemma milliamps_total:
  "milliamps c = total [200, 100, 50, 25, 10]
     [bit c 4, bit c 3, bit c 2, bit c 1, bit c 0]"
proof -
  have m: "c AND 0x10 \<noteq> 0 \<longleftrightarrow> bit c 4" "c AND 8 \<noteq> 0 \<longleftrightarrow> bit c 3" "c AND 4 \<noteq> 0 \<longleftrightarrow> bit c 2"
    "c AND 2 \<noteq> 0 \<longleftrightarrow> bit c 1" "c AND 1 \<noteq> 0 \<longleftrightarrow> bit c 0"
    using and_exp_eq_0_iff_not_bit [of c 4] and_exp_eq_0_iff_not_bit [of c 3]
      and_exp_eq_0_iff_not_bit [of c 2] and_exp_eq_0_iff_not_bit [of c 1]
      and_exp_eq_0_iff_not_bit [of c 0] by simp_all
  show ?thesis
    by (simp add: milliamps_def BATT_CURRENT_BITS_def m)
qed

fun pick :: "(WORD \<times> WORD) list \<Rightarrow> bool list \<Rightarrow> WORD" where
  "pick ((mA, field) # t) (b # bs) = (if b then field else 0) OR pick t bs"
| "pick t bs = 0"

lemma current_bits_pick:
  "current_bits t l c = c OR pick t (greedy (map (unat \<circ> fst) t) (unat l))"
proof (induction t l c rule: current_bits.induct)
  case (2 mA field t l c)
  have "mA \<le> l \<Longrightarrow> unat (l - mA) = unat l - unat mA"
    by (rule unat_sub)
  with 2 show ?case by (simp add: word_le_nat_alt or.assoc)
qed simp

lemma greedy_length: "length (greedy ws n) = length ws"
  by (induction ws arbitrary: n) auto

lemma milliamps_pick:
  assumes "length bs = 5"
  shows "milliamps (pick BATT_CURRENT_BITS bs) = total [200, 100, 50, 25, 10] bs"
proof -
  obtain b4 b3 b2 b1 b0 where bs: "bs = [b4, b3, b2, b1, b0]"
    using assms by (auto simp: length_Suc_conv eval_nat_numeral)
  show ?thesis
    unfolding bs by (cases b4; cases b3; cases b2; cases b1; cases b0)
      (simp_all add: milliamps_def BATT_CURRENT_BITS_def)
qed

lemma current_bits_greedy:
  "milliamps (current_bits BATT_CURRENT_BITS l 0) =
     total [200, 100, 50, 25, 10] (greedy [200, 100, 50, 25, 10] (unat l))"
proof -
  have "map (unat \<circ> fst) BATT_CURRENT_BITS = [200, 100, 50, 25, 10]"
    by (simp add: BATT_CURRENT_BITS_def)
  then show ?thesis
    using current_bits_pick [of BATT_CURRENT_BITS l 0]
    by (simp add: milliamps_pick greedy_length del: greedy.simps total.simps)
qed

lemma current_bits_within: "milliamps (current_bits BATT_CURRENT_BITS l 0) \<le> unat l"
  unfolding current_bits_greedy by (rule greedy_le)

text \<open>
  C18. The bit field the charger computes for a current limit never allows more than the limit,
  and no other setting of the five bits that stays within the limit allows more.
\<close>

theorem charge_current_best:
  "milliamps (current_bits BATT_CURRENT_BITS l 0) \<le> unat l \<and>
   (\<forall>c. milliamps c \<le> unat l \<longrightarrow> milliamps c \<le> milliamps (current_bits BATT_CURRENT_BITS l 0))"
proof -
  have "dominating [200, 100, 50, 25, 10]"
    by simp
  from greedy_best [OF this]
  have "milliamps c \<le> unat l \<Longrightarrow> milliamps c \<le> milliamps (current_bits BATT_CURRENT_BITS l 0)" for c
    unfolding milliamps_total [of c] current_bits_greedy .
  then show ?thesis
    using greedy_le unfolding current_bits_greedy by metis
qed

theorem charge_current_best_witness:
  "current_bits BATT_CURRENT_BITS 75 0 = 6 \<and> milliamps 5 \<le> milliamps (current_bits BATT_CURRENT_BITS 75 0)"
proof -
  have "milliamps 5 \<le> unat (75::WORD)"
    by (simp add: milliamps_def BATT_CURRENT_BITS_def)
  then show ?thesis
    using charge_current_best [of 75] by (simp add: BATT_CURRENT_BITS_def)
qed

section \<open>What the charger relies on in a battery\<close>

definition same_switches :: "charger \<Rightarrow> charger \<Rightarrow> bool" where
  "same_switches s s' \<longleftrightarrow>
     g_bBatteryChargeEnabled s' = g_bBatteryChargeEnabled s \<and>
     g_bBatteryChargePermanentlyDisabled s' = g_bBatteryChargePermanentlyDisabled s \<and>
     PWD s' = PWD s \<and> BATT_CURRENT s' = BATT_CURRENT s \<and> writes s' = writes s"

definition shut_off :: "charger \<Rightarrow> charger \<Rightarrow> bool" where
  "shut_off s s' \<longleftrightarrow>
     PWD s' \<and> BATT_CURRENT s' = 0 \<and> \<not> g_bBatteryChargeEnabled s' \<and> writes s' = writes s @ [0] \<and>
     (g_bBatteryChargePermanentlyDisabled s \<longrightarrow> g_bBatteryChargePermanentlyDisabled s')"

locale charge_limit =
  fixes b :: battery and most :: nat
  assumes initialize: "BatteryChargeImplementationInitialize b player e s = (r, s') \<Longrightarrow>
      same_switches s s' \<or> r \<noteq> 0 \<and> shut_off s s'"
    and sample: "same_switches s (BatteryChargeImplementationSample b c e s)"
    and limit: "BatteryChargeImplementatonGetCurrentLimit b player e s = (r, s') \<Longrightarrow>
      unat r \<le> most \<and> (same_switches s s' \<or> r = 0 \<and> shut_off s s')"

lemmas switch_defs = same_switches_def shut_off_def set_current_def BatteryChargeStopCharging_def
  BatteryChargeDisableCharging_def BatteryChargeEnableCharging_def Let_def

text \<open>The ramp: above 100 mA only directly after 100 mA, above 200 mA only directly after 200 mA.\<close>

definition ramp_ok :: "6 word \<Rightarrow> 6 word \<Rightarrow> bool" where
  "ramp_ok a c \<longleftrightarrow> (c > 0x10 \<longrightarrow> a = 0x10) \<and> (c > 0x08 \<and> c \<le> 0x10 \<longrightarrow> a = 0x08)"

fun ramped :: "6 word \<Rightarrow> 6 word list \<Rightarrow> bool" where
  "ramped a [] = True"
| "ramped a (c # cs) \<longleftrightarrow> ramp_ok a c \<and> ramped c cs"

lemma ramped_append: "ramped a (cs @ ds) \<longleftrightarrow> ramped a cs \<and> ramped (last (a # cs)) ds"
  by (induction cs arbitrary: a) auto

lemma ramped_zero: "ramped a (cs @ [0]) \<longleftrightarrow> ramped a cs"
  by (simp add: ramped_append ramp_ok_def)

definition within :: "nat \<Rightarrow> 6 word list \<Rightarrow> bool" where
  "within most cs \<longleftrightarrow> (\<forall>c\<in>set cs. milliamps (ucast c) \<le> most)"

lemma milliamps_zero: "milliamps 0 = 0"
  by (simp add: milliamps_def BATT_CURRENT_BITS_def)

definition charger_ok :: "nat \<Rightarrow> charge_state \<Rightarrow> charger \<Rightarrow> bool" where
  "charger_ok most st s \<longleftrightarrow>
     (g_bBatteryChargePermanentlyDisabled s \<longrightarrow>
        PWD s \<and> BATT_CURRENT s = 0 \<and> (st = BATTERY_CHARGE_NORMAL \<longrightarrow> \<not> g_bBatteryChargeEnabled s)) \<and>
     ramped 0 (writes s) \<and> within most (writes s)"

section \<open>The ramp\<close>

lemma current_bits_small:
  fixes l :: WORD
  defines "c \<equiv> current_bits BATT_CURRENT_BITS l 0"
  shows "c < 32 \<and> (c > 8 \<longrightarrow> 100 \<le> milliamps c) \<and> (c > 16 \<longrightarrow> 200 \<le> milliamps c)"
proof -
  obtain bs where c: "c = pick BATT_CURRENT_BITS bs" and "length bs = 5"
    using current_bits_pick [of BATT_CURRENT_BITS l 0]
    by (auto simp: c_def greedy_length BATT_CURRENT_BITS_def)
  then obtain b4 b3 b2 b1 b0 where bs: "bs = [b4, b3, b2, b1, b0]"
    by (auto simp: length_Suc_conv eval_nat_numeral)
  show ?thesis
    unfolding c bs by (cases b4; cases b3; cases b2; cases b1; cases b0)
      (simp_all add: milliamps_def BATT_CURRENT_BITS_def)
qed

lemma step_up_writes:
  "writes (step_up c s) = writes s @ (if c > 8 then [8] else []) @ (if c > 16 then [16] else []) @ [ucast c]"
  by (simp add: step_up_def set_current_def HW_VDD5V_PWR_CHARGE_BATT_CURRENT_100MA_def
      HW_VDD5V_PWR_CHARGE_BATT_CURRENT_200MA_def Let_def)

lemma step_up_keeps [simp]:
  "g_bBatteryChargePermanentlyDisabled (step_up c s) = g_bBatteryChargePermanentlyDisabled s"
  "g_bBatteryChargeEnabled (step_up c s) = g_bBatteryChargeEnabled s"
  by (simp_all add: step_up_def set_current_def Let_def)

lemma ucast_small:
  fixes c :: WORD
  assumes "c < 32"
  shows "unat (ucast c :: 6 word) = unat c" and "(ucast (ucast c :: 6 word) :: WORD) = c"
proof -
  have c: "unat c < 32"
    using assms by (simp add: word_less_nat_alt)
  then show u: "unat (ucast c :: 6 word) = unat c"
    by (simp add: unsigned_ucast_eq take_bit_eq_mod)
  show "(ucast (ucast c :: 6 word) :: WORD) = c"
    by (rule iffD2 [OF word_unat_eq_iff]) (use u c in \<open>simp add: unsigned_ucast_eq take_bit_eq_mod unat_mod\<close>)
qed

lemma ramp_last:
  fixes c :: WORD
  assumes "c < 32"
  shows "ramped 0 (cs @ (if c > 8 then [8] else []) @ (if c > 16 then [16] else []) @ [ucast c])
    \<longleftrightarrow> ramped 0 cs"
proof -
  have lt: "ucast c > (n::6 word) \<longleftrightarrow> unat n < unat c" "ucast c \<le> (n::6 word) \<longleftrightarrow> unat c \<le> unat n" for n
    using ucast_small [OF assms] by (simp_all add: word_less_nat_alt word_le_nat_alt)
  have lt': "c > n \<longleftrightarrow> unat n < unat c" for n
    by (simp add: word_less_nat_alt)
  show ?thesis
    by (auto simp: ramped_append ramp_ok_def lt lt')
qed

lemma shut_off_ok:
  "ramped 0 (writes s) \<Longrightarrow> within most (writes s) \<Longrightarrow> shut_off s s' \<Longrightarrow> charger_ok most st s'"
  by (simp add: shut_off_def charger_ok_def ramped_zero within_def milliamps_zero)

lemma same_switches_ok:
  "charger_ok most st s \<Longrightarrow> same_switches s s' \<Longrightarrow> charger_ok most st s'"
  by (simp add: same_switches_def charger_ok_def)

lemma charger_ok_leave: "charger_ok most BATTERY_CHARGE_NORMAL s \<Longrightarrow> charger_ok most st s"
  by (simp add: charger_ok_def)

lemma apply_limit_ok:
  assumes ok: "charger_ok most BATTERY_CHARGE_NORMAL s" and l: "unat l \<le> most"
  shows "charger_ok most st (apply_limit l s)"
proof -
  let ?c = "current_bits BATT_CURRENT_BITS l 0"
  have c: "?c < 32" "?c > 8 \<Longrightarrow> 100 \<le> milliamps ?c" "?c > 16 \<Longrightarrow> 200 \<le> milliamps ?c"
    using current_bits_small [of l] by auto
  have m: "milliamps ?c \<le> most"
    using current_bits_within [of l] l by simp
  have "milliamps 8 = 100" "milliamps 16 = 200"
    by (simp_all add: milliamps_def BATT_CURRENT_BITS_def)
  with m c ok have "ramped 0 (writes (step_up ?c s)) \<and> within most (writes (step_up ?c s))"
    by (auto simp: step_up_writes ramp_last charger_ok_def within_def ucast_small)
  with ok show ?thesis
    by (auto simp: apply_limit_def charger_ok_def Let_def)
qed

context charge_limit
begin

lemma initialize_ok:
  assumes "charger_ok most BATTERY_CHARGE_UNINITIALIZED s"
    and "BatteryChargeStateMachineInitialize b player e s = (st, s')"
  shows "charger_ok most st s'"
proof (cases "BatteryChargeImplementationInitialize b player e s")
  case i: (Pair r t)
  have "charger_ok most BATTERY_CHARGE_WAIT_FOR_5V t"
    using initialize [OF i] assms(1)
    by (auto simp: charger_ok_def same_switches_def shut_off_def ramped_zero within_def milliamps_zero)
  with i assms show ?thesis
    by (auto simp: BatteryChargeStateMachineInitialize_def BatteryChargeEnableCharging_def charger_ok_def
        split: if_splits)
qed

lemma normal_ok:
  assumes "charger_ok most BATTERY_CHARGE_NORMAL s"
    and "BatteryChargeStateMachineNormal b player w e s = (st, s')"
  shows "charger_ok most st s'"
proof -
  let ?s = "BatteryChargeImplementationSample b (w \<noteq> 0) e s"
  obtain r t where l: "BatteryChargeImplementatonGetCurrentLimit b player e ?s = (r, t)"
    by force
  have s: "charger_ok most BATTERY_CHARGE_NORMAL ?s"
    using same_switches_ok [OF assms(1) sample] .
  have w: "ramped 0 (writes ?s)" "within most (writes ?s)"
    using s by (simp_all add: charger_ok_def)
  have "charger_ok most BATTERY_CHARGE_NORMAL t"
    using limit [OF l] same_switches_ok [OF s] shut_off_ok [OF w] by blast
  then have "charger_ok most st (apply_limit r t)"
    using limit [OF l] by (intro apply_limit_ok) auto
  with l assms show ?thesis
    by (auto simp: BatteryChargeStateMachineNormal_def split: if_splits dest: charger_ok_leave)
qed

lemma turn_ok:
  assumes "charger_ok most (g_wBatteryChargeState m) (charger m)"
  shows "charger_ok most (g_wBatteryChargeState (BatteryChargeStateMachine b player e m))
    (charger (BatteryChargeStateMachine b player e m))"
proof (cases "machine_step b player e m")
  case st: (Pair st s)
  have "charger_ok most st s"
  proof (cases "g_wBatteryChargeState m")
    case BATTERY_CHARGE_UNINITIALIZED
    then have "BatteryChargeStateMachineInitialize b player e (charger m) = (st, s)"
      using st by (simp add: machine_step_def)
    with BATTERY_CHARGE_UNINITIALIZED assms show ?thesis
      by (metis initialize_ok)
  next
    case BATTERY_CHARGE_WAIT_FOR_5V
    then show ?thesis
      using st assms by (auto simp: machine_step_def BatteryChargeStateMachineWaitFor5V_def charger_ok_def
          set_current_def ramped_zero within_def milliamps_zero split: if_splits)
  next
    case BATTERY_CHARGE_NORMAL
    then have "BatteryChargeStateMachineNormal b player (g_wBatteryChargeCounter m) e (charger m) = (st, s)"
      using st by (simp add: machine_step_def)
    with BATTERY_CHARGE_NORMAL assms show ?thesis
      by (metis normal_ok)
  next
    case BATTERY_CHARGE_BROKEN_BATTERY
    then show ?thesis
      using st assms by (simp add: machine_step_def BatteryChargeStateMachineBroken_def)
  qed
  with st show ?thesis
    by (simp add: BatteryChargeStateMachine_def charger_ok_def)
qed

lemma reach_ok:
  assumes "charge_reach b player m m'" and "charger_ok most (g_wBatteryChargeState m) (charger m)"
  shows "charger_ok most (g_wBatteryChargeState m') (charger m')"
  using assms by (induction rule: charge_reach.induct) (simp_all add: turn_ok)

lemma turn_stays_disabled:
  assumes "g_bBatteryChargePermanentlyDisabled (charger m)"
  shows "g_bBatteryChargePermanentlyDisabled (charger (BatteryChargeStateMachine b player e m))"
proof (cases "g_wBatteryChargeState m")
  case BATTERY_CHARGE_UNINITIALIZED
  obtain r t where i: "BatteryChargeImplementationInitialize b player e (charger m) = (r, t)"
    by force
  have "g_bBatteryChargePermanentlyDisabled t"
    using initialize [OF i] assms by (auto simp: same_switches_def shut_off_def)
  with i assms show ?thesis
    by (simp add: BatteryChargeStateMachine_def machine_step_def BATTERY_CHARGE_UNINITIALIZED
        BatteryChargeStateMachineInitialize_def BatteryChargeEnableCharging_def)
next
  case BATTERY_CHARGE_NORMAL
  let ?s = "BatteryChargeImplementationSample b (g_wBatteryChargeCounter m \<noteq> 0) e (charger m)"
  obtain r t where l: "BatteryChargeImplementatonGetCurrentLimit b player e ?s = (r, t)"
    by force
  have "g_bBatteryChargePermanentlyDisabled t"
    using limit [OF l] sample [where s = "charger m" and c = "g_wBatteryChargeCounter m \<noteq> 0" and e = e] assms
    by (auto simp: same_switches_def shut_off_def)
  with l assms show ?thesis
    by (simp add: BatteryChargeStateMachine_def machine_step_def BATTERY_CHARGE_NORMAL
        BatteryChargeStateMachineNormal_def apply_limit_def Let_def)
qed (use assms in \<open>simp_all add: BatteryChargeStateMachine_def machine_step_def set_current_def
  BatteryChargeStateMachineWaitFor5V_def BatteryChargeStateMachineBroken_def Let_def\<close>)

end

section \<open>How long a permanent disabling takes\<close>

definition run_charger :: "battery \<Rightarrow> bool \<Rightarrow> inputs list \<Rightarrow> machine \<Rightarrow> machine" where
  "run_charger b player es m = foldl (\<lambda>m e. BatteryChargeStateMachine b player e m) m es"

definition counter_ok :: "bool \<Rightarrow> machine \<Rightarrow> bool" where
  "counter_ok player m \<longleftrightarrow> (g_wBatteryChargeState m = BATTERY_CHARGE_NORMAL \<longrightarrow>
     unat (g_wBatteryChargeCounter m) \<le> unat (POWER_OFF_FREQUENCY player) + 1)"

definition turns_left :: "bool \<Rightarrow> machine \<Rightarrow> nat" where
  "turns_left player m = (case g_wBatteryChargeState m of
     BATTERY_CHARGE_UNINITIALIZED \<Rightarrow> 2
   | BATTERY_CHARGE_WAIT_FOR_5V \<Rightarrow> 1
   | BATTERY_CHARGE_NORMAL \<Rightarrow> unat (POWER_OFF_FREQUENCY player) + 3 - unat (g_wBatteryChargeCounter m)
   | BATTERY_CHARGE_BROKEN_BATTERY \<Rightarrow> 0)"

lemma counter_step:
  fixes c :: WORD
  assumes "\<not> c > POWER_OFF_FREQUENCY player"
  shows "unat (c + 1) = unat c + 1"
proof -
  have "unat c \<le> 500"
    using assms by (auto simp: POWER_OFF_FREQUENCY_def word_less_nat_alt split: if_splits)
  then show ?thesis
    by (simp add: unat_word_ariths)
qed

lemma counter_ok_turn:
  assumes "counter_ok player m"
  shows "counter_ok player (BatteryChargeStateMachine b player e m)"
proof (cases "g_wBatteryChargeState m")
  case BATTERY_CHARGE_NORMAL
  then show ?thesis
    using assms counter_step [of player "g_wBatteryChargeCounter m"]
    by (auto simp: counter_ok_def BatteryChargeStateMachine_def machine_step_def
        BatteryChargeStateMachineNormal_def word_less_nat_alt split: prod.split)
qed (auto simp: counter_ok_def BatteryChargeStateMachine_def machine_step_def Let_def
    BatteryChargeStateMachineInitialize_def BatteryChargeStateMachineWaitFor5V_def
    BatteryChargeStateMachineBroken_def split: prod.split)

lemma turns_left_turn:
  assumes "counter_ok player m" and "g_bBatteryChargePermanentlyDisabled (charger m)"
  shows "turns_left player (BatteryChargeStateMachine b player e m) \<le> turns_left player m - 1"
proof (cases "g_wBatteryChargeState m")
  case BATTERY_CHARGE_NORMAL
  then show ?thesis
    using assms counter_step [of player "g_wBatteryChargeCounter m"]
    by (auto simp: counter_ok_def turns_left_def BatteryChargeStateMachine_def machine_step_def
        BatteryChargeStateMachineNormal_def word_less_nat_alt split: prod.split)
qed (use assms in \<open>auto simp: turns_left_def BatteryChargeStateMachine_def machine_step_def Let_def
    BatteryChargeStateMachineInitialize_def BatteryChargeStateMachineWaitFor5V_def
    BatteryChargeStateMachineBroken_def set_current_def split: prod.split\<close>)

lemma turns_left_max: "turns_left player m \<le> unat (POWER_OFF_FREQUENCY player) + 3"
  by (simp add: turns_left_def split: charge_state.split)

lemma turns_left_zero:
  "counter_ok player m \<Longrightarrow> turns_left player m = 0 \<longleftrightarrow> g_wBatteryChargeState m = BATTERY_CHARGE_BROKEN_BATTERY"
  by (auto simp: turns_left_def counter_ok_def split: charge_state.splits)

lemma counter_ok_reach: "charge_reach b player m m' \<Longrightarrow> counter_ok player m \<Longrightarrow> counter_ok player m'"
  by (induction rule: charge_reach.induct) (simp_all add: counter_ok_turn)

lemma counter_ok_power_on: "counter_ok player (power_on s)"
  by (simp add: counter_ok_def power_on_def)

context charge_limit
begin

lemma run_disabled:
  "counter_ok player m \<Longrightarrow> g_bBatteryChargePermanentlyDisabled (charger m) \<Longrightarrow>
   counter_ok player (run_charger b player es m) \<and>
   g_bBatteryChargePermanentlyDisabled (charger (run_charger b player es m)) \<and>
   turns_left player (run_charger b player es m) \<le> turns_left player m - length es \<and>
   charge_reach b player m (run_charger b player es m)"
proof (induction es rule: rev_induct)
  case (snoc e es)
  then show ?case
    using turns_left_turn [of player "run_charger b player es m" b e]
    by (auto simp: run_charger_def counter_ok_turn turn_stays_disabled intro: charge_reach.turn)
qed (simp add: run_charger_def charge_reach.start)

lemma disabled_ends:
  assumes "charge_reach b player (power_on s) m" and "g_bBatteryChargePermanentlyDisabled (charger m)"
    and "unat (POWER_OFF_FREQUENCY player) + 3 \<le> length es"
  shows "g_wBatteryChargeState (run_charger b player es m) = BATTERY_CHARGE_BROKEN_BATTERY"
proof -
  have "counter_ok player m"
    using counter_ok_reach [OF assms(1) counter_ok_power_on] .
  note r = run_disabled [OF this assms(2), of es]
  then have "turns_left player (run_charger b player es m) = 0"
    using assms(3) turns_left_max [of player m] by linarith
  then show ?thesis
    using turns_left_zero r by blast
qed

end

section \<open>Both batteries keep the contract\<close>

lemma disable_shuts_off:
  "g_bBatteryChargePermanentlyDisabled s = g_bBatteryChargePermanentlyDisabled t \<Longrightarrow> writes s = writes t \<Longrightarrow>
   shut_off t (BatteryChargeDisableCharging player p s)"
  by (simp add: switch_defs)

interpretation nimh: charge_limit "nimh detect" 75 for detect
proof
  fix player e s r s'
  show "BatteryChargeImplementationInitialize (nimh detect) player e s = (r, s') \<Longrightarrow>
      same_switches s s' \<or> r \<noteq> 0 \<and> shut_off s s'"
    by (auto simp: nimh_def nimh_Initialize_def nimh_Sample_def NIMH_POLARITY_NOT_DETECTED_def
        same_switches_def Let_def intro!: disable_shuts_off split: if_splits)
  show "same_switches s (BatteryChargeImplementationSample (nimh detect) c e s)" for c
    by (simp add: nimh_def nimh_Sample_def same_switches_def)
  show "BatteryChargeImplementatonGetCurrentLimit (nimh detect) player e s = (r, s') \<Longrightarrow>
      unat r \<le> 75 \<and> (same_switches s s' \<or> r = 0 \<and> shut_off s s')"
    by (auto simp: nimh_def nimh_GetCurrentLimit_def NIMH_TRICKLE_CHARGE_CURRENT_def
        NIMH_EQUILIBRIUM_CHARGING_CURRENT_LIMIT_def same_switches_def Let_def
        intro!: disable_shuts_off split: if_splits)
qed

lemma liion_Sample_same: "same_switches s (liion_Sample c e s)"
  by (simp add: liion_Sample_def same_switches_def Let_def)

lemma liion_Initialize_same:
  "liion_Initialize player e s = (r, s') \<Longrightarrow> same_switches s s'"
  using liion_Sample_same [of s False e] unfolding liion_Initialize_def same_switches_def Let_def
  by (cases player; cases "LIION_CONDITIONING_VOLTAGE_THRESHHOLD < g_wVBatt_mV_NotCharging (liion_Sample False e s)")
    auto

interpretation liion: charge_limit liion 400
proof
  fix player e s r s'
  show "BatteryChargeImplementationInitialize liion player e s = (r, s') \<Longrightarrow>
      same_switches s s' \<or> r \<noteq> 0 \<and> shut_off s s'"
    using liion_Initialize_same [of player e s r s'] by (simp add: liion_def)
  show "same_switches s (BatteryChargeImplementationSample liion c e s)" for c
    by (simp add: liion_def liion_Sample_same)
  show "BatteryChargeImplementatonGetCurrentLimit liion player e s = (r, s') \<Longrightarrow>
      unat r \<le> 400 \<and> (same_switches s s' \<or> r = 0 \<and> shut_off s s')"
    by (auto simp: liion_def liion_GetCurrentLimit_def LIION_CONDITIONING_CURRENT_LIMIT_def
        LIION_CHARGING_CURRENT_LIMIT_def same_switches_def
        intro!: disable_shuts_off split: if_splits)
qed

lemma charger_ok_power_on:
  "writes s = [] \<Longrightarrow> \<not> g_bBatteryChargePermanentlyDisabled s \<Longrightarrow>
   charger_ok most (g_wBatteryChargeState (power_on s)) (charger (power_on s))"
  by (simp add: charger_ok_def power_on_def within_def)

section \<open>Properties of the charger\<close>

text \<open>
  C14. Whatever the clock, the voltage and the 5V supply do, the values written to the current field
  form a ramp (100 mA before anything above it, 200 mA before anything above that) and none
  of them allows more than the battery's limit: 75 mA for NiMH, 400 mA for Li-Ion.
\<close>

theorem charging_ramp:
  assumes "writes s = []" and "\<not> g_bBatteryChargePermanentlyDisabled s"
  shows "(charge_reach (nimh detect) player (power_on s) m \<longrightarrow>
      ramped 0 (writes (charger m)) \<and> (\<forall>c\<in>set (writes (charger m)). milliamps (ucast c) \<le> 75)) \<and>
    (charge_reach liion player (power_on s) m \<longrightarrow>
      ramped 0 (writes (charger m)) \<and> (\<forall>c\<in>set (writes (charger m)). milliamps (ucast c) \<le> 400))"
  using nimh.reach_ok [OF _ charger_ok_power_on [OF assms]]
    liion.reach_ok [OF _ charger_ok_power_on [OF assms]]
  by (auto simp: charger_ok_def within_def)

text \<open>
  Once charging is permanently disabled, in any reachable state and with either battery, the
  charger is powered down with its current field at 0, and it is not reported as charging.
\<close>

theorem disabled_is_off:
  assumes "writes s = []" and "\<not> g_bBatteryChargePermanentlyDisabled s"
    and "charge_reach (nimh detect) player (power_on s) m \<or> charge_reach liion player (power_on s) m"
    and "g_bBatteryChargePermanentlyDisabled (charger m)"
  shows "PWD (charger m) \<and> BATT_CURRENT (charger m) = 0 \<and> \<not> BatteryChargeIsCharging e (charger m)"
  using assms(3,4) nimh.reach_ok [OF _ charger_ok_power_on [OF assms(1,2)]]
    liion.reach_ok [OF _ charger_ok_power_on [OF assms(1,2)]]
  by (auto simp: charger_ok_def BatteryChargeIsCharging_def)

text \<open>
  C16. From any reachable state in which charging is permanently disabled, the machine is in its
  absorbing broken-battery state after at most POWER_OFF_FREQUENCY + 3 turns, whatever the inputs.
\<close>

theorem disabled_ends_broken:
  assumes "charge_reach (nimh detect) player (power_on s) m \<and> b = nimh detect \<or>
      charge_reach liion player (power_on s) m \<and> b = liion"
    and "g_bBatteryChargePermanentlyDisabled (charger m)"
    and "unat (POWER_OFF_FREQUENCY player) + 3 \<le> length es"
  shows "g_wBatteryChargeState (run_charger b player es m) = BATTERY_CHARGE_BROKEN_BATTERY"
  using assms(1) nimh.disabled_ends [OF _ assms(2,3)] liion.disabled_ends [OF _ assms(2,3)]
  by blast

text \<open>
  C17. A Li-Ion charge ends: when the charge time is over, the next sampling turn in the conditioning,
  charging or top-off state powers the charger down and disables it, whatever the voltage is.
\<close>

theorem liion_charging_ends:
  assumes "g_wBatteryChargeState m = BATTERY_CHARGE_NORMAL"
    and "g_wBatteryChargeCounter m \<le> POWER_OFF_FREQUENCY player"
    and "liion_expired player e (charger m)"
    and "g_wBatteryState (charger m) \<in> {LIION_CONDITIONING, LIION_CHARGING, LIION_WAITING_FOR_FINISH}"
  defines "m' \<equiv> BatteryChargeStateMachine liion player e m"
  shows "PWD (charger m') \<and> BATT_CURRENT (charger m') = 0 \<and> \<not> g_bBatteryChargeEnabled (charger m')"
proof -
  let ?s = "liion_Sample (g_wBatteryChargeCounter m \<noteq> 0) e (charger m)"
  have "liion_expired player e ?s" "g_wBatteryState ?s = g_wBatteryState (charger m)"
    using assms(3) by (auto simp: liion_expired_def liion_Sample_def Let_def)
  then obtain u where u: "liion_GetCurrentLimit player e ?s = (0, u)"
      "PWD u \<and> BATT_CURRENT u = 0 \<and> \<not> g_bBatteryChargeEnabled u"
    using assms(4) by (auto simp: liion_GetCurrentLimit_def LIION_CONDITIONING_def LIION_CHARGING_def
        LIION_WAITING_FOR_FINISH_def switch_defs)
  have "\<not> POWER_OFF_FREQUENCY player < g_wBatteryChargeCounter m"
    using assms(2) by simp
  with u assms(1) show ?thesis
    by (simp add: m'_def BatteryChargeStateMachine_def machine_step_def
        BatteryChargeStateMachineNormal_def liion_def apply_limit_def)
qed

section \<open>Witnesses\<close>

definition cold :: charger where
  "cold = \<lparr>g_bBatteryChargeEnabled = False, g_bBatteryChargePermanentlyDisabled = False, PWD = True,
     BATT_CURRENT = 0, writes = [], g_bTrickleChargingNow = False, g_wBatteryState = 0, g_dwTimeOut = 0,
     g_wVBatt_mV_Charging = 0, g_wVBatt_mV_NotCharging = 0, g_iThreshholdcount = 0, g_ChargeTimes = 0\<rparr>"

definition plugged :: inputs where
  "plugged = \<lparr>GetTime = 1000, Batt_mV = 3700, VDD5V_PRESENT = True, case_level = 1,
     g_bChargerLinearEnabled = True\<rparr>"

lemmas machine_defs = BatteryChargeStateMachine_def machine_step_def power_on_def
  BatteryChargeStateMachineInitialize_def BatteryChargeStateMachineWaitFor5V_def
  BatteryChargeStateMachineNormal_def BatteryChargeStateMachineBroken_def switch_defs

lemma reach_turns: "charge_reach b player m (run_charger b player es m)"
proof (induction es rule: rev_induct)
  case (snoc e es)
  then show ?case
    by (simp add: run_charger_def charge_reach.turn)
qed (simp add: run_charger_def charge_reach.start)

theorem charging_ramp_witness:
  "ramped 0 (writes (charger (run_charger liion True [plugged, plugged, plugged] (power_on cold)))) \<and>
   writes (charger (run_charger liion True [plugged, plugged, plugged] (power_on cold))) = [0, 8, 16, 31]"
proof
  show "ramped 0 (writes (charger (run_charger liion True [plugged, plugged, plugged] (power_on cold))))"
    using charging_ramp [of cold 0 True] reach_turns [of liion True "power_on cold" "[plugged, plugged, plugged]"]
    by (simp add: cold_def)
  show "writes (charger (run_charger liion True [plugged, plugged, plugged] (power_on cold))) = [0, 8, 16, 31]"
    by (simp add: run_charger_def machine_defs liion_def liion_Initialize_def liion_Sample_def
        liion_GetCurrentLimit_def liion_expired_def cold_def plugged_def apply_limit_def step_up_def
        BATT_CURRENT_BITS_def LIION_CHARGING_def LIION_CONDITIONING_def LIION_CHARGING_TIMEOUT_def
        LIION_CONDITIONING_VOLTAGE_THRESHHOLD_def LIION_CHARGING_CURRENT_LIMIT_def POWER_OFF_FREQUENCY_def
        LIION_CHARGING_DIFFERENTIAL_THRESHHOLD_def LIION_CHARGING_DIFFERENTIAL_THRESHHOLD_COUNT_def
        HW_VDD5V_PWR_CHARGE_BATT_CURRENT_100MA_def HW_VDD5V_PWR_CHARGE_BATT_CURRENT_200MA_def)
qed

lemma wrong_polarity:
  "g_bBatteryChargePermanentlyDisabled (charger (run_charger (nimh 1) True [plugged] (power_on cold)))"
  by (simp add: run_charger_def machine_defs nimh_def nimh_Initialize_def nimh_Sample_def cold_def plugged_def
      CompareBatteryCasePolarityToConfigured_def NIMH_BATTERY_CASE_LOGIC_LEVEL_def)

theorem disabled_is_off_witness:
  "PWD (charger (run_charger (nimh 1) True [plugged] (power_on cold)))"
  using disabled_is_off [of cold 1 True "run_charger (nimh 1) True [plugged] (power_on cold)" plugged]
    reach_turns wrong_polarity by (simp add: cold_def)

theorem disabled_ends_broken_witness:
  "g_wBatteryChargeState (run_charger (nimh 1) True (replicate 43 plugged)
     (run_charger (nimh 1) True [plugged] (power_on cold))) = BATTERY_CHARGE_BROKEN_BATTERY"
proof (rule disabled_ends_broken [where detect = 1 and s = cold])
  show "unat (POWER_OFF_FREQUENCY True) + 3 \<le> length (replicate 43 plugged)"
    by (simp add: POWER_OFF_FREQUENCY_def)
qed (simp_all add: reach_turns wrong_polarity)

theorem liion_charging_ends_witness:
  "PWD (charger (BatteryChargeStateMachine liion False plugged
     \<lparr>g_wBatteryChargeState = BATTERY_CHARGE_NORMAL, g_wBatteryChargeCounter = 7,
      charger = cold\<lparr>PWD := False, g_wBatteryState := LIION_CHARGING, g_ChargeTimes := 144001\<rparr>\<rparr>))"
  using liion_charging_ends [of "\<lparr>g_wBatteryChargeState = BATTERY_CHARGE_NORMAL, g_wBatteryChargeCounter = 7,
      charger = cold\<lparr>PWD := False, g_wBatteryState := LIION_CHARGING, g_ChargeTimes := 144001\<rparr>\<rparr>" False plugged]
  by (simp add: POWER_OFF_FREQUENCY_def liion_expired_def MAX_CHARGE_TIMES_def)

end
