(* ===== verification/SoftTimers.thy ===== *)
theory SoftTimers imports Prelude begin

text \<open>
  The soft timers of \<^verbatim>\<open>System/MsgModules/Software/SoftTimer/softtimers.c\<close>: a module that other
  modules ask, by message, to post them a message once, a number of clock or for ever, and
  that tells the executive when it wants to be run next.

  \<open>SoftTimerModuleProcessQueue\<close> is one run of the module: it drains its message queue and then
  looks at every timer. Its state is the table of timers, the two halves of the time-out in its
  module entry and the messages it has posted. The messages are read into one local buffer
  that is never cleared, so a message shorter than its type needs is completed by the previous
  one; the buffer is an argument. A timer number the code does not refuse but the table does not
  have is the fault \<open>OutsideTable\<close>.
\<close>

section \<open>State\<close>

record Timer =
  m_bActive :: bool
  m_iCount :: "23 word"
  m_iInterval :: WORD
  m_ulTimeout :: DWORD
  m_iMsg :: WORD

record soft_timers =
  glb_SoftTimers :: "Timer list"
  m_uTimeOutHigh :: WORD
  m_uTimeOutLow :: WORD
  posted :: "WORD list"

datatype timer_fault = SystemHalt | OutsideTable

record wait_mask =
  m_bMessage :: bool
  m_bTimer :: bool

definition "SOFT_TIMER_SET_TIMER = (0x090001::WORD)"
definition "SOFT_TIMER_KILL_TIMER = (0x090002::WORD)"
definition "MAX_ULONG = (0xffffffffffff::DWORD)"

definition SoftTimerModuleInit :: "soft_timers \<Rightarrow> wait_mask \<times> soft_timers" where
  "SoftTimerModuleInit st =
     (\<lparr>m_bMessage = True, m_bTimer = False\<rparr>,
      st\<lparr>glb_SoftTimers := map (\<lambda>t. t\<lparr>m_bActive := False\<rparr>) (glb_SoftTimers st)\<rparr>)"

section \<open>Messages\<close>

definition set_timer :: "DWORD \<Rightarrow> WORD list \<Rightarrow> Timer \<Rightarrow> Timer" where
  "set_timer ulCurrentTime msg t =
     t\<lparr>m_bActive := True, m_iCount := ucast (msg ! 2), m_iInterval := msg ! 3,
       m_ulTimeout := ulCurrentTime + ucast (msg ! 3), m_iMsg := msg ! 4\<rparr>"

definition with_timer :: "WORD \<Rightarrow> (Timer \<Rightarrow> Timer) \<Rightarrow> soft_timers \<Rightarrow> timer_fault + soft_timers" where
  "with_timer iTimer f st =
     (let i = sint iTimer in
      if i < int (length (glb_SoftTimers st))
      then if i < 0 then Inl OutsideTable
           else Inr (st\<lparr>glb_SoftTimers :=
                  (glb_SoftTimers st)[nat i := f (glb_SoftTimers st ! nat i)]\<rparr>)
      else Inl SystemHalt)"

definition handle_message :: "DWORD \<Rightarrow> WORD list \<Rightarrow> soft_timers \<Rightarrow> timer_fault + soft_timers" where
  "handle_message ulCurrentTime msg st =
     (if msg ! 0 = SOFT_TIMER_KILL_TIMER then with_timer (msg ! 1) (\<lambda>t. t\<lparr>m_bActive := False\<rparr>) st
      else if msg ! 0 = SOFT_TIMER_SET_TIMER then with_timer (msg ! 1) (set_timer ulCurrentTime msg) st
      else Inr st)"

text \<open>\<open>GetMessage\<close> copies a message over the front of the buffer and leaves the rest as it was.\<close>

definition GetMessage :: "WORD list \<Rightarrow> WORD list \<Rightarrow> WORD list" where
  "GetMessage message Msg = message @ drop (length message) Msg"

fun handle_messages ::
    "DWORD \<Rightarrow> WORD list list \<Rightarrow> WORD list \<Rightarrow> soft_timers \<Rightarrow> timer_fault + soft_timers" where
  "handle_messages ulCurrentTime [] Msg st = Inr st"
| "handle_messages ulCurrentTime (message # queue) Msg st =
     (let Msg = GetMessage message Msg
      in case handle_message ulCurrentTime Msg st of
           Inl f \<Rightarrow> Inl f
         | Inr st \<Rightarrow> handle_messages ulCurrentTime queue Msg st)"

section \<open>The timers\<close>

definition due :: "DWORD \<Rightarrow> Timer \<Rightarrow> bool" where
  "due ulCurrentTime t \<longleftrightarrow> m_bActive t \<and> ulCurrentTime \<ge> m_ulTimeout t"

definition timer_turn :: "DWORD \<Rightarrow> Timer \<Rightarrow> Timer" where
  "timer_turn ulCurrentTime t =
     (if due ulCurrentTime t
      then if m_iCount t \<noteq> 0
           then let t = t\<lparr>m_iCount := m_iCount t - 1\<rparr>
                in if m_iCount t \<noteq> 0
                   then t\<lparr>m_ulTimeout := ulCurrentTime + scast (m_iInterval t)\<rparr>
                   else t\<lparr>m_bActive := False\<rparr>
           else t\<lparr>m_ulTimeout := ulCurrentTime + scast (m_iInterval t)\<rparr>
      else t)"

text \<open>
  The loop over the table, with the running minimum of the time-outs. The timers already looked at
  stand in \<^verbatim>\<open>glb_SoftTimers\<close>, those still to look at are the last argument.
\<close>

definition see_timeout :: "DWORD \<Rightarrow> DWORD \<times> soft_timers \<Rightarrow> DWORD \<times> soft_timers" where
  "see_timeout timeout = (\<lambda>(ulNextTimeout, st).
     if ulNextTimeout > timeout
     then (timeout, st\<lparr>m_uTimeOutHigh := ucast (drop_bit 24 timeout),
                            m_uTimeOutLow := ucast (timeout AND 0xffffff)\<rparr>)
     else (ulNextTimeout, st))"

fun scan_timers ::
    "DWORD \<Rightarrow> DWORD \<Rightarrow> wait_mask \<Rightarrow> soft_timers \<Rightarrow> Timer list \<Rightarrow> wait_mask \<times> soft_timers" where
  "scan_timers ulCurrentTime ulNextTimeout waits st [] = (waits, st)"
| "scan_timers ulCurrentTime ulNextTimeout waits st (t # ts) =
     (if m_bActive t
      then let waits = waits\<lparr>m_bTimer := True\<rparr>;
               t' = timer_turn ulCurrentTime t;
               st = st\<lparr>glb_SoftTimers := glb_SoftTimers st @ [t'],
                       posted := posted st @ (if due ulCurrentTime t then [m_iMsg t] else [])\<rparr>;
               (ulNextTimeout, st) = see_timeout (m_ulTimeout t') (ulNextTimeout, st)
           in scan_timers ulCurrentTime ulNextTimeout waits st ts
      else scan_timers ulCurrentTime ulNextTimeout waits (st\<lparr>glb_SoftTimers := glb_SoftTimers st @ [t]\<rparr>) ts)"

definition SoftTimerModuleProcessQueue ::
    "bool \<Rightarrow> DWORD \<Rightarrow> WORD list list \<Rightarrow> WORD list \<Rightarrow> soft_timers \<Rightarrow> timer_fault + wait_mask \<times> soft_timers" where
  "SoftTimerModuleProcessQueue message_signal ulCurrentTime queue Msg st =
     (case (if message_signal then handle_messages ulCurrentTime queue Msg st else Inr st) of
        Inl f \<Rightarrow> Inl f
      | Inr st \<Rightarrow> Inr (scan_timers ulCurrentTime MAX_ULONG \<lparr>m_bMessage = True, m_bTimer = False\<rparr>
                         (st\<lparr>glb_SoftTimers := []\<rparr>) (glb_SoftTimers st)))"

section \<open>One run, timer by timer\<close>

definition halves :: "DWORD \<Rightarrow> WORD \<times> WORD" where
  "halves t = (ucast (drop_bit 24 t), ucast (t AND 0xffffff))"

definition earliest :: "DWORD \<Rightarrow> DWORD \<Rightarrow> Timer list \<Rightarrow> DWORD" where
  "earliest now nxt ts =
     foldl (\<lambda>m t. if m_bActive t then min m (m_ulTimeout (timer_turn now t)) else m) nxt ts"

definition posts :: "DWORD \<Rightarrow> Timer list \<Rightarrow> WORD list" where
  "posts now ts = map m_iMsg (filter (due now) ts)"

lemma timer_turn_idle: "\<not> m_bActive t \<Longrightarrow> timer_turn now t = t"
  by (simp add: timer_turn_def due_def)

lemma due_active: "due now t \<Longrightarrow> m_bActive t"
  by (simp add: due_def)

lemma earliest_Cons:
  "earliest now nxt (t # ts) =
     earliest now (if m_bActive t then min nxt (m_ulTimeout (timer_turn now t)) else nxt) ts"
  by (simp add: earliest_def)

lemma earliest_le: "earliest now nxt ts \<le> nxt"
proof (induction ts arbitrary: nxt)
  case (Cons t ts)
  then show ?case
    using order_trans [OF Cons min.cobounded1] by (simp add: earliest_Cons)
qed (simp add: earliest_def)

lemma earliest_lower:
  "t \<in> set ts \<Longrightarrow> m_bActive t \<Longrightarrow> earliest now nxt ts \<le> m_ulTimeout (timer_turn now t)"
proof (induction ts arbitrary: nxt)
  case (Cons u ts)
  then show ?case
    using earliest_le [of now "min nxt (m_ulTimeout (timer_turn now u))" ts] by (auto simp: earliest_Cons)
qed simp

lemma earliest_attained:
  "earliest now nxt ts < nxt \<Longrightarrow>
   \<exists>t\<in>set ts. m_bActive t \<and> earliest now nxt ts = m_ulTimeout (timer_turn now t)"
proof (induction ts arbitrary: nxt)
  case (Cons u ts)
  let ?n = "if m_bActive u then min nxt (m_ulTimeout (timer_turn now u)) else nxt"
  show ?case
  proof (cases "earliest now ?n ts < ?n")
    case True
    with Cons.IH [OF True] show ?thesis by (auto simp: earliest_Cons)
  next
    case False
    then have "earliest now ?n ts = ?n"
      using earliest_le [of now ?n ts] by simp
    with Cons.prems show ?thesis
      by (auto simp: earliest_Cons min_def split: if_splits)
  qed
qed (simp add: earliest_def)

lemma scan_timers_result:
  "scan_timers now nxt w st ts =
    (w\<lparr>m_bTimer := m_bTimer w \<or> (\<exists>t\<in>set ts. m_bActive t)\<rparr>,
     st\<lparr>glb_SoftTimers := glb_SoftTimers st @ map (timer_turn now) ts,
        m_uTimeOutHigh := (if earliest now nxt ts < nxt then fst (halves (earliest now nxt ts))
                           else m_uTimeOutHigh st),
        m_uTimeOutLow := (if earliest now nxt ts < nxt then snd (halves (earliest now nxt ts))
                          else m_uTimeOutLow st),
        posted := posted st @ posts now ts\<rparr>)"
proof (induction ts arbitrary: nxt w st)
  case (Cons t ts)
  let ?m = "m_ulTimeout (timer_turn now t)"
  show ?case
  proof (cases "m_bActive t")
    case True
    show ?thesis
    proof (cases "?m < nxt")
      case less: True
      then have "earliest now ?m ts < nxt"
        using earliest_le [of now ?m ts] by simp
      with True less show ?thesis
        using earliest_le [of now ?m ts]
        by (simp add: Cons see_timeout_def earliest_Cons halves_def posts_def min_def Let_def)
    next
      case False
      with True show ?thesis
        by (simp add: Cons see_timeout_def earliest_Cons posts_def min_def Let_def)
    qed
  next
    case False
    then show ?thesis
      using due_active by (auto simp: Cons earliest_Cons posts_def timer_turn_idle)
  qed
qed (simp add: earliest_def posts_def)

section \<open>The module's time-out\<close>

lemma MAX_ULONG_minus_one: "MAX_ULONG = - 1"
  by (simp add: MAX_ULONG_def)

definition module_timeout :: "soft_timers \<Rightarrow> DWORD" where
  "module_timeout st = push_bit 24 (ucast (m_uTimeOutHigh st)) OR ucast (m_uTimeOutLow st)"

lemma halves_join:
  "push_bit 24 (ucast (ucast (drop_bit 24 t) :: WORD)) OR ucast (ucast (t AND 0xffffff) :: WORD) = (t::DWORD)"
proof (rule bit_word_eqI)
  fix n assume n: "n < LENGTH(48)"
  have m: "(0xffffff::DWORD) = mask 24"
    by (simp add: mask_eq_exp_minus_1)
  show "bit (push_bit 24 (ucast (ucast (drop_bit 24 t) :: WORD)) OR ucast (ucast (t AND 0xffffff) :: WORD) :: DWORD) n
      = bit t n"
    unfolding m using n by (cases "n < 24") (auto simp: bit_simps)
qed

lemma run_result:
  assumes "SoftTimerModuleProcessQueue False now queue Msg st = r"
  shows "r = Inr (\<lparr>m_bMessage = True, m_bTimer = \<exists>t\<in>set (glb_SoftTimers st). m_bActive t\<rparr>,
    st\<lparr>glb_SoftTimers := map (timer_turn now) (glb_SoftTimers st),
       m_uTimeOutHigh := (if earliest now MAX_ULONG (glb_SoftTimers st) < MAX_ULONG
          then fst (halves (earliest now MAX_ULONG (glb_SoftTimers st))) else m_uTimeOutHigh st),
       m_uTimeOutLow := (if earliest now MAX_ULONG (glb_SoftTimers st) < MAX_ULONG
          then snd (halves (earliest now MAX_ULONG (glb_SoftTimers st))) else m_uTimeOutLow st),
       posted := posted st @ posts now (glb_SoftTimers st)\<rparr>)"
  using assms by (auto simp: SoftTimerModuleProcessQueue_def scan_timers_result)

lemma process_scan:
  assumes "SoftTimerModuleProcessQueue sig now queue Msg st = Inr (w, st')"
  obtains st1 where "SoftTimerModuleProcessQueue False now queue Msg st1 = Inr (w, st')"
    and "(if sig then handle_messages now queue Msg st else Inr st) = Inr st1"
  using assms that by (auto simp: SoftTimerModuleProcessQueue_def split: sum.splits if_splits)


section \<open>One timer over many runs\<close>

fun run_module :: "DWORD list \<Rightarrow> soft_timers \<Rightarrow> timer_fault + soft_timers" where
  "run_module [] st = Inr st"
| "run_module (now # clock) st =
     (case SoftTimerModuleProcessQueue False now [] [] st of
        Inl f \<Rightarrow> Inl f | Inr (_, st) \<Rightarrow> run_module clock st)"

fun fire_times :: "DWORD list \<Rightarrow> Timer \<Rightarrow> DWORD list" where
  "fire_times [] t = []"
| "fire_times (now # clock) t =
     (if due now t then [now] else []) @ fire_times clock (timer_turn now t)"

fun on_time :: "DWORD \<Rightarrow> WORD \<Rightarrow> DWORD list \<Rightarrow> bool" where
  "on_time timeout k [] = True"
| "on_time timeout k (x # xs) \<longleftrightarrow> timeout \<le> x \<and> on_time (x + scast k) k xs"

lemma fire_idle: "\<not> m_bActive t \<Longrightarrow> fire_times clock t = []"
  by (induction clock arbitrary: t) (simp_all add: due_def timer_turn_idle)

lemma timer_turn_keeps [simp]:
  "m_iInterval (timer_turn now t) = m_iInterval t" "m_iMsg (timer_turn now t) = m_iMsg t"
  by (simp_all add: timer_turn_def Let_def)

lemma fire_recurring:
  "m_bActive t \<Longrightarrow> m_iCount t = 0 \<Longrightarrow> on_time (m_ulTimeout t) (m_iInterval t) clock \<Longrightarrow>
   fire_times clock t = clock"
proof (induction clock arbitrary: t)
  case (Cons now clock)
  then have "timer_turn now t = t\<lparr>m_ulTimeout := now + scast (m_iInterval t)\<rparr>"
    by (simp add: timer_turn_def due_def)
  with Cons show ?case
    by (simp add: due_def)
qed simp

lemma fire_n_shot:
  "m_bActive t \<Longrightarrow> m_iCount t \<noteq> 0 \<Longrightarrow> on_time (m_ulTimeout t) (m_iInterval t) clock \<Longrightarrow>
   fire_times clock t = take (unat (m_iCount t)) clock"
proof (induction clock arbitrary: t)
  case (Cons now clock)
  have d: "due now t"
    using Cons.prems by (simp add: due_def)
  have u: "unat (m_iCount t) = Suc (unat (m_iCount t - 1))"
    using Cons.prems(2) by (simp add: unat_minus_one unat_gt_0)
  show ?case
  proof (cases "m_iCount t = 1")
    case True
    then have "\<not> m_bActive (timer_turn now t)"
      using d by (simp add: timer_turn_def)
    with True d show ?thesis
      by (simp add: fire_idle)
  next
    case False
    then have c: "m_iCount t - 1 \<noteq> 0"
      by simp
    then have "timer_turn now t = t\<lparr>m_iCount := m_iCount t - 1, m_ulTimeout := now + scast (m_iInterval t)\<rparr>"
      using d Cons.prems(2) by (simp add: timer_turn_def)
    with Cons c d u show ?thesis
      by simp
  qed
qed simp

lemma fire_at_most:
  "m_iCount t \<noteq> 0 \<Longrightarrow> length (fire_times clock t) \<le> unat (m_iCount t)"
proof (induction clock arbitrary: t)
  case (Cons now clock)
  have u: "unat (m_iCount t) = Suc (unat (m_iCount t - 1))"
    using Cons.prems by (simp add: unat_minus_one unat_gt_0)
  consider "\<not> due now t" | "due now t" "m_iCount t = 1" | "due now t" "m_iCount t - 1 \<noteq> 0"
    by fastforce
  then show ?case
  proof cases
    case 1
    then show ?thesis using Cons by (simp add: timer_turn_def)
  next
    case 2
    then show ?thesis by (simp add: timer_turn_def fire_idle)
  next
    case 3
    then show ?thesis
      using Cons.IH [of "timer_turn now t"] Cons.prems u by (simp add: timer_turn_def)
  qed
qed simp

lemma count_posts:
  "count_list (posts now ts) msg = (\<Sum>t\<leftarrow>ts. if m_iMsg t = msg \<and> due now t then 1 else 0)"
  by (induction ts) (simp_all add: posts_def)

lemma run_module_posts:
  "\<exists>st'. run_module clock st = Inr st' \<and>
     count_list (posted st') msg = count_list (posted st) msg +
       (\<Sum>t\<leftarrow>glb_SoftTimers st. if m_iMsg t = msg then length (fire_times clock t) else 0)"
proof (induction clock arbitrary: st)
  case (Cons now clock)
  obtain w st1 where r: "SoftTimerModuleProcessQueue False now [] [] st = Inr (w, st1)"
    and t: "glb_SoftTimers st1 = map (timer_turn now) (glb_SoftTimers st)"
    and p: "posted st1 = posted st @ posts now (glb_SoftTimers st)"
    using run_result [of now "[]" "[]" st] by auto
  have s: "(\<Sum>t\<leftarrow>ts. if m_iMsg t = msg \<and> due now t then 1 else 0) +
      (\<Sum>t\<leftarrow>map (timer_turn now) ts. if m_iMsg t = msg then length (fire_times clock t) else 0) =
      (\<Sum>t\<leftarrow>ts. if m_iMsg t = msg then length (fire_times (now # clock) t) else 0)" for ts
    by (induction ts) auto
  obtain st' where "run_module clock st1 = Inr st'"
    "count_list (posted st') msg = count_list (posted st1) msg +
       (\<Sum>t\<leftarrow>glb_SoftTimers st1. if m_iMsg t = msg then length (fire_times clock t) else 0)"
    using Cons.IH by blast
  moreover from this have "run_module (now # clock) st = Inr st'"
    by (simp add: r)
  moreover have "count_list (posted st1) msg +
       (\<Sum>t\<leftarrow>glb_SoftTimers st1. if m_iMsg t = msg then length (fire_times clock t) else 0) =
     count_list (posted st) msg +
       (\<Sum>t\<leftarrow>glb_SoftTimers st. if m_iMsg t = msg then length (fire_times (now # clock) t) else 0)"
    unfolding t p count_list_append count_posts s [of "glb_SoftTimers st", symmetric] by (rule add.assoc)
  ultimately show ?case by metis
next
  case Nil
  have "(\<lambda>t. if m_iMsg t = msg then length (fire_times [] t) else 0) = (\<lambda>t. 0)"
    by (rule ext) (simp only: fire_times.simps list.size if_cancel)
  then show ?case
    by (simp only: sum_list_0 run_module.simps) simp
qed

text \<open>
  A timer set to fire n times: however often the module is run, its message is posted at most n
  times; when the runs come no closer than the timer's interval and not before its time-out, it
  is posted at each of the first n of them, and a timer with count 0 at every one.
\<close>

theorem SoftTimer_posts_count:
  assumes "i < length (glb_SoftTimers st)" and "t = glb_SoftTimers st ! i" and "m_bActive t"
    and "\<forall>j<length (glb_SoftTimers st). m_iMsg (glb_SoftTimers st ! j) = m_iMsg t \<longrightarrow> j = i"
  shows "\<exists>st'. run_module clock st = Inr st' \<and>
    (let n = count_list (posted st') (m_iMsg t) - count_list (posted st) (m_iMsg t) in
      (m_iCount t \<noteq> 0 \<longrightarrow> n \<le> unat (m_iCount t)) \<and>
      (on_time (m_ulTimeout t) (m_iInterval t) clock \<longrightarrow>
        n = (if m_iCount t = 0 then length clock else min (length clock) (unat (m_iCount t)))))"
proof -
  obtain st' where st': "run_module clock st = Inr st'"
    "count_list (posted st') (m_iMsg t) = count_list (posted st) (m_iMsg t) +
       (\<Sum>t'\<leftarrow>glb_SoftTimers st. if m_iMsg t' = m_iMsg t then length (fire_times clock t') else 0)"
    using run_module_posts by blast
  have "(\<Sum>t'\<leftarrow>glb_SoftTimers st. if m_iMsg t' = m_iMsg t then length (fire_times clock t') else 0) =
      (\<Sum>j<length (glb_SoftTimers st). if j = i then length (fire_times clock t) else 0)"
    unfolding sum_list_sum_nth atLeast0LessThan length_map
    using assms(2,4) by (intro sum.cong) auto
  also have "... = length (fire_times clock t)"
    using assms(1) by simp
  finally have n: "count_list (posted st') (m_iMsg t) - count_list (posted st) (m_iMsg t) = length (fire_times clock t)"
    using st' by simp
  show ?thesis
    using st'(1) assms(3) fire_at_most [of t clock]
    by (auto simp: n fire_recurring fire_n_shot)
qed

fun apart :: "WORD \<Rightarrow> DWORD list \<Rightarrow> bool" where
  "apart k (x # y # ts) \<longleftrightarrow> x + scast k \<le> y \<and> apart k (y # ts)"
| "apart k ts = True"

lemma fire_after: "fire_times clock t = x # xs \<Longrightarrow> m_ulTimeout t \<le> x"
  by (induction clock arbitrary: t) (auto simp: due_def timer_turn_idle timer_turn_def split: if_splits)

text \<open>
  Consecutive posts of one timer are at least its interval apart, whatever its count and
  however the module's runs are timed.
\<close>

theorem SoftTimer_posts_apart: "apart (m_iInterval t) (fire_times clock t)"
proof (induction clock arbitrary: t)
  case (Cons now clock)
  show ?case
  proof (cases "due now t \<and> m_bActive (timer_turn now t)")
    case True
    then have "m_ulTimeout (timer_turn now t) = now + scast (m_iInterval t)"
      by (auto simp: timer_turn_def Let_def split: if_splits)
    with True Cons [of "timer_turn now t"] fire_after [of clock "timer_turn now t"] show ?thesis
      by (cases "fire_times clock (timer_turn now t)") auto
  next
    case False
    then show ?thesis
      using Cons [of "timer_turn now t"] by (auto simp: fire_idle)
  qed
qed simp

text \<open>
  C22. A set or kill message changes the timer it names and no other; a number past the table stops
  the system; the test is a signed one, so a negative number passes it and reaches outside the
  table.
\<close>

theorem SoftTimer_message_effect:
  fixes st :: soft_timers and msg :: "WORD list"
  defines "i \<equiv> sint (msg ! 1)"
  assumes "msg ! 0 = SOFT_TIMER_SET_TIMER \<or> msg ! 0 = SOFT_TIMER_KILL_TIMER"
  shows "(int (length (glb_SoftTimers st)) \<le> i \<longrightarrow> handle_message now msg st = Inl SystemHalt) \<and>
    (i < 0 \<longrightarrow> handle_message now msg st = Inl OutsideTable) \<and>
    (0 \<le> i \<and> i < int (length (glb_SoftTimers st)) \<longrightarrow>
      (\<exists>st'. handle_message now msg st = Inr st' \<and>
        (m_bActive (glb_SoftTimers st' ! nat i) \<longleftrightarrow> msg ! 0 = SOFT_TIMER_SET_TIMER) \<and>
        (\<forall>j. j \<noteq> nat i \<longrightarrow> glb_SoftTimers st' ! j = glb_SoftTimers st ! j)))"
  using assms(2) by (auto simp: i_def handle_message_def with_timer_def set_timer_def Let_def
      SOFT_TIMER_SET_TIMER_def SOFT_TIMER_KILL_TIMER_def)

section \<open>Witnesses\<close>

definition one_timer :: soft_timers where
  "one_timer = \<lparr>glb_SoftTimers = [\<lparr>m_bActive = True, m_iCount = 2, m_iInterval = 100, m_ulTimeout = 500, m_iMsg = 7\<rparr>],
     m_uTimeOutHigh = 0, m_uTimeOutLow = 0, posted = []\<rparr>"


theorem SoftTimer_posts_count_witness:
  "\<exists>st'. run_module [600, 800, 900, 1000] one_timer = Inr st' \<and> count_list (posted st') 7 = 2"
  using SoftTimer_posts_count [of 0 one_timer "glb_SoftTimers one_timer ! 0" "[600, 800, 900, 1000]"]
  by (auto simp: one_timer_def Let_def simp del: run_module.simps)

theorem SoftTimer_message_effect_witness:
  "handle_message 0 [SOFT_TIMER_SET_TIMER, - 1, 0, 0, 0] one_timer = Inl OutsideTable"
  using SoftTimer_message_effect [of "[SOFT_TIMER_SET_TIMER, - 1, 0, 0, 0]" one_timer 0] by simp

text \<open>
  A timer that has just fired for the last time still enters the minimum, with the time-out that has
  just elapsed: the module asks to be run at a time already past, although no timer is active.
\<close>

lemma last_shot_asks_again:
  "\<exists>w st'. run_module [600] one_timer = Inr st' \<and>
     SoftTimerModuleProcessQueue False 800 [] [] st' = Inr (w, st'\<lparr>glb_SoftTimers :=
       [\<lparr>m_bActive = False, m_iCount = 0, m_iInterval = 100, m_ulTimeout = 700, m_iMsg = 7\<rparr>],
       posted := [7, 7]\<rparr>) \<and> m_bTimer w \<and> module_timeout st' = 700"
  by (simp add: SoftTimerModuleProcessQueue_def one_timer_def timer_turn_def due_def see_timeout_def
      MAX_ULONG_def module_timeout_def)

end
