(* ===== verification/Fat.thy ===== *)
theory Fat imports Prelude begin

text \<open>
  The file allocation table as the disk checker sees it: \<^verbatim>\<open>FileSystem/chkdsk/FatUtils.c\<close>.
  Three consecutive sectors of the primary FAT are held in one buffer, written back when another
  group is needed; an entry is fetched from the buffer or freed in it, for FAT12, FAT16 and
  FAT32.

  The drive is an argument \<open>D\<close>: a read gives the bytes of a sector or fails, a write gives the new
  media or fails. The swizzle block packs the three sectors into the buffer one after the
  other and unpacks them for a write; here the buffer is the list of its bytes, and a 24-bit word
  of it is three of them, low byte first. A sector or cluster number is a \<open>nat\<close>, and \<open>dword\<close>
  is the wrap-around of a \<^verbatim>\<open>DWORD\<close> where the code can leave its range; a \<^verbatim>\<open>LONG\<close> result of -1 that
  the caller keeps in a \<^verbatim>\<open>DWORD\<close> is \<open>MINUS_ONE\<close>. A result \<open>True\<close> is \<^verbatim>\<open>NOERROR\<close>.
\<close>

section \<open>Bytes of a buffer\<close>

definition dword :: "int \<Rightarrow> nat" where
  "dword x = nat (x mod 281474976710656)"

definition MINUS_ONE :: nat where
  "MINUS_ONE = 281474976710655"

definition FSGetByte :: "BYTE list \<Rightarrow> nat \<Rightarrow> nat" where
  "FSGetByte buffer offset = unat (buffer ! offset)"

definition FSGetWord :: "BYTE list \<Rightarrow> nat \<Rightarrow> nat" where
  "FSGetWord buffer offset = FSGetByte buffer offset + 256 * FSGetByte buffer (offset + 1)"

definition FSGetDWord :: "BYTE list \<Rightarrow> nat \<Rightarrow> nat" where
  "FSGetDWord buffer offset = FSGetWord buffer offset + 65536 * FSGetWord buffer (offset + 2)"

definition PutByte :: "BYTE list \<Rightarrow> nat \<Rightarrow> nat \<Rightarrow> BYTE list" where
  "PutByte buffer byte offset = buffer[offset := of_nat byte]"

definition PutWord :: "BYTE list \<Rightarrow> nat \<Rightarrow> nat \<Rightarrow> BYTE list" where
  "PutWord buffer v offset = PutByte (PutByte buffer v offset) (v div 256) (offset + 1)"

definition PutDword :: "BYTE list \<Rightarrow> nat \<Rightarrow> nat \<Rightarrow> BYTE list" where
  "PutDword buffer v offset = PutWord (PutWord buffer v offset) (v div 65536) (offset + 2)"

text \<open>Word \<open>k\<close> of a buffer in DSP memory.\<close>

definition buffer_word :: "BYTE list \<Rightarrow> nat \<Rightarrow> nat" where
  "buffer_word buffer k = FSGetWord buffer (3 * k) + 65536 * FSGetByte buffer (3 * k + 2)"

definition set_buffer_word :: "BYTE list \<Rightarrow> nat \<Rightarrow> nat \<Rightarrow> BYTE list" where
  "set_buffer_word buffer k v = PutByte (PutWord buffer v (3 * k)) (v div 65536) (3 * k + 2)"

section \<open>The drive, the partition and the FAT buffer\<close>

record 'd drive =
  DriveReadSector :: "nat \<Rightarrow> 'd \<Rightarrow> BYTE list option"
  DriveWriteSector :: "nat \<Rightarrow> BYTE list \<Rightarrow> 'd \<Rightarrow> 'd option"

datatype FAT_TYPE = FS_FAT12 | FS_FAT16 | FS_FAT32 | FATUNSUPPORTED

record PARTITION_BOOT_SECTOR =
  TypeFileSystem :: FAT_TYPE
  bSectPerCx :: nat
  bNumberFats :: nat
  wNumberRootDirEntries :: nat
  wNumberFatSectors :: nat
  wStartSectPrimaryFat :: nat
  wStartSectSecondaryFat :: nat
  wStartSectRootDir :: nat
  wStartSectData :: nat
  dwNumHiddenSectors :: nat
  wNumberRootDirSectors :: nat
  Rootdirstartcx :: nat
  dwTotalsectors :: nat
  dwTotalclusters :: nat
  cachedSectorSize :: nat
  iPbsSectorOffset :: nat

record 'd fat =
  media :: 'd
  FatSectorCached :: nat
  fat_dirty :: bool
  FirstPrimaryFatSect :: nat
  FirstSecondaryFatSect :: nat
  fat_buffer :: "BYTE list"

definition FAT12_ENTRIES_PER_SECT_GROUP :: "PARTITION_BOOT_SECTOR \<Rightarrow> nat" where
  "FAT12_ENTRIES_PER_SECT_GROUP P = cachedSectorSize P * 3 * 2 div 3"

definition FAT16_ENTRIES_PER_SECT_GROUP :: "PARTITION_BOOT_SECTOR \<Rightarrow> nat" where
  "FAT16_ENTRIES_PER_SECT_GROUP P = cachedSectorSize P * 3 div 2"

definition FAT32_ENTRIES_PER_SECT_GROUP :: "PARTITION_BOOT_SECTOR \<Rightarrow> nat" where
  "FAT32_ENTRIES_PER_SECT_GROUP P = cachedSectorSize P * 3 div 4"

section \<open>Loading and writing a group\<close>

text \<open>Third \<open>k\<close> of the buffer.\<close>

definition sector_of :: "nat \<Rightarrow> nat \<Rightarrow> BYTE list \<Rightarrow> BYTE list" where
  "sector_of n k buffer = take n (drop (k * n) buffer)"

definition put_sector :: "nat \<Rightarrow> nat \<Rightarrow> BYTE list \<Rightarrow> BYTE list \<Rightarrow> BYTE list" where
  "put_sector n k data buffer = take (k * n) buffer @ data @ drop (Suc k * n) buffer"

fun write_thirds ::
    "('d, 'x) drive_scheme \<Rightarrow> PARTITION_BOOT_SECTOR \<Rightarrow> nat \<Rightarrow> nat list \<Rightarrow> ('d, 'm) fat_scheme \<Rightarrow> bool \<times> ('d, 'm) fat_scheme" where
  "write_thirds D P Sect [] s = (True, s\<lparr>fat_dirty := False\<rparr>)"
| "write_thirds D P Sect (k # ks) s =
     (if Sect + k < wStartSectSecondaryFat P
      then case DriveWriteSector D (Sect + k + iPbsSectorOffset P)
                  (sector_of (cachedSectorSize P) k (fat_buffer s)) (media s) of
             None \<Rightarrow> (False, s)
           | Some d \<Rightarrow> write_thirds D P Sect ks (s\<lparr>media := d\<rparr>)
      else (True, s\<lparr>fat_dirty := False\<rparr>))"

definition WriteFatSector ::
    "('d, 'x) drive_scheme \<Rightarrow> PARTITION_BOOT_SECTOR \<Rightarrow> nat \<Rightarrow> ('d, 'm) fat_scheme \<Rightarrow> bool \<times> ('d, 'm) fat_scheme" where
  "WriteFatSector D P Sect s = write_thirds D P Sect [0, 1, 2] s"

fun read_thirds ::
    "('d, 'x) drive_scheme \<Rightarrow> PARTITION_BOOT_SECTOR \<Rightarrow> nat \<Rightarrow> nat list \<Rightarrow> ('d, 'm) fat_scheme \<Rightarrow> bool \<times> ('d, 'm) fat_scheme" where
  "read_thirds D P Sect [] s = (True, s\<lparr>FatSectorCached := Sect mod 16777216\<rparr>)"
| "read_thirds D P Sect (k # ks) s =
     (case DriveReadSector D (Sect + k + iPbsSectorOffset P) (media s) of
        None \<Rightarrow> (False, s)
      | Some data \<Rightarrow> read_thirds D P Sect ks
          (s\<lparr>fat_buffer := put_sector (cachedSectorSize P) k data (fat_buffer s)\<rparr>))"

definition LoadFatSector ::
    "('d, 'x) drive_scheme \<Rightarrow> PARTITION_BOOT_SECTOR \<Rightarrow> nat \<Rightarrow> ('d, 'm) fat_scheme \<Rightarrow> bool \<times> ('d, 'm) fat_scheme" where
  "LoadFatSector D P Sect s =
     (if Sect < wStartSectPrimaryFat P \<or> Sect > dword (int (wStartSectSecondaryFat P) - 1) then (False, s)
      else if Sect = FatSectorCached s then (True, s)
      else let (ok, s) = (if fat_dirty s then WriteFatSector D P (FatSectorCached s) s else (True, s))
           in if ok then read_thirds D P Sect [0, 1, 2] s else (False, s))"

section \<open>Entries\<close>

text \<open>What the three pairs of functions share: the group of a cluster, loaded when it is not there.\<close>

definition need_group ::
    "('d, 'x) drive_scheme \<Rightarrow> PARTITION_BOOT_SECTOR \<Rightarrow> nat \<Rightarrow> nat \<Rightarrow> ('d, 'm) fat_scheme \<Rightarrow> bool \<times> ('d, 'm) fat_scheme" where
  "need_group D P per_group wCurCx s =
     (let wStartSect = wCurCx div per_group
      in if wStartSect * 3 + FirstPrimaryFatSect s \<noteq> FatSectorCached s
         then LoadFatSector D P (wStartSect * 3 + FirstPrimaryFatSect s) s
         else (True, s))"

definition FetchCxFat12 :: "nat \<Rightarrow> ('d, 'm) fat_scheme \<Rightarrow> nat" where
  "FetchCxFat12 wCurCx s =
     (let wTemp = wCurCx div 2
      in if wTemp * 2 \<noteq> wCurCx then buffer_word (fat_buffer s) wTemp div 4096
         else buffer_word (fat_buffer s) wTemp mod 4096)"

definition GetNextCxFat12 ::
    "('d, 'x) drive_scheme \<Rightarrow> PARTITION_BOOT_SECTOR \<Rightarrow> nat \<Rightarrow> ('d, 'm) fat_scheme \<Rightarrow> nat \<times> ('d, 'm) fat_scheme" where
  "GetNextCxFat12 D P wCurCx s =
     (let wOffCx = wCurCx - wCurCx div FAT12_ENTRIES_PER_SECT_GROUP P * FAT12_ENTRIES_PER_SECT_GROUP P;
          (ok, s) = need_group D P (FAT12_ENTRIES_PER_SECT_GROUP P) wCurCx s
      in if ok then (FetchCxFat12 wOffCx s, s) else (MINUS_ONE, s))"

definition GetNextCxFat16 ::
    "('d, 'x) drive_scheme \<Rightarrow> PARTITION_BOOT_SECTOR \<Rightarrow> nat \<Rightarrow> ('d, 'm) fat_scheme \<Rightarrow> nat \<times> ('d, 'm) fat_scheme" where
  "GetNextCxFat16 D P wCurCx s =
     (let wOffCx = wCurCx - wCurCx div FAT16_ENTRIES_PER_SECT_GROUP P * FAT16_ENTRIES_PER_SECT_GROUP P;
          (ok, s) = need_group D P (FAT16_ENTRIES_PER_SECT_GROUP P) wCurCx s
      in if ok then (FSGetWord (fat_buffer s) (wOffCx * 2), s) else (MINUS_ONE, s))"

definition GetNextCxFat32 ::
    "('d, 'x) drive_scheme \<Rightarrow> PARTITION_BOOT_SECTOR \<Rightarrow> nat \<Rightarrow> ('d, 'm) fat_scheme \<Rightarrow> nat \<times> ('d, 'm) fat_scheme" where
  "GetNextCxFat32 D P wCurCx s =
     (let wOffCx = wCurCx - wCurCx div FAT32_ENTRIES_PER_SECT_GROUP P * FAT32_ENTRIES_PER_SECT_GROUP P;
          (ok, s) = need_group D P (FAT32_ENTRIES_PER_SECT_GROUP P) wCurCx s
      in if ok then (FSGetDWord (fat_buffer s) (wOffCx * 4), s) else (MINUS_ONE, s))"

text \<open>The function pointer \<^verbatim>\<open>GetNextCxFromFat\<close>, set from the type of the file system.\<close>

definition GetNextCxFromFat ::
    "('d, 'x) drive_scheme \<Rightarrow> PARTITION_BOOT_SECTOR \<Rightarrow> nat \<Rightarrow> ('d, 'm) fat_scheme \<Rightarrow> nat \<times> ('d, 'm) fat_scheme" where
  "GetNextCxFromFat D P =
     (case TypeFileSystem P of
        FS_FAT12 \<Rightarrow> GetNextCxFat12 D P
      | FS_FAT16 \<Rightarrow> GetNextCxFat16 D P
      | _ \<Rightarrow> GetNextCxFat32 D P)"

definition FreeCxFat12 ::
    "('d, 'x) drive_scheme \<Rightarrow> PARTITION_BOOT_SECTOR \<Rightarrow> nat \<Rightarrow> ('d, 'm) fat_scheme \<Rightarrow> bool \<times> ('d, 'm) fat_scheme" where
  "FreeCxFat12 D P wCluster s =
     (let wOffCx = wCluster - wCluster div FAT12_ENTRIES_PER_SECT_GROUP P * FAT12_ENTRIES_PER_SECT_GROUP P;
          (ok, s) = need_group D P (FAT12_ENTRIES_PER_SECT_GROUP P) wCluster s
      in if \<not> ok then (False, s)
         else let wTemp = wOffCx div 2;
                  w = buffer_word (fat_buffer s) wTemp;
                  w = (if wTemp * 2 \<noteq> wOffCx then w mod 4096 else w div 4096 * 4096)
              in (True, s\<lparr>fat_buffer := set_buffer_word (fat_buffer s) wTemp w, fat_dirty := True\<rparr>))"

definition FreeCxFat16 ::
    "('d, 'x) drive_scheme \<Rightarrow> PARTITION_BOOT_SECTOR \<Rightarrow> nat \<Rightarrow> ('d, 'm) fat_scheme \<Rightarrow> bool \<times> ('d, 'm) fat_scheme" where
  "FreeCxFat16 D P wCluster s =
     (let wOffCx = wCluster - wCluster div FAT16_ENTRIES_PER_SECT_GROUP P * FAT16_ENTRIES_PER_SECT_GROUP P;
          (ok, s) = need_group D P (FAT16_ENTRIES_PER_SECT_GROUP P) wCluster s
      in if ok then (True, s\<lparr>fat_buffer := PutWord (fat_buffer s) 0 (wOffCx * 2), fat_dirty := True\<rparr>)
         else (False, s))"

definition FreeCxFat32 ::
    "('d, 'x) drive_scheme \<Rightarrow> PARTITION_BOOT_SECTOR \<Rightarrow> nat \<Rightarrow> ('d, 'm) fat_scheme \<Rightarrow> bool \<times> ('d, 'm) fat_scheme" where
  "FreeCxFat32 D P wCluster s =
     (let wOffCx = wCluster - wCluster div FAT32_ENTRIES_PER_SECT_GROUP P * FAT32_ENTRIES_PER_SECT_GROUP P;
          (ok, s) = need_group D P (FAT32_ENTRIES_PER_SECT_GROUP P) wCluster s
      in if ok then (True, s\<lparr>fat_buffer := PutDword (fat_buffer s) 0 (wOffCx * 4), fat_dirty := True\<rparr>)
         else (False, s))"

definition FreeCxFat ::
    "('d, 'x) drive_scheme \<Rightarrow> PARTITION_BOOT_SECTOR \<Rightarrow> nat \<Rightarrow> ('d, 'm) fat_scheme \<Rightarrow> bool \<times> ('d, 'm) fat_scheme" where
  "FreeCxFat D P wFatEntry s =
     (let (v, s) = GetNextCxFromFat D P wFatEntry s
      in if v = MINUS_ONE then (False, s)
         else if v = 0 then (True, s)
         else case TypeFileSystem P of
                FS_FAT12 \<Rightarrow> FreeCxFat12 D P wFatEntry s
              | FS_FAT16 \<Rightarrow> FreeCxFat16 D P wFatEntry s
              | FS_FAT32 \<Rightarrow> FreeCxFat32 D P wFatEntry s
              | FATUNSUPPORTED \<Rightarrow> (False, s))"

definition IsLastCx :: "PARTITION_BOOT_SECTOR \<Rightarrow> nat \<Rightarrow> bool" where
  "IsLastCx P wCluster =
     (case TypeFileSystem P of
        FS_FAT12 \<Rightarrow> wCluster = 0xfff
      | FS_FAT16 \<Rightarrow> wCluster = 0xffff
      | _ \<Rightarrow> wCluster = 0x0fffffff)"

section \<open>The table behind the buffer\<close>

text \<open>
  What the checker relies on in a drive that works: reads of the FAT's sectors (and of the two after
  it, which the last group reaches) give sectors, writes of the FAT's sectors succeed, change
  the sector written and no other. \<open>I\<close> is the drive's own invariant.
\<close>

definition drive_laws :: "('d, 'x) drive_scheme \<Rightarrow> PARTITION_BOOT_SECTOR \<Rightarrow> ('d \<Rightarrow> bool) \<Rightarrow> bool" where
  "drive_laws D P I \<longleftrightarrow>
     (\<forall>d n. I d \<and> n < wStartSectSecondaryFat P + 2 \<longrightarrow>
        (\<exists>data. DriveReadSector D (n + iPbsSectorOffset P) d = Some data \<and> length data = cachedSectorSize P)) \<and>
     (\<forall>d n data. I d \<and> n < wStartSectSecondaryFat P \<and> length data = cachedSectorSize P \<longrightarrow>
        (\<exists>d'. DriveWriteSector D (n + iPbsSectorOffset P) data d = Some d' \<and> I d' \<and>
           (\<forall>m. DriveReadSector D m d' =
              (if m = n + iPbsSectorOffset P then Some data else DriveReadSector D m d))))"

definition layout_ok :: "PARTITION_BOOT_SECTOR \<Rightarrow> bool" where
  "layout_ok P \<longleftrightarrow> cachedSectorSize P \<in> {512, 2048} \<and> 0 < wStartSectPrimaryFat P \<and>
     wStartSectPrimaryFat P < wStartSectSecondaryFat P \<and> wStartSectSecondaryFat P < 16777216 \<and>
     TypeFileSystem P \<noteq> FATUNSUPPORTED"

definition disk_sector :: "('d, 'x) drive_scheme \<Rightarrow> PARTITION_BOOT_SECTOR \<Rightarrow> 'd \<Rightarrow> nat \<Rightarrow> BYTE list" where
  "disk_sector D P d n = the (DriveReadSector D (wStartSectPrimaryFat P + n + iPbsSectorOffset P) d)"

text \<open>Sector \<open>n\<close> of the FAT: in the buffer when its group is there, on the drive otherwise.\<close>

definition fat_sector :: "('d, 'x) drive_scheme \<Rightarrow> PARTITION_BOOT_SECTOR \<Rightarrow> ('d, 'm) fat_scheme \<Rightarrow> nat \<Rightarrow> BYTE list" where
  "fat_sector D P s n =
     (if FatSectorCached s = wStartSectPrimaryFat P + 3 * (n div 3)
      then sector_of (cachedSectorSize P) (n mod 3) (fat_buffer s)
      else disk_sector D P (media s) n)"

definition fat_byte :: "('d, 'x) drive_scheme \<Rightarrow> PARTITION_BOOT_SECTOR \<Rightarrow> ('d, 'm) fat_scheme \<Rightarrow> nat \<Rightarrow> nat" where
  "fat_byte D P s i = unat (fat_sector D P s (i div cachedSectorSize P) ! (i mod cachedSectorSize P))"

definition fat_ok :: "('d, 'x) drive_scheme \<Rightarrow> PARTITION_BOOT_SECTOR \<Rightarrow> ('d \<Rightarrow> bool) \<Rightarrow> ('d, 'm) fat_scheme \<Rightarrow> bool" where
  "fat_ok D P I s \<longleftrightarrow> drive_laws D P I \<and> layout_ok P \<and> I (media s) \<and>
     length (fat_buffer s) = 3 * cachedSectorSize P \<and> FirstPrimaryFatSect s = wStartSectPrimaryFat P \<and>
     (FatSectorCached s = 0 \<and> \<not> fat_dirty s \<or>
      (\<exists>g. FatSectorCached s = wStartSectPrimaryFat P + 3 * g \<and>
         wStartSectPrimaryFat P + 3 * g < wStartSectSecondaryFat P \<and>
         (\<not> fat_dirty s \<longrightarrow> (\<forall>k<3. wStartSectPrimaryFat P + 3 * g + k < wStartSectSecondaryFat P \<longrightarrow>
            sector_of (cachedSectorSize P) k (fat_buffer s) = disk_sector D P (media s) (3 * g + k)))))"

lemma sector_of_length: "length b = 3 * n \<Longrightarrow> k < 3 \<Longrightarrow> length (sector_of n k b) = n"
proof -
  assume "length b = 3 * n" "k < 3"
  moreover from this(2) have "k = 0 \<or> k = 1 \<or> k = 2" by auto
  ultimately show ?thesis by (auto simp: sector_of_def)
qed

lemma sector_of_nth: "length b = 3 * n \<Longrightarrow> k < 3 \<Longrightarrow> j < n \<Longrightarrow> sector_of n k b ! j = b ! (k * n + j)"
proof -
  assume "length b = 3 * n" "k < 3" "j < n"
  moreover from this(2) have "k = 0 \<or> k = 1 \<or> k = 2" by auto
  ultimately show ?thesis by (auto simp: sector_of_def)
qed

lemma put_sector_length:
  "length b = 3 * n \<Longrightarrow> k < 3 \<Longrightarrow> length data = n \<Longrightarrow> length (put_sector n k data b) = 3 * n"
proof -
  assume "length b = 3 * n" "k < 3" "length data = n"
  moreover from this(2) have "k = 0 \<or> k = 1 \<or> k = 2" by auto
  ultimately show ?thesis by (auto simp: put_sector_def)
qed

lemma sector_of_put:
  assumes "length b = 3 * n" and "k < 3" and "j < 3" and "length data = n"
  shows "sector_of n j (put_sector n k data b) = (if j = k then data else sector_of n j b)"
proof -
  have "k = 0 \<or> k = 1 \<or> k = 2" "j = 0 \<or> j = 1 \<or> j = 2"
    using assms by auto
  with assms show ?thesis
    by (auto simp: sector_of_def put_sector_def take_drop min_def mult_2)
qed

definition after_write ::
    "('d, 'x) drive_scheme \<Rightarrow> PARTITION_BOOT_SECTOR \<Rightarrow> nat \<Rightarrow> nat list \<Rightarrow> BYTE list \<Rightarrow> 'd \<Rightarrow> 'd \<Rightarrow> bool" where
  "after_write D P Sect ks buffer d d' \<longleftrightarrow> (\<forall>m. DriveReadSector D m d' =
     (if \<exists>k\<in>set ks. m = Sect + k + iPbsSectorOffset P \<and> Sect + k < wStartSectSecondaryFat P
      then Some (sector_of (cachedSectorSize P) (m - iPbsSectorOffset P - Sect) buffer)
      else DriveReadSector D m d))"

lemma write_thirds_ok:
  assumes "drive_laws D P I"
  shows "I (media s) \<Longrightarrow> length (fat_buffer s) = 3 * cachedSectorSize P \<Longrightarrow> sorted ks \<Longrightarrow>
    \<forall>k\<in>set ks. k < 3 \<Longrightarrow>
    \<exists>d. write_thirds D P Sect ks s = (True, s\<lparr>media := d, fat_dirty := False\<rparr>) \<and> I d \<and>
      after_write D P Sect ks (fat_buffer s) (media s) d"
proof (induction ks arbitrary: s)
  case Nil
  then show ?case by (intro exI [of _ "media s"]) (simp add: after_write_def)
next
  case (Cons k ks)
  let ?data = "sector_of (cachedSectorSize P) k (fat_buffer s)"
  show ?case
  proof (cases "Sect + k < wStartSectSecondaryFat P")
    case True
    have "length ?data = cachedSectorSize P"
      using Cons.prems by (simp add: sector_of_length)
    with True obtain d where d: "DriveWriteSector D (Sect + k + iPbsSectorOffset P) ?data (media s) = Some d" "I d"
      and r: "\<forall>m. DriveReadSector D m d =
        (if m = Sect + k + iPbsSectorOffset P then Some ?data else DriveReadSector D m (media s))"
      using assms Cons.prems(1) unfolding drive_laws_def by metis
    obtain d' where d': "write_thirds D P Sect ks (s\<lparr>media := d\<rparr>) = (True, s\<lparr>media := d', fat_dirty := False\<rparr>)"
      "I d'" and r': "after_write D P Sect ks (fat_buffer s) d d'"
      using Cons.IH [of "s\<lparr>media := d\<rparr>"] Cons.prems d(2) by auto
    have "after_write D P Sect (k # ks) (fat_buffer s) (media s) d'"
      using r' True unfolding after_write_def by (auto simp: r)
    with d d' True show ?thesis by auto
  next
    case False
    then have "\<forall>j\<in>set (k # ks). \<not> Sect + j < wStartSectSecondaryFat P"
      using Cons.prems(3) by fastforce
    then show ?thesis
      using False Cons.prems(1) by (intro exI [of _ "media s"]) (auto simp: after_write_def)
  qed
qed

lemma read_thirds_ok:
  assumes "drive_laws D P I" and "Sect < wStartSectSecondaryFat P"
  shows "I (media s) \<Longrightarrow> length (fat_buffer s) = 3 * cachedSectorSize P \<Longrightarrow> distinct ks \<Longrightarrow> \<forall>k\<in>set ks. k < 3 \<Longrightarrow>
    \<exists>b. read_thirds D P Sect ks s = (True, s\<lparr>fat_buffer := b, FatSectorCached := Sect mod 16777216\<rparr>) \<and>
      length b = 3 * cachedSectorSize P \<and>
      (\<forall>j<3. sector_of (cachedSectorSize P) j b =
        (if j \<in> set ks then the (DriveReadSector D (Sect + j + iPbsSectorOffset P) (media s))
         else sector_of (cachedSectorSize P) j (fat_buffer s)))"
proof (induction ks arbitrary: s)
  case Nil
  then show ?case by (intro exI [of _ "fat_buffer s"]) simp
next
  case (Cons k ks)
  have "Sect + k < wStartSectSecondaryFat P + 2"
    using Cons.prems(4) assms(2) by simp
  then obtain data where data: "DriveReadSector D (Sect + k + iPbsSectorOffset P) (media s) = Some data"
      "length data = cachedSectorSize P"
    using assms(1) Cons.prems(1) unfolding drive_laws_def by meson
  let ?s = "s\<lparr>fat_buffer := put_sector (cachedSectorSize P) k data (fat_buffer s)\<rparr>"
  obtain b where b: "read_thirds D P Sect ks ?s = (True, ?s\<lparr>fat_buffer := b, FatSectorCached := Sect mod 16777216\<rparr>)"
      "length b = 3 * cachedSectorSize P"
    and j: "\<forall>j<3. sector_of (cachedSectorSize P) j b =
        (if j \<in> set ks then the (DriveReadSector D (Sect + j + iPbsSectorOffset P) (media s))
         else sector_of (cachedSectorSize P) j (fat_buffer ?s))"
    using Cons.IH [of ?s] Cons.prems data(2) put_sector_length [of "fat_buffer s" "cachedSectorSize P" k data] by auto
  show ?case
    using b j data Cons.prems by (intro exI [of _ b]) (auto simp: sector_of_put)
qed

text \<open>Two states that differ in the FAT buffer and the media only.\<close>

definition same_rest :: "('d, 'm) fat_scheme \<Rightarrow> ('d, 'm) fat_scheme \<Rightarrow> bool" where
  "same_rest s s' \<longleftrightarrow> s' = s\<lparr>media := media s', FatSectorCached := FatSectorCached s',
     fat_dirty := fat_dirty s', fat_buffer := fat_buffer s'\<rparr>"

lemma same_rest_refl [simp]: "same_rest s s"
  by (simp add: same_rest_def)

lemma same_rest_trans: "same_rest s t \<Longrightarrow> same_rest t u \<Longrightarrow> same_rest s u"
proof -
  assume "same_rest s t" "same_rest t u"
  then obtain a b c d e f g h where "t = s\<lparr>media := a, FatSectorCached := b, fat_dirty := c, fat_buffer := d\<rparr>"
    "u = t\<lparr>media := e, FatSectorCached := f, fat_dirty := g, fat_buffer := h\<rparr>"
    unfolding same_rest_def by blast
  then show ?thesis by (simp add: same_rest_def)
qed

lemma group_sector:
  "k < 3 \<Longrightarrow> (3 * g + k) div 3 = (g::nat)" "k < 3 \<Longrightarrow> (3 * g + k) mod 3 = (k::nat)"
  by auto

lemma clean_settled:
  assumes "fat_ok D P I s" and "\<not> fat_dirty s" and "wStartSectPrimaryFat P + n < wStartSectSecondaryFat P"
  shows "fat_sector D P s n = disk_sector D P (media s) n"
proof (cases "FatSectorCached s = wStartSectPrimaryFat P + 3 * (n div 3)")
  case True
  then obtain g where g: "FatSectorCached s = wStartSectPrimaryFat P + 3 * g"
    and c: "\<forall>k<3. wStartSectPrimaryFat P + 3 * g + k < wStartSectSecondaryFat P \<longrightarrow>
      sector_of (cachedSectorSize P) k (fat_buffer s) = disk_sector D P (media s) (3 * g + k)"
    using assms(1,2) unfolding fat_ok_def layout_ok_def by auto
  have "n = 3 * g + n mod 3"
    using True g by simp
  with c [rule_format, of "n mod 3"] assms(3) True show ?thesis
    by (simp add: fat_sector_def)
qed (simp add: fat_sector_def)

lemma flush_settled:
  assumes ok: "fat_ok D P I s" and "fat_dirty s"
  obtains d where "WriteFatSector D P (FatSectorCached s) s = (True, s\<lparr>media := d, fat_dirty := False\<rparr>)" "I d"
    "\<And>n. wStartSectPrimaryFat P + n < wStartSectSecondaryFat P \<Longrightarrow> disk_sector D P d n = fat_sector D P s n"
proof -
  obtain g where g: "FatSectorCached s = wStartSectPrimaryFat P + 3 * g"
    using ok assms(2) unfolding fat_ok_def by auto
  obtain d where d: "write_thirds D P (FatSectorCached s) [0, 1, 2] s = (True, s\<lparr>media := d, fat_dirty := False\<rparr>)"
      "I d" and a: "after_write D P (FatSectorCached s) [0, 1, 2] (fat_buffer s) (media s) d"
    using write_thirds_ok [of D P I s "[0, 1, 2]" "FatSectorCached s"] ok unfolding fat_ok_def by auto
  have "disk_sector D P d n = fat_sector D P s n"
    if n: "wStartSectPrimaryFat P + n < wStartSectSecondaryFat P" for n
  proof -
    have r: "DriveReadSector D (wStartSectPrimaryFat P + n + iPbsSectorOffset P) d =
        (if n div 3 = g then Some (sector_of (cachedSectorSize P) (n mod 3) (fat_buffer s))
         else DriveReadSector D (wStartSectPrimaryFat P + n + iPbsSectorOffset P) (media s))"
    proof -
      have "(\<exists>k\<in>set [0, 1, 2::nat]. wStartSectPrimaryFat P + n + iPbsSectorOffset P =
          FatSectorCached s + k + iPbsSectorOffset P \<and> FatSectorCached s + k < wStartSectSecondaryFat P) \<longleftrightarrow>
        n div 3 = g"
        using n unfolding g by auto
      moreover have "n div 3 = g \<Longrightarrow> wStartSectPrimaryFat P + n - FatSectorCached s = n mod 3"
        unfolding g by (auto simp: minus_mult_div_eq_mod)
      ultimately show ?thesis
        using a unfolding after_write_def by simp
    qed
    show ?thesis
      by (simp add: disk_sector_def r fat_sector_def g)
  qed
  with d that show thesis
    by (simp add: WriteFatSector_def)
qed

lemma sector_in_fat:
  "layout_ok P \<Longrightarrow> wStartSectPrimaryFat P + x < wStartSectSecondaryFat P \<Longrightarrow>
   \<not> wStartSectPrimaryFat P + x > dword (int (wStartSectSecondaryFat P) - 1)"
  by (auto simp: layout_ok_def dword_def)

lemma settle:
  assumes "fat_ok D P I s"
  obtains d where
    "(if fat_dirty s then WriteFatSector D P (FatSectorCached s) s else (True, s)) =
       (True, s\<lparr>media := d, fat_dirty := False\<rparr>)" "I d"
    "\<And>n. wStartSectPrimaryFat P + n < wStartSectSecondaryFat P \<Longrightarrow> disk_sector D P d n = fat_sector D P s n"
proof (cases "fat_dirty s")
  case True
  then show thesis
    using flush_settled [OF assms True] that by metis
next
  case False
  then have "s\<lparr>media := media s, fat_dirty := False\<rparr> = s"
    by simp
  with False that [of "media s"] clean_settled [OF assms False] assms show thesis
    by (simp add: fat_ok_def)
qed

lemma load_ok:
  assumes ok: "fat_ok D P I s" and g: "wStartSectPrimaryFat P + 3 * g < wStartSectSecondaryFat P"
  obtains s' where "LoadFatSector D P (wStartSectPrimaryFat P + 3 * g) s = (True, s')" "fat_ok D P I s'"
    "same_rest s s'" "FatSectorCached s' = wStartSectPrimaryFat P + 3 * g"
    "\<And>n. wStartSectPrimaryFat P + n < wStartSectSecondaryFat P \<Longrightarrow> fat_sector D P s' n = fat_sector D P s n"
proof (cases "wStartSectPrimaryFat P + 3 * g = FatSectorCached s")
  case True
  have "layout_ok P"
    using ok by (simp add: fat_ok_def)
  with True sector_in_fat [OF this g] have "LoadFatSector D P (wStartSectPrimaryFat P + 3 * g) s = (True, s)"
    by (simp add: LoadFatSector_def)
  then show thesis
    by (rule that [OF _ ok same_rest_refl True [symmetric] refl])
next
  case False
  obtain d where flush: "(if fat_dirty s then WriteFatSector D P (FatSectorCached s) s else (True, s)) =
       (True, s\<lparr>media := d, fat_dirty := False\<rparr>)" and Id: "I d"
    and d: "\<And>n. wStartSectPrimaryFat P + n < wStartSectSecondaryFat P \<Longrightarrow> disk_sector D P d n = fat_sector D P s n"
    using settle [OF ok] by metis
  let ?s = "s\<lparr>media := d, fat_dirty := False\<rparr>"
  have laws: "drive_laws D P I" "layout_ok P" "length (fat_buffer s) = 3 * cachedSectorSize P"
    using ok by (simp_all add: fat_ok_def)
  have pre: "I (media ?s)" "length (fat_buffer ?s) = 3 * cachedSectorSize P" "distinct [0, 1, 2::nat]"
      "\<forall>k\<in>set [0, 1, 2::nat]. k < 3"
    using laws(3) Id by simp_all
  obtain b where r: "read_thirds D P (wStartSectPrimaryFat P + 3 * g) [0, 1, 2] ?s =
      (True, ?s\<lparr>fat_buffer := b, FatSectorCached := (wStartSectPrimaryFat P + 3 * g) mod 16777216\<rparr>)"
    and b: "length b = 3 * cachedSectorSize P"
    and t0: "\<forall>j<3. sector_of (cachedSectorSize P) j b = (if j \<in> set [0, 1, 2]
        then the (DriveReadSector D (wStartSectPrimaryFat P + 3 * g + j + iPbsSectorOffset P) (media ?s))
        else sector_of (cachedSectorSize P) j (fat_buffer ?s))"
    using read_thirds_ok [OF laws(1) g pre] by blast
  have "j \<in> set [0, 1, 2]" if "j < 3" for j :: nat
    using that by auto
  with t0 have t: "\<forall>j<3. sector_of (cachedSectorSize P) j b =
        the (DriveReadSector D (wStartSectPrimaryFat P + 3 * g + j + iPbsSectorOffset P) d)"
    by simp
  have m: "(wStartSectPrimaryFat P + 3 * g) mod 16777216 = wStartSectPrimaryFat P + 3 * g"
    using g laws(2) by (simp add: layout_ok_def)
  let ?s' = "?s\<lparr>fat_buffer := b, FatSectorCached := wStartSectPrimaryFat P + 3 * g\<rparr>"
  have sec: "sector_of (cachedSectorSize P) k b = disk_sector D P d (3 * g + k)" if "k < 3" for k
    using t that by (simp add: disk_sector_def add.assoc)
  have "LoadFatSector D P (wStartSectPrimaryFat P + 3 * g) s = (True, ?s')"
    using False sector_in_fat [OF laws(2) g] flush r m by (simp add: LoadFatSector_def)
  moreover have "fat_ok D P I ?s'"
    using ok g Id b sec by (auto simp: fat_ok_def)
  moreover have "fat_sector D P ?s' n = fat_sector D P s n"
    if "wStartSectPrimaryFat P + n < wStartSectSecondaryFat P" for n
    using d [OF that] sec [of "n mod 3"] by (auto simp: fat_sector_def)
  moreover have "same_rest s ?s'"
    by (simp add: same_rest_def)
  ultimately show thesis
    using that by simp
qed

text \<open>Byte \<open>i\<close> of the FAT; the group of a cluster covers \<open>3 * cachedSectorSize\<close> of them.\<close>

lemma fat_byte_cached:
  assumes "layout_ok P" and "length (fat_buffer s) = 3 * cachedSectorSize P"
    and "FatSectorCached s = wStartSectPrimaryFat P + 3 * g" and "j < 3 * cachedSectorSize P"
  shows "fat_byte D P s (3 * cachedSectorSize P * g + j) = unat (fat_buffer s ! j)"
proof -
  let ?n = "cachedSectorSize P"
  have n: "0 < ?n"
    using assms(1) by (auto simp: layout_ok_def)
  have e: "3 * ?n * g + j = j + ?n * (3 * g)"
    by simp
  have q: "(3 * ?n * g + j) div ?n = 3 * g + j div ?n" "(3 * ?n * g + j) mod ?n = j mod ?n"
    unfolding e using n by simp_all
  have k: "j div ?n < 3"
    using assms(4) n by (simp add: less_mult_imp_div_less)
  show ?thesis
    unfolding fat_byte_def q fat_sector_def group_sector [OF k] assms(3)
    using sector_of_nth [OF assms(2) k, of "j mod ?n"] n by (simp add: div_mult_mod_eq)
qed

lemma fat_byte_same:
  assumes "\<And>n. wStartSectPrimaryFat P + n < wStartSectSecondaryFat P \<Longrightarrow> fat_sector D P s' n = fat_sector D P s n"
    and "0 < cachedSectorSize P"
    and "i < (wStartSectSecondaryFat P - wStartSectPrimaryFat P) * cachedSectorSize P"
  shows "fat_byte D P s' i = fat_byte D P s i"
proof -
  have "i div cachedSectorSize P < wStartSectSecondaryFat P - wStartSectPrimaryFat P"
    using assms(2,3) by (simp add: less_mult_imp_div_less)
  then show ?thesis
    using assms(1) by (simp add: fat_byte_def)
qed

end
