(* ===== verification/FatTable.thy ===== *)
theory FatTable imports Fat begin

text \<open>
  The FAT as a table: with a drive that works, fetching an entry through the buffered group gives
  the entry, and freeing one sets it to 0 and leaves every other entry as it was, whichever
  group is in the buffer and whether or not it has been written back. The three FAT types share
  one interface, the locale \<open>cluster_table\<close>, that the disk checker's passes rely on.
\<close>

section \<open>Entries of the table\<close>

text \<open>Entry \<open>c\<close> of a table whose byte \<open>i\<close> is \<open>f i\<close>, and where its bytes lie.\<close>

definition entry_of :: "FAT_TYPE \<Rightarrow> (nat \<Rightarrow> nat) \<Rightarrow> nat \<Rightarrow> nat" where
  "entry_of ty f c =
     (case ty of
        FS_FAT12 \<Rightarrow> (let w = f (3 * (c div 2)) + 256 * f (3 * (c div 2) + 1) + 65536 * f (3 * (c div 2) + 2)
                     in if c div 2 * 2 \<noteq> c then w div 4096 else w mod 4096)
      | FS_FAT16 \<Rightarrow> f (2 * c) + 256 * f (2 * c + 1)
      | _ \<Rightarrow> f (4 * c) + 256 * f (4 * c + 1) + 65536 * (f (4 * c + 2) + 256 * f (4 * c + 3)))"

definition entry_start :: "FAT_TYPE \<Rightarrow> nat \<Rightarrow> nat" where
  "entry_start ty c = (case ty of FS_FAT12 \<Rightarrow> 3 * (c div 2) | FS_FAT16 \<Rightarrow> 2 * c | _ \<Rightarrow> 4 * c)"

definition entry_end :: "FAT_TYPE \<Rightarrow> nat \<Rightarrow> nat" where
  "entry_end ty c = (case ty of FS_FAT12 \<Rightarrow> 3 * (c div 2) + 3 | FS_FAT16 \<Rightarrow> 2 * c + 2 | _ \<Rightarrow> 4 * c + 4)"

definition per_group :: "PARTITION_BOOT_SECTOR \<Rightarrow> nat" where
  "per_group P = (case TypeFileSystem P of FS_FAT12 \<Rightarrow> FAT12_ENTRIES_PER_SECT_GROUP P
     | FS_FAT16 \<Rightarrow> FAT16_ENTRIES_PER_SECT_GROUP P | _ \<Rightarrow> FAT32_ENTRIES_PER_SECT_GROUP P)"

definition bytes :: "BYTE list \<Rightarrow> nat \<Rightarrow> nat" where
  "bytes buffer j = unat (buffer ! j)"

definition clear_entry :: "FAT_TYPE \<Rightarrow> BYTE list \<Rightarrow> nat \<Rightarrow> BYTE list" where
  "clear_entry ty buffer c =
     (case ty of
        FS_FAT12 \<Rightarrow> (let w = buffer_word buffer (c div 2)
                     in set_buffer_word buffer (c div 2) (if c div 2 * 2 \<noteq> c then w mod 4096 else w div 4096 * 4096))
      | FS_FAT16 \<Rightarrow> PutWord buffer 0 (c * 2)
      | _ \<Rightarrow> PutDword buffer 0 (c * 4))"

lemma entry_cong:
  "(\<And>i. entry_start ty c \<le> i \<Longrightarrow> i < entry_end ty c \<Longrightarrow> f i = f' i) \<Longrightarrow> entry_of ty f c = entry_of ty f' c"
  by (cases ty) (simp_all add: entry_of_def entry_start_def entry_end_def)

lemma entry_shift:
  assumes "layout_ok P"
  shows "entry_of (TypeFileSystem P) f c =
      entry_of (TypeFileSystem P) (\<lambda>j. f (3 * cachedSectorSize P * (c div per_group P) + j)) (c mod per_group P)"
    and "entry_start (TypeFileSystem P) c =
      3 * cachedSectorSize P * (c div per_group P) + entry_start (TypeFileSystem P) (c mod per_group P)"
    and "entry_end (TypeFileSystem P) c =
      3 * cachedSectorSize P * (c div per_group P) + entry_end (TypeFileSystem P) (c mod per_group P)"
    and "entry_end (TypeFileSystem P) (c mod per_group P) \<le> 3 * cachedSectorSize P"
proof -
  define g r where "g = c div per_group P" and "r = c mod per_group P"
  define n where "n = cachedSectorSize P"
  have n: "n = 512 \<or> n = 2048"
    using assms by (auto simp: layout_ok_def n_def)
  have c: "c = per_group P * g + r"
    by (simp add: g_def r_def)
  have r: "r < per_group P"
    using n by (auto simp: r_def per_group_def n_def FAT12_ENTRIES_PER_SECT_GROUP_def
        FAT16_ENTRIES_PER_SECT_GROUP_def FAT32_ENTRIES_PER_SECT_GROUP_def split: FAT_TYPE.split)
  have main: "entry_of (TypeFileSystem P) f c = entry_of (TypeFileSystem P) (\<lambda>j. f (3 * n * g + j)) r \<and>
      entry_start (TypeFileSystem P) c = 3 * n * g + entry_start (TypeFileSystem P) r \<and>
      entry_end (TypeFileSystem P) c = 3 * n * g + entry_end (TypeFileSystem P) r \<and>
      entry_end (TypeFileSystem P) r \<le> 3 * n"
  proof (cases "TypeFileSystem P")
    case FS_FAT12
    then have p: "per_group P = 2 * n"
      by (simp add: per_group_def FAT12_ENTRIES_PER_SECT_GROUP_def n_def)
    have c': "c = n * g * 2 + r"
      by (simp add: c p)
    have d: "c div 2 = n * g + r div 2"
      by (simp add: c')
    then have e: "3 * (c div 2) = 3 * n * g + 3 * (r div 2)"
      by simp
    have par: "c div 2 * 2 \<noteq> c \<longleftrightarrow> r div 2 * 2 \<noteq> r"
      by (simp add: d c' add_mult_distrib)
    have "3 * (r div 2) + 3 \<le> 3 * n"
      using r unfolding p by arith
    then show ?thesis
      unfolding FS_FAT12 p
      by (simp add: entry_of_def entry_start_def entry_end_def e par Let_def add.assoc)
  next
    case FS_FAT16
    then have p: "per_group P = 3 * n div 2"
      by (simp add: per_group_def FAT16_ENTRIES_PER_SECT_GROUP_def n_def mult.commute)
    have e: "2 * c = 3 * n * g + 2 * r"
      using n unfolding c p by auto
    show ?thesis
      using r n unfolding FS_FAT16 p
      by (auto simp: entry_of_def entry_start_def entry_end_def e add.assoc)
  qed (use r n in \<open>auto simp: c per_group_def FAT32_ENTRIES_PER_SECT_GROUP_def entry_of_def entry_start_def
    entry_end_def n_def [symmetric] algebra_simps\<close>)
  then show "entry_of (TypeFileSystem P) f c =
      entry_of (TypeFileSystem P) (\<lambda>j. f (3 * cachedSectorSize P * (c div per_group P) + j)) (c mod per_group P)"
    "entry_start (TypeFileSystem P) c =
      3 * cachedSectorSize P * (c div per_group P) + entry_start (TypeFileSystem P) (c mod per_group P)"
    "entry_end (TypeFileSystem P) c =
      3 * cachedSectorSize P * (c div per_group P) + entry_end (TypeFileSystem P) (c mod per_group P)"
    "entry_end (TypeFileSystem P) (c mod per_group P) \<le> 3 * cachedSectorSize P"
    by (simp_all add: n_def g_def r_def)
qed

lemma clear_entry_length [simp]: "length (clear_entry ty buffer c) = length buffer"
  by (simp add: clear_entry_def PutWord_def PutDword_def PutByte_def set_buffer_word_def Let_def split: FAT_TYPE.split)

lemma byte_of_nat: "unat (of_nat x :: BYTE) = x mod 256"
  by (simp add: unsigned_of_nat take_bit_eq_mod)

lemma bytes_put [simp]:
  "k < length b \<Longrightarrow> bytes (PutByte b v k) j = (if j = k then v mod 256 else bytes b j)"
  by (simp add: bytes_def PutByte_def byte_of_nat nth_list_update)

lemma length_put [simp]: "length (PutByte b v k) = length b"
  by (simp add: PutByte_def)

lemma put_word_bytes:
  assumes "k + 2 < length b" and "w < 16777216"
  shows "bytes (PutByte (PutWord b w k) (w div 65536) (k + 2)) j =
    (if j = k then w mod 256 else if j = k + 1 then w div 256 mod 256
     else if j = k + 2 then w div 65536 else bytes b j)"
proof -
  have "w div 65536 mod 256 = w div 65536"
    using assms(2) by simp
  then show ?thesis
    using assms(1) by (simp add: PutWord_def)
qed

lemma word_of_digits:
  "w mod 256 + 256 * (w div 256 mod 256) + 65536 * (w div 65536) = (w::nat)"
proof -
  have "w div 65536 = w div 256 div 256"
    by (simp add: div_mult2_eq [symmetric])
  then show ?thesis
    using div_mult_mod_eq [of w 256] div_mult_mod_eq [of "w div 256" 256] by linarith
qed

lemma buffer_word_bytes:
  "buffer_word b k = bytes b (3 * k) + 256 * bytes b (3 * k + 1) + 65536 * bytes b (3 * k + 2)"
  by (simp add: buffer_word_def FSGetWord_def FSGetByte_def bytes_def)

lemma buffer_word_less: "buffer_word b k < 16777216"
proof -
  have "bytes b i \<le> 255" for i
  proof -
    have "unat (b ! i) < 2 ^ LENGTH(8)"
      by (rule unsigned_less)
    then show ?thesis by (simp add: bytes_def)
  qed
  from this [of "3 * k"] this [of "3 * k + 1"] this [of "3 * k + 2"] show ?thesis
    unfolding buffer_word_bytes by linarith
qed

lemma buffer_word_set:
  assumes "3 * k + 2 < length b" and "3 * j + 2 < length b" and "w < 16777216"
  shows "buffer_word (set_buffer_word b k w) j = (if j = k then w else buffer_word b j)"
proof (cases "j = k")
  case True
  then show ?thesis
    using word_of_digits [of w]
    unfolding buffer_word_bytes set_buffer_word_def put_word_bytes [OF assms(1,3)] by simp
next
  case False
  then have "3 * j \<noteq> 3 * k" "3 * j \<noteq> 3 * k + 1" "3 * j \<noteq> 3 * k + 2"
    "3 * j + 1 \<noteq> 3 * k" "3 * j + 1 \<noteq> 3 * k + 2" "3 * j + 2 \<noteq> 3 * k" "3 * j + 2 \<noteq> 3 * k + 1"
    by presburger+
  with False show ?thesis
    unfolding buffer_word_bytes set_buffer_word_def put_word_bytes [OF assms(1,3)] by simp
qed

lemma entry12_word:
  "entry_of FS_FAT12 (bytes b) c =
     (if c div 2 * 2 \<noteq> c then buffer_word b (c div 2) div 4096 else buffer_word b (c div 2) mod 4096)"
  by (simp add: entry_of_def buffer_word_bytes Let_def)

lemma clear32:
  "k + 3 < length b \<Longrightarrow> bytes (PutDword b 0 k) j = (if j \<in> {k, k + 1, k + 2, k + 3} then 0 else bytes b j)"
  by (simp add: PutDword_def PutWord_def)

lemma clear32_at:
  assumes "4 * c + 3 < length b" and "i < 4"
  shows "bytes (PutDword b 0 (c * 4)) (4 * c' + i) = (if c' = c then 0 else bytes b (4 * c' + i))"
proof -
  have "4 * c' + i \<in> {c * 4, c * 4 + 1, c * 4 + 2, c * 4 + 3} \<longleftrightarrow> c' = c"
    using assms(2) by auto
  then show ?thesis
    using clear32 [of "c * 4" b "4 * c' + i"] assms(1) by (simp add: mult.commute)
qed

lemma clear_entry_effect:
  assumes "entry_end ty c \<le> length b" and "entry_end ty c' \<le> length b"
  shows "entry_of ty (bytes (clear_entry ty b c)) c' = (if c' = c then 0 else entry_of ty (bytes b) c')"
proof (cases ty)
  case FS_FAT12
  let ?w = "buffer_word b (c div 2)"
  have l: "3 * (c div 2) + 2 < length b" "3 * (c' div 2) + 2 < length b"
    using assms FS_FAT12 by (simp_all add: entry_end_def)
  have b: "?w mod 4096 < 16777216" "?w div 4096 * 4096 < 16777216"
    using buffer_word_less [of b "c div 2"] by (auto intro: order.strict_trans1 [OF div_times_less_eq_dividend])
  define h h' where "h \<longleftrightarrow> c div 2 * 2 \<noteq> c" and "h' \<longleftrightarrow> c' div 2 * 2 \<noteq> c'"
  have eq: "c' = c \<longleftrightarrow> c' div 2 = c div 2 \<and> h' = h"
    unfolding h_def h'_def by presburger
  have z: "?w mod 4096 div 4096 = 0" "?w div 4096 * 4096 div 4096 = ?w div 4096"
    "?w div 4096 * 4096 mod 4096 = 0"
    by simp_all
  show ?thesis
  proof (cases h)
    case True
    then have w: "clear_entry FS_FAT12 b c = set_buffer_word b (c div 2) (?w mod 4096)"
      unfolding clear_entry_def FAT_TYPE.case Let_def h_def by simp
    show ?thesis
      unfolding FS_FAT12 entry12_word w buffer_word_set [OF l b(1)] eq h'_def [symmetric]
      using True z by (cases h'; cases "c' div 2 = c div 2") simp_all
  next
    case False
    then have w: "clear_entry FS_FAT12 b c = set_buffer_word b (c div 2) (?w div 4096 * 4096)"
      unfolding clear_entry_def FAT_TYPE.case Let_def h_def by simp
    show ?thesis
      unfolding FS_FAT12 entry12_word w buffer_word_set [OF l b(2)] eq h'_def [symmetric]
      using False z by (cases h'; cases "c' div 2 = c div 2") simp_all
  qed
next
  case FS_FAT16
  have "c' \<noteq> c \<Longrightarrow> 2 * c' \<noteq> c * 2 \<and> 2 * c' \<noteq> c * 2 + 1 \<and> 2 * c' + 1 \<noteq> c * 2 \<and> 2 * c' + 1 \<noteq> c * 2 + 1"
    by presburger
  with assms show ?thesis
    unfolding FS_FAT16 by (simp add: entry_of_def entry_end_def clear_entry_def PutWord_def)
next
  case FS_FAT32
  then have l: "4 * c + 3 < length b"
    using assms by (simp add: entry_end_def)
  show ?thesis
    using clear32_at [OF l, of 0 c'] clear32_at [OF l, of 1 c'] clear32_at [OF l, of 2 c'] clear32_at [OF l, of 3 c']
    unfolding FS_FAT32 by (simp add: entry_of_def clear_entry_def)
next
  case FATUNSUPPORTED
  then have l: "4 * c + 3 < length b"
    using assms by (simp add: entry_end_def)
  show ?thesis
    using clear32_at [OF l, of 0 c'] clear32_at [OF l, of 1 c'] clear32_at [OF l, of 2 c'] clear32_at [OF l, of 3 c']
    unfolding FATUNSUPPORTED by (simp add: entry_of_def clear_entry_def)
qed

section \<open>Fetching and freeing\<close>

definition fat_entry :: "('d, 'x) drive_scheme \<Rightarrow> PARTITION_BOOT_SECTOR \<Rightarrow> ('d, 'm) fat_scheme \<Rightarrow> nat \<Rightarrow> nat" where
  "fat_entry D P s c = entry_of (TypeFileSystem P) (fat_byte D P s) c"

text \<open>The clusters whose entry lies in the FAT.\<close>

definition valid_cluster :: "PARTITION_BOOT_SECTOR \<Rightarrow> nat \<Rightarrow> bool" where
  "valid_cluster P c \<longleftrightarrow>
     entry_end (TypeFileSystem P) c \<le> (wStartSectSecondaryFat P - wStartSectPrimaryFat P) * cachedSectorSize P"

lemma entry_start_end: "entry_start ty c < entry_end ty c"
  by (simp add: entry_start_def entry_end_def split: FAT_TYPE.split)

lemma sector_size_pos: "layout_ok P \<Longrightarrow> 0 < cachedSectorSize P"
  by (auto simp: layout_ok_def)

lemma entry_in_buffer:
  assumes "fat_ok D P I s" and "FatSectorCached s = wStartSectPrimaryFat P + 3 * (c div per_group P)"
  shows "fat_entry D P s c = entry_of (TypeFileSystem P) (bytes (fat_buffer s)) (c mod per_group P)"
proof -
  have l: "layout_ok P" "length (fat_buffer s) = 3 * cachedSectorSize P"
    using assms(1) by (simp_all add: fat_ok_def)
  have "entry_of (TypeFileSystem P) (\<lambda>j. fat_byte D P s (3 * cachedSectorSize P * (c div per_group P) + j))
      (c mod per_group P) = entry_of (TypeFileSystem P) (bytes (fat_buffer s)) (c mod per_group P)"
  proof (rule entry_cong)
    fix i assume "i < entry_end (TypeFileSystem P) (c mod per_group P)"
    then have "i < 3 * cachedSectorSize P"
      using entry_shift(4) [OF l(1), of c] by simp
    then show "fat_byte D P s (3 * cachedSectorSize P * (c div per_group P) + i) = bytes (fat_buffer s) i"
      using fat_byte_cached [OF l assms(2)] by (simp add: bytes_def)
  qed
  then show ?thesis
    unfolding fat_entry_def using entry_shift(1) [OF l(1), of "fat_byte D P s" c] by simp
qed

lemma entry_same:
  assumes "layout_ok P" and "valid_cluster P c"
    and "\<And>n. wStartSectPrimaryFat P + n < wStartSectSecondaryFat P \<Longrightarrow> fat_sector D P s' n = fat_sector D P s n"
  shows "fat_entry D P s' c = fat_entry D P s c"
  unfolding fat_entry_def
proof (rule entry_cong)
  fix i assume "i < entry_end (TypeFileSystem P) c"
  then show "fat_byte D P s' i = fat_byte D P s i"
    using assms by (intro fat_byte_same) (auto simp: valid_cluster_def sector_size_pos)
qed

lemma group_in_fat:
  assumes "layout_ok P" and "valid_cluster P c"
  shows "wStartSectPrimaryFat P + 3 * (c div per_group P) < wStartSectSecondaryFat P"
proof -
  have "3 * cachedSectorSize P * (c div per_group P) < entry_end (TypeFileSystem P) c"
    using entry_shift(3) [OF assms(1), of c] entry_start_end [of "TypeFileSystem P" "c mod per_group P"] by simp
  also have "... \<le> (wStartSectSecondaryFat P - wStartSectPrimaryFat P) * cachedSectorSize P"
    using assms(2) by (simp add: valid_cluster_def)
  finally have "3 * (c div per_group P) * cachedSectorSize P <
      (wStartSectSecondaryFat P - wStartSectPrimaryFat P) * cachedSectorSize P"
    by (simp add: mult.commute mult.left_commute)
  then have "3 * (c div per_group P) < wStartSectSecondaryFat P - wStartSectPrimaryFat P"
    by (simp only: mult_less_cancel2)
  then show ?thesis
    using assms(1) by (simp add: layout_ok_def)
qed

lemma need_ok:
  assumes ok: "fat_ok D P I s" and c: "valid_cluster P c"
  obtains s' where "need_group D P (per_group P) c s = (True, s')" "fat_ok D P I s'" "same_rest s s'"
    "FatSectorCached s' = wStartSectPrimaryFat P + 3 * (c div per_group P)"
    "\<And>c'. valid_cluster P c' \<Longrightarrow> fat_entry D P s' c' = fat_entry D P s c'"
proof -
  have l: "layout_ok P" "FirstPrimaryFatSect s = wStartSectPrimaryFat P"
    using ok by (simp_all add: fat_ok_def)
  have e: "c div per_group P * 3 + FirstPrimaryFatSect s = wStartSectPrimaryFat P + 3 * (c div per_group P)"
    using l(2) by simp
  show thesis
  proof (cases "FatSectorCached s = wStartSectPrimaryFat P + 3 * (c div per_group P)")
    case True
    then have "need_group D P (per_group P) c s = (True, s)"
      unfolding need_group_def Let_def e by simp
    then show thesis
      by (rule that [OF _ ok same_rest_refl True refl])
  next
    case False
    obtain s' where s': "LoadFatSector D P (wStartSectPrimaryFat P + 3 * (c div per_group P)) s = (True, s')"
      "fat_ok D P I s'" "same_rest s s'" "FatSectorCached s' = wStartSectPrimaryFat P + 3 * (c div per_group P)"
      and same: "\<And>n. wStartSectPrimaryFat P + n < wStartSectSecondaryFat P \<Longrightarrow> fat_sector D P s' n = fat_sector D P s n"
      by (rule load_ok [OF ok group_in_fat [OF l(1) c]]) blast
    have "need_group D P (per_group P) c s = (True, s')"
      unfolding need_group_def Let_def e using False s'(1) by simp
    then show thesis
      by (rule that [OF _ s'(2-4) entry_same [OF l(1) _ same]])
  qed
qed

lemma fetch_entry:
  "FetchCxFat12 r s = entry_of FS_FAT12 (bytes (fat_buffer s)) r"
  "FSGetWord b (r * 2) = entry_of FS_FAT16 (bytes b) r"
  "FSGetDWord b (r * 4) = entry_of FS_FAT32 (bytes b) r"
  unfolding entry12_word
  by (simp_all add: FetchCxFat12_def entry_of_def FSGetDWord_def FSGetWord_def FSGetByte_def bytes_def
      mult.commute [of r] Suc3_eq_add_3 add.commute [of _ 3] Let_def)

lemma entry_unsupported: "entry_of FATUNSUPPORTED = entry_of FS_FAT32"
  by (intro ext) (simp add: entry_of_def)

lemma get_by_group:
  "GetNextCxFromFat D P c s =
     (case need_group D P (per_group P) c s of (ok, s) \<Rightarrow>
        if ok then (entry_of (TypeFileSystem P) (bytes (fat_buffer s)) (c mod per_group P), s) else (MINUS_ONE, s))"
  unfolding GetNextCxFromFat_def GetNextCxFat12_def GetNextCxFat16_def GetNextCxFat32_def per_group_def
    minus_div_mult_eq_mod Let_def fetch_entry
  by (cases "TypeFileSystem P") (simp_all add: entry_unsupported split: prod.split)

lemma free_by_group:
  assumes "TypeFileSystem P \<noteq> FATUNSUPPORTED"
  shows "(case TypeFileSystem P of FS_FAT12 \<Rightarrow> FreeCxFat12 D P c s | FS_FAT16 \<Rightarrow> FreeCxFat16 D P c s
       | FS_FAT32 \<Rightarrow> FreeCxFat32 D P c s | FATUNSUPPORTED \<Rightarrow> (False, s)) =
     (case need_group D P (per_group P) c s of (ok, s) \<Rightarrow>
        if ok then (True, s\<lparr>fat_buffer := clear_entry (TypeFileSystem P) (fat_buffer s) (c mod per_group P),
                            fat_dirty := True\<rparr>) else (False, s))"
  using assms unfolding FreeCxFat12_def FreeCxFat16_def FreeCxFat32_def per_group_def
    minus_div_mult_eq_mod clear_entry_def Let_def
  by (cases "TypeFileSystem P") (simp_all split: prod.split)

lemma entry_less: "entry_of ty (bytes b) c < MINUS_ONE" and "entry_of FS_FAT12 (bytes b) c < 4096"
proof -
  have byte: "bytes b i \<le> 255" for i
  proof -
    have "unat (b ! i) < 2 ^ LENGTH(8)"
      by (rule unsigned_less)
    then show ?thesis by (simp add: bytes_def)
  qed
  show 12: "entry_of FS_FAT12 (bytes b) c < 4096"
    unfolding entry12_word using buffer_word_less [of b "c div 2"] by (auto simp: less_mult_imp_div_less)
  show "entry_of ty (bytes b) c < MINUS_ONE"
  proof (cases ty)
    case FS_FAT12
    then show ?thesis using 12 by (simp add: MINUS_ONE_def)
  next
    case FS_FAT16
    then show ?thesis
      using byte [of "2 * c"] byte [of "2 * c + 1"] by (simp add: entry_of_def MINUS_ONE_def)
  qed (use byte [of "4 * c"] byte [of "4 * c + 1"] byte [of "4 * c + 2"] byte [of "4 * c + 3"] in
    \<open>simp_all add: entry_of_def MINUS_ONE_def\<close>)
qed

lemma get_ok:
  assumes ok: "fat_ok D P I s" and c: "valid_cluster P c"
  obtains s' where "GetNextCxFromFat D P c s = (fat_entry D P s c, s')" "fat_ok D P I s'" "same_rest s s'"
    "FatSectorCached s' = wStartSectPrimaryFat P + 3 * (c div per_group P)"
    "\<And>c'. valid_cluster P c' \<Longrightarrow> fat_entry D P s' c' = fat_entry D P s c'"
proof -
  obtain s' where s': "need_group D P (per_group P) c s = (True, s')" "fat_ok D P I s'" "same_rest s s'"
    "FatSectorCached s' = wStartSectPrimaryFat P + 3 * (c div per_group P)"
    and same: "\<And>c'. valid_cluster P c' \<Longrightarrow> fat_entry D P s' c' = fat_entry D P s c'"
    using need_ok [OF ok c] by metis
  have "GetNextCxFromFat D P c s = (fat_entry D P s c, s')"
    unfolding get_by_group s'(1) using entry_in_buffer [OF s'(2,4)] same [OF c] by simp
  then show thesis
    by (rule that [OF _ s'(2-4) same])
qed

lemma other_group_same:
  assumes "layout_ok P" and "c div per_group P \<noteq> g"
    and "FatSectorCached s = wStartSectPrimaryFat P + 3 * g"
  shows "fat_entry D P (s\<lparr>fat_buffer := b, fat_dirty := t\<rparr>) c = fat_entry D P s c"
  unfolding fat_entry_def
proof (rule entry_cong)
  fix i assume i: "entry_start (TypeFileSystem P) c \<le> i" "i < entry_end (TypeFileSystem P) c"
  let ?n = "cachedSectorSize P"
  let ?d = "c div per_group P"
  have n: "0 < ?n"
    using assms(1) by (rule sector_size_pos)
  have lo: "3 * ?n * ?d \<le> i" and hi: "i < 3 * ?n * ?d + 3 * ?n"
    using i entry_shift(2-4) [OF assms(1), of c] by auto
  have "i div (3 * ?n) = ?d"
    using lo hi n by (intro div_nat_eqI) (auto simp: algebra_simps)
  then have "i div ?n div 3 = ?d"
    by (simp add: div_mult2_eq [symmetric] mult.commute)
  then show "fat_byte D P (s\<lparr>fat_buffer := b, fat_dirty := t\<rparr>) i = fat_byte D P s i"
    using assms(2,3) by (simp add: fat_byte_def fat_sector_def)
qed

lemma clear_ok:
  assumes ok: "fat_ok D P I s" and c: "valid_cluster P c"
    and g: "FatSectorCached s = wStartSectPrimaryFat P + 3 * (c div per_group P)"
  defines "s' \<equiv> s\<lparr>fat_buffer := clear_entry (TypeFileSystem P) (fat_buffer s) (c mod per_group P), fat_dirty := True\<rparr>"
  shows "fat_ok D P I s' \<and> (\<forall>c'. valid_cluster P c' \<longrightarrow> fat_entry D P s' c' = (if c' = c then 0 else fat_entry D P s c'))"
proof (intro conjI allI impI)
  have l: "layout_ok P" "length (fat_buffer s) = 3 * cachedSectorSize P"
    using ok by (simp_all add: fat_ok_def)
  show ok': "fat_ok D P I s'"
    using ok g group_in_fat [OF l(1) c] by (auto simp: fat_ok_def s'_def)
  fix c' assume "valid_cluster P c'"
  show "fat_entry D P s' c' = (if c' = c then 0 else fat_entry D P s c')"
  proof (cases "c' div per_group P = c div per_group P")
    case True
    have e: "entry_end (TypeFileSystem P) (c mod per_group P) \<le> length (fat_buffer s)"
      "entry_end (TypeFileSystem P) (c' mod per_group P) \<le> length (fat_buffer s)"
      using entry_shift(4) [OF l(1)] l(2) by simp_all
    have "c' mod per_group P = c mod per_group P \<longleftrightarrow> c' = c"
      using True by (metis div_mult_mod_eq)
    moreover have "fat_entry D P s' c' = entry_of (TypeFileSystem P) (bytes (fat_buffer s')) (c' mod per_group P)"
      using g True by (intro entry_in_buffer [OF ok']) (simp add: s'_def)
    moreover have "fat_entry D P s c' = entry_of (TypeFileSystem P) (bytes (fat_buffer s)) (c' mod per_group P)"
      using g True by (intro entry_in_buffer [OF ok]) simp
    ultimately show ?thesis
      using clear_entry_effect [OF e] by (simp add: s'_def)
  next
    case False
    then have "c' \<noteq> c" by auto
    with other_group_same [OF l(1) False g] show ?thesis
      by (simp add: s'_def)
  qed
qed

lemma free_ok:
  assumes ok: "fat_ok D P I s" and c: "valid_cluster P c"
  obtains s' where "FreeCxFat D P c s = (True, s')" "fat_ok D P I s'" "same_rest s s'"
    "\<And>c'. valid_cluster P c' \<Longrightarrow> fat_entry D P s' c' = (if c' = c then 0 else fat_entry D P s c')"
proof -
  obtain s1 where s1: "GetNextCxFromFat D P c s = (fat_entry D P s c, s1)" "fat_ok D P I s1" "same_rest s s1"
    "FatSectorCached s1 = wStartSectPrimaryFat P + 3 * (c div per_group P)"
    and same: "\<And>c'. valid_cluster P c' \<Longrightarrow> fat_entry D P s1 c' = fat_entry D P s c'"
    using get_ok [OF ok c] by metis
  have ne: "fat_entry D P s c \<noteq> MINUS_ONE"
    using entry_less(1) entry_in_buffer [OF s1(2,4)] same [OF c] by (metis less_irrefl)
  show thesis
  proof (cases "fat_entry D P s c = 0")
    case True
    then have "FreeCxFat D P c s = (True, s1)"
      using s1(1) ne by (simp add: FreeCxFat_def)
    then show thesis
      using that [OF _ s1(2,3)] same True by auto
  next
    case False
    let ?s' = "s1\<lparr>fat_buffer := clear_entry (TypeFileSystem P) (fat_buffer s1) (c mod per_group P), fat_dirty := True\<rparr>"
    have t: "TypeFileSystem P \<noteq> FATUNSUPPORTED" "FirstPrimaryFatSect s1 = wStartSectPrimaryFat P"
      using s1(2) by (simp_all add: fat_ok_def layout_ok_def)
    have "need_group D P (per_group P) c s1 = (True, s1)"
      using s1(4) t(2) by (simp add: need_group_def Let_def)
    then have "FreeCxFat D P c s = (True, ?s')"
      using s1(1) ne False free_by_group [OF t(1), of D c s1] by (simp add: FreeCxFat_def)
    moreover have "same_rest s ?s'"
      using s1(3) by (rule same_rest_trans) (simp add: same_rest_def)
    ultimately show thesis
      using that [of ?s'] clear_ok [OF s1(2) c s1(4)] same by simp
  qed
qed

section \<open>The interface the checker uses\<close>

locale cluster_table =
  fixes get :: "nat \<Rightarrow> 's \<Rightarrow> nat \<times> 's" and free :: "nat \<Rightarrow> 's \<Rightarrow> bool \<times> 's"
    and good :: "'s \<Rightarrow> bool" and entry :: "'s \<Rightarrow> nat \<Rightarrow> nat" and valid :: "nat \<Rightarrow> bool"
    and rest :: "'s \<Rightarrow> 'r"
  assumes get: "good s \<Longrightarrow> valid c \<Longrightarrow> \<exists>s'. get c s = (entry s c, s') \<and> good s' \<and> rest s' = rest s \<and>
      (\<forall>c'. valid c' \<longrightarrow> entry s' c' = entry s c')"
    and free: "good s \<Longrightarrow> valid c \<Longrightarrow> \<exists>s'. free c s = (True, s') \<and> good s' \<and> rest s' = rest s \<and>
      (\<forall>c'. valid c' \<longrightarrow> entry s' c' = (if c' = c then 0 else entry s c'))"
begin

text \<open>Freeing a list of clusters, one after the other.\<close>

lemma free_list:
  "good s \<Longrightarrow> \<forall>c\<in>set cs. valid c \<Longrightarrow>
   \<exists>s'. foldl (\<lambda>(ok, s) c. if ok then free c s else (False, s)) (True, s) cs = (True, s') \<and> good s' \<and>
     rest s' = rest s \<and> (\<forall>c'. valid c' \<longrightarrow> entry s' c' = (if c' \<in> set cs then 0 else entry s c'))"
proof (induction cs arbitrary: s)
  case (Cons c cs)
  then obtain s1 where s1: "free c s = (True, s1)" "good s1" "rest s1 = rest s"
    "\<forall>c'. valid c' \<longrightarrow> entry s1 c' = (if c' = c then 0 else entry s c')"
    using free by force
  obtain s' where "foldl (\<lambda>(ok, s) c. if ok then free c s else (False, s)) (True, s1) cs = (True, s')" "good s'"
     "rest s' = rest s1" "\<forall>c'. valid c' \<longrightarrow> entry s' c' = (if c' \<in> set cs then 0 else entry s1 c')"
    using Cons.IH [OF s1(2)] Cons.prems by auto
  with s1 show ?case by auto
qed auto

end

lemma same_rest_more: "same_rest s s' \<Longrightarrow> fat.more s' = fat.more s"
  unfolding same_rest_def by (drule arg_cong [where f = fat.more]) simp

interpretation fat: cluster_table "GetNextCxFromFat D P" "FreeCxFat D P" "fat_ok D P I" "fat_entry D P"
    "valid_cluster P" "fat.more :: ('d, 'm) fat_scheme \<Rightarrow> 'm" for D :: "('d, 'x) drive_scheme" and P I
proof
  fix s :: "('d, 'm) fat_scheme" and c
  assume s: "fat_ok D P I s" and c: "valid_cluster P c"
  show "\<exists>s'. GetNextCxFromFat D P c s = (fat_entry D P s c, s') \<and> fat_ok D P I s' \<and> fat.more s' = fat.more s \<and>
      (\<forall>c'. valid_cluster P c' \<longrightarrow> fat_entry D P s' c' = fat_entry D P s c')"
    by (rule get_ok [OF s c]) (use same_rest_more in blast)
  show "\<exists>s'. FreeCxFat D P c s = (True, s') \<and> fat_ok D P I s' \<and> fat.more s' = fat.more s \<and>
      (\<forall>c'. valid_cluster P c' \<longrightarrow> fat_entry D P s' c' = (if c' = c then 0 else fat_entry D P s c'))"
    by (rule free_ok [OF s c]) (use same_rest_more in blast)
qed

end
