(* ===== verification/BitTable.thy ===== *)
theory BitTable imports FatTable begin

text \<open>
  The table of used clusters, one bit per cluster: \<^verbatim>\<open>UpdateBit\<close> of \<^verbatim>\<open>System/Common/BitIo.c\<close> and, for
  FAT32, \<^verbatim>\<open>FAT32_UpdateBit\<close> of \<^verbatim>\<open>FileSystem/chkdsk/FatUtils.c\<close>. For FAT12 and FAT16 the table is
  the front of \<^verbatim>\<open>XScratchSpace\<close>; for FAT32 it lies in the sectors of the secondary FAT, seen through
  five sector caches that are slices of the same \<^verbatim>\<open>XScratchSpace\<close>.

  The state extends that of the FAT buffer. An access outside \<^verbatim>\<open>XScratchSpace\<close>, which the code
  does not prevent, is \<open>None\<close>.
\<close>

section \<open>State\<close>

record cache_desc =
  CacheValid :: bool
  SectorNumber :: nat
  WriteAttribute :: bool
  CacheCounter :: int

record 'd marks = "'d fat" +
  XScratchSpace :: "WORD list"
  CacheDesc_chkdsk :: "cache_desc list"

record 'd media_ops = "'d drive" +
  MediaRead :: "nat \<Rightarrow> 'd \<Rightarrow> WORD list option"
  MediaWrite :: "nat \<Rightarrow> WORD list \<Rightarrow> 'd \<Rightarrow> 'd option"

datatype Bittype = GET_BIT | SET_BIT | FREE_BIT

definition "MAX_CACHES = (5::nat)"
definition "READCOUNTER = (105::int)"
definition "WRITECOUNTER = (100::int)"
definition "CLUSTER_ENTRY_PER_SECTOR_SHIFT = (12::nat)"

definition cachedWordsPerSector :: "PARTITION_BOOT_SECTOR \<Rightarrow> nat" where
  "cachedWordsPerSector P = (if cachedSectorSize P = 512 then 177 else 705)"

definition MaskArray :: "nat \<Rightarrow> WORD" where
  "MaskArray b = push_bit b 1"

text \<open>The fractional multiplication of \<^verbatim>\<open>FDivBy24\<close> keeps the high word of the product.\<close>

definition DivBy24 :: "nat \<Rightarrow> nat" where
  "DivBy24 woffset = woffset * 0x55556 div 2 ^ 23"

section \<open>One bit of a word\<close>

text \<open>The \<^verbatim>\<open>switch\<close> of both functions on the word that holds the bit.\<close>

definition update_word :: "Bittype \<Rightarrow> nat \<Rightarrow> WORD \<Rightarrow> WORD \<times> WORD" where
  "update_word ty b w =
     (case ty of
        GET_BIT \<Rightarrow> (w AND MaskArray b, w)
      | SET_BIT \<Rightarrow> (w AND MaskArray b, w OR MaskArray b)
      | FREE_BIT \<Rightarrow> (0, w AND (0xffffff XOR MaskArray b)))"

definition update_scratch ::
    "Bittype \<Rightarrow> nat \<Rightarrow> nat \<Rightarrow> ('d, 'm) marks_scheme \<Rightarrow> (WORD \<times> ('d, 'm) marks_scheme) option" where
  "update_scratch ty k b s =
     (if k < length (XScratchSpace s) \<and> b < 24
      then let (v, w) = update_word ty b (XScratchSpace s ! k)
           in Some (v, s\<lparr>XScratchSpace := (XScratchSpace s)[k := w]\<rparr>)
      else None)"

section \<open>The caches\<close>

fun SearchmatchingSector :: "nat \<Rightarrow> cache_desc list \<Rightarrow> nat \<Rightarrow> nat option" where
  "SearchmatchingSector sector [] i = None"
| "SearchmatchingSector sector (d # ds) i =
     (if SectorNumber d mod 16777216 = sector mod 16777216 \<and> CacheValid d then Some i
      else SearchmatchingSector sector ds (i + 1))"

fun select_cache :: "cache_desc list \<Rightarrow> nat \<Rightarrow> nat \<Rightarrow> int \<Rightarrow> nat \<times> bool" where
  "select_cache [] i selection Counter = (selection, False)"
| "select_cache (d # ds) i selection Counter =
     (if CacheValid d
      then if CacheCounter d > Counter then select_cache ds (i + 1) i (CacheCounter d)
           else select_cache ds (i + 1) selection Counter
      else (i, True))"

definition slice :: "PARTITION_BOOT_SECTOR \<Rightarrow> nat \<Rightarrow> ('d, 'm) marks_scheme \<Rightarrow> WORD list" where
  "slice P i s = take (cachedWordsPerSector P) (drop (i * cachedWordsPerSector P) (XScratchSpace s))"

definition load_slice :: "PARTITION_BOOT_SECTOR \<Rightarrow> nat \<Rightarrow> WORD list \<Rightarrow> ('d, 'm) marks_scheme \<Rightarrow> ('d, 'm) marks_scheme" where
  "load_slice P i ws s =
     (let k = i * cachedWordsPerSector P
      in s\<lparr>XScratchSpace := take k (XScratchSpace s) @ ws @ drop (k + length ws) (XScratchSpace s)\<rparr>)"

definition touch :: "Bittype \<Rightarrow> nat \<Rightarrow> ('d, 'm) marks_scheme \<Rightarrow> ('d, 'm) marks_scheme" where
  "touch ty i s = s\<lparr>CacheDesc_chkdsk := (CacheDesc_chkdsk s)[i :=
     (if ty = GET_BIT then (CacheDesc_chkdsk s ! i)\<lparr>CacheCounter := READCOUNTER\<rparr>
      else (CacheDesc_chkdsk s ! i)\<lparr>CacheCounter := WRITECOUNTER, WriteAttribute := True\<rparr>)]\<rparr>"

definition IncrementCacheCounters_chkdsk :: "('d, 'm) marks_scheme \<Rightarrow> ('d, 'm) marks_scheme" where
  "IncrementCacheCounters_chkdsk s =
     s\<lparr>CacheDesc_chkdsk := map (\<lambda>d. d\<lparr>CacheCounter := CacheCounter d + 1\<rparr>) (CacheDesc_chkdsk s)\<rparr>"

definition set_desc :: "nat \<Rightarrow> (cache_desc \<Rightarrow> cache_desc) \<Rightarrow> ('d, 'm) marks_scheme \<Rightarrow> ('d, 'm) marks_scheme" where
  "set_desc i f s = s\<lparr>CacheDesc_chkdsk := (CacheDesc_chkdsk s)[i := f (CacheDesc_chkdsk s ! i)]\<rparr>"

text \<open>A failed flush or read gives -1, which the callers take for a bit that is set.\<close>

definition cache_miss ::
    "('d, 'x) media_ops_scheme \<Rightarrow> PARTITION_BOOT_SECTOR \<Rightarrow> nat \<Rightarrow> ('d, 'm) marks_scheme \<Rightarrow> nat option \<times> ('d, 'm) marks_scheme" where
  "cache_miss D P sectorNumber s =
     (let (selection, invalid) = select_cache (CacheDesc_chkdsk s) 0 0 0;
          s = (if invalid then set_desc selection (\<lambda>d. d\<lparr>CacheValid := True\<rparr>) s else s);
          flushed = (if WriteAttribute (CacheDesc_chkdsk s ! selection)
                     then MediaWrite D (SectorNumber (CacheDesc_chkdsk s ! selection)) (slice P selection s) (media s)
                     else Some (media s))
      in case flushed of
           None \<Rightarrow> (None, s)
         | Some d \<Rightarrow>
             (case MediaRead D sectorNumber d of
                None \<Rightarrow> (None, s\<lparr>media := d\<rparr>)
              | Some ws \<Rightarrow> (Some selection, IncrementCacheCounters_chkdsk
                  (set_desc selection (\<lambda>c. c\<lparr>SectorNumber := sectorNumber\<rparr>)
                    (load_slice P selection ws (s\<lparr>media := d\<rparr>))))))"

definition FAT32_UpdateBit ::
    "('d, 'x) media_ops_scheme \<Rightarrow> PARTITION_BOOT_SECTOR \<Rightarrow> nat \<Rightarrow> nat \<Rightarrow> nat \<Rightarrow> Bittype \<Rightarrow> ('d, 'm) marks_scheme \<Rightarrow>
     (WORD \<times> ('d, 'm) marks_scheme) option" where
  "FAT32_UpdateBit D P sectorNumber wOffsetToWord wOffsetBit ty s =
     (case SearchmatchingSector sectorNumber (CacheDesc_chkdsk s) 0 of
        Some index \<Rightarrow>
          update_scratch ty (index * cachedWordsPerSector P + wOffsetToWord) wOffsetBit (touch ty index s)
      | None \<Rightarrow>
          (case cache_miss D P sectorNumber s of
             (None, s) \<Rightarrow> Some (- 1, s)
           | (Some selection, s) \<Rightarrow>
               update_scratch ty (selection * cachedWordsPerSector P + wOffsetToWord) wOffsetBit
                 (touch ty selection s)))"

section \<open>UpdateBit\<close>

definition UpdateBit ::
    "('d, 'x) media_ops_scheme \<Rightarrow> PARTITION_BOOT_SECTOR \<Rightarrow> nat \<Rightarrow> Bittype \<Rightarrow> ('d, 'm) marks_scheme \<Rightarrow>
     (WORD \<times> ('d, 'm) marks_scheme) option" where
  "UpdateBit D P wBitNumber ty s =
     (if TypeFileSystem P = FS_FAT32
      then let sector = wBitNumber div 2 ^ CLUSTER_ENTRY_PER_SECTOR_SHIFT + FirstSecondaryFatSect s;
               woffset = wBitNumber mod 4096;
               wOffsetToWord = DivBy24 woffset
           in FAT32_UpdateBit D P sector wOffsetToWord (woffset - wOffsetToWord * 24) ty s
      else let wOffsetToWord = wBitNumber div 24 mod 16777216
           in update_scratch ty wOffsetToWord (wBitNumber - wOffsetToWord * 24) s)"

section \<open>The table in memory\<close>

lemma DivBy24_div: "n < 4096 \<Longrightarrow> DivBy24 n = n div 24"
proof -
  assume n: "n < 4096"
  define q r where "q = n div 24" and "r = n mod 24"
  have e: "n = 24 * q + r" and r: "r \<le> 23"
    using mod_less_divisor [of 24 n] by (simp_all add: q_def r_def del: mod_less_divisor)
  have "n * 0x55556 = 8388608 * q + (16 * q + 349526 * r)"
    by (simp add: e)
  moreover have "16 * q + 349526 * r < 8388608"
    using n e r by linarith
  ultimately have "n * 0x55556 div 8388608 = q"
    by simp
  then show ?thesis
    by (simp add: DivBy24_def q_def)
qed

lemma bit_MaskArray: "b < 24 \<Longrightarrow> bit (MaskArray b) i \<longleftrightarrow> i = b"
  by (auto simp: MaskArray_def bit_simps)

fun new_mark :: "Bittype \<Rightarrow> bool \<Rightarrow> bool" where
  "new_mark GET_BIT m = m"
| "new_mark SET_BIT m = True"
| "new_mark FREE_BIT m = False"

lemma update_word_bits:
  assumes "b < 24" and "update_word ty b w = (v, w')"
  shows "bit w' i \<longleftrightarrow> i < 24 \<and> (if i = b then new_mark ty (bit w b) else bit w i)"
    and "ty \<noteq> FREE_BIT \<Longrightarrow> v \<noteq> 0 \<longleftrightarrow> bit w b"
proof -
  have m: "(0xffffff::WORD) = mask 24"
    by (simp add: mask_eq_exp_minus_1)
  have r: "bit w i \<Longrightarrow> i < 24" for i
    using bit_imp_le_length [of w i] by simp
  show "bit w' i \<longleftrightarrow> i < 24 \<and> (if i = b then new_mark ty (bit w b) else bit w i)"
    using assms r unfolding update_word_def m
    by (cases ty) (auto simp: bit_and_iff bit_or_iff bit_xor_iff bit_MaskArray bit_mask_iff)
  have "w AND MaskArray b \<noteq> 0 \<longleftrightarrow> bit w b"
    using and_exp_eq_0_iff_not_bit [of w b] by (simp add: MaskArray_def push_bit_eq_mult)
  then show "ty \<noteq> FREE_BIT \<Longrightarrow> v \<noteq> 0 \<longleftrightarrow> bit w b"
    using assms(2) by (cases ty) (auto simp: update_word_def)
qed

text \<open>Cluster \<open>n\<close> is marked in the table in memory.\<close>

definition marked :: "('d, 'm) marks_scheme \<Rightarrow> nat \<Rightarrow> bool" where
  "marked s n \<longleftrightarrow> bit (XScratchSpace s ! (n div 24)) (n mod 24)"

lemma UpdateBit_memory:
  assumes "TypeFileSystem P \<noteq> FS_FAT32" and "length (XScratchSpace s) = 3540" and "n < 65544"
  obtains v w where "UpdateBit D P n ty s = Some (v, s\<lparr>XScratchSpace := w\<rparr>)" "length w = 3540"
    "ty \<noteq> FREE_BIT \<Longrightarrow> v \<noteq> 0 \<longleftrightarrow> marked s n"
    "\<And>m. marked (s\<lparr>XScratchSpace := w\<rparr>) m = (if m = n then new_mark ty (marked s n) else marked s m)"
proof -
  have k: "n div 24 < 3540" "n div 24 mod 16777216 = n div 24" "n - n div 24 * 24 = n mod 24"
    using assms(3) by (auto simp: less_mult_imp_div_less minus_div_mult_eq_mod)
  obtain v w where u: "update_word ty (n mod 24) (XScratchSpace s ! (n div 24)) = (v, w)"
    by force
  note bits = update_word_bits [OF _ u]
  let ?x = "(XScratchSpace s)[n div 24 := w]"
  have up: "UpdateBit D P n ty s = Some (v, s\<lparr>XScratchSpace := ?x\<rparr>)"
    using assms(1,2) k u by (simp add: UpdateBit_def update_scratch_def)
  have m: "marked (s\<lparr>XScratchSpace := ?x\<rparr>) m = (if m = n then new_mark ty (marked s n) else marked s m)" for m
  proof (cases "m div 24 = n div 24")
    case True
    then have "m = n \<longleftrightarrow> m mod 24 = n mod 24"
      by (metis div_mult_mod_eq)
    with True show ?thesis
      using bits(1) [of "m mod 24"] k(1) assms(2) by (simp add: marked_def)
  next
    case False
    then have "m \<noteq> n" by auto
    with False show ?thesis by (simp add: marked_def)
  qed
  show thesis
    by (rule that [OF up]) (use bits(2) m assms(2) in \<open>auto simp: marked_def\<close>)
qed

end
