(* ===== verification/Chkdsk.thy ===== *)
theory Chkdsk imports BitTable begin

text \<open>
  The disk checker, \<^verbatim>\<open>FileSystem/chkdsk/chkdsk.c\<close>: it walks the directory tree, follows the cluster
  chain of every file and directory, marks the clusters in the table of used clusters, deletes
  the directory entries whose chain is broken, shared or does not fit the size, and frees the
  clusters no surviving file uses.

  The one \<^verbatim>\<open>DIR_CTRL_BLK\<close> that every function is handed by pointer is part of the state. The
  functions are in the option monad: \<open>None\<close> is an access outside \<^verbatim>\<open>XScratchSpace\<close>, a loop that does
  not end, or a directory walk that has used up its fuel. A result \<open>True\<close> is \<^verbatim>\<open>NOERROR\<close>.
\<close>

section \<open>State\<close>

record 'd chk = "'d marks" +
  glb_wFileCorrupted :: nat
  glb_bFailReadSect :: bool
  Flag :: bool
  nestinglevel :: int
  g_iCheckDiskError :: bool
  StartSectCurDir :: nat
  wStartCxCurDir :: nat
  dir_dirty :: bool
  CurSect :: nat
  NumberFiles :: nat
  pwBuffer :: "BYTE list"

record FILE_CTRL_BLK =
  StartNameCharacter :: nat
  Attribut :: nat
  StartCluster :: nat
  Size :: nat

definition "BYTES_PER_DIR_RECORD = (32::nat)"
definition "DIR_REC_ATT_POS = (0x0b::nat)"
definition "DIR_REC_FIRST_CX_POS = (0x1a::nat)"
definition "DIR_REC_SIZE_POS = (0x1c::nat)"
definition "DIR_REC_FIRST_CX_HIGH_POS = (0x14::nat)"
definition "FILE_DELETED_CODE = (0xe5::nat)"
definition "MAX_ENTRIES_LONG_FILE_NAME = (20::nat)"
definition "MAX_NESTING_LEVEL = (16::int)"
definition "MAX_FAT_ENTRY_WORDS = (2731::nat)"

definition DIR_REC_PER_SECTOR :: "PARTITION_BOOT_SECTOR \<Rightarrow> nat" where
  "DIR_REC_PER_SECTOR P = (if cachedSectorSize P = 512 then 16 else 64)"

section \<open>Cluster chains\<close>

text \<open>
  The loops over a chain, with the function that fetches the next cluster, the one that updates a
  mark and the test for the last cluster as arguments.
\<close>

fun free_chain ::
    "(nat \<Rightarrow> 's \<Rightarrow> nat \<times> 's) \<Rightarrow> (Bittype \<Rightarrow> nat \<Rightarrow> 's \<Rightarrow> (WORD \<times> 's) option) \<Rightarrow> nat \<Rightarrow> nat \<Rightarrow> 's \<Rightarrow> 's option" where
  "free_chain nxt upd 0 wCluster s = Some s"
| "free_chain nxt upd (Suc n) wCluster s =
     do { (v, s) \<leftarrow> upd FREE_BIT wCluster s;
          let (wCluster, s) = nxt wCluster s;
          free_chain nxt upd n wCluster s }"

text \<open>The body of the loop runs for each count from 1 to 0x1ffff.\<close>

fun cross_link ::
    "(nat \<Rightarrow> 's \<Rightarrow> nat \<times> 's) \<Rightarrow> (Bittype \<Rightarrow> nat \<Rightarrow> 's \<Rightarrow> (WORD \<times> 's) option) \<Rightarrow> (nat \<Rightarrow> bool) \<Rightarrow> nat \<Rightarrow>
     nat \<Rightarrow> nat \<Rightarrow> nat \<Rightarrow> 's \<Rightarrow> (int \<times> 's) option" where
  "cross_link nxt upd last_cx 0 wStartCluster wClusterCount wCluster s = Some (int wClusterCount, s)"
| "cross_link nxt upd last_cx (Suc n) wStartCluster wClusterCount wCluster s =
     do { (v, s) \<leftarrow> upd SET_BIT wCluster s;
          if v \<noteq> 0
          then do { s \<leftarrow> free_chain nxt upd (wClusterCount - 1) wStartCluster s; Some (- 1, s) }
          else
            let (wCluster, s) = nxt wCluster s in
            if wCluster \<le> 1
            then do { s \<leftarrow> free_chain nxt upd wClusterCount wStartCluster s; Some (- 1, s) }
            else if last_cx wCluster then Some (int wClusterCount, s)
            else cross_link nxt upd last_cx n wStartCluster (wClusterCount + 1) wCluster s }"

definition check_cross_link ::
    "(nat \<Rightarrow> 's \<Rightarrow> nat \<times> 's) \<Rightarrow> (Bittype \<Rightarrow> nat \<Rightarrow> 's \<Rightarrow> (WORD \<times> 's) option) \<Rightarrow> (nat \<Rightarrow> bool) \<Rightarrow> nat \<Rightarrow>
     's \<Rightarrow> (int \<times> 's) option" where
  "check_cross_link nxt upd last_cx wStartCluster s =
     (if wStartCluster = 0 then Some (0, s)
      else cross_link nxt upd last_cx 0x1ffff wStartCluster 1 wStartCluster s)"

definition CheckCrossLinkFile ::
    "('d, 'x) media_ops_scheme \<Rightarrow> PARTITION_BOOT_SECTOR \<Rightarrow> nat \<Rightarrow> ('d, 'm) marks_scheme \<Rightarrow>
     (int \<times> ('d, 'm) marks_scheme) option" where
  "CheckCrossLinkFile D P = check_cross_link (GetNextCxFromFat D P) (\<lambda>ty c. UpdateBit D P c ty) (IsLastCx P)"

partial_function (option) reserve ::
    "(nat \<Rightarrow> 's \<Rightarrow> nat \<times> 's) \<Rightarrow> (Bittype \<Rightarrow> nat \<Rightarrow> 's \<Rightarrow> (WORD \<times> 's) option) \<Rightarrow> (nat \<Rightarrow> bool) \<Rightarrow> nat \<Rightarrow>
     nat \<Rightarrow> nat \<Rightarrow> 's \<Rightarrow> (bool \<times> 's) option" where
  "reserve nxt upd last_cx limit wClusterCount wCluster s =
     Option.bind (upd SET_BIT wCluster s) (\<lambda>(v, s).
       let (wCluster, s) = nxt wCluster s in
       if last_cx wCluster then Some (True, s)
       else let wClusterCount = (wClusterCount + 1) mod 16777216 in
            if wClusterCount \<ge> limit then Some (False, s)
            else reserve nxt upd last_cx limit wClusterCount wCluster s)"

definition ReserveCluster ::
    "('d, 'x) media_ops_scheme \<Rightarrow> PARTITION_BOOT_SECTOR \<Rightarrow> nat \<Rightarrow> ('d, 'm) chk_scheme \<Rightarrow> ('d, 'm) chk_scheme option" where
  "ReserveCluster D P wStartCluster s =
     (if wStartCluster = 0 then Some s
      else do { (ok, s) \<leftarrow> reserve (GetNextCxFromFat D P) (\<lambda>ty c. UpdateBit D P c ty)
                            (IsLastCx P) (dwTotalclusters P) 0 wStartCluster s;
                Some (if ok then s else s\<lparr>g_iCheckDiskError := True\<rparr>) })"

section \<open>Directory sectors\<close>

definition CxToSect :: "PARTITION_BOOT_SECTOR \<Rightarrow> nat \<Rightarrow> nat" where
  "CxToSect P wCx = dword ((int wCx - 2) * int (bSectPerCx P) + int (wStartSectData P))"

definition HandleFailReadSector :: "('d, 'm) chk_scheme \<Rightarrow> ('d, 'm) chk_scheme" where
  "HandleFailReadSector s = s\<lparr>glb_bFailReadSect := True\<rparr>"

definition write_dir :: "('d, 'x) media_ops_scheme \<Rightarrow> PARTITION_BOOT_SECTOR \<Rightarrow> ('d, 'm) chk_scheme \<Rightarrow> bool \<times> ('d, 'm) chk_scheme" where
  "write_dir D P s =
     (case DriveWriteSector D (CurSect s + iPbsSectorOffset P) (pwBuffer s) (media s) of
        None \<Rightarrow> (False, s) | Some d \<Rightarrow> (True, s\<lparr>media := d\<rparr>))"

definition ReadDirSector ::
    "('d, 'x) media_ops_scheme \<Rightarrow> PARTITION_BOOT_SECTOR \<Rightarrow> nat \<Rightarrow> ('d, 'm) chk_scheme \<Rightarrow> bool \<times> ('d, 'm) chk_scheme" where
  "ReadDirSector D P wSectNumber s =
     (if wSectNumber = CurSect s then (True, s)
      else let (ok, s) = (if dir_dirty s then write_dir D P s else (True, s)) in
           if \<not> ok then (False, s)
           else case DriveReadSector D (wSectNumber + iPbsSectorOffset P) (media s) of
                  None \<Rightarrow> (False, s)
                | Some data \<Rightarrow> (True, s\<lparr>pwBuffer := data, CurSect := wSectNumber, dir_dirty := False\<rparr>))"

definition GetFileCtrlBlk ::
    "('d, 'x) media_ops_scheme \<Rightarrow> PARTITION_BOOT_SECTOR \<Rightarrow> nat \<Rightarrow> nat \<Rightarrow> ('d, 'm) chk_scheme \<Rightarrow>
     FILE_CTRL_BLK option \<times> ('d, 'm) chk_scheme" where
  "GetFileCtrlBlk D P bRecordNumber wSectNumber s =
     (let (ok, s) = ReadDirSector D P wSectNumber s in
      if \<not> ok then (None, s)
      else let r = bRecordNumber * BYTES_PER_DIR_RECORD; b = pwBuffer s in
           (Some \<lparr>StartNameCharacter = FSGetByte b r, Attribut = FSGetByte b (r + DIR_REC_ATT_POS),
              StartCluster = FSGetWord b (r + DIR_REC_FIRST_CX_POS) + FSGetWord b (r + DIR_REC_FIRST_CX_HIGH_POS) * 65536,
              Size = FSGetDWord b (r + DIR_REC_SIZE_POS)\<rparr>, s))"

definition mark_deleted :: "nat \<Rightarrow> ('d, 'm) chk_scheme \<Rightarrow> ('d, 'm) chk_scheme" where
  "mark_deleted bRecordNumber s =
     s\<lparr>pwBuffer := PutByte (pwBuffer s) FILE_DELETED_CODE (bRecordNumber * BYTES_PER_DIR_RECORD), dir_dirty := True\<rparr>"

definition is_long_name :: "BYTE list \<Rightarrow> nat \<Rightarrow> bool" where
  "is_long_name b r \<longleftrightarrow> FSGetByte b (r + DIR_REC_ATT_POS) = 0x0f \<and> FSGetWord b (r + DIR_REC_FIRST_CX_POS) = 0"

text \<open>The loop over the long-name records before a deleted one, at most 21 times.\<close>

fun delete_long_names ::
    "('d, 'x) media_ops_scheme \<Rightarrow> PARTITION_BOOT_SECTOR \<Rightarrow> nat \<Rightarrow> nat \<Rightarrow> nat \<Rightarrow> ('d, 'm) chk_scheme \<Rightarrow>
     bool \<times> ('d, 'm) chk_scheme" where
  "delete_long_names D P 0 bCurRecord wCurSect s = (False, s)"
| "delete_long_names D P (Suc n) bCurRecord wCurSect s =
     (let (ok, s) = ReadDirSector D P wCurSect s in
      if \<not> ok then (False, s)
      else if is_long_name (pwBuffer s) (bCurRecord * BYTES_PER_DIR_RECORD)
      then let s = mark_deleted bCurRecord s in
           if bCurRecord = 0
           then delete_long_names D P n (DIR_REC_PER_SECTOR P - 1) (dword (int wCurSect - 1)) s
           else delete_long_names D P n (bCurRecord - 1) wCurSect s
      else (True, s))"

definition DeleteFileRecord ::
    "('d, 'x) media_ops_scheme \<Rightarrow> PARTITION_BOOT_SECTOR \<Rightarrow> nat \<Rightarrow> nat \<Rightarrow> ('d, 'm) chk_scheme \<Rightarrow> bool \<times> ('d, 'm) chk_scheme" where
  "DeleteFileRecord D P bRecordNumber wSectNumber s =
     (let s = s\<lparr>glb_wFileCorrupted := glb_wFileCorrupted s + 1\<rparr>;
          (ok, s) = ReadDirSector D P wSectNumber s in
      if \<not> ok then (False, s)
      else let s = mark_deleted bRecordNumber s in
           if bRecordNumber = 0 \<and> StartSectCurDir s = wSectNumber then (True, s)
           else if bRecordNumber = 0
           then delete_long_names D P (MAX_ENTRIES_LONG_FILE_NAME + 1) (DIR_REC_PER_SECTOR P - 1)
                  (dword (int wSectNumber - 1)) s
           else delete_long_names D P (MAX_ENTRIES_LONG_FILE_NAME + 1) (bRecordNumber - 1) wSectNumber s)"

text \<open>The tests a directory's first two records must pass; the result of the read is not looked at.\<close>

definition dir_records_ok :: "BYTE list \<Rightarrow> bool" where
  "dir_records_ok b \<longleftrightarrow>
     FSGetByte b 0 = 0x2e \<and>
     FSGetByte b DIR_REC_ATT_POS AND 0x10 \<noteq> 0 \<and>
     FSGetDWord b DIR_REC_SIZE_POS = 0 \<and>
     \<not> (FSGetDWord b DIR_REC_FIRST_CX_HIGH_POS = 0 \<and> FSGetDWord b DIR_REC_FIRST_CX_POS = 0) \<and>
     FSGetWord b BYTES_PER_DIR_RECORD = 0x2e2e \<and>
     FSGetByte b (DIR_REC_ATT_POS + BYTES_PER_DIR_RECORD) AND 0x10 \<noteq> 0 \<and>
     FSGetDWord b (DIR_REC_SIZE_POS + BYTES_PER_DIR_RECORD) = 0"

definition ScanDirectory ::
    "('d, 'x) media_ops_scheme \<Rightarrow> PARTITION_BOOT_SECTOR \<Rightarrow> ('d, 'm) chk_scheme \<Rightarrow> (bool \<times> ('d, 'm) chk_scheme) option" where
  "ScanDirectory D P s =
     (let (_, s) = ReadDirSector D P (StartSectCurDir s) s in
      if \<not> dir_records_ok (pwBuffer s) then Some (False, s)
      else do { (n, s) \<leftarrow> CheckCrossLinkFile D P (wStartCxCurDir s) s; Some (0 \<le> n, s) })"

section \<open>The walk over the directory tree\<close>

datatype control = Continue | Break | Return bool

text \<open>\<open>DeleteFileRecord\<close> as the walk calls it: on a failed write the walk takes \<open>fail\<close>.\<close>

definition delete_or ::
    "control \<Rightarrow> ('d, 'x) media_ops_scheme \<Rightarrow> PARTITION_BOOT_SECTOR \<Rightarrow> nat \<Rightarrow> nat \<Rightarrow> ('d, 'm) chk_scheme \<Rightarrow>
     control \<times> ('d, 'm) chk_scheme" where
  "delete_or fail D P RecordCounter Sect s =
     (case DeleteFileRecord D P RecordCounter Sect s of
        (False, s) \<Rightarrow> (fail, if fail = Break then HandleFailReadSector s else s)
      | (True, s) \<Rightarrow> (Continue, s\<lparr>Flag := True\<rparr>))"

text \<open>A record that is a directory; \<open>sub\<close> is the walk one level down.\<close>

definition scan_sub_dir ::
    "('d, 'x) media_ops_scheme \<Rightarrow> PARTITION_BOOT_SECTOR \<Rightarrow> (('d, 'm) chk_scheme \<Rightarrow> (bool \<times> ('d, 'm) chk_scheme) option) \<Rightarrow>
     nat \<Rightarrow> nat \<Rightarrow> ('d, 'm) chk_scheme \<Rightarrow> (control \<times> ('d, 'm) chk_scheme) option" where
  "scan_sub_dir D P sub RecordCounter Sect s =
     (case GetFileCtrlBlk D P RecordCounter Sect s of
        (None, s) \<Rightarrow> Some (Break, HandleFailReadSector s)
      | (Some f, s) \<Rightarrow>
          let (ok, s) = (if dir_dirty s then write_dir D P s else (True, s)) in
          if \<not> ok then Some (Break, HandleFailReadSector s)
          else do {
            (ok, s) \<leftarrow> ScanDirectory D P
              (s\<lparr>wStartCxCurDir := StartCluster f, StartSectCurDir := CxToSect P (StartCluster f),
                 NumberFiles := 0, dir_dirty := False\<rparr>);
            if \<not> ok then Some (delete_or Break D P RecordCounter Sect s)
            else do {
              (ok, s) \<leftarrow> sub s;
              Some (if ok then (Continue, s) else (Break, HandleFailReadSector s)) } })"

definition size_mismatch :: "PARTITION_BOOT_SECTOR \<Rightarrow> int \<Rightarrow> nat \<Rightarrow> bool" where
  "size_mismatch P wClusterCount sz \<longleftrightarrow>
     (let wCxSizeBytes = int (bSectPerCx P * cachedSectorSize P);
          dwFileSizeDiskBytes = wClusterCount * wCxSizeBytes
      in wClusterCount \<noteq> int sz \<and>
         (int sz > dwFileSizeDiskBytes \<or> int sz < dwFileSizeDiskBytes - wCxSizeBytes))"

text \<open>A record that is a file.\<close>

definition scan_file ::
    "('d, 'x) media_ops_scheme \<Rightarrow> PARTITION_BOOT_SECTOR \<Rightarrow> nat \<Rightarrow> nat \<Rightarrow> ('d, 'm) chk_scheme \<Rightarrow>
     (control \<times> ('d, 'm) chk_scheme) option" where
  "scan_file D P RecordCounter Sect s =
     (case GetFileCtrlBlk D P RecordCounter Sect s of
        (None, s) \<Rightarrow> Some (Return False, s)
      | (Some f, s) \<Rightarrow>
          if StartCluster f = 0 \<and> Size f = 0 then Some (Continue, s)
          else if StartCluster f = 0 \<or> Size f = 0
          then Some (delete_or (Return False) D P RecordCounter Sect s)
          else do {
            (wClusterCount, s) \<leftarrow> CheckCrossLinkFile D P (StartCluster f) s;
            if wClusterCount < 0 then Some (delete_or (Return False) D P RecordCounter Sect s)
            else if size_mismatch P wClusterCount (Size f)
            then do {
              s \<leftarrow> free_chain (GetNextCxFromFat D P) (\<lambda>ty c. UpdateBit D P c ty) (nat wClusterCount) (StartCluster f) s;
              Some (delete_or (Return False) D P RecordCounter Sect s) }
            else Some (Continue, s) })"

definition leave :: "('d, 'm) chk_scheme \<Rightarrow> ('d, 'm) chk_scheme" where
  "leave s = s\<lparr>Flag := True, nestinglevel := nestinglevel s - 1\<rparr>"

definition scan_record ::
    "('d, 'x) media_ops_scheme \<Rightarrow> PARTITION_BOOT_SECTOR \<Rightarrow> (('d, 'm) chk_scheme \<Rightarrow> (bool \<times> ('d, 'm) chk_scheme) option) \<Rightarrow>
     nat \<Rightarrow> nat \<Rightarrow> ('d, 'm) chk_scheme \<Rightarrow> (control \<times> ('d, 'm) chk_scheme) option" where
  "scan_record D P sub Sect RecordCounter s =
     (let (ok, s) = (if Flag s
                     then let (ok, s) = ReadDirSector D P Sect s in (ok, if ok then s\<lparr>Flag := False\<rparr> else s)
                     else (True, s));
          StartRecordByte = RecordCounter * BYTES_PER_DIR_RECORD;
          first = FSGetByte (pwBuffer s) StartRecordByte;
          att = FSGetByte (pwBuffer s) (StartRecordByte + DIR_REC_ATT_POS)
      in if \<not> ok then Some (Return False, s)
         else if first = 0 then Some (Return True, leave s)
         else if first = 0xe5 \<or> first = 0x2e then Some (Continue, s)
         else if is_long_name (pwBuffer s) StartRecordByte then Some (Continue, s)
         else if att AND 0x10 \<noteq> 0 then scan_sub_dir D P sub RecordCounter Sect s
         else if att AND 0x08 = 0 then scan_file D P RecordCounter Sect s
         else Some (Continue, s))"

fun scan_records ::
    "(nat \<Rightarrow> 's \<Rightarrow> (control \<times> 's) option) \<Rightarrow> nat list \<Rightarrow> 's \<Rightarrow> (bool option \<times> 's) option" where
  "scan_records step [] s = Some (None, s)"
| "scan_records step (r # rs) s =
     do { (c, s) \<leftarrow> step r s;
          case c of
            Continue \<Rightarrow> scan_records step rs s
          | Break \<Rightarrow> Some (None, s)
          | Return ok \<Rightarrow> Some (Some ok, s) }"

fun scan_sectors ::
    "('d, 'x) media_ops_scheme \<Rightarrow> PARTITION_BOOT_SECTOR \<Rightarrow> (('d, 'm) chk_scheme \<Rightarrow> (bool \<times> ('d, 'm) chk_scheme) option) \<Rightarrow>
     nat \<Rightarrow> nat \<Rightarrow> ('d, 'm) chk_scheme \<Rightarrow> (bool option \<times> ('d, 'm) chk_scheme) option" where
  "scan_sectors D P sub 0 Sect s = Some (None, s)"
| "scan_sectors D P sub (Suc n) Sect s =
     (case ReadDirSector D P Sect s of
        (False, s) \<Rightarrow> Some (Some False, s)
      | (True, s) \<Rightarrow>
          do { (r, s) \<leftarrow> scan_records (scan_record D P sub Sect) [0..<DIR_REC_PER_SECTOR P] s;
               case r of
                 Some ok \<Rightarrow> Some (Some ok, s)
               | None \<Rightarrow> scan_sectors D P sub n (Sect + 1) s })"

text \<open>The clusters of one directory; the fuel bounds the length of its chain.\<close>

fun scan_clusters ::
    "('d, 'x) media_ops_scheme \<Rightarrow> PARTITION_BOOT_SECTOR \<Rightarrow> (('d, 'm) chk_scheme \<Rightarrow> (bool \<times> ('d, 'm) chk_scheme) option) \<Rightarrow>
     nat \<Rightarrow> nat \<Rightarrow> nat \<Rightarrow> ('d, 'm) chk_scheme \<Rightarrow> (bool \<times> ('d, 'm) chk_scheme) option" where
  "scan_clusters D P sub 0 CurCx Sect s = None"
| "scan_clusters D P sub (Suc fuel) CurCx Sect s =
     do { (r, s) \<leftarrow> scan_sectors D P sub (if CurCx = 0 then wNumberRootDirSectors P else bSectPerCx P) Sect s;
          case r of
            Some ok \<Rightarrow> Some (ok, s)
          | None \<Rightarrow>
              if CurCx = 0 then Some (True, leave s)
              else let (CurCx, s) = GetNextCxFromFat D P CurCx s in
                   if CurCx \<le> 1 then Some (False, s)
                   else if IsLastCx P CurCx then Some (True, leave s)
                   else scan_clusters D P sub fuel CurCx (CxToSect P CurCx) s }"

text \<open>\<open>depth\<close> bounds the recursion; \<^verbatim>\<open>nestinglevel\<close> stops it at 16, so 17 is enough.\<close>

fun ScanFilesAndSubDirs ::
    "('d, 'x) media_ops_scheme \<Rightarrow> PARTITION_BOOT_SECTOR \<Rightarrow> nat \<Rightarrow> nat \<Rightarrow> ('d, 'm) chk_scheme \<Rightarrow>
     (bool \<times> ('d, 'm) chk_scheme) option" where
  "ScanFilesAndSubDirs D P fuel 0 s = None"
| "ScanFilesAndSubDirs D P fuel (Suc depth) s =
     (let s = s\<lparr>Flag := True, nestinglevel := nestinglevel s + 1\<rparr>
      in if nestinglevel s > MAX_NESTING_LEVEL then Some (True, s\<lparr>nestinglevel := nestinglevel s - 1\<rparr>)
         else scan_clusters D P (ScanFilesAndSubDirs D P fuel depth) fuel (wStartCxCurDir s) (StartSectCurDir s) s)"

section \<open>Freeing the clusters no file uses\<close>

fun scan_and_update ::
    "(nat \<Rightarrow> 's \<Rightarrow> (WORD \<times> 's) option) \<Rightarrow> (nat \<Rightarrow> 's \<Rightarrow> bool \<times> 's) \<Rightarrow> nat list \<Rightarrow> 's \<Rightarrow> (bool \<times> 's) option" where
  "scan_and_update get free [] s = Some (True, s)"
| "scan_and_update get free (c # cs) s =
     do { (v, s) \<leftarrow> get c s;
          if v = 0
          then let (ok, s) = free c s in if ok then scan_and_update get free cs s else Some (False, s)
          else scan_and_update get free cs s }"

definition ScanAndUpdateFat ::
    "('d, 'x) media_ops_scheme \<Rightarrow> PARTITION_BOOT_SECTOR \<Rightarrow> ('d, 'm) marks_scheme \<Rightarrow> (bool \<times> ('d, 'm) marks_scheme) option" where
  "ScanAndUpdateFat D P =
     scan_and_update (\<lambda>c. UpdateBit D P c GET_BIT) (FreeCxFat D P) [2..<dwTotalclusters P]"

section \<open>The boot sector\<close>

definition "BYTE_POS_SIGNATURE = (0x1fe::nat)"
definition "BYTE_POS_NUM_SECT_PER_CX = (0x0d::nat)"
definition "BYTE_POS_NUM_RES_SECT = (0x0e::nat)"
definition "BYTE_POS_NUM_FAT = (0x10::nat)"
definition "BYTE_POS_NUM_ROOT_SECT = (0x11::nat)"
definition "BYTE_POS_TOTAL_SECTS = (0x13::nat)"
definition "BYTE_POS_NUM_FAT_SECT = (0x16::nat)"
definition "BYTE_POS_NUM_HIDDEN_SECT = (0x1c::nat)"
definition "BYTE_POS_TOTAL_SECTS_32 = (0x20::nat)"
definition "BYTE_POS_NUM_FAT_SECT_32 = (0x24::nat)"
definition "BYTE_POS_ROOT_DIR_CX = (0x2c::nat)"
definition "SIGN_WORD_VALUE = (0xaa55::nat)"

definition fat_type :: "nat \<Rightarrow> FAT_TYPE" where
  "fat_type Totalclusters =
     (if Totalclusters < 4085 then FS_FAT12 else if Totalclusters < 65525 then FS_FAT16 else FS_FAT32)"

text \<open>\<^verbatim>\<open>InitPartitionBootSectorStruct\<close> on the bytes of the boot sector.\<close>

definition read_bpb :: "BYTE list \<Rightarrow> nat \<Rightarrow> nat \<Rightarrow> PARTITION_BOOT_SECTOR option" where
  "read_bpb b sec_size offset =
     (if FSGetWord b BYTE_POS_SIGNATURE \<noteq> SIGN_WORD_VALUE then None
      else
        let per_sector = (if sec_size = 512 then 16 else 64);
            fats = FSGetByte b BYTE_POS_NUM_FAT;
            root = FSGetWord b BYTE_POS_NUM_ROOT_SECT;
            fat_sectors = (if FSGetWord b BYTE_POS_NUM_FAT_SECT = 0 then FSGetDWord b BYTE_POS_NUM_FAT_SECT_32
                           else FSGetWord b BYTE_POS_NUM_FAT_SECT);
            per_cx = FSGetByte b BYTE_POS_NUM_SECT_PER_CX
        in if per_cx \<notin> {1, 2, 4, 8, 16, 32, 64, 128} then None
           else
             let sectors = (if FSGetWord b BYTE_POS_TOTAL_SECTS = 0 then FSGetDWord b BYTE_POS_TOTAL_SECTS_32
                            else FSGetWord b BYTE_POS_TOTAL_SECTS);
                 primary = FSGetWord b BYTE_POS_NUM_RES_SECT;
                 secondary = primary + fat_sectors;
                 rootdir = secondary + fat_sectors;
                 data = dword (int sectors - int (primary + fats * fat_sectors + root div per_sector));
                 clusters = data div per_cx + 1
             in if fat_type clusters = FS_FAT32 \<and> fats < 2 then None
                else Some
                  \<lparr>TypeFileSystem = fat_type clusters, bSectPerCx = per_cx, bNumberFats = fats,
                   wNumberRootDirEntries = root, wNumberFatSectors = fat_sectors,
                   wStartSectPrimaryFat = primary, wStartSectSecondaryFat = secondary,
                   wStartSectRootDir = rootdir, wStartSectData = rootdir + root div per_sector,
                   dwNumHiddenSectors = FSGetDWord b BYTE_POS_NUM_HIDDEN_SECT,
                   wNumberRootDirSectors = root div per_sector,
                   Rootdirstartcx = (if fat_type clusters = FS_FAT32 then FSGetDWord b BYTE_POS_ROOT_DIR_CX else 0),
                   dwTotalsectors = sectors, dwTotalclusters = clusters,
                   cachedSectorSize = sec_size, iPbsSectorOffset = offset\<rparr>)"

definition InitPartitionBootSectorStruct ::
    "('d, 'x) drive_scheme \<Rightarrow> nat \<Rightarrow> nat \<Rightarrow> 'd \<Rightarrow> PARTITION_BOOT_SECTOR option" where
  "InitPartitionBootSectorStruct D sec_size offset d =
     Option.bind (DriveReadSector D offset d) (\<lambda>b. read_bpb b sec_size offset)"

section \<open>CheckDisk\<close>

text \<open>The table of used clusters is cleared, apart from the two clusters that are always reserved.\<close>

fun write_zero_sectors ::
    "('d, 'x) drive_scheme \<Rightarrow> PARTITION_BOOT_SECTOR \<Rightarrow> nat \<Rightarrow> nat \<Rightarrow> ('d, 'm) fat_scheme \<Rightarrow> bool \<times> ('d, 'm) fat_scheme" where
  "write_zero_sectors D P 0 sectorno s = (True, s)"
| "write_zero_sectors D P (Suc n) sectorno s =
     (case DriveWriteSector D (sectorno + iPbsSectorOffset P) (replicate (cachedSectorSize P) 0) (media s) of
        None \<Rightarrow> (False, s)
      | Some d \<Rightarrow> write_zero_sectors D P n (sectorno + 1) (s\<lparr>media := d\<rparr>))"

definition clear_table ::
    "('d, 'x) drive_scheme \<Rightarrow> PARTITION_BOOT_SECTOR \<Rightarrow> ('d, 'm) marks_scheme \<Rightarrow> bool \<times> ('d, 'm) marks_scheme" where
  "clear_table D P s =
     (if TypeFileSystem P = FS_FAT32
      then let sectorno = FirstSecondaryFatSect s;
               n = cachedWordsPerSector P;
               TotalFatsectors = dwTotalclusters P div 2 ^ CLUSTER_ENTRY_PER_SECTOR_SHIFT + 1
           in case DriveWriteSector D (sectorno + iPbsSectorOffset P) (3 # replicate (cachedSectorSize P - 1) 0) (media s) of
                None \<Rightarrow> (False, s)
              | Some d \<Rightarrow> write_zero_sectors D P (TotalFatsectors - 1) (sectorno + 1)
                  (s\<lparr>media := d, XScratchSpace := replicate n 0 @ drop n (XScratchSpace s)\<rparr>)
      else (True, s\<lparr>XScratchSpace := 3 # replicate (MAX_FAT_ENTRY_WORDS - 1) 0 @ drop MAX_FAT_ENTRY_WORDS (XScratchSpace s)\<rparr>))"

definition start_check :: "PARTITION_BOOT_SECTOR \<Rightarrow> ('d, 'm) chk_scheme \<Rightarrow> ('d, 'm) chk_scheme" where
  "start_check P s =
     s\<lparr>StartSectCurDir := wStartSectRootDir P, wStartCxCurDir := Rootdirstartcx P, CurSect := 0, NumberFiles := 0,
       dir_dirty := False, FirstPrimaryFatSect := wStartSectPrimaryFat P,
       FirstSecondaryFatSect := wStartSectSecondaryFat P, fat_dirty := False, FatSectorCached := 0\<rparr>"

fun read_sectors :: "('d, 'x) drive_scheme \<Rightarrow> nat \<Rightarrow> nat \<Rightarrow> 'd \<Rightarrow> BYTE list list option" where
  "read_sectors D 0 sector d = Some []"
| "read_sectors D (Suc n) sector d =
     do { b \<leftarrow> DriveReadSector D sector d; bs \<leftarrow> read_sectors D n (sector + 1) d; Some (b # bs) }"

fun write_sectors :: "('d, 'x) drive_scheme \<Rightarrow> BYTE list list \<Rightarrow> nat \<Rightarrow> ('d, 'm) fat_scheme \<Rightarrow> bool \<times> ('d, 'm) fat_scheme" where
  "write_sectors D [] sector s = (True, s)"
| "write_sectors D (b # bs) sector s =
     (case DriveWriteSector D sector b (media s) of
        None \<Rightarrow> (False, s)
      | Some d \<Rightarrow> write_sectors D bs (sector + 1) (s\<lparr>media := d\<rparr>))"

text \<open>The copy of the primary FAT to the secondary one, five sectors at a time.\<close>

function copy_fat ::
    "('d, 'x) drive_scheme \<Rightarrow> nat \<Rightarrow> nat \<Rightarrow> nat \<Rightarrow> ('d, 'm) fat_scheme \<Rightarrow> ('d, 'm) fat_scheme" where
  "copy_fat D left from to s =
     (if left = 0 then s
      else let n = (if left > MAX_CACHES then MAX_CACHES else left)
           in case read_sectors D n from (media s) of
                None \<Rightarrow> s
              | Some bs \<Rightarrow>
                  (case write_sectors D bs to s of
                     (False, s) \<Rightarrow> s
                   | (True, s) \<Rightarrow> copy_fat D (left - n) (from + n) (to + n) s))"
  by pat_completeness auto
termination
  by (relation "measure (\<lambda>(D, left, from, to, s). left)") (auto simp: MAX_CACHES_def)

declare copy_fat.simps [simp del]

text \<open>The second pass: flush the directory, free the unused clusters, flush the FAT.\<close>

definition second_pass ::
    "('d, 'x) media_ops_scheme \<Rightarrow> PARTITION_BOOT_SECTOR \<Rightarrow> ('d, 'm) chk_scheme \<Rightarrow> (bool \<times> ('d, 'm) chk_scheme) option" where
  "second_pass D P s =
     (let (ok, s) = (if dir_dirty s then write_dir D P s else (True, s)) in
      if \<not> ok then Some (False, HandleFailReadSector s)
      else do {
        (_, s) \<leftarrow> ScanAndUpdateFat D P s;
        Some (if fat_dirty s
              then case WriteFatSector D P (FatSectorCached s) s of
                     (False, s) \<Rightarrow> (False, HandleFailReadSector s)
                   | (True, s) \<Rightarrow> (True, s)
              else (True, s)) })"

definition copy_count :: "PARTITION_BOOT_SECTOR \<Rightarrow> ('d, 'm) chk_scheme \<Rightarrow> nat" where
  "copy_count P s =
     (if glb_wFileCorrupted s \<noteq> 0 \<and> \<not> glb_bFailReadSect s then wNumberFatSectors P
      else if TypeFileSystem P = FS_FAT32 then dwTotalclusters P div 2 ^ CLUSTER_ENTRY_PER_SECTOR_SHIFT + 1
      else 0)"

definition check_volume ::
    "('d, 'x) media_ops_scheme \<Rightarrow> nat \<Rightarrow> PARTITION_BOOT_SECTOR \<Rightarrow> ('d, 'm) chk_scheme \<Rightarrow> ('d, 'm) chk_scheme option" where
  "check_volume D fuel P s =
     (let (ok, s) = clear_table D P (start_check P s) in
      if \<not> ok then Some s
      else let (_, s) = LoadFatSector D P (wStartSectPrimaryFat P) s in
      do {
        s \<leftarrow> ReserveCluster D P (Rootdirstartcx P) s;
        if g_iCheckDiskError s then Some s
        else do {
          (ok, s) \<leftarrow> ScanFilesAndSubDirs D P fuel 17 s;
          if \<not> ok then Some (HandleFailReadSector s)
          else do {
            (ok, s) \<leftarrow> (if glb_wFileCorrupted s \<noteq> 0 \<and> \<not> glb_bFailReadSect s then second_pass D P s else Some (True, s));
            if \<not> ok then Some s
            else Some (copy_fat D (copy_count P s) (FirstPrimaryFatSect s + iPbsSectorOffset P)
                         (FirstSecondaryFatSect s + iPbsSectorOffset P) s) } } })"

text \<open>
  The whole check of one drive. The media table's two fields, the initialisation of the drive and the
  sector size of its descriptor come from outside.
\<close>

definition CheckDisk ::
    "('d, 'x) media_ops_scheme \<Rightarrow> nat \<Rightarrow> nat \<Rightarrow> nat \<Rightarrow> nat \<Rightarrow> bool \<Rightarrow> nat \<Rightarrow> nat \<Rightarrow> ('d, 'm) chk_scheme \<Rightarrow> ('d, 'm) chk_scheme option" where
  "CheckDisk D fuel bDiskNum RsvdSectors FATSize init_ok sec_size offset s =
     (let s = s\<lparr>glb_wFileCorrupted := 0, glb_bFailReadSect := False, g_iCheckDiskError := False\<rparr> in
      if bDiskNum = 0 \<and> (RsvdSectors = 0 \<or> FATSize = 0) \<or> \<not> init_ok \<or> sec_size \<noteq> 512 \<and> sec_size \<noteq> 2048
      then Some (s\<lparr>g_iCheckDiskError := True\<rparr>)
      else let s = s\<lparr>CacheDesc_chkdsk := map (\<lambda>d. d\<lparr>CacheValid := False, WriteAttribute := False\<rparr>) (CacheDesc_chkdsk s)\<rparr>
           in case InitPartitionBootSectorStruct D sec_size offset (media s) of
                None \<Rightarrow> Some s
              | Some P \<Rightarrow> check_volume D fuel P s)"

end
