(* ===== verification/ChkdskChains.thy ===== *)
theory ChkdskChains imports Chkdsk begin

text \<open>
  What the checker's passes do to the table of used clusters: \<^verbatim>\<open>CheckCrossLinkFile\<close> marks exactly the
  clusters of a sound chain and otherwise leaves every mark as it was, \<^verbatim>\<open>ReserveCluster\<close> ends, and
  \<^verbatim>\<open>ScanAndUpdateFat\<close> frees the unmarked clusters it looks at and no other. The proofs are in the
  locale \<open>marked_chain\<close>, which adds a mark per cluster to the interface of the FAT.
\<close>

section \<open>Chains\<close>

fun path :: "(nat \<Rightarrow> nat) \<Rightarrow> nat \<Rightarrow> nat list \<Rightarrow> nat \<Rightarrow> bool" where
  "path e x [] y \<longleftrightarrow> x = y"
| "path e x (a # as) y \<longleftrightarrow> a = x \<and> path e (e x) as y"

lemma path_append: "path e x (as @ bs) y \<longleftrightarrow> (\<exists>z. path e x as z \<and> path e z bs y)"
  by (induction as arbitrary: x) auto

text \<open>The clusters of a file whose chain ends in a last-cluster mark.\<close>

inductive file_chain :: "(nat \<Rightarrow> nat) \<Rightarrow> (nat \<Rightarrow> bool) \<Rightarrow> nat \<Rightarrow> nat list \<Rightarrow> bool" for e last_cx where
  last: "1 < e c \<Longrightarrow> last_cx (e c) \<Longrightarrow> file_chain e last_cx c [c]"
| more: "1 < e c \<Longrightarrow> \<not> last_cx (e c) \<Longrightarrow> file_chain e last_cx (e c) cs \<Longrightarrow> file_chain e last_cx c (c # cs)"

inductive_cases file_chain_elim: "file_chain e last_cx c cs"

lemma file_chain_head: "file_chain e last_cx c cs \<Longrightarrow> \<exists>ds. cs = c # ds \<and> 1 < e c"
  by (erule file_chain_elim) auto

lemma file_chain_next:
  "\<not> last_cx (e c) \<Longrightarrow> file_chain e last_cx c cs \<longleftrightarrow> 1 < e c \<and> (\<exists>ds. cs = c # ds \<and> file_chain e last_cx (e c) ds)"
  by (auto elim: file_chain_elim intro: file_chain.more)

text \<open>Following a chain from its start: all or nothing.\<close>

definition sound_chain :: "(nat \<Rightarrow> nat) \<Rightarrow> (nat \<Rightarrow> bool) \<Rightarrow> (nat \<Rightarrow> bool) \<Rightarrow> nat \<Rightarrow> nat list \<Rightarrow> bool" where
  "sound_chain e last_cx M c cs \<longleftrightarrow> file_chain e last_cx c cs \<and> distinct cs \<and> (\<forall>x\<in>set cs. \<not> M x)"

section \<open>A table with marks\<close>

locale marked_chain = cluster_table nxt free good entry valid rest
  for nxt :: "nat \<Rightarrow> 's \<Rightarrow> nat \<times> 's" and free :: "nat \<Rightarrow> 's \<Rightarrow> bool \<times> 's" and good :: "'s \<Rightarrow> bool"
    and entry :: "'s \<Rightarrow> nat \<Rightarrow> nat" and valid :: "nat \<Rightarrow> bool" and rest :: "'s \<Rightarrow> 'r" +
  fixes upd :: "Bittype \<Rightarrow> nat \<Rightarrow> 's \<Rightarrow> (WORD \<times> 's) option" and mk :: "'s \<Rightarrow> nat \<Rightarrow> bool"
  assumes upd: "good s \<Longrightarrow> valid c \<Longrightarrow> \<exists>v s'. upd ty c s = Some (v, s') \<and> good s' \<and>
      (\<forall>c'. valid c' \<longrightarrow> entry s' c' = entry s c') \<and> (ty \<noteq> FREE_BIT \<longrightarrow> (v \<noteq> 0 \<longleftrightarrow> mk s c)) \<and>
      (\<forall>c'. mk s' c' = (if c' = c then new_mark ty (mk s c) else mk s c'))"
    and rest_marks: "rest s' = rest s \<Longrightarrow> mk s' = mk s"
begin

lemma get_keeps:
  assumes "good s" and "valid c" and "\<forall>c. valid c \<longrightarrow> entry s c = e c"
  obtains s' where "nxt c s = (e c, s')" "good s'" "\<forall>c. valid c \<longrightarrow> entry s' c = e c" "mk s' = mk s"
  using get [OF assms(1,2)] assms(2,3) rest_marks by metis

lemma upd_keeps:
  assumes "good s" and "valid c" and "\<forall>c. valid c \<longrightarrow> entry s c = e c"
  obtains v s' where "upd ty c s = Some (v, s')" "good s'" "\<forall>c. valid c \<longrightarrow> entry s' c = e c"
    "ty \<noteq> FREE_BIT \<Longrightarrow> v \<noteq> 0 \<longleftrightarrow> mk s c" "\<And>c'. mk s' c' = (if c' = c then new_mark ty (mk s c) else mk s c')"
  using upd [OF assms(1,2), of ty] assms(3) by metis

lemma free_chain_ok:
  "good s \<Longrightarrow> \<forall>c. valid c \<longrightarrow> entry s c = e c \<Longrightarrow> path e c cs y \<Longrightarrow> \<forall>x\<in>set cs. valid x \<Longrightarrow>
   \<exists>s'. free_chain nxt upd (length cs) c s = Some s' \<and> good s' \<and> (\<forall>c. valid c \<longrightarrow> entry s' c = e c) \<and>
     (\<forall>c'. mk s' c' \<longleftrightarrow> mk s c' \<and> c' \<notin> set cs)"
proof (induction cs arbitrary: c s)
  case (Cons a cs)
  then have c: "valid c" "a = c" "path e (e c) cs y"
    by auto
  obtain v s1 where s1: "upd FREE_BIT c s = Some (v, s1)" "good s1" "\<forall>c. valid c \<longrightarrow> entry s1 c = e c"
    "\<And>c'. mk s1 c' = (if c' = c then new_mark FREE_BIT (mk s c) else mk s c')"
    using upd_keeps [OF Cons.prems(1) c(1) Cons.prems(2), of FREE_BIT] by metis
  obtain s2 where s2: "nxt c s1 = (e c, s2)" "good s2" "\<forall>c. valid c \<longrightarrow> entry s2 c = e c" "mk s2 = mk s1"
    using get_keeps [OF s1(2) c(1) s1(3)] by metis
  obtain s' where s': "free_chain nxt upd (length cs) (e c) s2 = Some s'" "good s'"
    "\<forall>c. valid c \<longrightarrow> entry s' c = e c" "\<forall>c'. mk s' c' \<longleftrightarrow> mk s2 c' \<and> c' \<notin> set cs"
    using Cons.IH [OF s2(2,3) c(3)] Cons.prems(4) by auto
  have "free_chain nxt upd (length (a # cs)) c s = Some s'"
    by (simp add: s1(1) s2(1) s'(1))
  moreover have "mk s' c' \<longleftrightarrow> mk s c' \<and> c' \<notin> set (a # cs)" for c'
    using s'(4) s2(4) s1(4) c(2) by auto
  ultimately show ?case
    using s'(2,3) by blast
qed auto

text \<open>The outcome of following a chain whose first clusters \<open>ds\<close> are done and have been marked.\<close>

definition outcome :: "(nat \<Rightarrow> nat) \<Rightarrow> (nat \<Rightarrow> bool) \<Rightarrow> (nat \<Rightarrow> bool) \<Rightarrow> nat \<Rightarrow> nat list \<Rightarrow> nat \<Rightarrow> int \<Rightarrow> 's \<Rightarrow> bool" where
  "outcome e last_cx M n ds c r s' \<longleftrightarrow>
     (r = - 1 \<and> (\<forall>c'. mk s' c' \<longleftrightarrow> M c') \<and>
        \<not> (\<exists>cs. file_chain e last_cx c cs \<and> distinct (ds @ cs) \<and> (\<forall>x\<in>set cs. \<not> M x))) \<or>
     (\<exists>cs. file_chain e last_cx c cs \<and> distinct (ds @ cs) \<and> (\<forall>x\<in>set cs. \<not> M x \<and> valid x) \<and>
        r = int (length ds + length cs) \<and> (\<forall>c'. mk s' c' \<longleftrightarrow> M c' \<or> c' \<in> set (ds @ cs))) \<or>
     (\<exists>cs. length cs = n \<and> distinct (ds @ cs) \<and> (\<forall>x\<in>set cs. valid x))"

lemma outcome_step:
  assumes "outcome e last_cx M n (ds @ [c]) (e c) r s'" and "1 < e c" and "\<not> last_cx (e c)" and "\<not> M c" and "valid c"
  shows "outcome e last_cx M (Suc n) ds c r s'"
proof -
  consider (fail) "r = - 1" "\<forall>c'. mk s' c' \<longleftrightarrow> M c'"
      "\<not> (\<exists>cs. file_chain e last_cx (e c) cs \<and> distinct (ds @ c # cs) \<and> (\<forall>x\<in>set cs. \<not> M x))"
    | (chain) cs where "file_chain e last_cx (e c) cs" "distinct (ds @ c # cs)" "\<forall>x\<in>set cs. \<not> M x \<and> valid x"
      "r = int (length ds + length (c # cs))" "\<forall>c'. mk s' c' \<longleftrightarrow> M c' \<or> c' \<in> set (ds @ c # cs)"
    | (long) cs where "length cs = n" "distinct (ds @ c # cs)" "\<forall>x\<in>set cs. valid x"
    using assms(1) unfolding outcome_def by auto
  then show ?thesis
  proof cases
    case fail
    have "\<not> (\<exists>cs. file_chain e last_cx c cs \<and> distinct (ds @ cs) \<and> (\<forall>x\<in>set cs. \<not> M x))"
    proof clarify
      fix cs assume cs: "file_chain e last_cx c cs" "distinct (ds @ cs)" "\<forall>x\<in>set cs. \<not> M x"
      then obtain cs' where "cs = c # cs'" "file_chain e last_cx (e c) cs'"
        using file_chain_next [where last_cx = last_cx and e = e and c = c] assms(3) by blast
      moreover from this(1) cs(2,3) have "distinct (ds @ c # cs')" "\<forall>x\<in>set cs'. \<not> M x"
        by simp_all
      ultimately show False
        using fail(3) by blast
    qed
    with fail(1,2) show ?thesis
      unfolding outcome_def by blast
  next
    case (chain cs)
    then show ?thesis
      unfolding outcome_def using assms(2-5) file_chain.more [where e = e and c = c and last_cx = last_cx and cs = cs]
      by (intro disjI2 disjI1 exI [of _ "c # cs"]) auto
  next
    case (long cs)
    then show ?thesis
      unfolding outcome_def using assms(5) by (intro disjI2 exI [of _ "c # cs"]) auto
  qed
qed

lemma cross_link_ok:
  assumes closed: "\<forall>c. valid c \<longrightarrow> e c \<le> 1 \<or> last_cx (e c) \<or> valid (e c)"
  shows "good s \<Longrightarrow> \<forall>c. valid c \<longrightarrow> entry s c = e c \<Longrightarrow> path e start ds c \<Longrightarrow> \<forall>x\<in>set ds. valid x \<and> \<not> M x \<Longrightarrow>
    valid c \<Longrightarrow> distinct ds \<Longrightarrow> \<forall>c'. mk s c' \<longleftrightarrow> M c' \<or> c' \<in> set ds \<Longrightarrow>
    \<exists>r s'. cross_link nxt upd last_cx n start (length ds + 1) c s = Some (r, s') \<and> good s' \<and>
      (\<forall>c. valid c \<longrightarrow> entry s' c = e c) \<and> outcome e last_cx M n ds c r s'"
proof (induction n arbitrary: ds c s)
  case 0
  then show ?case by (simp add: outcome_def)
next
  case (Suc n)
  note good = Suc.prems(1) and ent = Suc.prems(2) and path = Suc.prems(3) and ds = Suc.prems(4)
    and c = Suc.prems(5) and dist = Suc.prems(6) and marks = Suc.prems(7)
  obtain v s1 where s1: "upd SET_BIT c s = Some (v, s1)" "good s1" "\<forall>c. valid c \<longrightarrow> entry s1 c = e c"
    "v \<noteq> 0 \<longleftrightarrow> mk s c" "\<And>c'. mk s1 c' = (if c' = c then new_mark SET_BIT (mk s c) else mk s c')"
    using upd_keeps [OF good c ent, of SET_BIT] by (metis Bittype.distinct(5))
  show ?case
  proof (cases "v = 0")
    case False
    obtain s' where s': "free_chain nxt upd (length ds) start s1 = Some s'" "good s'"
      "\<forall>c. valid c \<longrightarrow> entry s' c = e c" "\<forall>c'. mk s' c' \<longleftrightarrow> mk s1 c' \<and> c' \<notin> set ds"
      using free_chain_ok [OF s1(2,3) path] ds by auto
    have "mk s' c' \<longleftrightarrow> M c'" for c'
      using s'(4) s1(4,5) marks ds False by auto
    moreover have "\<not> (\<exists>cs. file_chain e last_cx c cs \<and> distinct (ds @ cs) \<and> (\<forall>x\<in>set cs. \<not> M x))"
      using file_chain_head [of e last_cx c] s1(4) marks False by fastforce
    ultimately have "outcome e last_cx M (Suc n) ds c (- 1) s'"
      by (simp add: outcome_def)
    with s' s1(1) False show ?thesis by auto
  next
    case True
    then have new: "\<not> M c" "c \<notin> set ds"
      using s1(4) marks by auto
    obtain s2 where s2: "nxt c s1 = (e c, s2)" "good s2" "\<forall>c. valid c \<longrightarrow> entry s2 c = e c" "mk s2 = mk s1"
      using get_keeps [OF s1(2) c s1(3)] by metis
    have marks2: "mk s2 c' \<longleftrightarrow> M c' \<or> c' \<in> set (ds @ [c])" for c'
      using s2(4) s1(5) marks by auto
    have path2: "path e start (ds @ [c]) (e c)"
      using path by (auto simp: path_append)
    consider (bad) "e c \<le> 1" | (last) "1 < e c" "last_cx (e c)" | (more) "1 < e c" "\<not> last_cx (e c)"
      by linarith
    then show ?thesis
    proof cases
      case bad
      obtain s' where s': "free_chain nxt upd (length (ds @ [c])) start s2 = Some s'" "good s'"
        "\<forall>c. valid c \<longrightarrow> entry s' c = e c" "\<forall>c'. mk s' c' \<longleftrightarrow> mk s2 c' \<and> c' \<notin> set (ds @ [c])"
        using free_chain_ok [OF s2(2,3) path2] ds c by auto
      have "outcome e last_cx M (Suc n) ds c (- 1) s'"
        unfolding outcome_def using s'(4) marks2 new ds bad file_chain_head [of e last_cx c] by fastforce
      with s' s1(1) True s2(1) bad show ?thesis by (auto simp del: free_chain.simps)
    next
      case last
      have "outcome e last_cx M (Suc n) ds c (int (length ds + 1)) s2"
        unfolding outcome_def using file_chain.last [where e = e and c = c and last_cx = last_cx] last marks2 dist new c
        by (intro disjI2 disjI1 exI [of _ "[c]"]) auto
      with s1(1) True s2 last show ?thesis by auto
    next
      case more
      have v: "valid (e c)"
        using closed c more by fastforce
      obtain r s' where r: "cross_link nxt upd last_cx n start (length (ds @ [c]) + 1) (e c) s2 = Some (r, s')"
        "good s'" "\<forall>c. valid c \<longrightarrow> entry s' c = e c" "outcome e last_cx M n (ds @ [c]) (e c) r s'"
        using Suc.IH [OF s2(2,3) path2 _ v] ds c new dist marks2 by auto
      have "outcome e last_cx M (Suc n) ds c r s'"
        using outcome_step [OF r(4) more new(1) c] by simp
      with r s1(1) True s2(1) more show ?thesis by auto
    qed
  qed
qed

lemma check_cross_link_ok:
  assumes "good s" and "valid c" and "c \<noteq> 0"
    and closed: "\<forall>c. valid c \<longrightarrow> entry s c \<le> 1 \<or> last_cx (entry s c) \<or> valid (entry s c)"
    and few: "finite {c. valid c}" "card {c. valid c} < 0x1ffff"
  shows "\<exists>r s'. check_cross_link nxt upd last_cx c s = Some (r, s') \<and> good s' \<and>
    (\<forall>c. valid c \<longrightarrow> entry s' c = entry s c) \<and>
    ((\<exists>cs. sound_chain (entry s) last_cx (mk s) c cs \<and> r = int (length cs) \<and>
        (\<forall>c'. mk s' c' \<longleftrightarrow> mk s c' \<or> c' \<in> set cs)) \<or>
     r = - 1 \<and> (\<forall>c'. mk s' c' \<longleftrightarrow> mk s c') \<and> \<not> (\<exists>cs. sound_chain (entry s) last_cx (mk s) c cs))"
proof -
  obtain r s' where r: "cross_link nxt upd last_cx 0x1ffff c (length [] + 1) c s = Some (r, s')" "good s'"
    "\<forall>c. valid c \<longrightarrow> entry s' c = entry s c" "outcome (entry s) last_cx (mk s) 0x1ffff [] c r s'"
    using cross_link_ok [OF closed assms(1), where start = c and ds = "[]" and M = "mk s" and c = c and n = "0x1ffff"]
      assms(2) by auto
  have "\<not> (\<exists>cs. length cs = 0x1ffff \<and> distinct cs \<and> (\<forall>x\<in>set cs. valid x))"
  proof
    assume "\<exists>cs. length cs = 0x1ffff \<and> distinct cs \<and> (\<forall>x\<in>set cs. valid x)"
    then obtain cs where "length cs = 0x1ffff" "distinct cs" "set cs \<subseteq> {c. valid c}"
      by auto
    then show False
      using card_mono [OF few(1), of "set cs"] few(2) distinct_card [of cs] by simp
  qed
  then show ?thesis
    using r assms(3) unfolding check_cross_link_def outcome_def sound_chain_def by (simp del: cross_link.simps) blast
qed

lemma reserve_ends:
  assumes closed: "\<forall>c. valid c \<longrightarrow> last_cx (e c) \<or> valid (e c)" and "limit < 16777216"
  shows "good s \<Longrightarrow> \<forall>c. valid c \<longrightarrow> entry s c = e c \<Longrightarrow> valid c \<Longrightarrow> k < limit \<or> k = 0 \<Longrightarrow>
    \<exists>ok s'. reserve nxt upd last_cx limit k c s = Some (ok, s') \<and> good s' \<and>
      (\<forall>c. valid c \<longrightarrow> entry s' c = e c) \<and> mk s' c \<and> (\<forall>c'. mk s c' \<longrightarrow> mk s' c')"
proof (induction "limit - k" arbitrary: k c s rule: less_induct)
  case less
  obtain v s1 where s1: "upd SET_BIT c s = Some (v, s1)" "good s1" "\<forall>c. valid c \<longrightarrow> entry s1 c = e c"
    "\<And>c'. mk s1 c' = (if c' = c then new_mark SET_BIT (mk s c) else mk s c')"
    using upd_keeps [OF less.prems(1,3,2), of SET_BIT] by metis
  obtain s2 where s2: "nxt c s1 = (e c, s2)" "good s2" "\<forall>c. valid c \<longrightarrow> entry s2 c = e c" "mk s2 = mk s1"
    using get_keeps [OF s1(2) less.prems(3) s1(3)] by metis
  have k: "(k + 1) mod 16777216 = k + 1"
    using less.prems(4) assms(2) by auto
  have step: "reserve nxt upd last_cx limit k c s =
      (if last_cx (e c) then Some (True, s2) else if k + 1 \<ge> limit then Some (False, s2)
       else reserve nxt upd last_cx limit (k + 1) (e c) s2)"
    by (subst reserve.simps) (simp only: s1(1) s2(1) k Option.bind.simps prod.case Let_def)
  have m: "mk s2 c" "\<forall>c'. mk s c' \<longrightarrow> mk s2 c'"
    using s1(4) s2(4) by auto
  show ?case
  proof (cases "last_cx (e c) \<or> k + 1 \<ge> limit")
    case True
    with step s2 m show ?thesis by auto
  next
    case False
    then have "valid (e c)"
      using closed less.prems(3) by blast
    then obtain ok s' where "reserve nxt upd last_cx limit (k + 1) (e c) s2 = Some (ok, s')" "good s'"
      "\<forall>c. valid c \<longrightarrow> entry s' c = e c" "\<forall>c'. mk s2 c' \<longrightarrow> mk s' c'"
    proof -
      have "limit - (k + 1) < limit - k"
        using False by arith
      then show thesis
        using less.hyps [of "k + 1" s2 "e c"] s2(2,3) False \<open>valid (e c)\<close> that by auto
    qed
    with step False m show ?thesis by auto
  qed
qed

lemma scan_and_update_ok:
  "good s \<Longrightarrow> \<forall>c\<in>set cs. valid c \<Longrightarrow>
   \<exists>s'. scan_and_update (\<lambda>c. upd GET_BIT c) free cs s = Some (True, s') \<and> good s' \<and> mk s' = mk s \<and>
     (\<forall>c. valid c \<longrightarrow> entry s' c = (if c \<in> set cs \<and> \<not> mk s c then 0 else entry s c))"
proof (induction cs arbitrary: s)
  case (Cons c cs)
  then have c: "valid c" and cs: "\<forall>c\<in>set cs. valid c"
    by auto
  obtain v s1 where s1: "upd GET_BIT c s = Some (v, s1)" "good s1" "\<forall>c. valid c \<longrightarrow> entry s1 c = entry s c"
    "v \<noteq> 0 \<longleftrightarrow> mk s c" "\<And>c'. mk s1 c' = (if c' = c then new_mark GET_BIT (mk s c) else mk s c')"
    using upd_keeps [OF Cons.prems(1) c, of "entry s" GET_BIT] by (metis Bittype.distinct(3))
  have m1: "mk s1 = mk s"
    by (intro ext) (simp add: s1(5))
  show ?case
  proof (cases "v = 0")
    case True
    obtain s2 where s2: "free c s1 = (True, s2)" "good s2" "rest s2 = rest s1"
      "\<forall>c'. valid c' \<longrightarrow> entry s2 c' = (if c' = c then 0 else entry s1 c')"
      using free [OF s1(2) c] by blast
    obtain s' where s': "scan_and_update (\<lambda>c. upd GET_BIT c) free cs s2 = Some (True, s')" "good s'" "mk s' = mk s2"
      "\<forall>c. valid c \<longrightarrow> entry s' c = (if c \<in> set cs \<and> \<not> mk s2 c then 0 else entry s2 c)"
      using Cons.IH [OF s2(2) cs] by blast
    have m2: "mk s2 = mk s"
      using rest_marks [OF s2(3)] m1 by simp
    have "\<forall>c'. valid c' \<longrightarrow> entry s' c' = (if c' \<in> set (c # cs) \<and> \<not> mk s c' then 0 else entry s c')"
      using s'(4) s2(4) s1(3,4) True m2 by auto
    with s' s1(1) s2(1) True m2 show ?thesis by auto
  next
    case False
    obtain s' where s': "scan_and_update (\<lambda>c. upd GET_BIT c) free cs s1 = Some (True, s')" "good s'" "mk s' = mk s1"
      "\<forall>c. valid c \<longrightarrow> entry s' c = (if c \<in> set cs \<and> \<not> mk s1 c then 0 else entry s1 c)"
      using Cons.IH [OF s1(2) cs] by blast
    with s1 False m1 show ?thesis by auto
  qed
qed auto

end

section \<open>The table in memory, for FAT12 and FAT16\<close>

definition chk_good :: "('d, 'x) media_ops_scheme \<Rightarrow> PARTITION_BOOT_SECTOR \<Rightarrow> ('d \<Rightarrow> bool) \<Rightarrow> ('d, 'm) marks_scheme \<Rightarrow> bool" where
  "chk_good D P I s \<longleftrightarrow> fat_ok D P I s \<and> TypeFileSystem P \<noteq> FS_FAT32 \<and> length (XScratchSpace s) = 3540"

definition chk_cluster :: "PARTITION_BOOT_SECTOR \<Rightarrow> nat \<Rightarrow> bool" where
  "chk_cluster P c \<longleftrightarrow> valid_cluster P c \<and> c < 65544"

lemma same_rest_scratch: "same_rest s s' \<Longrightarrow> XScratchSpace s' = XScratchSpace s"
  unfolding same_rest_def by (drule arg_cong [where f = XScratchSpace]) simp

lemma fat_ok_scratch: "fat_ok D P I (s\<lparr>XScratchSpace := w\<rparr>) \<longleftrightarrow> fat_ok D P I s"
  by (simp add: fat_ok_def)

lemma fat_entry_scratch: "fat_entry D P (s\<lparr>XScratchSpace := w\<rparr>) = fat_entry D P s"
proof -
  have "fat_sector D P (s\<lparr>XScratchSpace := w\<rparr>) = fat_sector D P s"
    by (intro ext) (simp add: fat_sector_def)
  then show ?thesis
    by (intro ext) (simp add: fat_entry_def fat_byte_def [abs_def])
qed

interpretation chk: marked_chain "GetNextCxFromFat D P" "FreeCxFat D P" "chk_good D P I" "fat_entry D P"
    "chk_cluster P" "XScratchSpace :: ('d, 'm) marks_scheme \<Rightarrow> WORD list"
    "\<lambda>ty c. UpdateBit D P c ty" marked for D :: "('d, 'x) media_ops_scheme" and P I
proof
  fix s :: "('d, 'm) marks_scheme" and c ty
  assume good: "chk_good D P I s" and c: "chk_cluster P c"
  then have s: "fat_ok D P I s" "valid_cluster P c" and t: "TypeFileSystem P \<noteq> FS_FAT32"
    and l: "length (XScratchSpace s) = 3540" and n: "c < 65544"
    by (simp_all add: chk_good_def chk_cluster_def)
  have sub: "chk_cluster P c' \<Longrightarrow> valid_cluster P c'" for c'
    by (simp add: chk_cluster_def)
  have keep: "chk_good D P I s'" "XScratchSpace s' = XScratchSpace s"
    if "fat_ok D P I s'" "same_rest s s'" for s' :: "('d, 'm) marks_scheme"
    using that same_rest_scratch [of s s'] t l by (simp_all add: chk_good_def)
  obtain s1 where s1: "GetNextCxFromFat D P c s = (fat_entry D P s c, s1)" "fat_ok D P I s1" "same_rest s s1"
    "\<And>c'. valid_cluster P c' \<Longrightarrow> fat_entry D P s1 c' = fat_entry D P s c'"
    using get_ok [OF s] by metis
  then show "\<exists>s'. GetNextCxFromFat D P c s = (fat_entry D P s c, s') \<and> chk_good D P I s' \<and>
      XScratchSpace s' = XScratchSpace s \<and> (\<forall>c'. chk_cluster P c' \<longrightarrow> fat_entry D P s' c' = fat_entry D P s c')"
    using keep [OF s1(2,3)] sub by blast
  obtain s2 where s2: "FreeCxFat D P c s = (True, s2)" "fat_ok D P I s2" "same_rest s s2"
    "\<And>c'. valid_cluster P c' \<Longrightarrow> fat_entry D P s2 c' = (if c' = c then 0 else fat_entry D P s c')"
    using free_ok [OF s] by metis
  then show "\<exists>s'. FreeCxFat D P c s = (True, s') \<and> chk_good D P I s' \<and> XScratchSpace s' = XScratchSpace s \<and>
      (\<forall>c'. chk_cluster P c' \<longrightarrow> fat_entry D P s' c' = (if c' = c then 0 else fat_entry D P s c'))"
    using keep [OF s2(2,3)] sub by blast
  obtain v w where "UpdateBit D P c ty s = Some (v, s\<lparr>XScratchSpace := w\<rparr>)" "length w = 3540"
    "ty \<noteq> FREE_BIT \<Longrightarrow> v \<noteq> 0 \<longleftrightarrow> marked s c"
    "\<And>m. marked (s\<lparr>XScratchSpace := w\<rparr>) m = (if m = c then new_mark ty (marked s c) else marked s m)"
    using UpdateBit_memory [OF t l n] by metis
  then show "\<exists>v s'. UpdateBit D P c ty s = Some (v, s') \<and> chk_good D P I s' \<and>
      (\<forall>c'. chk_cluster P c' \<longrightarrow> fat_entry D P s' c' = fat_entry D P s c') \<and>
      (ty \<noteq> FREE_BIT \<longrightarrow> (v \<noteq> 0 \<longleftrightarrow> marked s c)) \<and>
      (\<forall>c'. marked s' c' = (if c' = c then new_mark ty (marked s c) else marked s c'))"
    using s(1) t by (intro exI [of _ v] exI [of _ "s\<lparr>XScratchSpace := w\<rparr>"])
      (simp add: chk_good_def fat_ok_scratch fat_entry_scratch)
next
  fix s s' :: "('d, 'm) marks_scheme"
  assume "XScratchSpace s' = XScratchSpace s"
  then show "marked s' = marked s"
    by (simp add: marked_def fun_eq_iff)
qed

lemma chk_cluster_few: "finite {c. chk_cluster P c}" "card {c. chk_cluster P c} < 0x1ffff"
proof -
  have s: "{c. chk_cluster P c} \<subseteq> {..<65544}"
    by (auto simp: chk_cluster_def)
  then show "finite {c. chk_cluster P c}"
    by (rule finite_subset) simp
  have "card {c. chk_cluster P c} \<le> card {..<65544::nat}"
    using s by (intro card_mono) auto
  then show "card {c. chk_cluster P c} < 0x1ffff"
    by simp
qed

end
