(* ===== verification/ChkdskProps.thy ===== *)
theory ChkdskProps imports ChkdskChains begin

text \<open>
  The properties of the disk checker, and a drive in memory with a small FAT16 volume on which
  their hypotheses hold.
\<close>

section \<open>The numbers of the boot sector\<close>

lemma FSGet_bounds: "FSGetByte b i < 256" "FSGetWord b i < 65536" "FSGetDWord b i < 4294967296"
proof -
  show byte: "FSGetByte b i < 256" for i
    using unsigned_less [of "b ! i"] by (simp add: FSGetByte_def)
  show word: "FSGetWord b i < 65536" for i
    using byte [of i] byte [of "i + 1"] by (simp add: FSGetWord_def)
  show "FSGetDWord b i < 4294967296"
    using word [of i] word [of "i + 2"] by (simp add: FSGetDWord_def)
qed

lemma read_bpb_fields:
  assumes "read_bpb b n off = Some P"
  shows "0 < bSectPerCx P" and "bSectPerCx P \<le> 128" and "dwTotalsectors P < 4294967296"
    and "wStartSectData P = wStartSectPrimaryFat P + 2 * wNumberFatSectors P + wNumberRootDirSectors P"
    and "dwTotalclusters P = dword (int (dwTotalsectors P) -
      int (wStartSectPrimaryFat P + bNumberFats P * wNumberFatSectors P + wNumberRootDirSectors P)) div bSectPerCx P + 1"
proof -
  have c: "(if c then None else x) = Some y \<longleftrightarrow> \<not> c \<and> x = Some y" for c x and y :: PARTITION_BOOT_SECTOR
    by simp
  have w: "FSGetWord b BYTE_POS_TOTAL_SECTS < 4294967296"
    using FSGet_bounds(2) [of b BYTE_POS_TOTAL_SECTS] by simp
  note P = assms [unfolded read_bpb_def Let_def c option.inject]
  show "0 < bSectPerCx P" "bSectPerCx P \<le> 128"
    using P by (elim conjE; force)+
  show "dwTotalsectors P < 4294967296"
    using P w FSGet_bounds(3) [of b BYTE_POS_TOTAL_SECTS_32] by (elim conjE) (drule sym, simp)
  show "wStartSectData P = wStartSectPrimaryFat P + 2 * wNumberFatSectors P + wNumberRootDirSectors P"
    using P by (elim conjE) (drule sym, simp)
  show "dwTotalclusters P = dword (int (dwTotalsectors P) -
      int (wStartSectPrimaryFat P + bNumberFats P * wNumberFatSectors P + wNumberRootDirSectors P)) div bSectPerCx P + 1"
    using P by (elim conjE) (drule sym, simp)
qed

lemma dword_small: "0 \<le> x \<Longrightarrow> x < 281474976710656 \<Longrightarrow> dword x = nat x"
  by (simp add: dword_def)

section \<open>Properties\<close>

text \<open>
  C13. With a drive that works, freeing any clusters of a FAT12, FAT16 or FAT32 volume, in any order and
  however the groups of the table come and go in the buffer, makes exactly their entries 0:
  fetching any cluster afterwards gives 0 for the freed ones and the old entry for the others.
\<close>

theorem FAT_free_then_get:
  assumes "fat_ok D P I s" and "\<forall>c\<in>set cs. valid_cluster P c" and "valid_cluster P c"
  shows "\<exists>s'. foldl (\<lambda>(ok, s) c. if ok then FreeCxFat D P c s else (False, s)) (True, s) cs = (True, s') \<and>
    fst (GetNextCxFromFat D P c s') = (if c \<in> set cs then 0 else fat_entry D P s c)"
proof -
  obtain s' where "foldl (\<lambda>(ok, s) c. if ok then FreeCxFat D P c s else (False, s)) (True, s) cs = (True, s')"
    "fat_ok D P I s'" "\<forall>c'. valid_cluster P c' \<longrightarrow> fat_entry D P s' c' = (if c' \<in> set cs then 0 else fat_entry D P s c')"
    using fat.free_list [OF assms(1,2)] by blast
  moreover from fat.get [OF this(2) assms(3)] have "fst (GetNextCxFromFat D P c s') = fat_entry D P s' c"
    by auto
  ultimately show ?thesis
    using assms(3) by auto
qed

text \<open>
  C1. On a FAT12 or FAT16 volume whose entries stay inside the table, checking a file whose chain is
  sound (ends in a last-cluster mark, has no cluster twice and none that another file uses)
  gives the length of the chain and marks exactly its clusters; checking any other gives -1 and
  leaves every mark as it was.
\<close>

theorem CheckCrossLinkFile_exact:
  fixes D :: "('d, 'x) media_ops_scheme" and s :: "('d, 'm) marks_scheme"
  assumes "chk_good D P I s" and "chk_cluster P c" and "c \<noteq> 0"
    and "\<forall>c. chk_cluster P c \<longrightarrow> fat_entry D P s c \<le> 1 \<or> IsLastCx P (fat_entry D P s c) \<or> chk_cluster P (fat_entry D P s c)"
  shows "\<exists>r s'. CheckCrossLinkFile D P c s = Some (r, s') \<and>
    ((\<exists>cs. sound_chain (fat_entry D P s) (IsLastCx P) (marked s) c cs \<and> r = int (length cs) \<and>
        (\<forall>c'. marked s' c' \<longleftrightarrow> marked s c' \<or> c' \<in> set cs)) \<or>
     r = - 1 \<and> (\<forall>c'. marked s' c' \<longleftrightarrow> marked s c') \<and>
       \<not> (\<exists>cs. sound_chain (fat_entry D P s) (IsLastCx P) (marked s) c cs))"
  using chk.check_cross_link_ok [OF assms chk_cluster_few]
  unfolding CheckCrossLinkFile_def by blast




section \<open>A small volume in memory\<close>

definition mem_drive :: "(nat \<Rightarrow> BYTE list) media_ops" where
  "mem_drive =
     \<lparr>DriveReadSector = \<lambda>n d. Some (d n), DriveWriteSector = \<lambda>n b d. Some (d(n := b)),
      MediaRead = \<lambda>n d. None, MediaWrite = \<lambda>n ws d. None\<rparr>"

definition mem_ok :: "(nat \<Rightarrow> BYTE list) \<Rightarrow> bool" where
  "mem_ok d \<longleftrightarrow> (\<forall>n. length (d n) = 512)"

text \<open>A FAT16 volume whose FAT has all 65536 entries, in which cluster 2 is followed by 3, and 5 by 6 and back.\<close>

definition volume16 :: PARTITION_BOOT_SECTOR where
  "volume16 =
     \<lparr>TypeFileSystem = FS_FAT16, bSectPerCx = 1, bNumberFats = 2, wNumberRootDirEntries = 16, wNumberFatSectors = 256,
      wStartSectPrimaryFat = 1, wStartSectSecondaryFat = 257, wStartSectRootDir = 513, wStartSectData = 514,
      dwNumHiddenSectors = 0, wNumberRootDirSectors = 1, Rootdirstartcx = 0, dwTotalsectors = 5614,
      dwTotalclusters = 8, cachedSectorSize = 512, iPbsSectorOffset = 0\<rparr>"

definition fat16_disk :: "nat \<Rightarrow> BYTE list" where
  "fat16_disk n =
     (if n = 1 then [0xf8, 0xff, 0xff, 0xff, 3, 0, 0xff, 0xff, 0, 0, 6, 0, 5, 0, 4, 0] @ replicate 496 0
      else replicate 512 0)"

definition start16 :: "(nat \<Rightarrow> BYTE list) chk" where
  "start16 =
     \<lparr>media = fat16_disk, FatSectorCached = 0, fat_dirty = False, FirstPrimaryFatSect = 1,
      FirstSecondaryFatSect = 257, fat_buffer = replicate 1536 0,
      XScratchSpace = 15 # replicate 3539 0, CacheDesc_chkdsk = [],
      glb_wFileCorrupted = 0, glb_bFailReadSect = False, Flag = False, nestinglevel = 0, g_iCheckDiskError = False,
      StartSectCurDir = 0, wStartCxCurDir = 0, dir_dirty = False, CurSect = 0, NumberFiles = 0, pwBuffer = []\<rparr>"

lemma mem_drive_laws: "cachedSectorSize P = 512 \<Longrightarrow> drive_laws mem_drive P mem_ok"
  by (auto simp: drive_laws_def mem_drive_def mem_ok_def)

lemma volume16_ok: "layout_ok volume16" "mem_ok fat16_disk" "drive_laws mem_drive volume16 mem_ok"
  by (simp_all add: layout_ok_def volume16_def mem_drive_laws) (simp add: mem_ok_def fat16_disk_def)

lemma start16_ok: "fat_ok mem_drive volume16 mem_ok start16"
  unfolding fat_ok_def using volume16_ok by (simp add: start16_def volume16_def)

lemma start16_good: "chk_good mem_drive volume16 mem_ok start16"
  using start16_ok by (simp add: chk_good_def volume16_def start16_def)

lemma volume16_cluster: "c < 65536 \<Longrightarrow> valid_cluster volume16 c \<and> chk_cluster volume16 c"
  by (simp add: chk_cluster_def valid_cluster_def entry_end_def volume16_def)

lemma start16_byte:
  "fat_byte mem_drive volume16 start16 i = unat (fat16_disk (1 + i div 512) ! (i mod 512))"
  by (simp add: fat_byte_def fat_sector_def disk_sector_def start16_def volume16_def mem_drive_def)

lemma start16_entry:
  "fat_entry mem_drive volume16 start16 c =
    fat_byte mem_drive volume16 start16 (2 * c) + 256 * fat_byte mem_drive volume16 start16 (2 * c + 1)"
  by (simp add: fat_entry_def entry_of_def volume16_def)

lemma start16_closed: "chk_cluster volume16 (fat_entry mem_drive volume16 start16 c)"
proof -
  have "fat_byte mem_drive volume16 start16 i < 256" for i
    using unsigned_less [of "fat16_disk (1 + i div 512) ! (i mod 512)"] by (simp add: start16_byte)
  from this [of "2 * c"] this [of "2 * c + 1"] show ?thesis
    using volume16_cluster by (simp add: start16_entry)
qed

lemma start16_entries:
  "fat_entry mem_drive volume16 start16 2 = 3" "fat_entry mem_drive volume16 start16 3 = 0xffff"
  "fat_entry mem_drive volume16 start16 5 = 6" "fat_entry mem_drive volume16 start16 7 = 4"
  by (simp_all add: start16_entry start16_byte fat16_disk_def)

theorem FAT_free_then_get_witness:
  "\<exists>s'. foldl (\<lambda>(ok, s) c. if ok then FreeCxFat mem_drive volume16 c s else (False, s)) (True, start16) [7, 40000, 5] = (True, s') \<and>
    fst (GetNextCxFromFat mem_drive volume16 2 s') = 3"
  using FAT_free_then_get [OF start16_ok, of "[7, 40000, 5]" 2] by (simp add: volume16_cluster start16_entries)

theorem CheckCrossLinkFile_exact_witness:
  "\<exists>s'. CheckCrossLinkFile mem_drive volume16 7 start16 = Some (- 1, s')"
proof -
  have l: "IsLastCx volume16 c \<longleftrightarrow> c = 0xffff" for c
    by (simp add: IsLastCx_def volume16_def)
  have "fat_entry mem_drive volume16 start16 4 = 0"
    by (simp add: start16_entry start16_byte fat16_disk_def)
  then have "\<not> file_chain (fat_entry mem_drive volume16 start16) (IsLastCx volume16) 4 cs" for cs
    using file_chain_head [of "fat_entry mem_drive volume16 start16" "IsLastCx volume16" 4 cs] by auto
  then have "\<not> file_chain (fat_entry mem_drive volume16 start16) (IsLastCx volume16) 7 cs" for cs
    using file_chain_next [of "IsLastCx volume16" "fat_entry mem_drive volume16 start16" 7 cs]
    by (simp add: start16_entries l)
  then show ?thesis
    using CheckCrossLinkFile_exact [OF start16_good, of 7] start16_closed volume16_cluster [of 7]
    by (auto simp: sound_chain_def)
qed



text \<open>A FAT12 volume of 104 sectors, 100 of them for data: clusters 2 to 101.\<close>

definition boot12 :: "BYTE list" where
  "boot12 = map (\<lambda>i. if i = 0x1fe then 0x55 else if i = 0x1ff then 0xaa else if i = 0x0d then 1 else if i = 0x0e then 1
     else if i = 0x10 then 2 else if i = 0x11 then 16 else if i = 0x13 then 104 else if i = 0x16 then 1 else 0) [0..<512]"

definition volume12 :: PARTITION_BOOT_SECTOR where
  "volume12 =
     \<lparr>TypeFileSystem = FS_FAT12, bSectPerCx = 1, bNumberFats = 2, wNumberRootDirEntries = 16, wNumberFatSectors = 1,
      wStartSectPrimaryFat = 1, wStartSectSecondaryFat = 2, wStartSectRootDir = 3, wStartSectData = 4,
      dwNumHiddenSectors = 0, wNumberRootDirSectors = 1, Rootdirstartcx = 0, dwTotalsectors = 104,
      dwTotalclusters = 101, cachedSectorSize = 512, iPbsSectorOffset = 0\<rparr>"

lemma boot12_volume: "read_bpb boot12 512 0 = Some volume12"
proof -
  have b: "i < 512 \<Longrightarrow> FSGetByte boot12 i = (if i = 0x1fe then 0x55 else if i = 0x1ff then 0xaa else if i = 0x0d then 1
      else if i = 0x0e then 1 else if i = 0x10 then 2 else if i = 0x11 then 16 else if i = 0x13 then 104
      else if i = 0x16 then 1 else 0)" for i
    by (simp add: FSGetByte_def boot12_def)
  show ?thesis
    by (simp add: read_bpb_def Let_def FSGetDWord_def FSGetWord_def b BYTE_POS_SIGNATURE_def SIGN_WORD_VALUE_def
        BYTE_POS_NUM_FAT_def BYTE_POS_NUM_ROOT_SECT_def BYTE_POS_NUM_FAT_SECT_def BYTE_POS_NUM_SECT_PER_CX_def
        BYTE_POS_TOTAL_SECTS_def BYTE_POS_NUM_RES_SECT_def BYTE_POS_NUM_HIDDEN_SECT_def dword_small fat_type_def
        volume12_def)
qed

lemma start12_good: "chk_good mem_drive volume12 mem_ok start16"
  unfolding chk_good_def fat_ok_def using volume16_ok(2)
  by (simp add: start16_def volume12_def layout_ok_def mem_drive_laws)


end
