(* ===== verification/Nand.thy ===== *)
theory Nand imports Prelude begin

text \<open>
  Bytes and 16-bit words packed into the 24-bit words of a sector buffer, the redundant area of a
  NAND sector and its CRC: \<^verbatim>\<open>System/Common/WordIo.c\<close>, and \<^verbatim>\<open>NANDRA_utils.c\<close> and the
  \<^verbatim>\<open>CRC8\<close> of \<^verbatim>\<open>NANDHalStartComputeEcc.c\<close> under
  \<^verbatim>\<open>DeviceDriver/Media/SmartMedia/BootManager/STMP3500/ECC\<close>.

  A buffer is a list of words, three bytes in each, the first in the low bits; an index into it is a
  \<open>nat\<close>.
\<close>

section \<open>WordIo.c and the byte access of NANDRA\_utils.c\<close>

definition GetByteFromArrayInX :: "WORD list \<Rightarrow> nat \<Rightarrow> WORD" where
  "GetByteFromArrayInX p n =
     (let w = p ! (n div 3) in
      if n mod 3 = 0 then w AND 0xff
      else if n mod 3 = 1 then drop_bit 8 w AND 0xff
      else drop_bit 16 w AND 0xff)"

definition GetWordX :: "nat \<Rightarrow> WORD list \<Rightarrow> WORD" where
  "GetWordX wByteNumber pwBuffer =
     (let wOffsetToWord = wByteNumber div 3;
          wOffsetByte = wByteNumber - wOffsetToWord * 3;
          wResult = pwBuffer ! wOffsetToWord
      in if wOffsetByte = 0 then wResult AND 0x00ffff
         else if wOffsetByte = 1 then drop_bit 8 (wResult AND 0xffff00)
         else push_bit 8 (pwBuffer ! (wOffsetToWord + 1) AND 0x0000ff) + drop_bit 16 (wResult AND 0xff0000))"

definition GetDWordX :: "nat \<Rightarrow> WORD list \<Rightarrow> DWORD" where
  "GetDWordX wByteNumber pwBuffer =
     (let wLSWord = GetWordX wByteNumber pwBuffer;
          wMSWord = GetWordX (wByteNumber + 2) pwBuffer
      in push_bit 16 (ucast wMSWord) + ucast wLSWord)"

definition SetWordY :: "nat \<Rightarrow> WORD \<Rightarrow> WORD list \<Rightarrow> WORD list" where
  "SetWordY wByteNumber wWord pwBuffer =
     (let wOffsetToWord = wByteNumber div 3;
          wOffsetByte = wByteNumber - wOffsetToWord * 3;
          wResult = pwBuffer ! wOffsetToWord
      in if wOffsetByte = 0 then pwBuffer[wOffsetToWord := wResult AND 0xff0000 OR wWord]
         else if wOffsetByte = 1 then pwBuffer[wOffsetToWord := wResult AND 0x0000ff OR push_bit 8 wWord]
         else
           let pwBuffer = pwBuffer[wOffsetToWord := wResult AND 0x00ffff OR push_bit 16 wWord];
               wResult = pwBuffer ! (wOffsetToWord + 1)
           in pwBuffer[wOffsetToWord + 1 := wResult AND 0xffff00 OR drop_bit 8 wWord])"

section \<open>The CRC\<close>

definition crcvalues :: "WORD list" where
  "crcvalues =
    [0x0E0700, 0x1B1C09, 0x381512, 0x31363F, 0x2A2324, 0x77702D, 0x6C797E, 0x65626B,
     0x464F48, 0x535441, 0xE05D5A, 0xE9EEE7, 0xF2FBFC, 0xDFD8F5, 0xC4D1D6, 0xCDCAC3,
     0x9E9790, 0x8B8C99, 0xA88582, 0xA1A6AF, 0xBAB3B4, 0xC0C7BD, 0xDBCEC9, 0xD2D5DC,
     0xF1F8FF, 0xE4E3F6, 0xB7EAED, 0xBEB9B0, 0xA5ACAB, 0x888FA2, 0x938681, 0x9A9D94,
     0x292027, 0x3C3B2E, 0x1F3235, 0x161118, 0x0D0403, 0x50570A, 0x4B5E59, 0x42454C,
     0x61686F, 0x747366, 0x897A7D, 0x80878E, 0x9B9295, 0xB6B19C, 0xADB8BF, 0xA4A3AA,
     0xF7FEF9, 0xE2E5F0, 0xC1ECEB, 0xC8CFC6, 0xD3DADD, 0x6E69D4, 0x756067, 0x7C7B72,
     0x5F5651, 0x4A4D58, 0x194443, 0x10171E, 0x0B0205, 0x26210C, 0x3D282F, 0x34333A,
     0x40494E, 0x555247, 0x765B5C, 0x7F7871, 0x646D6A, 0x393E63, 0x223730, 0x2B2C25,
     0x080106, 0x1D1A0F, 0xAE1314, 0xA7A0A9, 0xBCB5B2, 0x9196BB, 0x8A9F98, 0x83848D,
     0xD0D9DE, 0xC5C2D7, 0xE6CBCC, 0xEFE8E1, 0xF4FDFA, 0x0000F3]"

definition crc_turn :: "WORD list \<Rightarrow> nat \<Rightarrow> WORD \<times> nat \<Rightarrow> nat \<Rightarrow> WORD \<times> nat" where
  "crc_turn wData wOffset = (\<lambda>(crc, wFFcnt) i.
     let temp = GetByteFromArrayInX wData (i + wOffset);
         newindex = crc XOR temp
     in (GetByteFromArrayInX crcvalues (unat newindex), if temp = 0xff then wFFcnt + 1 else wFFcnt))"

definition CRC8 :: "WORD list \<Rightarrow> nat \<Rightarrow> nat \<Rightarrow> WORD" where
  "CRC8 wData wOffset wBcount =
     (let (crc, wFFcnt) = foldl (crc_turn wData wOffset) (0, 0) [0..<wBcount]
      in if wFFcnt = wBcount then 0xff else crc)"

section \<open>The redundant area\<close>

definition "RA_LBA_1_OFFSET = (1::nat)"
definition "RA_STMP_TAG_1_OFFSET = (1::nat)"
definition "RA_RSI_0_OFFSET = (2::nat)"
definition "RA_RSI_1_OFFSET = (3::nat)"
definition "RA_BLOCK_STATUS_OFFSET = (5::nat)"
definition "RA_LBA_0_OFFSET = (6::nat)"
definition "RA_STMP_TAG_0_OFFSET = (6::nat)"

text \<open>
  \<^verbatim>\<open>SectorSize\<close> is an argument of the functions on a whole sector, \<^verbatim>\<open>SectorSizeInWordsPlusOne\<close> is
  computed from it as \<^verbatim>\<open>NandHalInit\<close> does.
\<close>

definition SectorSizeInWordsPlusOne :: "nat \<Rightarrow> nat" where
  "SectorSizeInWordsPlusOne SectorSize = SectorSize div 3 + 1"

definition NANDRA_ToStandardForm :: "nat \<Rightarrow> bool \<Rightarrow> WORD list \<Rightarrow> WORD list" where
  "NANDRA_ToStandardForm SectorSize bWholeSector pRA =
     (if bWholeSector
      then let sIndex1 = SectorSizeInWordsPlusOne SectorSize;
               sIndex2 = SectorSizeInWordsPlusOne SectorSize + 2;
               wTmp1 = pRA ! sIndex1
           in pRA[sIndex1 := pRA ! sIndex2, sIndex2 := wTmp1]
      else let wTmp1 = pRA ! 0 AND 0x00FFFF;
               pRA = pRA[0 := pRA ! 0 AND 0xFF0000 OR pRA ! 3 AND 0x00FFFF];
               pRA = pRA[3 := pRA ! 3 AND 0xFF0000 OR wTmp1];
               wTmp1 = pRA ! 1 AND 0xFF0000;
               pRA = pRA[1 := pRA ! 1 AND 0x00FFFF OR pRA ! 4 AND 0xFF0000]
           in pRA[4 := pRA ! 4 AND 0x00FFFF OR wTmp1])"

definition NANDRAGetByte :: "nat \<Rightarrow> WORD list \<Rightarrow> bool \<Rightarrow> nat \<Rightarrow> WORD" where
  "NANDRAGetByte SectorSize pRA bWholeSector wByteOffsetInRA =
     (let iOffset = (if bWholeSector then SectorSize else 0)
      in GetByteFromArrayInX pRA (wByteOffsetInRA + iOffset))"

definition NANDRAGetBlockStatus :: "nat \<Rightarrow> WORD list \<Rightarrow> bool \<Rightarrow> WORD" where
  "NANDRAGetBlockStatus SectorSize pRA bWholeSector =
     NANDRAGetByte SectorSize pRA bWholeSector RA_BLOCK_STATUS_OFFSET"

definition NANDRAGetLBA :: "nat \<Rightarrow> WORD list \<Rightarrow> bool \<Rightarrow> WORD \<times> WORD" where
  "NANDRAGetLBA SectorSize pRA bWholeSector =
     (let iOffset = (if bWholeSector then SectorSize else 0);
          pwLBA = GetByteFromArrayInX pRA (RA_LBA_0_OFFSET + iOffset) +
                  GetByteFromArrayInX pRA (RA_LBA_1_OFFSET + iOffset) * 0x100;
          pwLSA = GetByteFromArrayInX pRA (RA_RSI_0_OFFSET + iOffset) +
                  GetByteFromArrayInX pRA (RA_RSI_1_OFFSET + iOffset) * 0x100
      in (pwLBA, pwLSA))"

definition NANDRAGetStmpCode :: "nat \<Rightarrow> WORD list \<Rightarrow> bool \<Rightarrow> WORD" where
  "NANDRAGetStmpCode SectorSize pRA bWholeSector =
     (let iOffset = (if bWholeSector then SectorSize else 0)
      in GetByteFromArrayInX pRA (RA_STMP_TAG_0_OFFSET + iOffset) +
         push_bit 8 (GetByteFromArrayInX pRA (RA_STMP_TAG_1_OFFSET + iOffset)))"

section \<open>The bytes of a buffer\<close>

definition byte_at :: "WORD list \<Rightarrow> nat \<Rightarrow> BYTE" where
  "byte_at p n = ucast (GetByteFromArrayInX p n)"

lemma GetByte_byte_at: "GetByteFromArrayInX p n = ucast (byte_at p n)"
proof -
  have "(0xff::WORD) = mask 8"
    by (simp add: mask_eq_exp_minus_1)
  then have "\<exists>w. GetByteFromArrayInX p n = w AND mask 8"
    by (auto simp: GetByteFromArrayInX_def Let_def)
  then show ?thesis
    by (auto simp: byte_at_def intro!: bit_word_eqI simp: bit_simps)
qed

section \<open>The redundant area of a sector\<close>

lemma byte_at_word:
  "byte_at p n = (if n mod 3 = 0 then ucast (p ! (n div 3)) else if n mod 3 = 1 then ucast (drop_bit 8 (p ! (n div 3)))
     else ucast (drop_bit 16 (p ! (n div 3))))"
proof -
  have m: "(0xff::WORD) = mask 8"
    by (simp add: mask_eq_exp_minus_1)
  show ?thesis
    unfolding byte_at_def GetByteFromArrayInX_def Let_def m
    by (rule bit_word_eqI) (auto simp: bit_simps)
qed

lemma byte_at_cong: "p ! (n div 3) = q ! (m div 3) \<Longrightarrow> n mod 3 = m mod 3 \<Longrightarrow> byte_at p n = byte_at q m"
  by (simp add: byte_at_word)

lemma add_six: "(n + 6) div 3 = n div 3 + (2::nat)" "(n + 6) mod 3 = n mod (3::nat)"
  by presburger+

lemma standard_form_bytes:
  assumes "k = SectorSizeInWordsPlusOne S" and "k + 2 < length p"
  shows "byte_at (NANDRA_ToStandardForm S True p) n =
    byte_at p (if n div 3 = k then n + 6 else if n div 3 = k + 2 then n - 6 else n)"
proof -
  let ?q = "p[k := p ! (k + 2), k + 2 := p ! k]"
  have q: "NANDRA_ToStandardForm S True p = ?q"
    by (simp add: NANDRA_ToStandardForm_def Let_def assms(1))
  consider "n div 3 = k" | "n div 3 = k + 2" | "n div 3 \<noteq> k" "n div 3 \<noteq> k + 2"
    by blast
  then show ?thesis
  proof cases
    case 1
    then show ?thesis
      unfolding q using assms(2) by (intro byte_at_cong) (auto simp: add_six)
  next
    case 2
    then have "6 \<le> n"
      by presburger
    then obtain m where m: "n = m + 6"
      using le_Suc_ex by (metis add.commute)
    with 2 have "m div 3 = k"
      by (simp add: add_six)
    with m show ?thesis
      unfolding q using assms(2) by (intro byte_at_cong) (auto simp: add_six)
  qed (simp add: q byte_at_word)
qed

text \<open>
  Turning a whole sector from the layout on the NAND (2N) into the standard one (2S) exchanges the redundant
  area's bytes 1 to 3 with 7 to 9 and nothing else, it is its own inverse, and afterwards the functions
  that read the area give the fields of the documented NAND layout: the block address in bytes 6
  and 7, the sector index in bytes 8 and 9, the block status in byte 5.
\<close>

theorem NANDRA_standard_form:
  assumes "S = 512 \<or> S = 2048" and "S + 16 \<le> 3 * length p"
  defines "q \<equiv> NANDRA_ToStandardForm S True p" and "ra \<equiv> \<lambda>k. ucast (byte_at p (S + k)) :: WORD"
  shows "(\<forall>n. byte_at q n = byte_at p
      (if n \<in> {S + 1, S + 2, S + 3} then n + 6 else if n \<in> {S + 7, S + 8, S + 9} then n - 6 else n)) \<and>
    NANDRA_ToStandardForm S True q = p \<and>
    NANDRAGetLBA S q True = (ra 6 + ra 7 * 0x100, ra 8 + ra 9 * 0x100) \<and>
    NANDRAGetStmpCode S q True = ra 6 + push_bit 8 (ra 7) \<and> NANDRAGetBlockStatus S q True = ra 5"
proof -
  define k where "k = SectorSizeInWordsPlusOne S"
  have k: "k + 2 < length p" "3 * k = S + 1"
    using assms(1,2) by (auto simp: k_def SectorSizeInWordsPlusOne_def)
  have d: "n div 3 = k \<longleftrightarrow> n \<in> {S + 1, S + 2, S + 3}" "n div 3 = k + 2 \<longleftrightarrow> n \<in> {S + 7, S + 8, S + 9}" for n
    using k(2) by auto
  have b: "byte_at q n = byte_at p
      (if n \<in> {S + 1, S + 2, S + 3} then n + 6 else if n \<in> {S + 7, S + 8, S + 9} then n - 6 else n)" for n
    unfolding q_def standard_form_bytes [OF k_def k(1)] d by simp
  have q: "q = p[k := p ! (k + 2), k + 2 := p ! k]"
    by (simp add: q_def NANDRA_ToStandardForm_def Let_def k_def)
  have "NANDRA_ToStandardForm S True q = p"
    unfolding NANDRA_ToStandardForm_def Let_def k_def [symmetric] q
    using k(1) by (intro nth_equalityI) (auto simp: nth_list_update)
  moreover have "NANDRAGetLBA S q True = (ra 6 + ra 7 * 0x100, ra 8 + ra 9 * 0x100)"
    "NANDRAGetStmpCode S q True = ra 6 + push_bit 8 (ra 7)" "NANDRAGetBlockStatus S q True = ra 5"
    by (simp_all add: NANDRAGetLBA_def NANDRAGetStmpCode_def NANDRAGetBlockStatus_def NANDRAGetByte_def Let_def
        GetByte_byte_at b ra_def RA_LBA_0_OFFSET_def RA_LBA_1_OFFSET_def RA_RSI_0_OFFSET_def RA_RSI_1_OFFSET_def
        RA_STMP_TAG_0_OFFSET_def RA_STMP_TAG_1_OFFSET_def RA_BLOCK_STATUS_OFFSET_def add.commute)
  ultimately show ?thesis
    using b by blast
qed

section \<open>Words in a buffer\<close>

lemma byte_at_3: "byte_at p (3 * k) = ucast (p ! k)" "byte_at p (Suc (3 * k)) = ucast (drop_bit 8 (p ! k))"
    "byte_at p (Suc (Suc (3 * k))) = ucast (drop_bit 16 (p ! k))"
proof -
  have "Suc (3 * k) div 3 = k" "Suc (3 * k) mod 3 = 1" "Suc (Suc (3 * k)) div 3 = k" "Suc (Suc (3 * k)) mod 3 = 2"
    by presburger+
  then show "byte_at p (3 * k) = ucast (p ! k)" "byte_at p (Suc (3 * k)) = ucast (drop_bit 8 (p ! k))"
    "byte_at p (Suc (Suc (3 * k))) = ucast (drop_bit 16 (p ! k))"
    by (simp_all add: byte_at_word)
qed

lemma third_cases: obtains k where "n = 3 * k" | k where "n = Suc (3 * k)" | k where "n = Suc (Suc (3 * k))"
proof -
  have "n = 3 * (n div 3) \<or> n = Suc (3 * (n div 3)) \<or> n = Suc (Suc (3 * (n div 3)))"
    by presburger
  then show thesis
    using that by blast
qed

lemma masks: "(0xff::WORD) = mask 8" "(0xffff::WORD) = mask 16" "(0xff0000::WORD) = push_bit 16 (mask 8)"
    "(0xffff00::WORD) = push_bit 8 (mask 16)"
  by (simp_all add: mask_eq_exp_minus_1)

text \<open>The form for a redundant area on its own exchanges other bytes: 0, 1 and 5 with 9, 10 and 14.\<close>

lemma mix_words:
  fixes x y :: WORD
  shows "ucast (x AND 0xff0000 OR y AND 0xffff) = (ucast y :: BYTE)"
    and "ucast (drop_bit 8 (x AND 0xff0000 OR y AND 0xffff)) = (ucast (drop_bit 8 y) :: BYTE)"
    and "ucast (drop_bit 16 (x AND 0xff0000 OR y AND 0xffff)) = (ucast (drop_bit 16 x) :: BYTE)"
    and "ucast (x AND 0xffff OR y AND 0xff0000) = (ucast x :: BYTE)"
    and "ucast (drop_bit 8 (x AND 0xffff OR y AND 0xff0000)) = (ucast (drop_bit 8 x) :: BYTE)"
    and "ucast (drop_bit 16 (x AND 0xffff OR y AND 0xff0000)) = (ucast (drop_bit 16 y) :: BYTE)"
  unfolding masks by (rule bit_word_eqI, auto simp: bit_simps simp del: push_bit_mask_eq)+

lemma NANDRA_isolated_form:
  assumes "length r = 6"
  shows "byte_at (NANDRA_ToStandardForm S False r) n =
    byte_at r (if n \<in> {0, 1, 5} then n + 9 else if n \<in> {9, 10, 14} then n - 9 else n)" (is "_ = byte_at r ?m")
proof (cases "n < 18")
  case True
  then have "n \<in> set [0..<18]" by simp
  moreover have "[0..<18] = [0, 1, 2, 3] @ map ((+) 4) [0, 1, 2, 3] @ map ((+) 8) [0, 1, 2, 3] @ map ((+) 12) [0, 1, 2, 3, 4, 5]"
    by (simp add: upt_rec)
  moreover obtain a b c d e f where r: "r = [a, b, c, d, e, f]"
    using assms by (auto simp: numeral_eq_Suc length_Suc_conv)
  ultimately show ?thesis
    by (simp only: set_append set_map list.set image_insert image_empty Un_iff insert_iff empty_iff, elim disjE)
       (simp_all add: NANDRA_ToStandardForm_def byte_at_word Let_def mix_words del: drop_bit_and drop_bit_or)
next
  case False
  then have "6 \<le> n div 3" "?m = n"
    by auto
  then show ?thesis
    using assms by (simp add: NANDRA_ToStandardForm_def byte_at_word Let_def)
qed

lemma third_div: "Suc (3 * k) div 3 = k" "Suc (Suc (3 * k)) div 3 = k" "Suc (Suc (Suc (3 * k))) = 3 * Suc k"
  by presburger+

lemma GetWordX_bytes: "GetWordX n p = ucast (byte_at p n) OR push_bit 8 (ucast (byte_at p (n + 1)))"
proof (cases rule: third_cases [of n])
  case (3 k)
  have "push_bit 8 (p ! Suc k AND mask 8) + drop_bit 16 (p ! k AND push_bit 16 (mask 8)) =
      push_bit 8 (p ! Suc k AND mask 8) OR drop_bit 16 (p ! k AND push_bit 16 (mask 8))"
    by (rule disjunctive_add) (auto simp: bit_simps)
  then have "GetWordX n p = push_bit 8 (p ! Suc k AND mask 8) OR drop_bit 16 (p ! k AND push_bit 16 (mask 8))"
    by (simp add: 3 GetWordX_def Let_def third_div masks del: push_bit_mask_eq)
  also have "... = ucast (byte_at p n) OR push_bit 8 (ucast (byte_at p (n + 1)))"
    by (rule bit_word_eqI) (auto simp: 3 third_div byte_at_3 byte_at_3(1) [of _ "Suc k", simplified] bit_simps simp del: push_bit_mask_eq)
  finally show ?thesis .
qed (rule bit_word_eqI, auto simp: GetWordX_def Let_def third_div byte_at_3 masks bit_simps simp del: push_bit_mask_eq)+

lemma set_words:
  fixes a w :: WORD
  assumes high: "\<And>i. 16 \<le> i \<Longrightarrow> \<not> bit w i"
  shows "ucast (a AND 0xff0000 OR w) = (ucast w :: BYTE)"
    and "ucast (drop_bit 8 (a AND 0xff0000 OR w)) = (ucast (drop_bit 8 w) :: BYTE)"
    and "ucast (drop_bit 16 (a AND 0xff0000 OR w)) = (ucast (drop_bit 16 a) :: BYTE)"
    and "ucast (a AND 0xff OR push_bit 8 w) = (ucast a :: BYTE)"
    and "ucast (drop_bit 8 (a AND 0xff OR push_bit 8 w)) = (ucast w :: BYTE)"
    and "ucast (drop_bit 16 (a AND 0xff OR push_bit 8 w)) = (ucast (drop_bit 8 w) :: BYTE)"
    and "ucast (a AND 0xffff OR push_bit 16 w) = (ucast a :: BYTE)"
    and "ucast (drop_bit 8 (a AND 0xffff OR push_bit 16 w)) = (ucast (drop_bit 8 a) :: BYTE)"
    and "ucast (drop_bit 16 (a AND 0xffff OR push_bit 16 w)) = (ucast w :: BYTE)"
    and "ucast (a AND 0xffff00 OR drop_bit 8 w) = (ucast (drop_bit 8 w) :: BYTE)"
    and "ucast (drop_bit 8 (a AND 0xffff00 OR drop_bit 8 w)) = (ucast (drop_bit 8 a) :: BYTE)"
    and "ucast (drop_bit 16 (a AND 0xffff00 OR drop_bit 8 w)) = (ucast (drop_bit 16 a) :: BYTE)"
  unfolding masks by (rule bit_word_eqI, auto simp: high bit_simps simp del: push_bit_mask_eq)+

lemma SetWordY_bytes:
  assumes "n + 1 < 3 * length p" and high: "\<And>i. 16 \<le> i \<Longrightarrow> \<not> bit w i"
  shows "byte_at (SetWordY n w p) m =
    (if m = n then ucast w else if m = n + 1 then ucast (drop_bit 8 w) else byte_at p m)"
proof -
  note set = set_words [OF high]
  obtain j where j: "m = 3 * j \<or> m = Suc (3 * j) \<or> m = Suc (Suc (3 * j))"
    using third_cases [of m] by metis
  show ?thesis
  proof (cases rule: third_cases [of n])
    case (1 k)
    then have "SetWordY n w p = p[k := p ! k AND 0xff0000 OR w]" "k < length p"
      using assms(1) by (auto simp: SetWordY_def Let_def)
    then show ?thesis
      using 1 j by (cases "j = k") (auto simp: byte_at_3 set simp del: drop_bit_and drop_bit_or)
  next
    case (2 k)
    then have "SetWordY n w p = p[k := p ! k AND 0xff OR push_bit 8 w]" "k < length p"
      using assms(1) by (auto simp: SetWordY_def Let_def third_div)
    then show ?thesis
      using 2 j by (cases "j = k") (auto simp: byte_at_3 set simp del: drop_bit_and drop_bit_or)
  next
    case (3 k)
    then have "SetWordY n w p = p[k := p ! k AND 0xffff OR push_bit 16 w, Suc k := p ! Suc k AND 0xffff00 OR drop_bit 8 w]"
      "Suc k < length p"
      using assms(1) by (auto simp: SetWordY_def Let_def third_div)
    moreover have "n + 1 = 3 * Suc k"
      by (simp add: 3)
    ultimately show ?thesis
      using j unfolding 3 by (elim disjE; cases "j = k"; cases "j = Suc k")
        (simp_all add: byte_at_3 set del: drop_bit_and drop_bit_or mult_Suc_right)
  qed
qed

text \<open>
  A 16-bit value stored at a byte position of a buffer is read back from it, also across the border of
  two words, and every other byte of the buffer stays.
\<close>

theorem SetWordY_GetWordX:
  assumes "n + 1 < 3 * length p" and "w < 0x10000"
  shows "GetWordX n (SetWordY n w p) = w \<and>
    (\<forall>m. m \<noteq> n \<and> m \<noteq> n + 1 \<longrightarrow> byte_at (SetWordY n w p) m = byte_at p m)"
proof -
  have "w AND mask 16 = w"
    using assms(2) by (intro less_mask_eq) simp
  then have high: "\<not> bit w i" if "16 \<le> i" for i
    using that by (metis bit_and_iff bit_mask_iff not_less)
  note b = SetWordY_bytes [OF assms(1) high]
  have "ucast (ucast w :: BYTE) OR push_bit 8 (ucast (ucast (drop_bit 8 w) :: BYTE)) = w"
  proof (rule bit_word_eqI)
    fix i assume "i < LENGTH(24)"
    then show "bit (ucast (ucast w :: BYTE) OR push_bit 8 (ucast (ucast (drop_bit 8 w) :: BYTE)) :: WORD) i = bit w i"
      using high by (cases "16 \<le> i") (auto simp: bit_simps)
  qed
  then show ?thesis
    by (simp add: GetWordX_bytes b)
qed

section \<open>Witnesses\<close>

theorem NANDRA_standard_form_witness:
  "NANDRAGetLBA 512 (NANDRA_ToStandardForm 512 True (replicate 171 0 @ [1, 2, 3] @ replicate 10 0)) True = (0x300, 0)"
  using NANDRA_standard_form [of 512 "replicate 171 0 @ [1, 2, 3] @ replicate 10 0"]
  by (simp add: byte_at_word nth_append)

theorem SetWordY_GetWordX_witness:
  "GetWordX 2 (SetWordY 2 0x1234 [0xffffff, 0xffffff]) = 0x1234"
  using SetWordY_GetWordX [of 2 "[0xffffff, 0xffffff]" "0x1234"] by simp

end
