(* ===== verification/NandCrc.thy ===== *)
theory NandCrc imports Nand begin

text \<open>
  The table-driven \<^verbatim>\<open>CRC8\<close> over the redundant area is the CRC of the generator x^8 + x^2 + x + 1, and what
  it detects. The table is checked against its own doubling: entry 2n and entry 2n + 1 follow from
  entry n by one step of the shift register.
\<close>

section \<open>The CRC as a shift register\<close>

text \<open>The register of the generator \<open>x^8 + x^2 + x + 1\<close>, one message bit at a time.\<close>

definition crc_bit :: "BYTE \<Rightarrow> bool \<Rightarrow> BYTE" where
  "crc_bit c b = push_bit 1 c XOR (if bit c 7 \<noteq> b then 7 else 0)"

definition bits_of :: "BYTE \<Rightarrow> bool list" where
  "bits_of b = map (bit b) [7, 6, 5, 4, 3, 2, 1, 0]"

abbreviation "serial_crc \<equiv> foldl crc_bit"

definition crc_table :: "BYTE list" where
  "crc_table =
    [0, 7, 14, 9, 28, 27, 18, 21, 56, 63, 54, 49, 36, 35, 42, 45,
     112, 119, 126, 121, 108, 107, 98, 101, 72, 79, 70, 65, 84, 83, 90, 93,
     224, 231, 238, 233, 252, 251, 242, 245, 216, 223, 214, 209, 196, 195, 202, 205,
     144, 151, 158, 153, 140, 139, 130, 133, 168, 175, 166, 161, 180, 179, 186, 189,
     199, 192, 201, 206, 219, 220, 213, 210, 255, 248, 241, 246, 227, 228, 237, 234,
     183, 176, 185, 190, 171, 172, 165, 162, 143, 136, 129, 134, 147, 148, 157, 154,
     39, 32, 41, 46, 59, 60, 53, 50, 31, 24, 17, 22, 3, 4, 13, 10,
     87, 80, 89, 94, 75, 76, 69, 66, 111, 104, 97, 102, 115, 116, 125, 122,
     137, 142, 135, 128, 149, 146, 155, 156, 177, 182, 191, 184, 173, 170, 163, 164,
     249, 254, 247, 240, 229, 226, 235, 236, 193, 198, 207, 200, 221, 218, 211, 212,
     105, 110, 103, 96, 117, 114, 123, 124, 81, 86, 95, 88, 77, 74, 67, 68,
     25, 30, 23, 16, 5, 2, 11, 12, 33, 38, 47, 40, 61, 58, 51, 52,
     78, 73, 64, 71, 82, 85, 92, 91, 118, 113, 120, 127, 106, 109, 100, 99,
     62, 57, 48, 55, 34, 37, 44, 43, 6, 1, 8, 15, 26, 29, 20, 19,
     174, 169, 160, 167, 178, 181, 188, 187, 150, 145, 152, 159, 138, 141, 132, 131,
     222, 217, 208, 215, 194, 197, 204, 203, 230, 225, 232, 239, 250, 253, 244, 243]"

lemma concat_pairs_nth:
  "n < length xs \<Longrightarrow> concat (map (\<lambda>t. [f t, g t]) xs) ! (2 * n) = f (xs ! n) \<and>
     concat (map (\<lambda>t. [f t, g t]) xs) ! (2 * n + 1) = g (xs ! n)"
proof (induction n arbitrary: xs)
  case (Suc n)
  then show ?case by (cases xs) auto
qed (auto simp: neq_Nil_conv)

lemma concat_triples_nth:
  "n < 3 * length xs \<Longrightarrow> concat (map (\<lambda>t. [f t, g t, h t]) xs) ! n =
     (if n mod 3 = 0 then f else if n mod 3 = 1 then g else h) (xs ! (n div 3))"
proof (induction xs arbitrary: n)
  case (Cons x xs)
  show ?case
  proof (cases "n < 3")
    case True
    then have "n = 0 \<or> n = 1 \<or> n = 2" by arith
    then show ?thesis by (elim disjE) simp_all
  next
    case False
    then obtain m where m: "n = m + 3"
      by (metis add.commute le_add_diff_inverse not_less)
    then have "n div 3 = Suc (m div 3)"
      by simp
    with m show ?thesis
      using Cons.IH [of m] Cons.prems by simp
  qed
qed simp

lemma crc_table_bytes:
  "n < 256 \<Longrightarrow> GetByteFromArrayInX crcvalues n = ucast (crc_table ! n)"
proof -
  assume n: "n < 256"
  let ?b = "concat (map (\<lambda>w. [w AND 0xff, drop_bit 8 w AND 0xff, drop_bit 16 w AND 0xff]) crcvalues)"
  have "?b = map ucast crc_table @ [0, 0]"
    unfolding crcvalues_def crc_table_def by simp
  moreover have "length crcvalues = 86" "length crc_table = 256"
    by (simp_all add: crcvalues_def crc_table_def)
  ultimately show ?thesis
    using concat_triples_nth [of n crcvalues "\<lambda>w. w AND 0xff" "\<lambda>w. drop_bit 8 w AND 0xff" "\<lambda>w. drop_bit 16 w AND 0xff"] n
    by (auto simp: GetByteFromArrayInX_def Let_def nth_append split: if_splits)
qed

lemma crc_table_double:
  "crc_table = concat (map (\<lambda>t. [crc_bit t False, crc_bit t False XOR 7]) (take 128 crc_table))"
  by (simp add: crc_table_def crc_bit_def)

text \<open>The register is linear, and a step loses nothing.\<close>

lemma bit_crc_bit:
  "bit (crc_bit c b) i \<longleftrightarrow> i < 8 \<and> (0 < i \<and> bit c (i - 1)) \<noteq> ((bit c 7 \<noteq> b) \<and> i < 3)"
proof -
  have seven: "(7::BYTE) = mask 3"
    by (simp add: mask_eq_exp_minus_1)
  show ?thesis
    unfolding crc_bit_def seven
    by (simp only: bit_xor_iff bit_push_bit_iff bit_mask_iff if_distrib [where f = "\<lambda>w. bit w i"] bit_0_eq bot_apply)
      (auto simp: Suc_le_eq)
qed

lemma crc_bit_linear: "crc_bit (c XOR d) (a = (\<not> b)) = crc_bit c a XOR crc_bit d b"
  by (rule bit_word_eqI) (auto simp: bit_crc_bit bit_xor_iff)

lemma serial_linear:
  "length as = length bs \<Longrightarrow>
   serial_crc (c XOR d) (map2 (\<lambda>a b. a = (\<not> b)) as bs) = serial_crc c as XOR serial_crc d bs"
  by (induction as bs arbitrary: c d rule: list_induct2) (simp_all add: crc_bit_linear)

lemma crc_bit_zero: "crc_bit c False = 0 \<Longrightarrow> c = 0"
proof -
  assume z: "crc_bit c False = 0"
  have b: "bit (crc_bit c False) i = False" for i
    by (simp add: z)
  have "\<not> bit c 7"
    using b [of 0] by (simp add: bit_crc_bit)
  moreover from this have "\<not> bit c i" if "i < 7" for i
    using b [of "Suc i"] that by (simp add: bit_crc_bit)
  ultimately have "\<not> bit c i" if "i < 8" for i
    using that by (cases "i = 7") auto
  then show ?thesis
    by (intro bit_word_eqI) simp
qed

lemma crc_bit_inj: "crc_bit c b = crc_bit d b \<Longrightarrow> c = d"
proof -
  assume "crc_bit c b = crc_bit d b"
  then have "c XOR d = 0"
    using crc_bit_linear [of c d b "\<not> b"] crc_bit_linear [of c d b b] crc_bit_zero [of "c XOR d"] by simp
  then show "c = d"
    by (metis xor.assoc xor.left_neutral xor.right_neutral xor_self_eq)
qed

lemma serial_inj: "serial_crc c bs = serial_crc d bs \<Longrightarrow> c = d"
  by (induction bs arbitrary: c d) (auto dest: crc_bit_inj)

section \<open>One byte at a time\<close>

abbreviation "shift8 c \<equiv> serial_crc c (replicate 8 False)"

lemma shift_one: "k \<le> j \<Longrightarrow> j < 8 \<Longrightarrow> serial_crc (push_bit (j - k) 1) (replicate k False) = push_bit j 1"
proof (induction k)
  case (Suc k)
  then have "crc_bit (push_bit (j - Suc k) 1) False = push_bit (j - k) 1"
    by (intro bit_word_eqI) (auto simp: bit_crc_bit bit_exp_iff possible_bit_def)
  then show ?case
    using Suc by simp
qed simp

lemma crc_bit_top: "crc_bit c b = crc_bit (c XOR (if b then push_bit 7 1 else 0)) False"
  by (rule bit_word_eqI) (auto simp: bit_crc_bit bit_xor_iff bit_push_bit_iff bit_1_iff simp del: push_bit_of_1)

lemma serial_prefix:
  "k \<le> 8 \<Longrightarrow> serial_crc c (map (\<lambda>i. bit b (7 - i)) [0..<k]) = serial_crc (c XOR (b AND NOT (mask (8 - k)))) (replicate k False)"
proof (induction k)
  case (Suc k)
  let ?h = "if bit b (7 - k) then push_bit (7 - k) 1 else (0::BYTE)"
  have zero: "serial_crc 0 (replicate k False) = 0"
    by (induction k) (simp_all add: crc_bit_def)
  have top: "serial_crc ?h (replicate k False) = (if bit b (7 - k) then push_bit 7 1 else 0)"
    using shift_one [of k 7] Suc.prems zero by auto
  have split: "b AND NOT (mask (8 - Suc k)) = (b AND NOT (mask (8 - k))) XOR ?h"
  proof (rule bit_word_eqI)
    fix n assume n: "n < LENGTH(8)"
    consider "n < 7 - k" | "n = 7 - k" | "7 - k < n"
      by linarith
    then show "bit (b AND NOT (mask (8 - Suc k))) n = bit ((b AND NOT (mask (8 - k))) XOR ?h) n"
      using n Suc.prems by cases (auto simp: bit_simps)
  qed
  have "serial_crc c (map (\<lambda>i. bit b (7 - i)) [0..<Suc k]) =
      crc_bit (serial_crc (c XOR (b AND NOT (mask (8 - k)))) (replicate k False)) (bit b (7 - k))"
    using Suc by simp
  also have "... = crc_bit (serial_crc (c XOR (b AND NOT (mask (8 - k)))) (replicate k False) XOR
      serial_crc ?h (replicate k False)) False"
    by (subst crc_bit_top) (simp only: top)
  also have "... = crc_bit (serial_crc (c XOR (b AND NOT (mask (8 - Suc k)))) (replicate k False)) False"
    unfolding split using serial_linear [of "replicate k False" "replicate k False" "c XOR (b AND NOT (mask (8 - k)))" ?h]
    by (simp add: xor.assoc)
  also have "... = serial_crc (c XOR (b AND NOT (mask (8 - Suc k)))) (replicate (Suc k) False)"
    by (simp add: replicate_append_same [symmetric])
  finally show ?case .
next
  case 0
  have "b AND NOT (mask 8) = 0"
    by (rule bit_word_eqI) (simp add: bit_simps)
  then show ?case by simp
qed

lemma serial_byte: "serial_crc c (bits_of b) = shift8 (c XOR b)"
  using serial_prefix [of 8 c b] by (simp add: bits_of_def upt_rec numeral_eq_Suc)

lemma serial_zero: "serial_crc 0 (replicate k False) = 0"
  by (induction k) (simp_all add: crc_bit_def)

lemma shift8_table: "n < 256 \<Longrightarrow> shift8 (of_nat n) = crc_table ! n"
proof (induction n rule: less_induct)
  case (less n)
  have "replicate 8 False = replicate 7 False @ [False]"
    by (simp add: numeral_eq_Suc)
  then have eight: "shift8 c = crc_bit (serial_crc c (replicate 7 False)) False" for c
    by simp
  have one: "shift8 1 = 7"
    using shift_one [of 7 7] by (simp add: eight) (simp add: crc_bit_def)
  have lin: "shift8 (c XOR d) = shift8 c XOR shift8 d" for c d
    using serial_linear [of "replicate 8 False" "replicate 8 False" c d] by (simp add: numeral_eq_Suc)
  have len: "length crc_table = 256"
    by (simp add: crc_table_def)
  define k where "k = n div 2"
  have k: "k < 128" "n = 2 * k \<or> n = 2 * k + 1"
    using less.prems by (auto simp: k_def)
  have tab: "crc_table ! (2 * k) = crc_bit (crc_table ! k) False" "crc_table ! (2 * k + 1) = crc_bit (crc_table ! k) False XOR 7"
    using concat_pairs_nth [of k "take 128 crc_table" "\<lambda>t. crc_bit t False" "\<lambda>t. crc_bit t False XOR 7"] k(1) len
    unfolding crc_table_double [symmetric] by simp_all
  have top: "\<not> bit (of_nat k :: BYTE) 7"
  proof -
    have "\<not> bit k 7"
      using k(1) by (simp add: bit_iff_odd)
    then show ?thesis
      by (simp add: bit_simps)
  qed
  show ?case
  proof (cases "n = 0")
    case True
    then show ?thesis
      using serial_zero [of 8] by (simp add: crc_table_def)
  next
    case False
    then have "shift8 (of_nat k) = crc_table ! k"
      using less.IH [of k] k by linarith
    moreover have "crc_bit (of_nat k) False = of_nat (2 * k)"
      using top by (simp add: crc_bit_def mult.commute)
    then have "shift8 (of_nat (2 * k)) = crc_bit (shift8 (of_nat k)) False"
      by (simp add: numeral_eq_Suc)
    ultimately have even: "shift8 (of_nat (2 * k)) = crc_table ! (2 * k)"
      using tab(1) by simp
    have "(of_nat (2 * k + 1) :: BYTE) = of_nat (2 * k) XOR 1"
      by (simp add: xor_one_eq)
    then have "shift8 (of_nat (2 * k + 1)) = crc_table ! (2 * k + 1)"
      using even one tab lin by simp
    with even k(2) show ?thesis by auto
  qed
qed

section \<open>The CRC of the bytes of a buffer\<close>

definition message :: "WORD list \<Rightarrow> nat \<Rightarrow> nat \<Rightarrow> bool list" where
  "message p start n = concat (map (\<lambda>i. bits_of (byte_at p (i + start))) [0..<n])"

lemma table_lookup:
  "GetByteFromArrayInX crcvalues (unat (ucast (c::BYTE) XOR ucast (b::BYTE) :: WORD)) = ucast (serial_crc c (bits_of b))"
proof -
  have "(ucast c XOR ucast b :: WORD) = ucast (c XOR b)"
    by (rule bit_word_eqI) (auto simp: bit_simps)
  then have u: "unat (ucast c XOR ucast b :: WORD) = unat (c XOR b)"
    by (simp only: unat_wide)
  have "unat (c XOR b) < 256"
    using unsigned_less [of "c XOR b"] by simp
  then show ?thesis
    using shift8_table [of "unat (c XOR b)"] by (simp add: u crc_table_bytes serial_byte)
qed

lemma crc_turn_step:
  "crc_turn p start (ucast c, k) i =
     (ucast (serial_crc c (bits_of (byte_at p (i + start)))), if byte_at p (i + start) = 0xff then k + 1 else k)"
  using wide_eq [of "byte_at p (i + start)" 255]
  by (simp add: crc_turn_def Let_def GetByte_byte_at [of p] table_lookup)

lemma crc_fold:
  "foldl (crc_turn p start) (0, 0) [0..<n] =
     (ucast (serial_crc 0 (message p start n)), length (filter (\<lambda>i. byte_at p (i + start) = 0xff) [0..<n]))"
  by (induction n) (simp_all add: crc_turn_step message_def)

lemma CRC8_register:
  "CRC8 p start n =
     (if \<forall>i<n. byte_at p (i + start) = 0xff then 0xff else ucast (serial_crc 0 (message p start n)))"
proof -
  have "length (filter (\<lambda>i. byte_at p (i + start) = 0xff) [0..<n]) = n \<longleftrightarrow> (\<forall>i<n. byte_at p (i + start) = 0xff)"
    using length_filter_less [of _ "[0..<n]" "\<lambda>i. byte_at p (i + start) = 0xff"] filter_True [of "[0..<n]" "\<lambda>i. byte_at p (i + start) = 0xff"]
    by fastforce
  then show ?thesis
    by (simp add: CRC8_def crc_fold)
qed

text \<open>
  C23. The table-driven CRC of any run of bytes is that of the 8-bit shift register for x^8 + x^2 + x + 1, fed
  with the bits of the bytes, most significant first; a run of bytes that are all 0xff, an erased
  redundant area, has the CRC 0xff instead.
\<close>

theorem CRC8_shift_register:
  "CRC8 p start n =
     (if \<forall>i<n. byte_at p (i + start) = 0xff then 0xff else ucast (serial_crc 0 (message p start n)))"
  by (rule CRC8_register)

text \<open>
  The CRC finds every burst of errors: two runs of bytes that differ only within eight consecutive bits,
  wherever these lie, have different CRCs, unless one of the runs is the erased one, all 0xff.
\<close>

theorem CRC8_finds_burst:
  assumes "message p start n = as @ bits_of w @ bs" and "message q start n = as @ bits_of v @ bs" and "w \<noteq> v"
    and "\<exists>i<n. byte_at p (i + start) \<noteq> 0xff" and "\<exists>i<n. byte_at q (i + start) \<noteq> 0xff"
  shows "CRC8 p start n \<noteq> CRC8 q start n"
proof
  assume eq: "CRC8 p start n = CRC8 q start n"
  have "CRC8 p start n = ucast (serial_crc 0 (message p start n))" "CRC8 q start n = ucast (serial_crc 0 (message q start n))"
    using assms(4,5) by (auto simp: CRC8_register)
  then have "serial_crc (serial_crc (serial_crc 0 as) (bits_of w)) bs = serial_crc (serial_crc (serial_crc 0 as) (bits_of v)) bs"
    using eq assms(1,2) by (simp add: wide_eq)
  then have "shift8 (serial_crc 0 as XOR w) = shift8 (serial_crc 0 as XOR v)"
    using serial_inj serial_byte by metis
  then have "serial_crc 0 as XOR w = serial_crc 0 as XOR v"
    using serial_inj by blast
  then have "w = v"
    by (metis xor.assoc xor.left_neutral xor_self_eq)
  then show False
    using assms(3) by simp
qed

section \<open>Witnesses\<close>

lemma three: "[0..<3] = [0, 1, 2]" and six: "[0..<6] = [0, 1, 2, 3, 4, 5]"
  by (simp_all add: upt_rec)

lemma lits: "(197121::BYTE) = 1" "(770::BYTE) = 2" "(65536::BYTE) = 0" "(256::BYTE) = 0"
  by simp_all

theorem CRC8_shift_register_witness:
  "CRC8 [0x030201] 0 3 = ucast (serial_crc 0 (bits_of 1 @ bits_of 2 @ bits_of 3))"
proof -
  have "message [0x030201] 0 3 = bits_of 1 @ bits_of 2 @ bits_of 3"
    by (simp add: lits message_def byte_at_word three)
  moreover have "\<not> (\<forall>i<3. byte_at [0x030201] (i + 0) = 0xff)"
    by (auto simp: byte_at_word intro!: exI [of _ 0])
  ultimately show ?thesis
    using CRC8_shift_register [of "[0x030201]" 0 3] by (simp only: if_False)
qed

theorem CRC8_finds_burst_witness: "CRC8 [0x010000] 0 3 \<noteq> CRC8 [0] 0 3"
proof -
  have m: "message [0x010000] 0 3 = (bits_of 0 @ bits_of 0) @ bits_of 1 @ []"
    "message [0] 0 3 = (bits_of 0 @ bits_of 0) @ bits_of 0 @ []"
    by (simp_all add: lits message_def byte_at_word three)
  have "\<exists>i<3. byte_at [0x010000] (i + 0) \<noteq> 0xff" "\<exists>i<3. byte_at [0] (i + 0) \<noteq> 0xff"
    by (rule exI [of _ 0], simp add: byte_at_word)+
  then show ?thesis
    using CRC8_finds_burst [OF m] by simp
qed

text \<open>
  The value forced for an erased area is that of other areas too: one whose last byte is 0xaf, two bits
  away from an erased one, has the same CRC.
\<close>

lemma CRC8_erased_twin: "CRC8 [0xffffff, 0xafffff] 0 6 = 0xff \<and> CRC8 [0xffffff, 0xffffff] 0 6 = 0xff"
proof -
  have lookup: "serial_crc c (bits_of b) = crc_table ! unat (c XOR b)" for c b
  proof -
    have "unat (c XOR b) < 256"
      by (rule order_less_le_trans [OF unsigned_less]) simp
    then show ?thesis
      using shift8_table [of "unat (c XOR b)"] by (simp add: serial_byte)
  qed
  have "serial_crc 0 (message [0xffffff, 0xafffff] 0 6) = 0xff"
    by (simp add: message_def byte_at_word six lookup crc_table_def)
  then have "CRC8 [0xffffff, 0xafffff] 0 6 = 0xff"
    by (simp add: CRC8_register)
  moreover have "\<forall>i<6. byte_at [0xffffff, 0xffffff] (i + 0) = 0xff"
  proof clarify
    fix i :: nat assume "i < 6"
    then have "i \<in> {0, 1, 2, 3, 4, 5}" by auto
    then show "byte_at [0xffffff, 0xffffff] (i + 0) = 0xff"
      by (auto simp: byte_at_word)
  qed
  then have "CRC8 [0xffffff, 0xffffff] 0 6 = 0xff"
    unfolding CRC8_register by (rule if_P)
  ultimately show ?thesis by blast
qed

end
