(* ===== verification/NandBoot.thy ===== *)
theory NandBoot imports Nand begin

text \<open>
  The boot manager's NAND driver, \<^verbatim>\<open>DeviceDriver/Media/SmartMedia/BootManager\<close>: reading a sector with its
  error correction (\<^verbatim>\<open>nanddevdrvapi.c\<close>, \<^verbatim>\<open>NANDHalCorrectECC.c\<close>), finding the descriptor of the chip
  and searching the blocks of a firmware component (\<^verbatim>\<open>nanddevdrv.c\<close>).

  The flash port and the Reed-Solomon engine are hardware: arguments with a state \<open>'h\<close> of their own. A
  port function gives \<open>True\<close> for \<^verbatim>\<open>SUCCESS\<close>. The pointers into the sector buffer are \<open>int\<close> offsets in
  words, since the loop over the blocks of a large sector steps one word before its start.
\<close>

section \<open>Descriptors, port and engine\<close>

record nand_descriptor =
  iSectorTotalSize :: nat
  iSectorDataSize :: nat
  iSectorToPageShift :: nat
  iSectorInPageMask :: nat
  NumSectorsPerBlock :: nat
  NandType :: nat
  iNumColumnBytes :: nat
  iNumRowBytes :: nat
  iRead1Code :: WORD
  iRead1_2ndCycleCode :: WORD
  iResetCode :: WORD
  TotalBlocks :: nat

record 'h nand_port =
  pPowerUpPads :: "'h \<Rightarrow> 'h"
  pPowerUpPads_16bit :: "'h \<Rightarrow> WORD \<times> 'h"
  pPortInit :: "nat \<Rightarrow> 'h \<Rightarrow> bool \<times> 'h"
  pTerminatePort :: "nat \<Rightarrow> 'h \<Rightarrow> bool \<times> 'h"
  pWritePortCmd :: "nat \<Rightarrow> WORD \<Rightarrow> bool \<Rightarrow> 'h \<Rightarrow> bool \<times> 'h"
  pWritePortAddr :: "nat \<Rightarrow> nat \<Rightarrow> nat \<Rightarrow> nat \<Rightarrow> nat \<Rightarrow> bool \<Rightarrow> 'h \<Rightarrow> bool \<times> 'h"
  pReadPortData :: "nat \<Rightarrow> nat \<Rightarrow> WORD list \<Rightarrow> bool \<Rightarrow> 'h \<Rightarrow> bool \<times> WORD list \<times> 'h"
  pWaitForReadyPort :: "nat \<Rightarrow> nat \<Rightarrow> 'h \<Rightarrow> bool \<times> 'h"

text \<open>
  The engine decodes a block that starts at a word and a bit of it, with the parity at a word: how many
  times its busy bit is read as set (\<open>None\<close>: for ever), the flag of an uncorrectable error and the buffer.
\<close>

type_synonym ecc_engine = "int \<Rightarrow> nat \<Rightarrow> int \<Rightarrow> WORD list \<Rightarrow> nat option \<times> bool \<times> WORD list"

definition "TYPE1_NAND = (1::nat)"
definition "NAND_RESET_TIMEOUT = (2000000::nat)"
definition "NAND_READ_PAGE_TIMEOUT = (2000000::nat)"
definition "NAND_GOOD_BLOCK_VALUE = (0xff::WORD)"
definition "SM_INFO_END_OF_BLOCKS = (3::WORD)"
definition "NANDHAL_ECC_FIX_FAILED = (0x51A::WORD)"
definition "RSECC_DELAY_COUNTER_VALUE = (1000::nat)"

section \<open>NANDHalCorrectECC.c\<close>

text \<open>The busy loop: the counter that is left when the engine is ready or the counter has run out.\<close>

fun spin :: "nat option \<Rightarrow> nat \<Rightarrow> nat" where
  "spin (Some 0) counter = counter"
| "spin busy 0 = 0"
| "spin (Some (Suc t)) (Suc counter) = spin (Some t) counter"
| "spin None (Suc counter) = spin None counter"

definition NANDHalCorrectPartial :: "ecc_engine \<Rightarrow> int \<Rightarrow> int \<Rightarrow> nat \<Rightarrow> WORD list \<Rightarrow> WORD \<times> WORD list" where
  "NANDHalCorrectPartial rs pCompleteSectorBuf pECCBuf blockStartIndex buf =
     (let (busy, UNCORRIN, buf) = rs pCompleteSectorBuf blockStartIndex pECCBuf buf
      in if spin busy RSECC_DELAY_COUNTER_VALUE = 0 then (NANDHAL_ECC_FIX_FAILED, buf)
         else if UNCORRIN then (NANDHAL_ECC_FIX_FAILED, buf)
         else (0, buf))"

definition RA_ECC_POS :: "nat \<Rightarrow> nat" where
  "RA_ECC_POS SectorSize = SectorSizeInWordsPlusOne SectorSize + 2"

fun correct_blocks :: "ecc_engine \<Rightarrow> nat \<Rightarrow> nat \<Rightarrow> WORD \<Rightarrow> int \<Rightarrow> int \<Rightarrow> WORD list \<Rightarrow> WORD \<times> WORD list" where
  "correct_blocks rs SectorSize 0 status p pECCBuf buf = (status, buf)"
| "correct_blocks rs SectorSize (Suc i) status p pECCBuf buf =
     (if status \<noteq> 0 then (status, buf)
      else
        let (p, blockStartIndex) =
              (if Suc i = 4 then (p - 1, 0) else if Suc i = 3 then (p, 8) else if Suc i = 2 then (p, 16)
               else (p + (if SectorSize > 512 then 1 else 0), 0));
            (st, buf) = NANDHalCorrectPartial rs p pECCBuf blockStartIndex buf
        in correct_blocks rs SectorSize i (status OR st) (p - 171) (pECCBuf - 3) buf)"

definition NANDHalCorrectECC_4Bit :: "ecc_engine \<Rightarrow> nat \<Rightarrow> WORD list \<Rightarrow> WORD \<times> WORD list" where
  "NANDHalCorrectECC_4Bit rs SectorSize buf =
     (let i = SectorSize div 2 ^ 9;
          pECCBuf = int (RA_ECC_POS SectorSize) + 3 * (int i - 1);
          (wLBA, wRSI) = NANDRAGetLBA SectorSize buf True;
          p = 171 * (int i - 1)
      in if wRSI \<noteq> 0xffff then correct_blocks rs SectorSize i 0 p pECCBuf buf
         else (0, buf))"

section \<open>nanddevdrvapi.c\<close>

text \<open>The table ends with the code 1; a table without one is read past its end, \<open>None\<close>.\<close>

fun NandLookupID :: "WORD \<Rightarrow> (WORD \<times> nand_descriptor) list \<Rightarrow> nand_descriptor option option" where
  "NandLookupID wDeviceCode [] = None"
| "NandLookupID wDeviceCode ((code, d) # t) =
     (if code = 1 then Some None
      else if wDeviceCode = code then Some (Some d)
      else NandLookupID wDeviceCode t)"

record nand_tables =
  UniqueInitDescriptorIdList :: "(WORD \<times> nand_descriptor) list"
  Type2DescriptorIdList :: "(WORD \<times> nand_descriptor) list"
  LargeMLCDescriptorIdList :: "(WORD \<times> nand_descriptor) list"

definition NANDHALCommon_ReadId :: "'h nand_port \<Rightarrow> nat \<Rightarrow> WORD list \<Rightarrow> 'h \<Rightarrow> WORD list \<times> 'h" where
  "NANDHALCommon_ReadId Q wChipNum ReadIDDecode h =
     (let (_, h) = pWritePortCmd Q wChipNum 0x90 False h;
          (_, h) = pWritePortAddr Q wChipNum 0 0 0 0 False h;
          (_, ReadIDDecode, h) = pReadPortData Q wChipNum 6 ReadIDDecode False h
      in (ReadIDDecode, h))"

definition CellType :: "WORD list \<Rightarrow> WORD" where
  "CellType ReadIDDecode = drop_bit 18 (ReadIDDecode ! 0) AND 3"

text \<open>
  The bus width it sets and the descriptor it has chosen, \<open>None\<close> for the null pointer; the function itself
  returns \<^verbatim>\<open>SUCCESS\<close>.
\<close>

definition DetermineNandType ::
    "'h nand_port \<Rightarrow> nand_tables \<Rightarrow> nat \<Rightarrow> WORD list \<Rightarrow> 'h \<Rightarrow>
     (nat \<times> nand_descriptor option \<times> WORD list \<times> 'h) option" where
  "DetermineNandType Q T wNandDeviceNumber ReadIDDecode h =
     (let (ReadIDDecode, h) = NANDHALCommon_ReadId Q wNandDeviceNumber ReadIDDecode h;
          code = ReadIDDecode ! 0 AND 0x00FFFF
      in do {
        d \<leftarrow> NandLookupID code (UniqueInitDescriptorIdList T);
        d \<leftarrow> (case d of
               Some d \<Rightarrow> Some (Some d)
             | None \<Rightarrow> NandLookupID code (if CellType ReadIDDecode \<noteq> 0 then LargeMLCDescriptorIdList T
                                          else Type2DescriptorIdList T));
        Some (8, d, ReadIDDecode, h) })"

datatype init_result =
  InitError | NullDescriptor | OutsideDescriptorTable | InitDone nand_descriptor nat nat nat

definition NandHalInit :: "'h nand_port \<Rightarrow> nand_tables \<Rightarrow> nat \<Rightarrow> WORD list \<Rightarrow> 'h \<Rightarrow> init_result \<times> 'h" where
  "NandHalInit Q T wNandDeviceNumber ReadIDDecode h =
     (let (ok, h) = pWritePortCmd Q wNandDeviceNumber 0xFF False h in
      if \<not> ok then (InitError, h)
      else let (ok, h) = pWaitForReadyPort Q wNandDeviceNumber NAND_RESET_TIMEOUT h in
      if \<not> ok then (InitError, h)
      else case DetermineNandType Q T wNandDeviceNumber ReadIDDecode h of
             None \<Rightarrow> (OutsideDescriptorTable, h)
           | Some (_, None, _, h) \<Rightarrow> (NullDescriptor, h)
           | Some (width, Some d, _, h) \<Rightarrow>
               (InitDone d width (iSectorDataSize d) (SectorSizeInWordsPlusOne (iSectorDataSize d)), h))"

definition CommonWaitThenRead ::
    "'h nand_port \<Rightarrow> nat \<Rightarrow> nat \<Rightarrow> nat \<Rightarrow> WORD list \<Rightarrow> 'h \<Rightarrow> bool \<times> WORD list \<times> 'h" where
  "CommonWaitThenRead Q CurrentNANDBusWidth iDeviceNum iSize buf h =
     (let (ok, h) = pWaitForReadyPort Q iDeviceNum NAND_READ_PAGE_TIMEOUT h in
      if \<not> ok then (False, buf, h)
      else pReadPortData Q iDeviceNum iSize buf (CurrentNANDBusWidth = 16) h)"

text \<open>The page and the column of a sector, and whether the second read command is sent.\<close>

definition sector_address :: "nand_descriptor \<Rightarrow> nat \<Rightarrow> nat \<Rightarrow> nat \<times> nat \<times> bool" where
  "sector_address d CurrentNANDBusWidth iSectorNum =
     (if NandType d = TYPE1_NAND then (iSectorNum, 0, False)
      else
        let iPageNum = (if iSectorToPageShift d = 0 then iSectorNum else drop_bit (iSectorToPageShift d) iSectorNum);
            iCol = (iSectorNum AND iSectorInPageMask d) * iSectorTotalSize d
        in (iPageNum, if CurrentNANDBusWidth = 16 then drop_bit 1 iCol else iCol, True))"

definition Type2_ReadSectorData ::
    "'h nand_port \<Rightarrow> nat \<Rightarrow> nand_descriptor \<Rightarrow> nat \<Rightarrow> nat \<Rightarrow> WORD list \<Rightarrow> 'h \<Rightarrow> bool \<times> WORD list \<times> 'h" where
  "Type2_ReadSectorData Q CurrentNANDBusWidth d iDeviceNum iSectorNum buf h =
     (let (iPageNum, iCol, sendSecondReadCmd) = sector_address d CurrentNANDBusWidth iSectorNum;
          (ok, h) = pWritePortCmd Q iDeviceNum (iRead1Code d) True h in
      if \<not> ok then (False, buf, h)
      else let (ok, h) = pWritePortAddr Q iDeviceNum (iNumColumnBytes d) iCol (iNumRowBytes d) iPageNum sendSecondReadCmd h in
      if \<not> ok then (False, buf, h)
      else let (ok, h) = (if sendSecondReadCmd then pWritePortCmd Q iDeviceNum (iRead1_2ndCycleCode d) True h else (True, h)) in
      if \<not> ok then (False, buf, h)
      else CommonWaitThenRead Q CurrentNANDBusWidth iDeviceNum (iSectorTotalSize d) buf h)"

definition ResetNand :: "'h nand_port \<Rightarrow> nand_descriptor \<Rightarrow> nat \<Rightarrow> 'h \<Rightarrow> bool \<times> 'h" where
  "ResetNand Q d iDeviceNum h =
     (let (ok, h) = pWritePortCmd Q iDeviceNum (iResetCode d) False h in
      if \<not> ok then (False, h) else pWaitForReadyPort Q iDeviceNum NAND_RESET_TIMEOUT h)"

definition NANDInitInterfacePort :: "'h nand_port \<Rightarrow> nat \<Rightarrow> 'h \<Rightarrow> bool \<times> 'h" where
  "NANDInitInterfacePort Q iDeviceNum h = pPortInit Q iDeviceNum (pPowerUpPads Q h)"

definition NANDTerminateInterfacePort :: "'h nand_port \<Rightarrow> nat \<Rightarrow> 'h \<Rightarrow> bool \<times> 'h" where
  "NANDTerminateInterfacePort Q iDeviceNum h = pTerminatePort Q iDeviceNum h"

text \<open>What a sector is read with: the port, the engine, the chip and the bus.\<close>

record 'h nand_env =
  port :: "'h nand_port"
  engine :: ecc_engine
  pCurrentNANDDescriptor :: nand_descriptor
  CurrentNANDBusWidth :: nat
  NandCurDevNum :: nat
  SmBlockTag :: WORD

definition NandReadSectorDataWrapper :: "'h nand_env \<Rightarrow> nat \<Rightarrow> WORD list \<Rightarrow> 'h \<Rightarrow> WORD \<times> WORD list \<times> 'h" where
  "NandReadSectorDataWrapper E iSectorNum buf h =
     (let d = pCurrentNANDDescriptor E;
          (ok, buf, h) = Type2_ReadSectorData (port E) (CurrentNANDBusWidth E) d (NandCurDevNum E) iSectorNum buf h in
      if \<not> ok then (1, buf, h)
      else
        let buf = NANDRA_ToStandardForm (iSectorDataSize d) True buf;
            (wStatus, buf) = NANDHalCorrectECC_4Bit (engine E) (iSectorDataSize d) buf
        in if wStatus = NANDHAL_ECC_FIX_FAILED then (2, buf, h) else (0, buf, h))"

section \<open>nanddevdrv.c\<close>

record 'h boot =
  NandBlockNum :: nat
  NandSectorNum :: nat
  BootInfo :: WORD
  FlashPageBuf :: "WORD list"
  hardware :: 'h

definition "ST_CODE = (0x005453::WORD)"

definition component_pattern :: "'h nand_env \<Rightarrow> WORD" where
  "component_pattern E = push_bit 8 (SmBlockTag E) OR 0x4D"

text \<open>Reading a sector and its block status and code; the result of the read is ignored.\<close>

definition look_at :: "'h nand_env \<Rightarrow> nat \<Rightarrow> 'h boot \<Rightarrow> bool \<times> WORD \<times> 'h boot" where
  "look_at E iSectorNum s =
     (let (_, buf, h) = NandReadSectorDataWrapper E iSectorNum (FlashPageBuf s) (hardware s);
          S = iSectorDataSize (pCurrentNANDDescriptor E)
      in (NANDRAGetBlockStatus S buf True = NAND_GOOD_BLOCK_VALUE, NANDRAGetStmpCode S buf True,
          s\<lparr>FlashPageBuf := buf, hardware := h\<rparr>))"

function search_pages :: "'h nand_env \<Rightarrow> WORD \<Rightarrow> nat \<Rightarrow> 'h boot \<Rightarrow> bool \<times> 'h boot" where
  "search_pages E wMatchPattern iSectorNum s =
     (let (good, wSTMPCode, s) = look_at E iSectorNum s in
      if good then (False, s)
      else if wMatchPattern \<noteq> ST_CODE
      then if wSTMPCode \<noteq> wMatchPattern then (False, s) else search_pages E ST_CODE (iSectorNum - 1) s
      else if wSTMPCode = wMatchPattern then (True, s\<lparr>NandSectorNum := iSectorNum\<rparr>)
      else (False, s))"
  by pat_completeness auto
termination
  by (relation "measure (\<lambda>(E, p, n, s). if p = ST_CODE then 0 else 1)") auto

declare search_pages.simps [simp del]

definition NandIncBlockNumber :: "'h nand_env \<Rightarrow> 'h boot \<Rightarrow> 'h boot" where
  "NandIncBlockNumber E s =
     (let s = s\<lparr>NandBlockNum := NandBlockNum s + 1\<rparr>
      in if NandBlockNum s \<ge> TotalBlocks (pCurrentNANDDescriptor E)
         then s\<lparr>BootInfo := BootInfo s OR SM_INFO_END_OF_BLOCKS\<rparr> else s)"

fun search_up :: "'h nand_env \<Rightarrow> nat \<Rightarrow> 'h boot \<Rightarrow> bool \<times> 'h boot" where
  "search_up E 0 s = (False, s)"
| "search_up E (Suc n) s =
     (case search_pages E (component_pattern E)
             (NandBlockNum s * NumSectorsPerBlock (pCurrentNANDDescriptor E) + 1) s of
        (True, s) \<Rightarrow> (True, s)
      | (False, s) \<Rightarrow> search_up E n (NandIncBlockNumber E s))"

definition NandSearchForSTMPBlock :: "'h nand_env \<Rightarrow> 'h boot \<Rightarrow> bool \<times> 'h boot" where
  "NandSearchForSTMPBlock E s = search_up E (TotalBlocks (pCurrentNANDDescriptor E) - NandBlockNum s) s"

text \<open>
  The search from the last block downwards: it remembers the last match in a local, which holds garbage
  at first, and returns at the first good block after a match. \<open>Inl\<close> is the return.
\<close>

function search_pages_reverse :: "'h nand_env \<Rightarrow> WORD \<Rightarrow> nat \<Rightarrow> nat \<Rightarrow> 'h boot \<Rightarrow> 'h boot + nat \<times> 'h boot" where
  "search_pages_reverse E wMatchPattern iSectorNum wBlockNum s =
     (let (good, wSTMPCode, s) = look_at E iSectorNum s in
      if good
      then if NandSectorNum s \<noteq> 0 then Inl (s\<lparr>NandBlockNum := wBlockNum\<rparr>) else Inr (wBlockNum, s)
      else if wMatchPattern \<noteq> ST_CODE
      then if wSTMPCode \<noteq> wMatchPattern then Inr (wBlockNum, s)
           else search_pages_reverse E ST_CODE (iSectorNum - 1) wBlockNum s
      else if wSTMPCode = wMatchPattern
      then Inr (NandBlockNum s, s\<lparr>NandSectorNum := iSectorNum\<rparr>)
      else Inr (wBlockNum, s))"
  by pat_completeness auto
termination
  by (relation "measure (\<lambda>(E, p, n, b, s). if p = ST_CODE then 0 else 1)") auto

declare search_pages_reverse.simps [simp del]

fun search_down :: "'h nand_env \<Rightarrow> nat \<Rightarrow> nat \<Rightarrow> 'h boot \<Rightarrow> bool \<times> 'h boot" where
  "search_down E 0 wBlockNum s =
     (False, s\<lparr>NandBlockNum := 0xffffff,
       BootInfo := (if TotalBlocks (pCurrentNANDDescriptor E) \<noteq> 0 then BootInfo s OR SM_INFO_END_OF_BLOCKS else BootInfo s)\<rparr>)"
| "search_down E (Suc b) wBlockNum s =
     (case search_pages_reverse E (component_pattern E)
             (b * NumSectorsPerBlock (pCurrentNANDDescriptor E) + 1) wBlockNum (s\<lparr>NandBlockNum := b\<rparr>) of
        Inl s \<Rightarrow> (True, s)
      | Inr (wBlockNum, s) \<Rightarrow> search_down E b wBlockNum s)"

definition NandSearchForSTMPBlockReverse :: "'h nand_env \<Rightarrow> nat \<Rightarrow> 'h boot \<Rightarrow> bool \<times> 'h boot" where
  "NandSearchForSTMPBlockReverse E wBlockNum s = search_down E (TotalBlocks (pCurrentNANDDescriptor E)) wBlockNum s"

definition NandIsBlockBoundary :: "'h nand_env \<Rightarrow> 'h boot \<Rightarrow> bool" where
  "NandIsBlockBoundary E s \<longleftrightarrow>
     NandSectorNum s AND (NumSectorsPerBlock (pCurrentNANDDescriptor E) - 1) = 0"

definition checkPadPower :: "'h nand_env \<Rightarrow> 'h \<Rightarrow> WORD \<times> 'h" where
  "checkPadPower E h = (if CurrentNANDBusWidth E = 16 then pPowerUpPads_16bit (port E) h else (0, h))"

section \<open>The error correction covers the sector\<close>

text \<open>The blocks of 512 bytes, block \<open>k\<close> starting at byte \<open>512 k\<close>, that is word \<open>512 k div 3\<close>, three bytes to the word.\<close>

fun correct_at :: "ecc_engine \<Rightarrow> nat \<Rightarrow> nat list \<Rightarrow> WORD list \<Rightarrow> WORD \<times> WORD list" where
  "correct_at rs S [] buf = (0, buf)"
| "correct_at rs S (k # ks) buf =
     (let (st, buf) = NANDHalCorrectPartial rs (int (512 * k div 3)) (int (RA_ECC_POS S + 3 * k)) (8 * (512 * k mod 3)) buf
      in if st \<noteq> 0 then (st, buf) else correct_at rs S ks buf)"

lemma correct_blocks_failed: "st \<noteq> 0 \<Longrightarrow> correct_blocks rs S i st p q buf = (st, buf)"
  by (cases i) simp_all

lemma correct_blocks_step:
  "correct_blocks rs S (Suc i) 0 p q buf =
     (let p = (if Suc i = 4 then p - 1 else if Suc i = 3 \<or> Suc i = 2 then p else p + (if S > 512 then 1 else 0));
          (st, buf) = NANDHalCorrectPartial rs p q (if Suc i = 3 then 8 else if Suc i = 2 then 16 else 0) buf
      in if st \<noteq> 0 then (st, buf) else correct_blocks rs S i 0 (p - 171) (q - 3) buf)"
  by (simp add: Let_def split_beta correct_blocks_failed)

lemma correct_blocks_small:
  "correct_blocks rs 512 1 0 0 (int (RA_ECC_POS 512)) buf = correct_at rs 512 [0] buf"
  by (simp only: One_nat_def correct_blocks_step) (simp add: Let_def split_beta)

lemma correct_blocks_large:
  "correct_blocks rs 2048 4 0 513 (int (RA_ECC_POS 2048) + 9) buf = correct_at rs 2048 [3, 2, 1, 0] buf"
proof -
  have n: "(4::nat) = Suc 3" "(3::nat) = Suc 2" "(2::nat) = Suc 1" "(1::nat) = Suc 0" by simp_all
  let ?q = "int (RA_ECC_POS 2048)"
  have 0: "correct_blocks rs 2048 (Suc 0) 0 (- 1) ?q b = correct_at rs 2048 [0] b" for b
    by (simp only: correct_blocks_step) (simp add: Let_def split_beta)
  have 1: "correct_blocks rs 2048 2 0 170 (3 + ?q) b = correct_at rs 2048 [1, 0] b" for b
    by (subst n(3), subst correct_blocks_step, subst correct_at.simps(2))
       (simp del: correct_at.simps correct_blocks.simps add: Let_def split_beta 0 add.commute)
  have 2: "correct_blocks rs 2048 3 0 341 (6 + ?q) b = correct_at rs 2048 [2, 1, 0] b" for b
    by (subst n(2), subst correct_blocks_step, subst correct_at.simps(2))
       (simp del: correct_at.simps correct_blocks.simps add: Let_def split_beta 1 add.commute)
  show ?thesis
    by (subst n(1), subst correct_blocks_step, subst correct_at.simps(2))
       (simp del: correct_at.simps correct_blocks.simps add: Let_def split_beta 2 add.commute)
qed

text \<open>
  C26. On sectors of 512 and of 2048 bytes the error correction treats every block of 512 bytes of the data, from
  the last to the first, at its own word and bit and with its own three parity words, until one of them cannot
  be corrected.
\<close>
theorem NANDHalCorrectECC_covers:
  assumes "S = 512 \<or> S = 2048" and "snd (NANDRAGetLBA S buf True) \<noteq> 0xffff"
  shows "NANDHalCorrectECC_4Bit rs S buf = correct_at rs S (rev [0..<S div 512]) buf"
proof -
  have l: "rev [0..<1] = [0::nat]" "rev [0..<4] = [3, 2, 1, 0::nat]" by (simp_all add: upt_rec)
  from assms(1) show ?thesis
  proof
    assume "S = 512"
    with assms(2) show ?thesis
      using correct_blocks_small l(1) by (simp add: NANDHalCorrectECC_4Bit_def Let_def split_beta)
  next
    assume "S = 2048"
    with assms(2) show ?thesis
      using correct_blocks_large l(2) by (simp add: NANDHalCorrectECC_4Bit_def Let_def split_beta)
  qed
qed

section \<open>The searches\<close>

text \<open>
  What a page shows: whether its block status is that of a good block, and its code. A system block has the
  code of the component on its second page and \<^verbatim>\<open>ST\<close> on its first, and is marked bad on both.
\<close>

definition shows_pages :: "'h nand_env \<Rightarrow> (nat \<Rightarrow> bool \<times> WORD) \<Rightarrow> bool" where
  "shows_pages E page \<longleftrightarrow>
     (\<forall>n s. fst (look_at E n s) = fst (page n) \<and> fst (snd (look_at E n s)) = snd (page n))"

definition system_block :: "(nat \<Rightarrow> bool \<times> WORD) \<Rightarrow> WORD \<Rightarrow> nat \<Rightarrow> nat \<Rightarrow> bool" where
  "system_block page pat n b \<longleftrightarrow>
     page (b * n + 1) = (False, pat) \<and> page (b * n) = (False, ST_CODE)"

definition stop_block :: "(nat \<Rightarrow> bool \<times> WORD) \<Rightarrow> WORD \<Rightarrow> nat \<Rightarrow> nat \<Rightarrow> bool" where
  "stop_block page pat n b \<longleftrightarrow>
     fst (page (b * n + 1)) \<or> snd (page (b * n + 1)) = pat \<and> fst (page (b * n))"

abbreviation per_block :: "'h nand_env \<Rightarrow> nat" where
  "per_block E \<equiv> NumSectorsPerBlock (pCurrentNANDDescriptor E)"

abbreviation blocks :: "'h nand_env \<Rightarrow> nat" where
  "blocks E \<equiv> TotalBlocks (pCurrentNANDDescriptor E)"

lemma component_pattern_not_ST [simp]: "component_pattern E \<noteq> ST_CODE"
proof
  assume "component_pattern E = ST_CODE"
  then have "bit (component_pattern E) 3 = bit ST_CODE 3" by simp
  then show False by (simp add: component_pattern_def ST_CODE_def bit_simps)
qed

lemma look_at_state:
  "snd (snd (look_at E n s)) = s\<lparr>FlashPageBuf := FlashPageBuf (snd (snd (look_at E n s))),
     hardware := hardware (snd (snd (look_at E n s)))\<rparr>"
  by (simp add: look_at_def Let_def split_beta)

lemma look_at_keeps [simp]:
  "NandBlockNum (snd (snd (look_at E n s))) = NandBlockNum s"
  "NandSectorNum (snd (snd (look_at E n s))) = NandSectorNum s"
  "BootInfo (snd (snd (look_at E n s))) = BootInfo s"
  by (simp_all add: look_at_def Let_def split_beta)

lemma search_pages_result:
  assumes "shows_pages E page"
  shows "fst (search_pages E (component_pattern E) (b * n + 1) s) = system_block page (component_pattern E) n b"
    and "NandBlockNum (snd (search_pages E (component_pattern E) (b * n + 1) s)) = NandBlockNum s"
    and "BootInfo (snd (search_pages E (component_pattern E) (b * n + 1) s)) = BootInfo s"
    and "NandSectorNum (snd (search_pages E (component_pattern E) (b * n + 1) s)) =
           (if system_block page (component_pattern E) n b then b * n else NandSectorNum s)"
  using assms
  by (simp_all add: search_pages.simps [of E "component_pattern E"] search_pages.simps [of E ST_CODE]
        shows_pages_def system_block_def prod_eq_iff Let_def split_beta)

lemma search_up_result:
  assumes "shows_pages E page" and "sys = system_block page (component_pattern E) (per_block E)"
    and "NandBlockNum s + n = blocks E" and "search_up E n s = (found, s')"
  shows "(found \<and> NandBlockNum s \<le> NandBlockNum s' \<and> NandBlockNum s' < blocks E \<and> sys (NandBlockNum s') \<and>
           (\<forall>b. NandBlockNum s \<le> b \<and> b < NandBlockNum s' \<longrightarrow> \<not> sys b) \<and>
           NandSectorNum s' = NandBlockNum s' * per_block E \<and> BootInfo s' = BootInfo s)
       \<or> (\<not> found \<and> (\<forall>b. NandBlockNum s \<le> b \<and> b < blocks E \<longrightarrow> \<not> sys b) \<and>
           NandBlockNum s' = blocks E \<and> NandSectorNum s' = NandSectorNum s \<and>
           BootInfo s' = (if n = 0 then BootInfo s else BootInfo s OR SM_INFO_END_OF_BLOCKS))"
  using assms(3,4)
proof (induction n arbitrary: s)
  case 0
  then show ?case by auto
next
  case (Suc n)
  obtain f t where t: "search_pages E (component_pattern E) (NandBlockNum s * per_block E + 1) s = (f, t)"
    by (cases "search_pages E (component_pattern E) (NandBlockNum s * per_block E + 1) s")
  have r: "f = sys (NandBlockNum s)" "NandBlockNum t = NandBlockNum s" "BootInfo t = BootInfo s"
      "NandSectorNum t = (if f then NandBlockNum s * per_block E else NandSectorNum s)"
    using search_pages_result [OF assms(1), of "NandBlockNum s" "per_block E" s] t assms(2) by simp_all
  show ?case
  proof (cases f)
    case True
    then show ?thesis using Suc.prems t r by auto
  next
    case False
    let ?u = "NandIncBlockNumber E t"
    have u: "NandBlockNum ?u = Suc (NandBlockNum s)" "NandSectorNum ?u = NandSectorNum s"
        "BootInfo ?u = (if n = 0 then BootInfo s OR SM_INFO_END_OF_BLOCKS else BootInfo s)"
      using r False Suc.prems(1) by (auto simp: NandIncBlockNumber_def Let_def)
    have n: "search_up E n ?u = (found, s')"
      using Suc.prems(2) t False by simp
    have IH: "(found \<and> NandBlockNum ?u \<le> NandBlockNum s' \<and> NandBlockNum s' < blocks E \<and> sys (NandBlockNum s') \<and>
           (\<forall>b. NandBlockNum ?u \<le> b \<and> b < NandBlockNum s' \<longrightarrow> \<not> sys b) \<and>
           NandSectorNum s' = NandBlockNum s' * per_block E \<and> BootInfo s' = BootInfo ?u)
       \<or> (\<not> found \<and> (\<forall>b. NandBlockNum ?u \<le> b \<and> b < blocks E \<longrightarrow> \<not> sys b) \<and>
           NandBlockNum s' = blocks E \<and> NandSectorNum s' = NandSectorNum ?u \<and>
           BootInfo s' = (if n = 0 then BootInfo ?u else BootInfo ?u OR SM_INFO_END_OF_BLOCKS))"
      using Suc.IH [of ?u] u(1) n Suc.prems(1) by simp
    have le: "Suc (NandBlockNum s) \<le> b" if "NandBlockNum s \<le> b" "sys b" for b
      using that r(1) False by (cases "b = NandBlockNum s") auto
    show ?thesis
    proof (cases found)
      case True
      with IH u(1) Suc.prems(1) have "n \<noteq> 0" by auto
      with IH u le True show ?thesis by (auto dest: Suc_leD)
    next
      case nf: False
      then show ?thesis using IH u le by auto
    qed
  qed
qed

text \<open>
  C25. The search upwards finds the first system block of the component at or after the block it starts at, and
  its first sector; without one it reports the end of the blocks, with the block number past the last block.
\<close>
theorem NandSearchForSTMPBlock_first:
  assumes "shows_pages E page" and "NandBlockNum s < blocks E"
    and "NandSearchForSTMPBlock E s = (found, s')"
  shows "let sys = system_block page (component_pattern E) (per_block E); b' = NandBlockNum s' in
         if \<exists>b \<ge> NandBlockNum s. b < blocks E \<and> sys b
         then found \<and> sys b' \<and> b' \<in> {NandBlockNum s..<blocks E} \<and> (\<forall>b \<in> {NandBlockNum s..<b'}. \<not> sys b) \<and>
              NandSectorNum s' = b' * per_block E \<and> BootInfo s' = BootInfo s
         else \<not> found \<and> b' = blocks E \<and> NandSectorNum s' = NandSectorNum s \<and>
              BootInfo s' = BootInfo s OR SM_INFO_END_OF_BLOCKS"
  using search_up_result [OF assms(1) refl _ assms(3) [unfolded NandSearchForSTMPBlock_def]] assms(2)
  by (auto simp: Let_def)

text \<open>
  The search downwards: the block it returns lies above a stop block, a block that shows a good block status,
  with no system block and no stop block between them; every stop block above has no system block over it.
\<close>

lemma search_pages_reverse_result:
  assumes "shows_pages E page"
  shows "case search_pages_reverse E (component_pattern E) (b * n + 1) w s of
      Inl s' \<Rightarrow> stop_block page (component_pattern E) n b \<and> NandSectorNum s \<noteq> 0 \<and>
                NandBlockNum s' = w \<and> NandSectorNum s' = NandSectorNum s \<and> BootInfo s' = BootInfo s
    | Inr (w', s') \<Rightarrow> (stop_block page (component_pattern E) n b \<longrightarrow> NandSectorNum s = 0) \<and> BootInfo s' = BootInfo s \<and>
                NandBlockNum s' = NandBlockNum s \<and>
                (if system_block page (component_pattern E) n b then w' = NandBlockNum s \<and> NandSectorNum s' = b * n
                 else w' = w \<and> NandSectorNum s' = NandSectorNum s)"
  using assms
  by (simp add: search_pages_reverse.simps [of E "component_pattern E"] search_pages_reverse.simps [of E ST_CODE]
        shows_pages_def system_block_def stop_block_def prod_eq_iff Let_def split_beta)

definition down_inv :: "(nat \<Rightarrow> bool) \<Rightarrow> (nat \<Rightarrow> bool) \<Rightarrow> nat \<Rightarrow> nat \<Rightarrow> nat \<Rightarrow> nat \<Rightarrow> nat \<Rightarrow> bool" where
  "down_inv sys stop T k n w sector \<longleftrightarrow>
     (\<forall>x y. n \<le> x \<and> x < y \<and> y < T \<and> stop x \<longrightarrow> \<not> sys y) \<and>
     (0 < n \<longrightarrow>
       (if sector = 0 then \<forall>y. n \<le> y \<and> y < T \<longrightarrow> \<not> sys y
        else sys w \<and> n \<le> w \<and> w < T \<and> sector = w * k \<and> (\<forall>x. n \<le> x \<and> x < w \<longrightarrow> \<not> sys x)))"

lemma down_inv_step:
  assumes "down_inv sys stop T k (Suc n) w sector" and "0 < k" and "Suc n \<le> T"
    and "stop n \<Longrightarrow> sector = 0" and "stop n \<Longrightarrow> \<not> sys n"
  shows "down_inv sys stop T k n (if sys n then n else w) (if sys n then n * k else sector)"
proof -
  have n: "n \<le> x \<Longrightarrow> n \<noteq> x \<Longrightarrow> Suc n \<le> x" for x by arith
  have H: "\<And>x y. Suc n \<le> x \<Longrightarrow> x < y \<Longrightarrow> y < T \<Longrightarrow> stop x \<Longrightarrow> \<not> sys y"
      "sector = 0 \<Longrightarrow> Suc n \<le> y \<Longrightarrow> y < T \<Longrightarrow> \<not> sys y"
      "sector \<noteq> 0 \<Longrightarrow> sys w \<and> Suc n \<le> w \<and> w < T \<and> sector = w * k \<and> (\<forall>x. Suc n \<le> x \<and> x < w \<longrightarrow> \<not> sys x)" for y
    using assms(1) by (simp_all add: down_inv_def)
  have A: "\<not> sys y" if "n \<le> x" "x < y" "y < T" "stop x" for x y
    using that H(1) [of x y] H(2) [of y] assms(4) n [of x] by (cases "n = x") auto
  have B: "\<not> sys y" if "\<not> sys n" "sector = 0" "n \<le> y" "y < T" for y
    using that H(2) [of y] n [of y] by (cases "n = y") auto
  have C: "sys w \<and> n \<le> w \<and> w < T \<and> sector = w * k \<and> (\<forall>x. n \<le> x \<and> x < w \<longrightarrow> \<not> sys x)"
    if "\<not> sys n" "sector \<noteq> 0"
  proof (intro conjI allI impI)
    show "sys w" "n \<le> w" "w < T" "sector = w * k" using that H(3) by auto
    fix x assume x: "n \<le> x \<and> x < w"
    show "\<not> sys x"
    proof (cases "n = x")
      case True
      then show ?thesis using that(1) by simp
    next
      case False
      then have "Suc n \<le> x \<and> x < w" using x n [of x] by simp
      then show ?thesis using H(3) that(2) by blast
    qed
  qed
  have A': "\<forall>x y. n \<le> x \<and> x < y \<and> y < T \<and> stop x \<longrightarrow> \<not> sys y"
    using A by blast
  show ?thesis
  proof (cases "sys n")
    case True
    have "\<forall>x. n \<le> x \<and> x < n \<longrightarrow> \<not> sys x" by auto
    then show ?thesis using True A' assms(2,3) unfolding down_inv_def by simp
  next
    case False
    have "sector = 0 \<Longrightarrow> \<forall>y. n \<le> y \<and> y < T \<longrightarrow> \<not> sys y" using B False by blast
    with A' False C show ?thesis unfolding down_inv_def by (cases "sector = 0") simp_all
  qed
qed

lemma search_down_result:
  assumes "shows_pages E page" and "sys = system_block page (component_pattern E) (per_block E)"
    and "stop = stop_block page (component_pattern E) (per_block E)" and "0 < per_block E"
    and "search_down E n w s = (found, s')" and "n \<le> blocks E"
    and "down_inv sys stop (blocks E) (per_block E) n w (NandSectorNum s)"
  shows "(found \<and> (\<exists>b < NandBlockNum s'. stop b \<and> (\<forall>x \<in> {b<..<NandBlockNum s'}. \<not> sys x) \<and>
             (\<forall>x y. b < x \<and> x < y \<and> y < blocks E \<and> stop x \<longrightarrow> \<not> sys y)) \<and>
           sys (NandBlockNum s') \<and> NandBlockNum s' < blocks E \<and>
           NandSectorNum s' = NandBlockNum s' * per_block E \<and> BootInfo s' = BootInfo s)
       \<or> (\<not> found \<and> (\<forall>x y. x < y \<and> y < blocks E \<and> stop x \<longrightarrow> \<not> sys y) \<and>
           NandBlockNum s' = 0xffffff \<and>
           BootInfo s' = (if blocks E = 0 then BootInfo s else BootInfo s OR SM_INFO_END_OF_BLOCKS))"
  using assms(5-7)
proof (induction n arbitrary: w s)
  case 0
  then show ?case by (auto simp: down_inv_def)
next
  case (Suc n)
  let ?s = "s\<lparr>NandBlockNum := n\<rparr>"
  let ?r = "search_pages_reverse E (component_pattern E) (n * per_block E + 1) w ?s"
  note R = search_pages_reverse_result [OF assms(1), where b = n and n = "per_block E" and w = w and s = ?s, folded assms(2,3)]
  have disj: "stop b \<Longrightarrow> \<not> sys b" for b
    by (auto simp: assms(2,3) stop_block_def system_block_def)
  show ?case
  proof (cases ?r)
    case (Inl t)
    have r: "stop n" "NandSectorNum s \<noteq> 0" "NandBlockNum t = w" "NandSectorNum t = NandSectorNum s" "BootInfo t = BootInfo s"
      using R Inl by simp_all
    have st: "found" "s' = t" using Suc.prems(1) Inl by auto
    have "sys w" "n < w" "w < blocks E" "NandSectorNum s = w * per_block E" "\<And>x. n < x \<Longrightarrow> x < w \<Longrightarrow> \<not> sys x"
        "\<And>x y. n < x \<Longrightarrow> x < y \<Longrightarrow> y < blocks E \<Longrightarrow> stop x \<Longrightarrow> \<not> sys y"
      using Suc.prems(3) r(2) by (auto simp: down_inv_def dest: Suc_leI split: if_splits)
    then show ?thesis
      using r st by (intro disjI1 conjI exI [of _ n]) auto
  next
    case (Inr wt)
    obtain w' t where wt: "wt = (w', t)" by (cases wt)
    have r: "stop n \<Longrightarrow> NandSectorNum s = 0" "BootInfo t = BootInfo s" "w' = (if sys n then n else w)"
        "NandSectorNum t = (if sys n then n * per_block E else NandSectorNum s)"
      using R Inr wt by (auto split: if_splits)
    have "search_down E n w' t = (found, s')" using Suc.prems(1) Inr wt by simp
    moreover have "down_inv sys stop (blocks E) (per_block E) n w' (NandSectorNum t)"
      unfolding r(3,4) by (rule down_inv_step [OF Suc.prems(3) assms(4) Suc.prems(2) r(1) disj])
    ultimately show ?thesis
      using Suc.IH [of w' t] Suc.prems(2) r(2) by simp
  qed
qed

text \<open>
  C24. The search downwards, entered with the sector number 0, succeeds exactly when a system block of the component
  lies above a block that shows a good block status; it then returns the lowest system block above the highest
  such block, and otherwise reports the end of the blocks.
\<close>
theorem NandSearchForSTMPBlockReverse_last:
  assumes "shows_pages E page" and "0 < per_block E" and "NandSectorNum s = 0"
    and "sys = system_block page (component_pattern E) (per_block E)"
    and "stop = stop_block page (component_pattern E) (per_block E)"
    and "NandSearchForSTMPBlockReverse E w s = (found, s')"
  shows "found = (\<exists>b c. b < c \<and> c < blocks E \<and> stop b \<and> sys c) \<and>
    (if found
     then sys (NandBlockNum s') \<and> NandSectorNum s' = NandBlockNum s' * per_block E \<and> BootInfo s' = BootInfo s \<and>
          (\<exists>b < NandBlockNum s'. stop b \<and> (\<forall>x \<in> {b<..<NandBlockNum s'}. \<not> sys x) \<and>
             (\<forall>x y. b < x \<and> x < y \<and> y < blocks E \<and> stop x \<longrightarrow> \<not> sys y))
     else BootInfo s' = (if blocks E = 0 then BootInfo s else BootInfo s OR SM_INFO_END_OF_BLOCKS))"
proof -
  have "down_inv sys stop (blocks E) (per_block E) (blocks E) w (NandSectorNum s)"
    by (auto simp: down_inv_def assms(3))
  note R = search_down_result [OF assms(1,4,5,2) assms(6) [unfolded NandSearchForSTMPBlockReverse_def] order_refl this]
  show ?thesis
  proof (cases found)
    case True
    with R show ?thesis by auto
  next
    case False
    with R show ?thesis by auto
  qed
qed

section \<open>The descriptor of the chip\<close>

lemma NandLookupID_map_of:
  assumes "1 \<in> fst ` set t"
  shows "NandLookupID code t = Some (map_of (takeWhile (\<lambda>e. fst e \<noteq> 1) t) code)"
  using assms by (induction code t rule: NandLookupID.induct) auto

lemma DetermineNandType_map_of:
  assumes "NANDHALCommon_ReadId Q n ids h = (ids', h')"
    and "kind = (if CellType ids' \<noteq> 0 then LargeMLCDescriptorIdList T else Type2DescriptorIdList T)"
    and "1 \<in> fst ` set (UniqueInitDescriptorIdList T)" and "1 \<in> fst ` set kind"
  shows "DetermineNandType Q T n ids h =
     Some (8, (map_of (takeWhile (\<lambda>e. fst e \<noteq> 1) kind) ++
            map_of (takeWhile (\<lambda>e. fst e \<noteq> 1) (UniqueInitDescriptorIdList T))) (ids' ! 0 AND 0xFFFF), ids', h')"
proof -
  have "NandLookupID (ids' ! 0 AND 0xFFFF) (if CellType ids' \<noteq> 0 then LargeMLCDescriptorIdList T else Type2DescriptorIdList T) =
      Some (map_of (takeWhile (\<lambda>e. fst e \<noteq> 1) kind) (ids' ! 0 AND 0xFFFF))"
    using NandLookupID_map_of [OF assms(4)] assms(2) by simp
  then show ?thesis
    by (simp only: DetermineNandType_def assms(1) Let_def prod.case NandLookupID_map_of [OF assms(3)])
       (simp add: map_add_def split: option.split)
qed

text \<open>
  When the chip answers the reset and the two tables consulted end with their marker, the initialisation
  takes the first entry of the device and maker code, of the unique chips before those of the cell type, on a
  bus of 8 bits; for a chip in neither it goes on with a null descriptor.
\<close>
theorem NandHalInit_selects:
  assumes "pWritePortCmd Q n 0xFF False h = (True, h1)"
    and "pWaitForReadyPort Q n NAND_RESET_TIMEOUT h1 = (True, h2)"
    and "NANDHALCommon_ReadId Q n ids h2 = (ids', h3)"
    and "kind = (if CellType ids' \<noteq> 0 then LargeMLCDescriptorIdList T else Type2DescriptorIdList T)"
    and "1 \<in> fst ` set (UniqueInitDescriptorIdList T)" and "1 \<in> fst ` set kind"
  shows "NandHalInit Q T n ids h =
     (case (map_of (takeWhile (\<lambda>e. fst e \<noteq> 1) kind) ++
            map_of (takeWhile (\<lambda>e. fst e \<noteq> 1) (UniqueInitDescriptorIdList T))) (ids' ! 0 AND 0xFFFF) of
        Some d \<Rightarrow> InitDone d 8 (iSectorDataSize d) (iSectorDataSize d div 3 + 1)
      | None \<Rightarrow> NullDescriptor, h3)"
  by (simp only: NandHalInit_def assms(1,2) DetermineNandType_map_of [OF assms(3-6)] Let_def prod.case)
     (simp only: SectorSizeInWordsPlusOne_def prod.case option.case split: option.split, simp)

section \<open>A chip\<close>

text \<open>
  A chip of four blocks of two pages: the system block 2 of the component \<^verbatim>\<open>0x50\<close>, a bad block 3 and two good ones.
\<close>

definition chip_page :: "nat \<Rightarrow> WORD list" where
  "chip_page n = replicate 172 0 @
     (if n = 4 then [0x530000, 0x54, 0, 0] else if n = 5 then [0x4D0000, 0x50, 0, 0]
      else if n > 5 then [0, 0, 0, 0] else [0xffffff, 0xffffff, 0xffffff, 0xffffff])"

definition chip_descriptor :: nand_descriptor where
  "chip_descriptor = \<lparr>iSectorTotalSize = 528, iSectorDataSize = 512, iSectorToPageShift = 0, iSectorInPageMask = 0,
     NumSectorsPerBlock = 2, NandType = TYPE1_NAND, iNumColumnBytes = 1, iNumRowBytes = 2, iRead1Code = 0,
     iRead1_2ndCycleCode = 0x30, iResetCode = 0xff, TotalBlocks = 4\<rparr>"

definition chip_port :: "nat nand_port" where
  "chip_port = \<lparr>pPowerUpPads = id, pPowerUpPads_16bit = Pair 0, pPortInit = (\<lambda>_. Pair True), pTerminatePort = (\<lambda>_. Pair True),
     pWritePortCmd = (\<lambda>_ _ _. Pair True), pWritePortAddr = (\<lambda>_ _ _ _ row _ _. (True, row)),
     pReadPortData = (\<lambda>_ _ buf _ page. (True, chip_page page, page)), pWaitForReadyPort = (\<lambda>_ _. Pair True)\<rparr>"

definition chip_engine :: ecc_engine where
  "chip_engine p i e buf = (Some 0, False, buf)"

definition chip_env :: "nat nand_env" where
  "chip_env = \<lparr>port = chip_port, engine = chip_engine, pCurrentNANDDescriptor = chip_descriptor,
     CurrentNANDBusWidth = 8, NandCurDevNum = 0, SmBlockTag = 0x50\<rparr>"

definition chip_shows :: "nat \<Rightarrow> bool \<times> WORD" where
  "chip_shows n = (n < 4, if n = 4 then ST_CODE else if n = 5 then 0x504D else if n > 5 then 0 else 0xffff)"

lemma chip_engine_idle: "NANDHalCorrectECC_4Bit chip_engine 512 buf = (0, buf)"
proof -
  have "correct_blocks chip_engine 512 1 0 0 (int (RA_ECC_POS 512)) buf = (0, buf)"
    unfolding correct_blocks_small
    by (simp add: NANDHalCorrectPartial_def chip_engine_def RSECC_DELAY_COUNTER_VALUE_def)
  then show ?thesis
    by (simp add: NANDHalCorrectECC_4Bit_def Let_def split_beta)
qed

lemma chip_reads:
  "NandReadSectorDataWrapper chip_env n buf h = (0, NANDRA_ToStandardForm 512 True (chip_page n), n)"
  by (simp add: NandReadSectorDataWrapper_def Type2_ReadSectorData_def sector_address_def CommonWaitThenRead_def
      chip_env_def chip_descriptor_def chip_port_def chip_engine_idle NANDHAL_ECC_FIX_FAILED_def Let_def)

lemma chip_look: "shows_pages chip_env chip_shows"
proof -
  have "NANDRAGetBlockStatus 512 (NANDRA_ToStandardForm 512 True (chip_page n)) True = NAND_GOOD_BLOCK_VALUE \<longleftrightarrow> fst (chip_shows n)"
    for n
    by (simp add: NANDRAGetBlockStatus_def NANDRAGetByte_def NANDRA_ToStandardForm_def chip_page_def chip_shows_def
        SectorSizeInWordsPlusOne_def nth_append RA_BLOCK_STATUS_OFFSET_def GetByteFromArrayInX_def NAND_GOOD_BLOCK_VALUE_def Let_def)
  moreover
  have "NANDRAGetStmpCode 512 (NANDRA_ToStandardForm 512 True (chip_page n)) True = snd (chip_shows n)"
    for n
    by (simp add: NANDRAGetStmpCode_def NANDRA_ToStandardForm_def chip_page_def chip_shows_def SectorSizeInWordsPlusOne_def
        nth_append RA_STMP_TAG_0_OFFSET_def RA_STMP_TAG_1_OFFSET_def GetByteFromArrayInX_def ST_CODE_def Let_def)
  moreover have "iSectorDataSize (pCurrentNANDDescriptor chip_env) = 512"
    by (simp add: chip_env_def chip_descriptor_def)
  ultimately show ?thesis
    by (simp add: shows_pages_def look_at_def chip_reads Let_def)
qed

lemma chip_facts:
  "component_pattern chip_env = 0x504D" "per_block chip_env = 2" "blocks chip_env = 4"
  "system_block chip_shows 0x504D 2 b = (b = 2)" "stop_block chip_shows 0x504D 2 b = (b < 2)"
  by (auto simp: component_pattern_def chip_env_def chip_descriptor_def system_block_def stop_block_def chip_shows_def ST_CODE_def)

definition at_reset :: "nat boot" where
  "at_reset = \<lparr>NandBlockNum = 0, NandSectorNum = 0, BootInfo = 0, FlashPageBuf = [], hardware = 0\<rparr>"

lemma at_reset_facts: "NandBlockNum at_reset = 0" "NandSectorNum at_reset = 0" "BootInfo at_reset = 0"
  by (simp_all add: at_reset_def)

theorem NANDHalCorrectECC_covers_witness:
  "NANDHalCorrectECC_4Bit (\<lambda>p i e b. (Some 5, p = 170, b[nat p := 7])) 2048 (replicate 704 0) =
     (NANDHAL_ECC_FIX_FAILED, (replicate 704 0)[512 := 7, 341 := 7, 170 := 7])"
proof -
  have l: "rev [0..<4] = [3, 2, 1, 0::nat]" by (simp add: upt_rec)
  have s: "spin (Some 5) 1000 = 995" by (simp add: numeral_eq_Suc)
  have r: "snd (NANDRAGetLBA 2048 (replicate 704 0) True) \<noteq> 0xffff"
    by (simp add: NANDRAGetLBA_def GetByteFromArrayInX_def RA_RSI_0_OFFSET_def RA_RSI_1_OFFSET_def Let_def)
  show ?thesis
    using NANDHalCorrectECC_covers [OF disjI2 [OF refl] r, of "\<lambda>p i e b. (Some 5, p = 170, b[nat p := 7])"] l
    by (simp add: NANDHalCorrectPartial_def RSECC_DELAY_COUNTER_VALUE_def s NANDHAL_ECC_FIX_FAILED_def)
qed

theorem NandSearchForSTMPBlock_first_witness:
  "case NandSearchForSTMPBlock chip_env at_reset of (found, s') \<Rightarrow> found \<and> NandBlockNum s' = 2 \<and> NandSectorNum s' = 4"
proof -
  obtain found s' where r: "NandSearchForSTMPBlock chip_env at_reset = (found, s')"
    by (cases "NandSearchForSTMPBlock chip_env at_reset")
  have "NandBlockNum at_reset < blocks chip_env"
    by (simp add: at_reset_facts chip_facts)
  from NandSearchForSTMPBlock_first [OF chip_look this r] r show ?thesis
    by (simp add: at_reset_facts chip_facts Let_def)
qed

theorem NandSearchForSTMPBlockReverse_last_witness:
  "case NandSearchForSTMPBlockReverse chip_env 99 at_reset of (found, s') \<Rightarrow> found \<and> NandBlockNum s' = 2 \<and> NandSectorNum s' = 4"
proof -
  obtain found s' where r: "NandSearchForSTMPBlockReverse chip_env 99 at_reset = (found, s')"
    by (cases "NandSearchForSTMPBlockReverse chip_env 99 at_reset")
  have "0 < per_block chip_env" by (simp add: chip_facts)
  from NandSearchForSTMPBlockReverse_last [OF chip_look this at_reset_facts(2) refl refl r] r show ?thesis
    by (auto simp: chip_facts split: if_splits dest: spec [of _ 0])
qed

theorem NandHalInit_selects_witness:
  "fst (NandHalInit chip_port
     \<lparr>UniqueInitDescriptorIdList = [(0x75EC, chip_descriptor), (1, chip_descriptor)], Type2DescriptorIdList = [(1, chip_descriptor)],
      LargeMLCDescriptorIdList = []\<rparr> 0 [0, 0] 9) = NullDescriptor"
proof -
  let ?T = "\<lparr>UniqueInitDescriptorIdList = [(0x75EC, chip_descriptor), (1, chip_descriptor)], Type2DescriptorIdList = [(1, chip_descriptor)],
      LargeMLCDescriptorIdList = []\<rparr>"
  have "pWritePortCmd chip_port 0 0xFF False 9 = (True, 9)" "pWaitForReadyPort chip_port 0 NAND_RESET_TIMEOUT 9 = (True, 9)"
      "NANDHALCommon_ReadId chip_port 0 [0, 0] 9 = (chip_page 0, 0)"
    by (simp_all add: chip_port_def NANDHALCommon_ReadId_def Let_def)
  moreover have "chip_page 0 ! 0 = 0" "CellType (chip_page 0) = 0"
    by (simp_all add: chip_page_def CellType_def nth_append)
  ultimately show ?thesis
    using NandHalInit_selects [of chip_port 0 9 9 9 "[0, 0]" "chip_page 0" 0 "[(1, chip_descriptor)]" ?T] by simp
qed

end
