(* ===== verification/Id3.thy ===== *)
theory Id3 imports Prelude begin

text \<open>
  The tags of an MP3 file, \<^verbatim>\<open>System/Common/metadata\<close>: the ID3v2 tag in front of the sound (\<^verbatim>\<open>id3v2.c\<close>), the
  ID3v1 tag at the end and the choice between them (\<^verbatim>\<open>mp3metadata.c\<close>), and the conversion of
  double-byte text to Unicode they end in (\<^verbatim>\<open>System/Common/DBCS.c\<close>). The build is the one without
  \<^verbatim>\<open>USE_PLAYLIST3\<close>, \<^verbatim>\<open>JPEG_ALBUM_ART\<close> and \<^verbatim>\<open>SYNC_LYRICS\<close>.

  The open file is an argument with a state \<open>'s\<close> of its own, the file system being a binary library. A
  text buffer is a list of words, \<open>None\<close> for a null pointer; a result \<open>None\<close> is an access outside a
  buffer, and the loop over the frames adds a second \<open>option\<close>, \<open>None\<close> when it never ends.
\<close>

section \<open>The open file: fsutilsc.c\<close>

datatype origin = SEEK_SET | SEEK_CUR | SEEK_END

text \<open>
  Reading gives the bytes that were there, at most as many as asked for; a seek gives whether it
  succeeded.
\<close>

record 's song_file =
  Fread :: "nat \<Rightarrow> 's \<Rightarrow> BYTE list \<times> 's"
  Fseek :: "int \<Rightarrow> origin \<Rightarrow> 's \<Rightarrow> bool \<times> 's"
  Ftell :: "'s \<Rightarrow> int"

text \<open>Bytes are stored from the low end of a word, and the rest of the word keeps its value.\<close>

definition little :: "BYTE list \<Rightarrow> WORD" where
  "little bs = foldr (\<lambda>b w. ucast b OR push_bit 8 w) bs 0"

definition fill :: "WORD \<Rightarrow> BYTE list \<Rightarrow> WORD" where
  "fill w bs = (w AND NOT (mask (8 * length bs))) OR little bs"

definition FSFileRead :: "'s song_file \<Rightarrow> nat \<Rightarrow> WORD \<Rightarrow> 's \<Rightarrow> nat \<times> WORD \<times> 's" where
  "FSFileRead F n w s = (let (bs, s) = Fread F n s in (length bs, fill w bs, s))"

definition fseek :: "'s song_file \<Rightarrow> int \<Rightarrow> origin \<Rightarrow> 's \<Rightarrow> bool \<times> 's" where
  "fseek F p = Fseek F p"

definition ftell :: "'s song_file \<Rightarrow> 's \<Rightarrow> int" where
  "ftell F = Ftell F"

section \<open>Buffers\<close>

definition put :: "nat \<Rightarrow> WORD \<Rightarrow> WORD list \<Rightarrow> WORD list option" where
  "put k v buf = (if k < length buf then Some (buf[k := v]) else None)"

definition strcpy :: "WORD list \<Rightarrow> WORD list \<Rightarrow> WORD list option" where
  "strcpy dst src =
     (let t = takeWhile (\<lambda>w. w \<noteq> 0) src
      in if length t < length src \<and> length t < length dst then Some (t @ 0 # drop (Suc (length t)) dst) else None)"

section \<open>DBCS.c\<close>

text \<open>The two map resources, word by word.\<close>

record dbcs_maps =
  g_iPDM :: "nat \<Rightarrow> WORD"
  g_iSDMS :: "nat \<Rightarrow> WORD"

definition "MBC_FLAG = (0x010000::WORD)"

definition LookupPrimaryDBCSMapEntry :: "dbcs_maps \<Rightarrow> WORD \<Rightarrow> WORD" where
  "LookupPrimaryDBCSMapEntry M c = g_iPDM M (3 + unat (c AND 0xff))"

definition LookupSecondaryDBCSMapEntry :: "dbcs_maps \<Rightarrow> WORD \<Rightarrow> WORD \<Rightarrow> WORD" where
  "LookupSecondaryDBCSMapEntry M SecondaryMapIndex c =
     g_iSDMS M (unat SecondaryMapIndex * (3 + 256) + 3 + unat (c AND 0xff))"

function dbcs_loop :: "dbcs_maps \<Rightarrow> (nat \<Rightarrow> BYTE) \<Rightarrow> int \<Rightarrow> nat \<Rightarrow> nat \<Rightarrow> WORD list \<Rightarrow> WORD list option" where
  "dbcs_loop M pDBCS iLength iDBCSIndex iUnicodeIndex pUnicode =
     (let c = ucast (pDBCS iDBCSIndex) :: WORD in
      if c = 0 then put iUnicodeIndex 0 pUnicode
      else
        let DBCSMapEntry = LookupPrimaryDBCSMapEntry M c;
            (c, iDBCSIndex) =
              (if DBCSMapEntry AND MBC_FLAG \<noteq> 0
               then (LookupSecondaryDBCSMapEntry M (DBCSMapEntry AND NOT MBC_FLAG) (ucast (pDBCS (iDBCSIndex + 1))), iDBCSIndex + 2)
               else (DBCSMapEntry, iDBCSIndex + 1))
        in do {
          pUnicode \<leftarrow> put iUnicodeIndex c pUnicode;
          if int (iUnicodeIndex + 1) > iLength - 2 then put (iUnicodeIndex + 1) 0 pUnicode
          else dbcs_loop M pDBCS iLength iDBCSIndex (iUnicodeIndex + 1) pUnicode })"
  by pat_completeness auto
termination
  by (relation "measure (\<lambda>(M, p, l, i, u, b). nat (l - int u))") auto

declare dbcs_loop.simps [simp del]

definition DBCSToUnicode :: "dbcs_maps \<Rightarrow> (nat \<Rightarrow> BYTE) \<Rightarrow> WORD list \<Rightarrow> int \<Rightarrow> WORD list option" where
  "DBCSToUnicode M pDBCS pUnicode iLength = dbcs_loop M pDBCS iLength 0 0 pUnicode"

section \<open>FILE_META_DATA\<close>

record file_meta =
  iTitleBufferLength :: WORD
  wTitle :: "WORD list option"
  iArtistBufferLength :: WORD
  wArtist :: "WORD list option"
  iAlbumBufferLength :: WORD
  wAlbum :: "WORD list option"
  btGenre :: WORD
  dwStartPos :: DWORD
  dwNumBytes :: DWORD

section \<open>id3v2.c: numbers and texts\<close>

definition "MAX_STRING = (100::nat)"
definition "ID3V2_HEADER_FLAG_FOOTER = (0x10::WORD)"
definition "ID3V2_HEADER_EXTENDED_HEADER = (0x40::WORD)"
definition "ID3V2_HEADER_UNSYNCRONIZATION = (0x80::WORD)"
definition "ID3V2_FRAME_UNSUPPORTED = (0x0200 OR 0x0800 OR 0x0400 :: WORD)"
definition "TAL = (0x4c4154::WORD)"
definition "TT2 = (0x325454::WORD)"
definition "TP1 = (0x315054::WORD)"
definition "TALB = (0x424c41::WORD)"
definition "TIT2 = (0x325449::WORD)"
definition "TPE1 = (0x314550::WORD)"
definition "BOM_BIG_ENDIAN = (0xFFFE::WORD)"

fun read_int :: "'s song_file \<Rightarrow> bool \<Rightarrow> nat \<Rightarrow> WORD \<Rightarrow> WORD \<Rightarrow> 's \<Rightarrow> WORD \<times> 's" where
  "read_int F bSyncSafe 0 iTemp iReturn s = (iReturn, s)"
| "read_int F bSyncSafe (Suc n) iTemp iReturn s =
     (let (_, iTemp, s) = FSFileRead F 1 iTemp s
      in read_int F bSyncSafe n iTemp (push_bit (if bSyncSafe then 7 else 8) iReturn + iTemp) s)"

definition Id3V2ReadInt :: "'s song_file \<Rightarrow> bool \<Rightarrow> nat \<Rightarrow> 's \<Rightarrow> WORD \<times> 's" where
  "Id3V2ReadInt F bSyncSafe sizeDescriptorBytes s = read_int F bSyncSafe sizeDescriptorBytes 0 0 s"

text \<open>The loop that collects the bytes of a text that are not 0 into a local array.\<close>

fun iso_loop :: "'s song_file \<Rightarrow> nat \<Rightarrow> WORD \<Rightarrow> BYTE list \<Rightarrow> 's \<Rightarrow> (BYTE list \<times> 's) option" where
  "iso_loop F 0 iTemp TempString s = Some (TempString, s)"
| "iso_loop F (Suc n) iTemp TempString s =
     (let (_, iTemp, s) = FSFileRead F 1 iTemp s in
      if iTemp = 0 then iso_loop F n iTemp TempString s
      else if MAX_STRING \<le> length TempString + 1 then None
      else iso_loop F n iTemp (TempString @ [ucast iTemp]) s)"

fun utf16_loop :: "'s song_file \<Rightarrow> WORD \<Rightarrow> nat \<Rightarrow> nat \<Rightarrow> WORD \<Rightarrow> WORD \<Rightarrow> WORD list \<Rightarrow> 's \<Rightarrow> (WORD list \<times> 's) option" where
  "utf16_loop F uEndianNess 0 iCounter iTemp1 iTemp2 pString s = Some (pString, s)"
| "utf16_loop F uEndianNess (Suc n) iCounter iTemp1 iTemp2 pString s =
     (let (_, iTemp1, s) = FSFileRead F 1 iTemp1 s;
          (_, iTemp2, s) = FSFileRead F 1 iTemp2 s;
          uValue = (if uEndianNess = BOM_BIG_ENDIAN then push_bit 8 iTemp1 OR iTemp2 else push_bit 8 iTemp2 OR iTemp1)
      in do {
        pString \<leftarrow> put iCounter uValue pString;
        pString \<leftarrow> put (iCounter + 1) 0 pString;
        utf16_loop F uEndianNess n (iCounter + 1) iTemp1 iTemp2 pString s })"

definition Id3V2ReadUTF16String ::
    "'s song_file \<Rightarrow> WORD \<Rightarrow> WORD \<Rightarrow> WORD list \<Rightarrow> WORD \<Rightarrow> 's \<Rightarrow> (WORD list \<times> 's) option" where
  "Id3V2ReadUTF16String F uEndianNess uFrameSize pString iBufferLength s =
     (let uFrameSize = (uFrameSize + 1) div 2;
          uFrameSize = (if uFrameSize \<ge> iBufferLength then iBufferLength - 1 else uFrameSize)
      in utf16_loop F uEndianNess (unat uFrameSize) 0 0 0 pString s)"

text \<open>A local array that holds a C string: what follows the terminator is arbitrary.\<close>

definition c_string :: "(nat \<Rightarrow> BYTE) \<Rightarrow> BYTE list \<Rightarrow> nat \<Rightarrow> BYTE" where
  "c_string junk cs i = (if i < length cs then cs ! i else if i = length cs then 0 else junk i)"

text \<open>What the texts are read with: the file, the maps and what the stack holds.\<close>

record 's reader =
  song :: "'s song_file"
  maps :: dbcs_maps
  junk :: "nat \<Rightarrow> BYTE"

definition Id3V2ReadVariedStringToUnicodeBuffer ::
    "'s reader \<Rightarrow> WORD \<Rightarrow> WORD list \<Rightarrow> WORD \<Rightarrow> 's \<Rightarrow> (WORD list \<times> 's) option" where
  "Id3V2ReadVariedStringToUnicodeBuffer R uFrameSize pString iBufferLength s =
     (let F = song R;
          (_, iTemp, s) = FSFileRead F 1 0 s;
          uFrameSize = uFrameSize - 1
      in if iTemp = 0
         then let uFrameSize = (if uFrameSize \<ge> of_nat MAX_STRING then of_nat MAX_STRING - 1 else uFrameSize);
                  uFrameSize = (if uFrameSize \<ge> iBufferLength then iBufferLength - 1 else uFrameSize)
              in do {
                (TempString, s) \<leftarrow> iso_loop F (min MAX_STRING (unat uFrameSize)) iTemp [] s;
                pString \<leftarrow> DBCSToUnicode (maps R) (c_string (junk R) TempString) pString (sint iBufferLength);
                Some (pString, s) }
         else if iTemp = 1
         then let (_, iTemp, s) = FSFileRead F 2 iTemp s;
                  uFrameSize = uFrameSize - 2
              in Id3V2ReadUTF16String F iTemp uFrameSize pString iBufferLength s
         else if iTemp = 2 then Id3V2ReadUTF16String F BOM_BIG_ENDIAN uFrameSize pString iBufferLength s
         else Some (pString, s))"

section \<open>id3v2.c: frames\<close>

text \<open>The text frames: the buffer that the identifier chooses is filled, other frames are skipped.\<close>

datatype text_field = Album | Title | Artist

definition read_text :: "'s reader \<Rightarrow> text_field option \<Rightarrow> WORD \<Rightarrow> file_meta \<times> 's \<Rightarrow> (file_meta \<times> 's) option" where
  "read_text R field uFrameSize = (\<lambda>(m, s).
     case field of
       None \<Rightarrow> Some (m, s)
     | Some Album \<Rightarrow>
         (case wAlbum m of None \<Rightarrow> Some (m, s)
          | Some pString \<Rightarrow> do {
              (b, s) \<leftarrow> Id3V2ReadVariedStringToUnicodeBuffer R uFrameSize pString (iAlbumBufferLength m) s;
              Some (m\<lparr>wAlbum := Some b\<rparr>, s) })
     | Some Title \<Rightarrow>
         (case wTitle m of None \<Rightarrow> Some (m, s)
          | Some pString \<Rightarrow> do {
              (b, s) \<leftarrow> Id3V2ReadVariedStringToUnicodeBuffer R uFrameSize pString (iTitleBufferLength m) s;
              Some (m\<lparr>wTitle := Some b\<rparr>, s) })
     | Some Artist \<Rightarrow>
         (case wArtist m of None \<Rightarrow> Some (m, s)
          | Some pString \<Rightarrow> do {
              (b, s) \<leftarrow> Id3V2ReadVariedStringToUnicodeBuffer R uFrameSize pString (iArtistBufferLength m) s;
              Some (m\<lparr>wArtist := Some b\<rparr>, s) }))"

definition frame_letter :: "WORD \<Rightarrow> bool" where
  "frame_letter c \<longleftrightarrow> 0x41 \<le> c \<and> c \<le> 0x5A \<or> 0x30 \<le> c \<and> c \<le> 0x39"

definition field_2_2 :: "WORD \<Rightarrow> text_field option" where
  "field_2_2 uFrameType =
     (if uFrameType = TAL then Some Album else if uFrameType = TT2 then Some Title
      else if uFrameType = TP1 then Some Artist else None)"

definition Id3V2_2ReadFrame :: "'s reader \<Rightarrow> bool \<Rightarrow> file_meta \<times> 's \<Rightarrow> (bool \<times> file_meta \<times> 's) option" where
  "Id3V2_2ReadFrame R bSyncSafe = (\<lambda>(m, s).
     let F = song R;
         (_, uFrameType, s) = FSFileRead F 3 0 s;
         (uFrameSize, s) = Id3V2ReadInt F bSyncSafe 3 s
     in if frame_letter (uFrameType AND 0xff)
        then let lStartOfFrame = ftell F s in do {
          (m, s) \<leftarrow> (if uFrameType AND 0xff = 0x54 then read_text R (field_2_2 uFrameType) uFrameSize (m, s)
                   else Some (m, snd (fseek F (uint uFrameSize) SEEK_CUR s)));
          Some (True, m, snd (fseek F (lStartOfFrame + uint uFrameSize) SEEK_SET s)) }
        else Some (False, m, snd (fseek F (- 3) SEEK_CUR s)))"

definition field_2_3 :: "WORD \<Rightarrow> text_field option" where
  "field_2_3 uFrameSubType =
     (if uFrameSubType = TALB then Some Album else if uFrameSubType = TIT2 then Some Title
      else if uFrameSubType = TPE1 then Some Artist else None)"

text \<open>The word of the subtype is not initialised: \<open>sub\<close> is what it holds.\<close>

definition Id3V2_3and2_4ReadFrame :: "'s reader \<Rightarrow> WORD \<Rightarrow> bool \<Rightarrow> file_meta \<times> 's \<Rightarrow> (bool \<times> file_meta \<times> 's) option" where
  "Id3V2_3and2_4ReadFrame R sub bSyncSafe = (\<lambda>(m, s).
     let F = song R;
         (_, uFrameType, s) = FSFileRead F 1 0 s;
         (_, uFrameSubType, s) = FSFileRead F 3 sub s;
         (uFrameSize, s) = Id3V2ReadInt F bSyncSafe 4 s;
         (_, uFrameFlags, s) = FSFileRead F 2 0 s
     in if frame_letter uFrameType
        then if uFrameFlags AND ID3V2_FRAME_UNSUPPORTED = 0
             then let lStartOfFrame = ftell F s in do {
               (m, s) \<leftarrow> (if uFrameType = 0x54 then read_text R (field_2_3 uFrameSubType) uFrameSize (m, s) else Some (m, s));
               Some (True, m, snd (fseek F (lStartOfFrame + uint uFrameSize) SEEK_SET s)) }
             else Some (True, m, snd (fseek F (uint uFrameSize) SEEK_CUR s))
        else Some (False, m, snd (fseek F (- 6) SEEK_CUR s)))"

partial_function (option) read_frames ::
    "('m \<Rightarrow> (bool \<times> 'm) option) \<Rightarrow> 'm \<Rightarrow> 'm option option" where
  "read_frames read_frame ms =
     (case read_frame ms of
        None \<Rightarrow> Some None
      | Some (found, ms) \<Rightarrow> if found then read_frames read_frame ms else Some (Some ms))"

section \<open>id3v2.c: the tag\<close>

definition skip_extended :: "'s song_file \<Rightarrow> bool \<Rightarrow> WORD \<Rightarrow> 's \<Rightarrow> 's" where
  "skip_extended F bSyncSafe uFlags s =
     (if uFlags AND ID3V2_HEADER_EXTENDED_HEADER \<noteq> 0
      then let (uLength, s) = Id3V2ReadInt F bSyncSafe 4 s in snd (fseek F (uint (uLength - 4)) SEEK_CUR s)
      else s)"

definition tag_body :: "'s reader \<Rightarrow> WORD \<Rightarrow> WORD \<Rightarrow> WORD \<Rightarrow> file_meta \<times> 's \<Rightarrow> (file_meta \<times> 's) option option" where
  "tag_body R sub version uFlags = (\<lambda>(m, s).
     let bSyncSafe = \<not> version < 4 in
     if version = 2
     then if uFlags AND ID3V2_HEADER_UNSYNCRONIZATION = 0 then read_frames (Id3V2_2ReadFrame R bSyncSafe) (m, s)
          else Some (Some (m, s))
     else let s = skip_extended (song R) bSyncSafe uFlags s
          in if uFlags AND ID3V2_HEADER_UNSYNCRONIZATION = 0
             then read_frames (Id3V2_3and2_4ReadFrame R sub bSyncSafe) (m, s)
             else Some (Some (m, s)))"

definition Mp3MetaDataReadID3V2 :: "'s reader \<Rightarrow> WORD \<Rightarrow> file_meta \<times> 's \<Rightarrow> (file_meta \<times> 's) option option" where
  "Mp3MetaDataReadID3V2 R sub = (\<lambda>(m, s).
     let F = song R; uCurrentPos = ftell F s in
     if uCurrentPos = - 1 then Some (Some (m, s))
     else
       let (n, uTemp, s) = FSFileRead F 3 sub s in
       if n = 3 \<and> uTemp = 0x334449
       then let (n, uTemp, s) = FSFileRead F 2 0 s in
            if n = 2 \<and> uTemp AND 0xff \<le> 4 \<and> uTemp AND 0xff00 \<noteq> 0xff00
            then
              let (_, uFlags, s) = FSFileRead F 1 0 s;
                  version = uTemp AND 0xff;
                  (uSize, s) = Id3V2ReadInt F True 4 s;
                  uHeaderSize = 10 + uSize;
                  uHeaderSize = (if version = 4 \<and> uFlags AND ID3V2_HEADER_FLAG_FOOTER \<noteq> 0 then uHeaderSize + 10 else uHeaderSize);
                  m = m\<lparr>dwStartPos := dwStartPos m + ucast uHeaderSize, dwNumBytes := dwNumBytes m - ucast uHeaderSize\<rparr>
              in do {
                r \<leftarrow> tag_body R sub version uFlags (m, s);
                Some (do { (m, s) \<leftarrow> r; Some (m, snd (fseek F (uCurrentPos + uint uHeaderSize) SEEK_SET s)) }) }
            else Some (Some (m, snd (fseek F uCurrentPos SEEK_SET s)))
       else Some (Some (m, snd (fseek F uCurrentPos SEEK_SET s))))"

section \<open>mp3metadata.c\<close>

text \<open>A text of the ID3v1 tag, 30 bytes read over a local array.\<close>

definition v1_text :: "'s reader \<Rightarrow> WORD list option \<Rightarrow> WORD \<Rightarrow> (nat \<Rightarrow> BYTE) \<Rightarrow> WORD list option option" where
  "v1_text R pString iBufferLength TempString =
     (case pString of
        None \<Rightarrow> Some None
      | Some b \<Rightarrow>
          let uLength = (if iBufferLength < 31 then iBufferLength else 31) in do {
            b \<leftarrow> DBCSToUnicode (maps R) TempString b (sint uLength);
            Some (Some b) })"

definition read_temp :: "'s reader \<Rightarrow> (nat \<Rightarrow> BYTE) \<Rightarrow> 's \<Rightarrow> (nat \<Rightarrow> BYTE) \<times> 's" where
  "read_temp R TempString s =
     (let (bs, s) = Fread (song R) 30 s
      in ((\<lambda>i. if i = 30 then 0 else if i < length bs then bs ! i else TempString i), s))"

definition Mp3MetaDataReadID3V1 :: "'s reader \<Rightarrow> file_meta \<times> 's \<Rightarrow> (file_meta \<times> 's) option" where
  "Mp3MetaDataReadID3V1 R = (\<lambda>(m, s).
     let F = song R;
         uPosition = ftell F s;
         (ok, s) = fseek F (- 128) SEEK_END s;
         (uTemp, s) = (if ok then snd (FSFileRead F 3 0 s) else (0, s))
     in if uTemp = 0x474154
        then
          let m = m\<lparr>dwNumBytes := dwNumBytes m - 128\<rparr>;
              (TempString, s) = read_temp R (junk R) s
          in do {
            b \<leftarrow> v1_text R (wTitle m) (iTitleBufferLength m) TempString;
            let m = m\<lparr>wTitle := b\<rparr>;
            let (TempString, s) = read_temp R TempString s;
            b \<leftarrow> v1_text R (wArtist m) (iArtistBufferLength m) TempString;
            let m = m\<lparr>wArtist := b\<rparr>;
            let (TempString, s) = read_temp R TempString s;
            b \<leftarrow> v1_text R (wAlbum m) (iAlbumBufferLength m) TempString;
            let m = m\<lparr>wAlbum := b\<rparr>;
            let s = snd (fseek F 34 SEEK_CUR s);
            let (_, uTemp, s) = FSFileRead F 1 0 s;
            Some (m\<lparr>btGenre := uTemp AND 0xff\<rparr>, snd (fseek F uPosition SEEK_SET s)) }
        else Some (m, snd (fseek F uPosition SEEK_SET s)))"

datatype tag_choice = NO_TAG_SELECTED | ID3V1_TAG_SELECTED | ID3V2_TAG_SELECTED

definition clear :: "WORD list option \<Rightarrow> WORD list option option" where
  "clear pString = (case pString of None \<Rightarrow> None | Some b \<Rightarrow> do { b \<leftarrow> put 0 0 b; Some (Some b) })"

text \<open>\<^verbatim>\<open>packed_strlen(...) == 0\<close> on a text of whole words looks at the low byte of the first one.\<close>

definition looks_empty :: "WORD list \<Rightarrow> bool" where
  "looks_empty b \<longleftrightarrow> hd b AND 0xff = 0"

definition fall_back :: "WORD list \<Rightarrow> WORD list option \<Rightarrow> WORD list option option" where
  "fall_back saved pString =
     (case pString of
        None \<Rightarrow> None
      | Some b \<Rightarrow> if looks_empty b then do { b \<leftarrow> strcpy b saved; Some (Some b) } else Some (Some b))"

definition save :: "nat \<Rightarrow> WORD list option \<Rightarrow> WORD list option" where
  "save k pString = (case pString of None \<Rightarrow> None | Some b \<Rightarrow> strcpy (replicate k 0) b)"

definition "TITLE_SIZE = (256::nat)"
definition "ARTIST_SIZE = (100::nat)"
definition "ALBUM_SIZE = (50::nat)"

definition CheckID3Headers :: "'s reader \<Rightarrow> WORD \<Rightarrow> tag_choice \<Rightarrow> file_meta \<times> 's \<Rightarrow> (file_meta \<times> 's) option option" where
  "CheckID3Headers R sub g_iTagSelected ms =
     (case Mp3MetaDataReadID3V1 R ms of
        None \<Rightarrow> Some None
      | Some (m, s) \<Rightarrow>
          if g_iTagSelected = ID3V1_TAG_SELECTED then Some (Some (m, s))
          else if g_iTagSelected = ID3V2_TAG_SELECTED
          then (case do { t \<leftarrow> clear (wTitle m); a \<leftarrow> clear (wArtist m); l \<leftarrow> clear (wAlbum m); Some (t, a, l) } of
                  None \<Rightarrow> Some None
                | Some (t, a, l) \<Rightarrow> Mp3MetaDataReadID3V2 R sub (m\<lparr>wTitle := t, wArtist := a, wAlbum := l\<rparr>, s))
          else (case do { t \<leftarrow> save TITLE_SIZE (wTitle m); a \<leftarrow> save ARTIST_SIZE (wArtist m); l \<leftarrow> save ALBUM_SIZE (wAlbum m); Some (t, a, l) } of
                  None \<Rightarrow> Some None
                | Some (wSongTitle, wSongArtist, wSongAlbum) \<Rightarrow> do {
                    r \<leftarrow> Mp3MetaDataReadID3V2 R sub (m, s);
                    Some (do {
                      (m, s) \<leftarrow> r;
                      t \<leftarrow> fall_back wSongTitle (wTitle m);
                      a \<leftarrow> fall_back wSongArtist (wArtist m);
                      l \<leftarrow> fall_back wSongAlbum (wAlbum m);
                      Some (m\<lparr>wTitle := t, wArtist := a, wAlbum := l\<rparr>, s) }) }))"

end
