(* ===== verification/Id3Safe.thy ===== *)
theory Id3Safe imports Id3 begin

text \<open>
  Reading an ID3v2 tag is safe on any file: whatever the bytes are, the frames come to an end, no text is
  written outside its buffer, and every buffer holds a terminated string afterwards.
\<close>

section \<open>What the tags use of the file system\<close>

text \<open>
  A file of the bytes \<open>data\<close> with a position: reading gives the bytes at it, fewer at the end of the
  file, a seek inside the file moves it and one outside fails and leaves it.
\<close>

definition target :: "BYTE list \<Rightarrow> nat \<Rightarrow> int \<Rightarrow> origin \<Rightarrow> int" where
  "target data at p w = p + (case w of SEEK_SET \<Rightarrow> 0 | SEEK_CUR \<Rightarrow> int at | SEEK_END \<Rightarrow> int (length data))"

definition song_laws :: "'s song_file \<Rightarrow> BYTE list \<Rightarrow> ('s \<Rightarrow> nat) \<Rightarrow> bool" where
  "song_laws F data pos \<longleftrightarrow> (\<forall>s.
     Ftell F s = int (pos s)
   \<and> (\<forall>n. fst (Fread F n s) = take n (drop (pos s) data)
          \<and> pos (snd (Fread F n s)) = pos s + min n (length data - pos s))
   \<and> (\<forall>p w. let t = target data (pos s) p w in
        if 0 \<le> t \<and> t \<le> int (length data)
        then fst (Fseek F p w s) \<and> pos (snd (Fseek F p w s)) = nat t
        else \<not> fst (Fseek F p w s) \<and> pos (snd (Fseek F p w s)) = pos s))"

lemma song_tell: "song_laws F data pos \<Longrightarrow> ftell F s = int (pos s)"
  by (simp add: song_laws_def ftell_def)

lemma song_seek:
  assumes "song_laws F data pos"
  shows "pos (snd (fseek F p w s)) =
    (if 0 \<le> target data (pos s) p w \<and> target data (pos s) p w \<le> int (length data) then nat (target data (pos s) p w) else pos s)"
    and "fst (fseek F p w s) \<longleftrightarrow> 0 \<le> target data (pos s) p w \<and> target data (pos s) p w \<le> int (length data)"
  using assms unfolding song_laws_def fseek_def Let_def by (auto split: if_splits)

lemma song_read:
  assumes "song_laws F data pos"
  shows "fst (Fread F n s) = take n (drop (pos s) data)"
    and "pos (snd (Fread F n s)) = pos s + min n (length data - pos s)"
  using assms unfolding song_laws_def by auto

text \<open>A file in memory, its state the position alone, and a reader of it whose map is that of Latin letters.\<close>

definition memory_file :: "BYTE list \<Rightarrow> nat song_file" where
  "memory_file data =
     \<lparr>Fread = \<lambda>n p. (take n (drop p data), p + min n (length data - p)),
      Fseek = \<lambda>q w p. let t = target data p q w in if 0 \<le> t \<and> t \<le> int (length data) then (True, nat t) else (False, p),
      Ftell = int\<rparr>"

definition memory_reader :: "BYTE list \<Rightarrow> nat reader" where
  "memory_reader data = \<lparr>song = memory_file data, maps = \<lparr>g_iPDM = \<lambda>i. of_nat (i - 3), g_iSDMS = \<lambda>i. 0\<rparr>, junk = \<lambda>i. 0\<rparr>"

lemma memory_laws: "song_laws (memory_file data) data id" "song_laws (song (memory_reader data)) data id"
  by (auto simp: song_laws_def memory_file_def memory_reader_def Let_def)

text \<open>A position inside the file, at or behind \<open>p\<close>.\<close>

definition after :: "BYTE list \<Rightarrow> ('s \<Rightarrow> nat) \<Rightarrow> nat \<Rightarrow> 's \<Rightarrow> bool" where
  "after data pos p s \<longleftrightarrow> p \<le> pos s \<and> pos s \<le> length data"

lemma read_after:
  assumes "song_laws F data pos" and "after data pos p s"
  shows "after data pos p (snd (snd (FSFileRead F n w s)))"
  using assms song_read [OF assms(1), of n s] by (auto simp: after_def FSFileRead_def split_beta Let_def)

lemma read_int_after:
  assumes "song_laws F data pos" and "after data pos p s"
  shows "after data pos p (snd (read_int F sync n t r s))"
  using assms(2)
proof (induction n arbitrary: t r s)
  case (Suc n)
  then show ?case using read_after [OF assms(1) Suc.prems, of 1 t] by (simp add: split_beta Let_def)
qed simp

lemma ReadInt_after:
  assumes "song_laws F data pos" and "after data pos p s"
  shows "after data pos p (snd (Id3V2ReadInt F sync n s))"
  unfolding Id3V2ReadInt_def by (rule read_int_after [OF assms])

section \<open>Buffers\<close>

definition text_ok :: "WORD \<Rightarrow> WORD list \<Rightarrow> bool" where
  "text_ok len b \<longleftrightarrow> length b = unat len \<and> 2 \<le> length b \<and> length b < 2 ^ 23 \<and> 0 \<in> set b"

definition field_ok :: "WORD \<Rightarrow> WORD list option \<Rightarrow> bool" where
  "field_ok len b \<longleftrightarrow> (case b of None \<Rightarrow> True | Some b \<Rightarrow> text_ok len b)"

definition meta_ok :: "file_meta \<Rightarrow> bool" where
  "meta_ok m \<longleftrightarrow> field_ok (iTitleBufferLength m) (wTitle m) \<and> field_ok (iArtistBufferLength m) (wArtist m) \<and>
     field_ok (iAlbumBufferLength m) (wAlbum m)"

lemma put_zero: "k < length b \<Longrightarrow> \<exists>b'. put k 0 b = Some b' \<and> length b' = length b \<and> 0 \<in> set b'"
  by (auto simp: put_def set_update_memI)

lemma dbcs_loop_ok:
  assumes "int u + 2 \<le> iLength" and "iLength \<le> int (length b)"
  shows "\<exists>b'. dbcs_loop M p iLength i u b = Some b' \<and> length b' = length b \<and> 0 \<in> set b'"
  using assms
proof (induction M p iLength i u b rule: dbcs_loop.induct)
  case (1 M p iLength i u b)
  let ?c = "ucast (p i) :: WORD"
  let ?e = "LookupPrimaryDBCSMapEntry M ?c"
  let ?next = "if ?e AND MBC_FLAG \<noteq> 0
     then (LookupSecondaryDBCSMapEntry M (?e AND NOT MBC_FLAG) (ucast (p (i + 1))), i + 2) else (?e, i + 1)"
  show ?case
  proof (cases "?c = 0")
    case True
    then show ?thesis using put_zero [of u b] 1(2,3) by (simp add: dbcs_loop.simps [of M p iLength i])
  next
    case False
    obtain c j where n: "?next = (c, j)" by (cases ?next)
    have p: "put u c b = Some (b[u := c])" using 1(2,3) by (simp add: put_def)
    have step: "dbcs_loop M p iLength i u b =
        (if int (u + 1) > iLength - 2 then put (u + 1) 0 (b[u := c]) else dbcs_loop M p iLength j (u + 1) (b[u := c]))"
      using False n p by (simp add: dbcs_loop.simps [of M p iLength i] Let_def)
    show ?thesis
    proof (cases "int (u + 1) > iLength - 2")
      case True
      then show ?thesis using step put_zero [of "u + 1" "b[u := c]"] 1(2,3) by simp
    next
      case l: False
      have "\<exists>b'. dbcs_loop M p iLength j (u + 1) (b[u := c]) = Some b' \<and> length b' = length (b[u := c]) \<and> 0 \<in> set b'"
        by (rule 1(1) [OF refl _ refl n [symmetric] refl])
          (use False p l 1(3) in auto)
      then show ?thesis using step l by simp
    qed
  qed
qed

lemma utf16_loop_ok:
  assumes "i + n < length b" and "0 \<in> set b"
  shows "\<exists>b' s'. utf16_loop F e n i t1 t2 b s = Some (b', s') \<and> length b' = length b \<and> 0 \<in> set b'"
  using assms
proof (induction n arbitrary: i t1 t2 b s)
  case (Suc n)
  obtain k1 v1 s1 where r1: "FSFileRead F 1 t1 s = (k1, v1, s1)" by (cases "FSFileRead F 1 t1 s")
  obtain k2 v2 s2 where r2: "FSFileRead F 1 t2 s1 = (k2, v2, s2)" by (cases "FSFileRead F 1 t2 s1")
  let ?v = "if e = BOM_BIG_ENDIAN then push_bit 8 v1 OR v2 else push_bit 8 v2 OR v1"
  have "utf16_loop F e (Suc n) i t1 t2 b s = utf16_loop F e n (i + 1) v1 v2 (b[i := ?v, i + 1 := 0]) s2"
    using Suc.prems r1 r2 by (simp add: put_def Let_def)
  moreover have "0 \<in> set (b[i := ?v, i + 1 := 0])"
    using Suc.prems(1) by (simp add: set_update_memI)
  ultimately show ?case using Suc.IH [of "i + 1" "b[i := ?v, i + 1 := 0]"] Suc.prems(1) by simp
qed auto

lemma utf16_loop_after:
  assumes "song_laws F data pos" and "after data pos p s" and "utf16_loop F e n i t1 t2 b s = Some (b', s')"
  shows "after data pos p s'"
  using assms(2,3)
proof (induction n arbitrary: i t1 t2 b s)
  case (Suc n)
  obtain k1 v1 s1 where r1: "FSFileRead F 1 t1 s = (k1, v1, s1)" by (cases "FSFileRead F 1 t1 s")
  obtain k2 v2 s2 where r2: "FSFileRead F 1 t2 s1 = (k2, v2, s2)" by (cases "FSFileRead F 1 t2 s1")
  have "after data pos p s2"
    using read_after [OF assms(1) Suc.prems(1), of 1 t1] read_after [OF assms(1), of p s1 1 t2] r1 r2 by simp
  then show ?case using Suc.prems(2) r1 r2 Suc.IH [of s2]
    by (auto simp: Let_def bind_eq_Some_conv split: if_splits)
qed simp

lemma iso_loop_ok:
  assumes "n + length cs < MAX_STRING"
  shows "\<exists>cs' s'. iso_loop F n t cs s = Some (cs', s')"
  using assms
proof (induction n arbitrary: t cs s)
  case (Suc n)
  obtain k v s1 where r: "FSFileRead F 1 t s = (k, v, s1)" by (cases "FSFileRead F 1 t s")
  show ?case
    using r Suc.prems Suc.IH [of cs v s1] Suc.IH [of "cs @ [ucast v]" v s1] by (cases "v = 0") simp_all
qed simp

lemma iso_loop_after:
  assumes "song_laws F data pos" and "after data pos p s" and "iso_loop F n t cs s = Some (cs', s')"
  shows "after data pos p s'"
  using assms(2,3)
proof (induction n arbitrary: t cs s)
  case (Suc n)
  obtain k v s1 where r: "FSFileRead F 1 t s = (k, v, s1)" by (cases "FSFileRead F 1 t s")
  then have "after data pos p s1" using read_after [OF assms(1) Suc.prems(1), of 1 t] by simp
  then show ?case using Suc.prems(2) r Suc.IH [of s1] by (auto simp: Let_def split: if_splits)
qed simp

section \<open>A text\<close>

text \<open>What a reader of a field keeps: it returns, with the buffer in order and the position not moved back.\<close>

definition reads_on :: "BYTE list \<Rightarrow> ('s \<Rightarrow> nat) \<Rightarrow> WORD \<Rightarrow> nat \<Rightarrow> (WORD list \<times> 's) option \<Rightarrow> bool" where
  "reads_on data pos len p r \<longleftrightarrow> (\<exists>b s. r = Some (b, s) \<and> text_ok len b \<and> after data pos p s)"

lemma sint_small:
  fixes w :: WORD
  assumes "unat w < 2 ^ 23"
  shows "sint w = int (unat w)"
proof -
  have "int (unat w) < 2 ^ 23" using assms by (simp only: of_nat_less_numeral_power_cancel_iff)
  moreover have "- (2 ^ 23) \<le> int (unat w)" by (rule order_trans [of _ 0]) simp_all
  ultimately have "signed_take_bit 23 (int (unat w)) = int (unat w)" by (rule signed_take_bit_int_eq_self [rotated])
  then show ?thesis unfolding sint_uint uint_nat by simp
qed

lemma word_cut:
  fixes x len :: WORD
  assumes "0 < unat len"
  shows "unat (if x \<ge> len then len - 1 else x) < unat len"
proof -
  have "len \<noteq> 0" using assms by auto
  then have "unat (len - 1) = unat len - 1" using unat_minus_one by blast
  then show ?thesis using assms by (auto simp: word_le_nat_alt)
qed

lemma UTF16_reads_on:
  assumes "song_laws F data pos" and "after data pos p s" and "text_ok len b"
  shows "reads_on data pos len p (Id3V2ReadUTF16String F e sz b len s)"
proof -
  let ?n = "unat (if (sz + 1) div 2 \<ge> len then len - 1 else (sz + 1) div 2)"
  have "?n < length b" using assms(3) word_cut [of len] by (auto simp: text_ok_def)
  then obtain b' s' where u: "utf16_loop F e ?n 0 0 0 b s = Some (b', s')" "length b' = length b" "0 \<in> set b'"
    using utf16_loop_ok [of 0 ?n b F e 0 0 s] assms(3) by (auto simp: text_ok_def)
  then show ?thesis
    using utf16_loop_after [OF assms(1,2) u(1)] assms(3)
    by (auto simp: reads_on_def Id3V2ReadUTF16String_def Let_def text_ok_def)
qed

lemma ISO_reads_on:
  assumes "song_laws F data pos" and "after data pos p s" and "text_ok len b"
  shows "reads_on data pos len p (do {
      (cs, s) \<leftarrow> iso_loop F (min MAX_STRING (unat (if (if sz \<ge> of_nat MAX_STRING then of_nat MAX_STRING - 1 else sz) \<ge> len
                 then len - 1 else (if sz \<ge> of_nat MAX_STRING then of_nat MAX_STRING - 1 else sz)))) t [] s;
      b \<leftarrow> DBCSToUnicode M (c_string j cs) b (sint len);
      Some (b, s) })"
proof -
  define x :: WORD where "x = (if sz \<ge> of_nat MAX_STRING then of_nat MAX_STRING - 1 else sz)"
  define y where "y = (if x \<ge> len then len - 1 else x)"
  have l: "2 \<le> unat len" "unat len = length b" "length b < 2 ^ 23" using assms(3) by (auto simp: text_ok_def)
  have "unat x < 100"
    by (auto simp: x_def MAX_STRING_def word_le_nat_alt)
  moreover have "unat y < unat len" unfolding y_def using word_cut [of len x] l(1) by simp
  then have "unat y \<le> unat x" using l(1)
    by (cases "x \<ge> len") (auto simp: y_def word_le_nat_alt)
  ultimately have "min MAX_STRING (unat y) + length [] < MAX_STRING" by (simp add: MAX_STRING_def)
  then obtain cs s' where i: "iso_loop F (min MAX_STRING (unat y)) t [] s = Some (cs, s')"
    using iso_loop_ok [of "min MAX_STRING (unat y)" "[]" F t s] by blast
  have "sint len = int (unat len)"
    using l sint_small [of len] by simp
  then obtain b' where "DBCSToUnicode M (c_string j cs) b (sint len) = Some b'" "length b' = length b" "0 \<in> set b'"
    using dbcs_loop_ok [of 0 "int (length b)" b M "c_string j cs" 0] l by (auto simp: DBCSToUnicode_def)
  then show ?thesis
    unfolding x_def [symmetric] y_def [symmetric] reads_on_def
    using i iso_loop_after [OF assms(1,2) i] assms(3) by (simp add: text_ok_def)
qed

lemma varied_reads_on:
  assumes "song_laws (song R) data pos" and "after data pos p s" and "text_ok len b"
  shows "reads_on data pos len p (Id3V2ReadVariedStringToUnicodeBuffer R sz b len s)"
proof -
  obtain k t s1 where r: "FSFileRead (song R) 1 0 s = (k, t, s1)" by (cases "FSFileRead (song R) 1 0 s")
  have a: "after data pos p s1" using read_after [OF assms(1,2), of 1 0] r by simp
  obtain k' t' s2 where r': "FSFileRead (song R) 2 t s1 = (k', t', s2)" by (cases "FSFileRead (song R) 2 t s1")
  have a': "after data pos p s2" using read_after [OF assms(1) a, of 2 t] r' by simp
  consider "t = 0" | "t = 1" | "t = 2" | "t \<noteq> 0" "t \<noteq> 1" "t \<noteq> 2" by blast
  then show ?thesis
  proof cases
    case 1
    show ?thesis
      using ISO_reads_on [OF assms(1) a assms(3), of "sz - 1" t "maps R" "junk R"] r 1
      by (simp add: Id3V2ReadVariedStringToUnicodeBuffer_def Let_def)
  next
    case 2
    then show ?thesis
      using UTF16_reads_on [OF assms(1) a' assms(3)] r r'
      by (simp add: Id3V2ReadVariedStringToUnicodeBuffer_def Let_def)
  next
    case 3
    then show ?thesis
      using UTF16_reads_on [OF assms(1) a assms(3)] r
      by (simp add: Id3V2ReadVariedStringToUnicodeBuffer_def Let_def)
  next
    case 4
    then show ?thesis
      using a assms(3) r
      by (simp add: Id3V2ReadVariedStringToUnicodeBuffer_def Let_def reads_on_def)
  qed
qed

section \<open>A frame\<close>

definition keeps :: "BYTE list \<Rightarrow> ('s \<Rightarrow> nat) \<Rightarrow> nat \<Rightarrow> (file_meta \<times> 's) option \<Rightarrow> bool" where
  "keeps data pos p r \<longleftrightarrow> (\<exists>m s. r = Some (m, s) \<and> meta_ok m \<and> after data pos p s)"

lemma read_text_keeps:
  assumes "song_laws (song R) data pos" and "after data pos p s" and "meta_ok m"
  shows "keeps data pos p (read_text R field sz (m, s))"
proof -
  have f: "field_ok (iAlbumBufferLength m) (wAlbum m)" "field_ok (iTitleBufferLength m) (wTitle m)"
      "field_ok (iArtistBufferLength m) (wArtist m)"
    using assms(3) by (simp_all add: meta_ok_def)
  note V = varied_reads_on [OF assms(1,2), of _ _ sz, unfolded reads_on_def]
  show ?thesis
  proof (cases field)
    case None
    then show ?thesis using assms by (simp add: read_text_def keeps_def)
  next
    case (Some f')
    then show ?thesis
    proof (cases f')
      case Album
      then show ?thesis using Some assms f V [of "iAlbumBufferLength m" "the (wAlbum m)"]
        by (cases "wAlbum m") (auto simp: read_text_def keeps_def meta_ok_def field_ok_def split: option.splits)
    next
      case Title
      then show ?thesis using Some assms f V [of "iTitleBufferLength m" "the (wTitle m)"]
        by (cases "wTitle m") (auto simp: read_text_def keeps_def meta_ok_def field_ok_def split: option.splits)
    next
      case Artist
      then show ?thesis using Some assms f V [of "iArtistBufferLength m" "the (wArtist m)"]
        by (cases "wArtist m") (auto simp: read_text_def keeps_def meta_ok_def field_ok_def split: option.splits)
    qed
  qed
qed

lemma seek_forward:
  assumes "song_laws F data pos" and "after data pos p s" and "int p \<le> q"
  shows "after data pos p (snd (fseek F q SEEK_SET s))" and "0 \<le> k \<Longrightarrow> after data pos p (snd (fseek F k SEEK_CUR s))"
  using assms song_seek(1) [OF assms(1), of q SEEK_SET s] song_seek(1) [OF assms(1), of k SEEK_CUR s]
  by (auto simp: after_def target_def)

lemma seek_inside:
  assumes "song_laws F data pos" and "pos s \<le> length data"
  shows "pos (snd (fseek F q w s)) \<le> length data"
  using assms(2) song_seek(1) [OF assms(1), of q w s] by auto

lemma first_byte_read:
  assumes "song_laws F data pos" and "FSFileRead F n 0 s = (k, t, s')" and "t \<noteq> 0" and "pos s \<le> length data" and "0 < n"
  shows "after data pos (Suc (pos s)) s'"
proof -
  have "t = fill 0 (take n (drop (pos s) data))" "pos s' = pos s + min n (length data - pos s)"
    using assms(2) song_read [OF assms(1), of n s] by (auto simp: FSFileRead_def split_beta Let_def)
  moreover have "fill 0 [] = 0" by (simp add: fill_def little_def)
  ultimately have "take n (drop (pos s) data) \<noteq> []" using assms(3,5) by auto
  then have "pos s < length data" by simp
  then show ?thesis using \<open>pos s' = _\<close> assms(5) by (auto simp: after_def)
qed

text \<open>A frame that was found ends behind where it started, inside the file.\<close>

definition frame_ok :: "BYTE list \<Rightarrow> ('s \<Rightarrow> nat) \<Rightarrow> (file_meta \<times> 's \<Rightarrow> (bool \<times> file_meta \<times> 's) option) \<Rightarrow> bool" where
  "frame_ok data pos f \<longleftrightarrow> (\<forall>m s. meta_ok m \<and> pos s \<le> length data \<longrightarrow>
     (\<exists>found m' s'. f (m, s) = Some (found, m', s') \<and> meta_ok m' \<and> pos s' \<le> length data \<and> (found \<longrightarrow> pos s < pos s')))"

lemma frame_2_2_ok:
  assumes "song_laws (song R) data pos"
  shows "frame_ok data pos (Id3V2_2ReadFrame R sync)"
  unfolding frame_ok_def
proof (intro allI impI)
  fix m s assume ms: "meta_ok m \<and> pos s \<le> length data"
  let ?F = "song R"
  obtain k t s1 where r1: "FSFileRead ?F 3 0 s = (k, t, s1)" by (cases "FSFileRead ?F 3 0 s")
  obtain sz s2 where r2: "Id3V2ReadInt ?F sync 3 s1 = (sz, s2)" by (cases "Id3V2ReadInt ?F sync 3 s1")
  show "\<exists>found m' s'. Id3V2_2ReadFrame R sync (m, s) = Some (found, m', s') \<and> meta_ok m' \<and> pos s' \<le> length data \<and>
      (found \<longrightarrow> pos s < pos s')"
  proof (cases "frame_letter (t AND 0xff)")
    case True
    then have "t \<noteq> 0" by (auto simp: frame_letter_def)
    then have "after data pos (Suc (pos s)) s1"
      using first_byte_read [OF assms r1] ms by simp
    then have a: "after data pos (Suc (pos s)) s2"
      using ReadInt_after [OF assms, of "Suc (pos s)" s1 sync 3] r2 by simp
    let ?text = "if t AND 0xff = 0x54 then read_text R (field_2_2 t) sz (m, s2)
        else Some (m, snd (fseek ?F (uint sz) SEEK_CUR s2))"
    have "keeps data pos (Suc (pos s)) ?text"
      using read_text_keeps [OF assms a] seek_forward(2) [OF assms a, of "int (Suc (pos s))" "uint sz"] ms
      by (simp add: keeps_def)
    then obtain m' s3 where t: "?text = Some (m', s3)" "meta_ok m'" "after data pos (Suc (pos s)) s3"
      by (auto simp: keeps_def)
    have "int (Suc (pos s)) \<le> ftell ?F s2 + uint sz"
      using a song_tell [OF assms, of s2] uint_nonnegative [of sz] unfolding after_def by linarith
    then have e: "after data pos (Suc (pos s)) (snd (fseek ?F (ftell ?F s2 + uint sz) SEEK_SET s3))"
      by (rule seek_forward(1) [OF assms t(3)])
    have "Id3V2_2ReadFrame R sync (m, s) = Some (True, m', snd (fseek ?F (ftell ?F s2 + uint sz) SEEK_SET s3))"
      using True t(1) by (simp only: Id3V2_2ReadFrame_def prod.case Let_def r1 r2 if_True bind.simps)
    then show ?thesis using e t(2) by (auto simp: after_def)
  next
    case False
    have "after data pos 0 s2"
      using read_after [OF assms, of 0 s 3 0] ReadInt_after [OF assms, of 0 s1 sync 3] r1 r2 ms by (simp add: after_def)
    then show ?thesis
      using False r1 r2 ms seek_inside [OF assms, of s2] by (auto simp: Id3V2_2ReadFrame_def Let_def after_def)
  qed
qed

lemma frame_2_3_ok:
  assumes "song_laws (song R) data pos"
  shows "frame_ok data pos (Id3V2_3and2_4ReadFrame R sub sync)"
  unfolding frame_ok_def
proof (intro allI impI)
  fix m s assume ms: "meta_ok m \<and> pos s \<le> length data"
  let ?F = "song R"
  obtain k t s1 where r1: "FSFileRead ?F 1 0 s = (k, t, s1)" by (cases "FSFileRead ?F 1 0 s")
  obtain k' u s2 where r2: "FSFileRead ?F 3 sub s1 = (k', u, s2)" by (cases "FSFileRead ?F 3 sub s1")
  obtain sz s3 where r3: "Id3V2ReadInt ?F sync 4 s2 = (sz, s3)" by (cases "Id3V2ReadInt ?F sync 4 s2")
  obtain k'' f s4 where r4: "FSFileRead ?F 2 0 s3 = (k'', f, s4)" by (cases "FSFileRead ?F 2 0 s3")
  have on: "after data pos p s4" if "after data pos p s1" for p
    using read_after [OF assms that, of 3 sub] ReadInt_after [OF assms, of p s2 sync 4] read_after [OF assms, of p s3 2 0] r2 r3 r4
    by simp
  show "\<exists>found m' s'. Id3V2_3and2_4ReadFrame R sub sync (m, s) = Some (found, m', s') \<and> meta_ok m' \<and> pos s' \<le> length data \<and>
      (found \<longrightarrow> pos s < pos s')"
  proof (cases "frame_letter t")
    case True
    then have "t \<noteq> 0" by (auto simp: frame_letter_def)
    then have a: "after data pos (Suc (pos s)) s4"
      using first_byte_read [OF assms r1] ms on by simp
    let ?text = "if t = 0x54 then read_text R (field_2_3 u) sz (m, s4) else Some (m, s4)"
    have "keeps data pos (Suc (pos s)) ?text"
      using read_text_keeps [OF assms a] ms a by (simp add: keeps_def)
    then obtain m' s5 where t: "?text = Some (m', s5)" "meta_ok m'" "after data pos (Suc (pos s)) s5"
      by (auto simp: keeps_def)
    have "int (Suc (pos s)) \<le> ftell ?F s4 + uint sz"
      using a song_tell [OF assms, of s4] uint_nonnegative [of sz] unfolding after_def by linarith
    then have "after data pos (Suc (pos s)) (snd (fseek ?F (ftell ?F s4 + uint sz) SEEK_SET s5))"
      by (rule seek_forward(1) [OF assms t(3)])
    moreover have "after data pos (Suc (pos s)) (snd (fseek ?F (uint sz) SEEK_CUR s4))"
      using seek_forward(2) [OF assms a, of "int (Suc (pos s))" "uint sz"] by simp
    moreover have "Id3V2_3and2_4ReadFrame R sub sync (m, s) =
        (if f AND ID3V2_FRAME_UNSUPPORTED = 0 then Some (True, m', snd (fseek ?F (ftell ?F s4 + uint sz) SEEK_SET s5))
         else Some (True, m, snd (fseek ?F (uint sz) SEEK_CUR s4)))"
      using True t(1) by (simp only: Id3V2_3and2_4ReadFrame_def prod.case Let_def r1 r2 r3 r4 if_True bind.simps)
    ultimately show ?thesis
      using t(2) ms by (cases "f AND ID3V2_FRAME_UNSUPPORTED = 0") (auto simp: after_def)
  next
    case False
    have "after data pos 0 s4"
      using on [of 0] read_after [OF assms, of 0 s 1 0] r1 ms by (simp add: after_def)
    then show ?thesis
      using False r1 r2 r3 r4 ms seek_inside [OF assms, of s4] by (auto simp: Id3V2_3and2_4ReadFrame_def Let_def after_def)
  qed
qed

section \<open>The tag\<close>

lemma read_frames_returns:
  assumes "frame_ok data pos f" and "meta_ok m" and "pos s \<le> length data"
  shows "\<exists>m' s'. read_frames f (m, s) = Some (Some (m', s')) \<and> meta_ok m' \<and> pos s' \<le> length data"
  using assms(2,3)
proof (induction "length data - pos s" arbitrary: m s rule: less_induct)
  case less
  from assms(1) less.prems obtain found m' s' where f: "f (m, s) = Some (found, m', s')" "meta_ok m'" "pos s' \<le> length data"
      "found \<longrightarrow> pos s < pos s'"
    unfolding frame_ok_def by blast
  show ?case
  proof (cases found)
    case True
    then have "length data - pos s' < length data - pos s" using f less.prems by auto
    from less.hyps [OF this f(2,3)] show ?thesis using f True by (simp add: read_frames.simps)
  next
    case False
    then show ?thesis using f by (simp add: read_frames.simps)
  qed
qed

lemma tag_body_returns:
  assumes "song_laws (song R) data pos" and "meta_ok m" and "pos s \<le> length data"
  shows "\<exists>m' s'. tag_body R sub version uFlags (m, s) = Some (Some (m', s')) \<and> meta_ok m' \<and> pos s' \<le> length data"
proof -
  have e: "pos (skip_extended (song R) sync uFlags s) \<le> length data" for sync
    using ReadInt_after [OF assms(1), of 0 s sync 4] assms(3) seek_inside [OF assms(1), of "snd (Id3V2ReadInt (song R) sync 4 s)"]
    by (simp add: skip_extended_def split_beta Let_def after_def)
  show ?thesis
    using read_frames_returns [OF frame_2_2_ok [OF assms(1)] assms(2,3)]
      read_frames_returns [OF frame_2_3_ok [OF assms(1)] assms(2) e] assms(2,3) e
    by (simp add: tag_body_def Let_def)
qed

text \<open>
  Whatever bytes a file holds, reading the ID3v2 tag at any position of it ends, writes no text outside its
  buffer, and leaves in every buffer a string that is terminated inside it.
\<close>

lemma ReadID3V2_safe:
  assumes "song_laws (song R) data pos" and "meta_ok m" and "pos s \<le> length data"
  shows "\<exists>m' s'. Mp3MetaDataReadID3V2 R sub (m, s) = Some (Some (m', s')) \<and> meta_ok m' \<and> pos s' \<le> length data"
proof -
  let ?F = "song R"
  obtain k t s1 where r1: "FSFileRead ?F 3 sub s = (k, t, s1)" by (cases "FSFileRead ?F 3 sub s")
  obtain k' v s2 where r2: "FSFileRead ?F 2 0 s1 = (k', v, s2)" by (cases "FSFileRead ?F 2 0 s1")
  obtain k'' f s3 where r3: "FSFileRead ?F 1 0 s2 = (k'', f, s3)" by (cases "FSFileRead ?F 1 0 s2")
  obtain sz s4 where r4: "Id3V2ReadInt ?F True 4 s3 = (sz, s4)" by (cases "Id3V2ReadInt ?F True 4 s3")
  have a1: "after data pos 0 s1" using read_after [OF assms(1), of 0 s 3 sub] r1 assms(3) by (simp add: after_def)
  have a2: "after data pos 0 s2" using read_after [OF assms(1) a1, of 2 0] r2 by simp
  have a3: "after data pos 0 s3" using read_after [OF assms(1) a2, of 1 0] r3 by simp
  have a4: "after data pos 0 s4" using ReadInt_after [OF assms(1) a3, of True 4] r4 by simp
  note inside = seek_inside [OF assms(1)]
  show ?thesis
  proof (cases "k = 3 \<and> t = 0x334449 \<and> k' = 2 \<and> v AND 0xff \<le> 4 \<and> v AND 0xff00 \<noteq> 0xff00 \<and> ftell ?F s \<noteq> - 1")
    case True
    let ?h = "if v AND 0xff = 4 \<and> f AND ID3V2_HEADER_FLAG_FOOTER \<noteq> 0 then 10 + sz + 10 else 10 + sz"
    let ?m = "m\<lparr>dwStartPos := dwStartPos m + ucast ?h, dwNumBytes := dwNumBytes m - ucast ?h\<rparr>"
    have "meta_ok ?m" using assms(2) by (simp add: meta_ok_def)
    moreover have "pos s4 \<le> length data" using a4 by (simp add: after_def)
    ultimately obtain m' s5 where b: "tag_body R sub (v AND 0xff) f (?m, s4) = Some (Some (m', s5))" "meta_ok m'" "pos s5 \<le> length data"
      using tag_body_returns [OF assms(1)] by blast
    then show ?thesis
      using True r1 r2 r3 r4 inside [OF b(3)] by (simp add: Mp3MetaDataReadID3V2_def Let_def)
  next
    case False
    then show ?thesis
      using assms(2,3) r1 r2 inside [of s1] inside [of s2] a1 a2
      by (auto simp: Mp3MetaDataReadID3V2_def Let_def after_def)
  qed
qed

end
