(* ===== verification/Id3Tag.thy ===== *)
theory Id3Tag imports Id3Safe begin

text \<open>
  What the tag reader makes of a well-formed tag: numbers come back as they were stored, every text frame is
  read from its own bytes, and the position ends up behind the tag.
\<close>

section \<open>Reading what is there\<close>

definition at :: "BYTE list \<Rightarrow> ('s \<Rightarrow> nat) \<Rightarrow> 's \<Rightarrow> BYTE list \<Rightarrow> bool" where
  "at data pos s bs \<longleftrightarrow> pos s \<le> length data \<and> drop (pos s) data = bs"

lemma at_length: "at data pos s bs \<Longrightarrow> length data = pos s + length bs"
  by (auto simp: at_def)

lemma at_read:
  assumes "song_laws F data pos" and "at data pos s (bs @ rest)" and "length bs = n"
  obtains s' where "FSFileRead F n w s = (n, fill w bs, s')" and "at data pos s' rest"
proof
  let ?s' = "snd (Fread F n s)"
  have b: "fst (Fread F n s) = bs" and p: "pos ?s' = pos s + n"
    using song_read [OF assms(1), of n s] assms(2,3) at_length [OF assms(2)] by (auto simp: at_def)
  show "FSFileRead F n w s = (n, fill w bs, ?s')"
    using b assms(3) by (auto simp: FSFileRead_def split_beta Let_def)
  have "drop (pos s + n) data = drop n (drop (pos s) data)" by (simp add: add.commute)
  also have "\<dots> = rest" using assms(2,3) by (simp add: at_def)
  finally show "at data pos ?s' rest"
    using p assms(3) at_length [OF assms(2)] by (simp add: at_def)
qed

lemma fill_byte: "fill (ucast (x::BYTE)) [b] = ucast b" "fill 0 [b] = ucast b"
proof -
  show "fill (ucast x) [b] = ucast b"
    by (rule bit_word_eqI) (auto simp: fill_def little_def bit_simps dest: bit_imp_le_length)
  show "fill 0 [b] = ucast b"
    by (simp add: fill_def little_def)
qed

lemma fill_zero: "fill 0 bs = little bs"
  by (simp add: fill_def)

lemma fill_word: "length bs = 3 \<Longrightarrow> fill w bs = little bs"
  by (rule bit_word_eqI) (simp add: fill_def bit_simps)

section \<open>Numbers\<close>

text \<open>A number in \<open>n\<close> bytes of \<open>k\<close> bits, the highest first.\<close>

fun be_bytes :: "nat \<Rightarrow> nat \<Rightarrow> nat \<Rightarrow> BYTE list" where
  "be_bytes k 0 x = []"
| "be_bytes k (Suc n) x = be_bytes k n (x div 2 ^ k) @ [of_nat (x mod 2 ^ k)]"

lemma be_bytes_length [simp]: "length (be_bytes k n x) = n"
  by (induction k n x rule: be_bytes.induct) simp_all

definition be_value :: "nat \<Rightarrow> BYTE list \<Rightarrow> WORD" where
  "be_value k bs = foldl (\<lambda>a b. push_bit k a + ucast b) 0 bs"

lemma wide_of_nat: "m < 256 \<Longrightarrow> (ucast (of_nat m :: BYTE) :: WORD) = of_nat m"
  by (simp add: unsigned_of_nat take_bit_nat_eq_self)

lemma be_value_bytes:
  assumes "k \<le> 8" and "x < 2 ^ (k * n)"
  shows "be_value k (be_bytes k n x) = of_nat x"
  using assms(2)
proof (induction n arbitrary: x)
  case 0
  then show ?case by (simp add: be_value_def)
next
  case (Suc n)
  have "x div 2 ^ k < 2 ^ (k * n)"
    using Suc.prems by (simp add: power_add less_mult_imp_div_less mult.commute)
  note IH = Suc.IH [OF this]
  have "(2::nat) ^ k \<le> 2 ^ 8" using assms(1) by (rule power_increasing) simp
  moreover have "x mod 2 ^ k < 2 ^ k" by simp
  ultimately have "x mod 2 ^ k < 2 ^ 8" by (rule order_less_le_trans [rotated])
  then have m: "x mod 2 ^ k < 256" by simp
  have "be_value k (be_bytes k (Suc n) x) = push_bit k (of_nat (x div 2 ^ k)) + of_nat (x mod 2 ^ k)"
    using IH by (simp add: be_value_def wide_of_nat [OF m])
  also have "\<dots> = of_nat (x div 2 ^ k * 2 ^ k + x mod 2 ^ k)"
    by (simp add: push_bit_eq_mult)
  also have "\<dots> = of_nat x"
    by (simp only: div_mult_mod_eq)
  finally show ?case .
qed

lemma read_int_at:
  assumes "song_laws F data pos" and "at data pos s (bs @ rest)" and "length bs = n"
  obtains s' where "read_int F sync n (ucast (t::BYTE)) r s =
      (foldl (\<lambda>a b. push_bit (if sync then 7 else 8) a + ucast b) r bs, s')" and "at data pos s' rest"
  using assms(2,3)
proof (induction bs arbitrary: n t r s thesis)
  case Nil
  then show ?case by simp
next
  case (Cons b bs)
  have "at data pos s ([b] @ bs @ rest)" using Cons.prems by simp
  from at_read [OF assms(1) this, of 1 "ucast t"] obtain s1 where
    s1: "FSFileRead F 1 (ucast t) s = (1, ucast b, s1)" "at data pos s1 (bs @ rest)"
    by (auto simp: fill_byte)
  obtain s2 where s2: "read_int F sync (length bs) (ucast b) (push_bit (if sync then 7 else 8) r + ucast b) s1 =
      (foldl (\<lambda>a b. push_bit (if sync then 7 else 8) a + ucast b) (push_bit (if sync then 7 else 8) r + ucast b) bs, s2)"
      "at data pos s2 rest"
    using Cons.IH [OF _ s1(2) refl] by blast
  have "n = Suc (length bs)" using Cons.prems by simp
  then show ?case using Cons.prems(1) [of s2] s1(1) s2 by simp
qed

lemma ReadInt_at:
  assumes "song_laws F data pos" and "at data pos s (be_bytes (if sync then 7 else 8) n x @ rest)"
    and "x < 2 ^ ((if sync then 7 else 8) * n)"
  obtains s' where "Id3V2ReadInt F sync n s = (of_nat x, s')" and "at data pos s' rest"
proof -
  obtain s' where s': "read_int F sync n (ucast (0::BYTE)) 0 s =
      (be_value (if sync then 7 else 8) (be_bytes (if sync then 7 else 8) n x), s')" "at data pos s' rest"
    using read_int_at [OF assms(1,2) be_bytes_length, of sync 0 0] unfolding be_value_def by blast
  have "be_value (if sync then 7 else 8) (be_bytes (if sync then 7 else 8) n x) = of_nat x"
    using assms(3) by (intro be_value_bytes) auto
  then show thesis using that [OF _ s'(2)] s'(1) by (simp add: Id3V2ReadInt_def)
qed

text \<open>
  A number stored in the bytes of a tag, of seven bits each where the version has sync-safe numbers and of eight
  otherwise, is read back from them, wrapped to the 24 bits of a word, with the position behind them.
\<close>
theorem Id3V2ReadInt_reads_back:
  assumes "song_laws F data pos" and "pos s \<le> length data"
    and "drop (pos s) data = be_bytes (if sync then 7 else 8) n x @ rest" and "x < 2 ^ ((if sync then 7 else 8) * n)"
  shows "unat (fst (Id3V2ReadInt F sync n s)) = x mod 2 ^ 24 \<and> pos (snd (Id3V2ReadInt F sync n s)) = pos s + n"
proof -
  have a: "at data pos s (be_bytes (if sync then 7 else 8) n x @ rest)" using assms(2,3) by (simp add: at_def)
  obtain s' where "Id3V2ReadInt F sync n s = (of_nat x, s')" "at data pos s' rest"
    by (rule ReadInt_at [OF assms(1) a assms(4)])
  then show ?thesis
    using at_length [OF a] at_length [of data pos s' rest] by (simp add: unsigned_of_nat take_bit_eq_mod)
qed

lemma Id3V2ReadInt_reads_back_witness:
  "unat (fst (Id3V2ReadInt (memory_file [0x99, 0x00, 0x02, 0x01, 0xff]) True 3 1)) = 257 mod 2 ^ 24
    \<and> id (snd (Id3V2ReadInt (memory_file [0x99, 0x00, 0x02, 0x01, 0xff]) True 3 1)) = id 1 + 3"
  by (rule Id3V2ReadInt_reads_back [OF memory_laws(1), where rest = "[0xff]"]) (simp_all add: numeral_3_eq_3)

section \<open>Texts\<close>

fun pairs :: "bool \<Rightarrow> BYTE list \<Rightarrow> WORD list" where
  "pairs big (x # y # bs) = (if big then push_bit 8 (ucast x) OR ucast y else push_bit 8 (ucast y) OR ucast x) # pairs big bs"
| "pairs big _ = []"

definition write_text :: "WORD list \<Rightarrow> WORD list \<Rightarrow> WORD list" where
  "write_text ws b = (if ws = [] then b else ws @ 0 # drop (Suc (length ws)) b)"

text \<open>What a frame's own bytes say, as the text of a buffer \<open>b\<close>; \<open>None\<close> is a write outside it.\<close>

definition decode_text :: "'s reader \<Rightarrow> WORD \<Rightarrow> WORD list \<Rightarrow> BYTE list \<Rightarrow> WORD list option" where
  "decode_text R len b body =
     (if hd body = 0
      then DBCSToUnicode (maps R) (c_string (junk R) (filter (\<lambda>c. c \<noteq> 0) (take (min 99 (unat len - 1)) (tl body)))) b (sint len)
      else if hd body = 1
      then Some (write_text (take (unat len - 1) (pairs (little (take 2 (tl body)) = BOM_BIG_ENDIAN) (drop 3 body))) b)
      else if hd body = 2 then Some (write_text (take (unat len - 1) (pairs True (tl body))) b)
      else Some b)"

definition body_ok :: "BYTE list \<Rightarrow> bool" where
  "body_ok body \<longleftrightarrow> body \<noteq> [] \<and> length body < 2 ^ 24 \<and>
     (hd body = 1 \<longrightarrow> 3 \<le> length body \<and> odd (length body)) \<and> (hd body = 2 \<longrightarrow> odd (length body))"

lemma iso_loop_at:
  assumes "song_laws F data pos" and "at data pos s (bs @ rest)" and "length cs + length bs < MAX_STRING"
  obtains s' where "iso_loop F (length bs) (ucast (t::BYTE)) cs s = Some (cs @ filter (\<lambda>c. c \<noteq> 0) bs, s')" and "at data pos s' rest"
  using assms(2,3)
proof (induction bs arbitrary: t cs s thesis)
  case Nil
  then show ?case by simp
next
  case (Cons b bs)
  have "at data pos s ([b] @ bs @ rest)" using Cons.prems by simp
  from at_read [OF assms(1) this, of 1 "ucast t"] obtain s1 where
    s1: "FSFileRead F 1 (ucast t) s = (1, ucast b, s1)" "at data pos s1 (bs @ rest)"
    by (auto simp: fill_byte)
  have z: "(ucast b :: WORD) = 0 \<longleftrightarrow> b = 0"
    using wide_eq [of b 0] by simp
  have c: "length (if b = 0 then cs else cs @ [b]) + length bs < MAX_STRING"
    using Cons.prems(3) by simp
  obtain s2 where s2: "iso_loop F (length bs) (ucast b) (if b = 0 then cs else cs @ [b]) s1 =
      Some ((if b = 0 then cs else cs @ [b]) @ filter (\<lambda>c. c \<noteq> 0) bs, s2)" "at data pos s2 rest"
    using Cons.IH [OF _ s1(2) c] by blast
  have "ucast (ucast b :: WORD) = b"
    by (rule bit_word_eqI) (simp add: bit_simps)
  then show ?case
    using Cons.prems(1) [of s2] Cons.prems(3) s1(1) s2 z by (cases "b = 0") (simp_all add: MAX_STRING_def)
qed

lemma utf16_loop_at:
  assumes "song_laws F data pos" and "at data pos s (bs @ rest)" and "length bs = 2 * n" and "i + n < length b"
  obtains s' where "utf16_loop F e n i (ucast (t1::BYTE)) (ucast (t2::BYTE)) b s =
      Some (if n = 0 then b else take i b @ pairs (e = BOM_BIG_ENDIAN) bs @ 0 # drop (Suc (i + n)) b, s')"
    and "at data pos s' rest"
  using assms(2-4)
proof (induction n arbitrary: bs i t1 t2 b s thesis)
  case 0
  then show ?case by simp
next
  case (Suc n)
  obtain x zs where "bs = x # zs" using Suc.prems(3) by (cases bs) auto
  moreover then obtain y cs where "zs = y # cs" using Suc.prems(3) by (cases zs) auto
  ultimately have bs: "bs = x # y # cs" "length cs = 2 * n" using Suc.prems(3) by simp_all
  have "at data pos s ([x] @ y # cs @ rest)" using Suc.prems(2) bs by simp
  from at_read [OF assms(1) this, of 1 "ucast t1"] obtain s1 where
    s1: "FSFileRead F 1 (ucast t1) s = (1, ucast x, s1)" "at data pos s1 ([y] @ cs @ rest)"
    by (auto simp: fill_byte)
  from at_read [OF assms(1) s1(2), of 1 "ucast t2"] obtain s2 where
    s2: "FSFileRead F 1 (ucast t2) s1 = (1, ucast y, s2)" "at data pos s2 (cs @ rest)"
    by (auto simp: fill_byte)
  let ?v = "if e = BOM_BIG_ENDIAN then push_bit 8 (ucast x) OR ucast y else push_bit 8 (ucast y) OR ucast x"
  let ?b = "b[i := ?v, i + 1 := 0]"
  have p: "utf16_loop F e (Suc n) i (ucast t1) (ucast t2) b s = utf16_loop F e n (i + 1) (ucast x) (ucast y) ?b s2"
    using Suc.prems(4) s1(1) s2(1) by (simp add: put_def Let_def)
  have t: "take (i + 1) ?b = take i b @ [?v]" "drop (Suc (i + 1 + n)) ?b = drop (Suc (i + Suc n)) b"
    using Suc.prems(4) by (simp_all add: take_Suc_conv_app_nth)
  have "b = take i b @ b ! i # b ! (i + 1) # drop (i + 2) b"
    using Suc.prems(4) by (simp add: Cons_nth_drop_Suc)
  then have "?b = (take i b @ b ! i # b ! (i + 1) # drop (i + 2) b)[i := ?v, i + 1 := 0]" by simp
  then have z: "?b = take i b @ [?v, 0] @ drop (i + 2) b"
    using Suc.prems(4) by (simp add: list_update_append)
  have l: "i + 1 + n < length ?b" using Suc.prems(4) by simp
  obtain s3 where s3: "utf16_loop F e n (i + 1) (ucast x) (ucast y) ?b s2 =
      Some (if n = 0 then ?b else take (i + 1) ?b @ pairs (e = BOM_BIG_ENDIAN) cs @ 0 # drop (Suc (i + 1 + n)) ?b, s3)"
      "at data pos s3 rest"
    using Suc.IH [OF _ s2(2) bs(2) l] by blast
  show ?case
  proof (cases "n = 0")
    case True
    then show ?thesis using Suc.prems(1) [of s3] p s3 z bs by simp
  next
    case False
    then show ?thesis using Suc.prems(1) [of s3] p s3 t bs by simp
  qed
qed

lemma of_nat_pred: "0 < m \<Longrightarrow> (of_nat m :: WORD) - 1 = of_nat (m - 1)"
  by (simp add: of_nat_diff)

lemma unat_small: "n < 2 ^ 24 \<Longrightarrow> unat (of_nat n :: WORD) = n"
  by (simp add: unsigned_of_nat take_bit_nat_eq_self)

lemma clamp:
  assumes "n < 2 ^ 24" and "0 < unat (len :: WORD)"
  shows "unat (if of_nat n \<ge> len then len - 1 else of_nat n) = min n (unat len - 1)"
proof -
  have "len \<noteq> 0" using assms(2) by auto
  then have "unat (len - 1) = unat len - 1" using unat_minus_one by blast
  then show ?thesis using assms by (auto simp: word_le_nat_alt unat_small)
qed

lemma pairs_length: "length (pairs big bs) = length bs div 2"
  by (induction big bs rule: pairs.induct) auto

lemma pairs_take: "take n (pairs big bs) = pairs big (take (2 * n) bs)"
proof (induction big bs arbitrary: n rule: pairs.induct)
  case (1 big x y bs)
  then show ?case by (cases n) simp_all
qed (simp_all add: take_Cons')

lemma UTF16_at:
  assumes "song_laws F data pos" and "at data pos s (us @ rest)" and "even (length us)" and "length us + 1 < 2 ^ 24"
    and "text_ok len b"
  shows "\<exists>s'. Id3V2ReadUTF16String F e (of_nat (length us)) b len s =
    Some (write_text (take (unat len - 1) (pairs (e = BOM_BIG_ENDIAN) us)) b, s')"
proof -
  define N where "N = length us div 2"
  define n where "n = min N (unat len - 1)"
  have N: "length us = 2 * N" using assms(3) by (simp add: N_def)
  have n24: "N < 2 ^ 24" using assms(4) N by simp
  have "unat ((of_nat (length us) :: WORD) + 1) = length us + 1"
    using unat_small [OF assms(4)] by (simp add: add.commute)
  then have "unat (((of_nat (length us) :: WORD) + 1) div 2) = unat (of_nat N :: WORD)"
    using N unat_small [OF n24] by (simp add: unat_div)
  then have "((of_nat (length us) :: WORD) + 1) div 2 = of_nat N" by (simp only: word_unat_eq_iff)
  moreover have "0 < unat len" using assms(5) by (auto simp: text_ok_def)
  ultimately have c: "unat (if ((of_nat (length us) :: WORD) + 1) div 2 \<ge> len then len - 1 else ((of_nat (length us) :: WORD) + 1) div 2) = n"
    using clamp [OF n24, of len] by (simp only: n_def)
  let ?bs = "take (2 * n) us"
  have l: "length ?bs = 2 * n" using N by (simp add: n_def)
  have b: "0 + n < length b" using assms(5) by (auto simp: n_def text_ok_def)
  let ?big = "e = BOM_BIG_ENDIAN"
  have "at data pos s (?bs @ drop (2 * n) us @ rest)" using assms(2) by (simp add: append_assoc [symmetric])
  then obtain s' where "utf16_loop F e n 0 (ucast (0::BYTE)) (ucast (0::BYTE)) b s =
      Some (if n = 0 then b else take 0 b @ pairs ?big ?bs @ 0 # drop (Suc (0 + n)) b, s')"
    using utf16_loop_at [OF assms(1) _ l b] by blast
  then have loop: "utf16_loop F e n 0 0 0 b s = Some (if n = 0 then b else pairs ?big ?bs @ 0 # drop (Suc n) b, s')"
    by simp
  have "take (unat len - 1) (pairs ?big us) = take n (pairs ?big us)"
    using N by (simp add: n_def min_def pairs_length)
  then have decoded: "take (unat len - 1) (pairs ?big us) = pairs ?big ?bs" by (simp only: pairs_take)
  have p: "length (pairs ?big ?bs) = n" using l by (simp add: pairs_length)
  then have "pairs ?big ?bs = [] \<longleftrightarrow> n = 0" by auto
  with p loop show ?thesis
    unfolding Id3V2ReadUTF16String_def Let_def c decoded write_text_def by (intro exI [of _ s']) simp
qed

lemma ISO_at:
  assumes "song_laws F data pos" and "at data pos s (cs @ rest)" and "length cs < 2 ^ 24" and "text_ok len b"
    and "t = 0"
  shows "\<exists>s'. (do {
      (ts, s) \<leftarrow> iso_loop F (min MAX_STRING (unat (if (if of_nat (length cs) \<ge> (of_nat MAX_STRING :: WORD) then of_nat MAX_STRING - 1 else of_nat (length cs)) \<ge> len
                 then len - 1 else (if of_nat (length cs) \<ge> (of_nat MAX_STRING :: WORD) then of_nat MAX_STRING - 1 else of_nat (length cs))))) t [] s;
      b \<leftarrow> DBCSToUnicode M (c_string j ts) b (sint len);
      Some (b, s) }) =
    map_option (\<lambda>b. (b, s')) (DBCSToUnicode M (c_string j (filter (\<lambda>c. c \<noteq> 0) (take (min 99 (unat len - 1)) cs))) b (sint len))"
proof -
  define m where "m = min (length cs) 99"
  define n where "n = min m (unat len - 1)"
  let ?w = "of_nat (length cs) :: WORD"
  let ?c = "if ?w \<ge> (of_nat MAX_STRING :: WORD) then of_nat MAX_STRING - 1 else ?w"
  have m: "m < 2 ^ 24" by (simp add: m_def)
  have "unat ?c = m"
    using clamp [OF assms(3), of "of_nat MAX_STRING"] by (simp add: m_def MAX_STRING_def)
  then have x: "?c = of_nat m" by (simp only: word_unat_eq_iff unat_small [OF m])
  have "unat (if (of_nat m :: WORD) \<ge> len then len - 1 else of_nat m) = n"
    using clamp [OF m, of len] assms(4) by (simp add: n_def text_ok_def)
  moreover have "min MAX_STRING n = n" by (simp add: n_def m_def MAX_STRING_def)
  ultimately have c: "min MAX_STRING (unat (if (of_nat m :: WORD) \<ge> len then len - 1 else of_nat m)) = n" by simp
  have t: "take (min 99 (unat len - 1)) cs = take n cs" by (simp add: n_def m_def min_def)
  have l: "length (take n cs) = n" by (simp add: n_def m_def)
  have "at data pos s (take n cs @ drop n cs @ rest)" using assms(2) by (simp add: append_assoc [symmetric])
  moreover have "length [] + length (take n cs) < MAX_STRING" by (simp add: n_def m_def MAX_STRING_def)
  ultimately obtain s' where "iso_loop F (length (take n cs)) (ucast (0::BYTE)) [] s = Some ([] @ filter (\<lambda>c. c \<noteq> 0) (take n cs), s')"
    by (rule iso_loop_at [OF assms(1)])
  then have "iso_loop F n t [] s = Some (filter (\<lambda>c. c \<noteq> 0) (take n cs), s')" using l assms(5) by simp
  then show ?thesis unfolding x c t
    by (intro exI [of _ s']) (simp split: bind_split option.split)
qed

lemma varied_at:
  assumes "song_laws (song R) data pos" and "at data pos s (body @ rest)" and "body_ok body" and "text_ok len b"
  shows "\<exists>s'. Id3V2ReadVariedStringToUnicodeBuffer R (of_nat (length body)) b len s = map_option (\<lambda>b. (b, s')) (decode_text R len b body)"
proof -
  let ?F = "song R"
  obtain e cs where body: "body = e # cs" using assms(3) by (cases body) (auto simp: body_ok_def)
  have len: "length cs < 2 ^ 24" "length cs + 1 < 2 ^ 24" using assms(3) body by (simp_all add: body_ok_def)
  have "at data pos s ([e] @ cs @ rest)" using assms(2) body by simp
  from at_read [OF assms(1) this, of 1 0] obtain s1 where
    s1: "FSFileRead ?F 1 0 s = (1, ucast e, s1)" "at data pos s1 (cs @ rest)" by (auto simp: fill_byte)
  note r1 = s1(1) [unfolded One_nat_def]
  have size: "(of_nat (length body) :: WORD) - 1 = of_nat (length cs)" using body by simp
  have e: "(ucast e :: WORD) = 0 \<longleftrightarrow> e = 0" "(ucast e :: WORD) = 1 \<longleftrightarrow> e = 1" "(ucast e :: WORD) = 2 \<longleftrightarrow> e = 2"
    using wide_eq [of e 0] wide_eq [of e 1] wide_eq [of e 2] by simp_all
  consider "e = 0" | "e = 1" | "e = 2" | "e \<noteq> 0" "e \<noteq> 1" "e \<noteq> 2" by blast
  then show ?thesis
  proof cases
    case 1
    show ?thesis
      using ISO_at [OF assms(1) s1(2) len(1) assms(4) refl, of "maps R" "junk R"] 1
      by (simp add: Id3V2ReadVariedStringToUnicodeBuffer_def r1 size decode_text_def body Let_def)
  next
    case 2
    then have "3 \<le> length body" "odd (length body)" using assms(3) body by (auto simp: body_ok_def)
    then obtain x y us where cs: "cs = [x, y] @ us" "even (length us)"
      using body by (cases cs; cases "tl cs") auto
    have "at data pos s1 ([x, y] @ us @ rest)" using s1(2) cs by simp
    from at_read [OF assms(1) this, of 2 1] obtain s2 where
      s2: "FSFileRead ?F 2 1 s1 = (2, fill 1 [x, y], s2)" "at data pos s2 (us @ rest)" by auto
    have f: "fill 1 [x, y] = little [x, y]"
      by (rule bit_word_eqI) (auto simp: fill_def little_def bit_simps)
    have sz: "(of_nat (length cs) :: WORD) - 2 = of_nat (length us)" using cs by simp
    have "length us + 1 < 2 ^ 24" using len cs by simp
    from UTF16_at [OF assms(1) s2(2) cs(2) this assms(4), of "little [x, y]"]
    show ?thesis using 2 cs
      by (simp add: Id3V2ReadVariedStringToUnicodeBuffer_def r1 s2(1) f size [unfolded body] sz decode_text_def body Let_def)
  next
    case 3
    then have "even (length cs)" using assms(3) body by (auto simp: body_ok_def)
    from UTF16_at [OF assms(1) s1(2) this len(2) assms(4), of BOM_BIG_ENDIAN]
    show ?thesis using 3
      by (simp add: Id3V2ReadVariedStringToUnicodeBuffer_def r1 size decode_text_def body Let_def)
  next
    case 4
    then show ?thesis
      by (simp add: Id3V2ReadVariedStringToUnicodeBuffer_def r1 e decode_text_def body Let_def)
  qed
qed


end
