(* ===== verification/Id3Frame.thy ===== *)
theory Id3Frame imports Id3Tag begin

text \<open>
  A whole ID3v2 tag: its frames are read in their order, each text from the bytes of its own frame, and the
  position ends up behind the tag.
\<close>

section \<open>Frames\<close>

record frame =
  frame_id :: "BYTE list"
  frame_flags :: "BYTE list"
  frame_body :: "BYTE list"

definition encode_frame :: "bool \<Rightarrow> frame \<Rightarrow> BYTE list" where
  "encode_frame sync f = frame_id f @ be_bytes (if sync then 7 else 8) 4 (length (frame_body f)) @ frame_flags f @ frame_body f"

definition letter_byte :: "BYTE \<Rightarrow> bool" where
  "letter_byte c \<longleftrightarrow> frame_letter (ucast c)"

definition field_of :: "BYTE list \<Rightarrow> text_field option" where
  "field_of i =
     (if i = [0x54, 0x41, 0x4c, 0x42] then Some Album else if i = [0x54, 0x49, 0x54, 0x32] then Some Title
      else if i = [0x54, 0x50, 0x45, 0x31] then Some Artist else None)"

definition supported :: "frame \<Rightarrow> bool" where
  "supported f \<longleftrightarrow> little (frame_flags f) AND ID3V2_FRAME_UNSUPPORTED = 0"

definition frame_wf :: "frame \<Rightarrow> bool" where
  "frame_wf f \<longleftrightarrow> length (frame_id f) = 4 \<and> letter_byte (hd (frame_id f)) \<and> length (frame_flags f) = 2 \<and>
     length (frame_body f) < 2 ^ 24 \<and> (field_of (frame_id f) \<noteq> None \<longrightarrow> body_ok (frame_body f))"

text \<open>What a frame does to the meta data, from its own bytes alone.\<close>

definition store_text :: "'s reader \<Rightarrow> text_field option \<Rightarrow> BYTE list \<Rightarrow> file_meta \<Rightarrow> file_meta option" where
  "store_text R field body m =
     (case field of
        None \<Rightarrow> Some m
      | Some Album \<Rightarrow> (case wAlbum m of None \<Rightarrow> Some m
          | Some b \<Rightarrow> map_option (\<lambda>b. m\<lparr>wAlbum := Some b\<rparr>) (decode_text R (iAlbumBufferLength m) b body))
      | Some Title \<Rightarrow> (case wTitle m of None \<Rightarrow> Some m
          | Some b \<Rightarrow> map_option (\<lambda>b. m\<lparr>wTitle := Some b\<rparr>) (decode_text R (iTitleBufferLength m) b body))
      | Some Artist \<Rightarrow> (case wArtist m of None \<Rightarrow> Some m
          | Some b \<Rightarrow> map_option (\<lambda>b. m\<lparr>wArtist := Some b\<rparr>) (decode_text R (iArtistBufferLength m) b body)))"

definition apply_frame :: "'s reader \<Rightarrow> frame \<Rightarrow> file_meta \<Rightarrow> file_meta option" where
  "apply_frame R f m = (if supported f then store_text R (field_of (frame_id f)) (frame_body f) m else Some m)"

fun apply_frames :: "'s reader \<Rightarrow> frame list \<Rightarrow> file_meta \<Rightarrow> file_meta option" where
  "apply_frames R [] m = Some m"
| "apply_frames R (f # fs) m = do { m \<leftarrow> apply_frame R f m; apply_frames R fs m }"

lemma read_text_at:
  assumes "song_laws (song R) data pos" and "at data pos s (body @ rest)" and "meta_ok m"
    and "field \<noteq> None \<Longrightarrow> body_ok body"
  shows "\<exists>s'. read_text R field (of_nat (length body)) (m, s) = map_option (\<lambda>m. (m, s')) (store_text R field body m)"
proof -
  have ok: "field_ok (iAlbumBufferLength m) (wAlbum m)" "field_ok (iTitleBufferLength m) (wTitle m)"
      "field_ok (iArtistBufferLength m) (wArtist m)"
    using assms(3) by (simp_all add: meta_ok_def)
  have S: "\<exists>s'. (case x of None \<Rightarrow> Some (m, s)
      | Some b \<Rightarrow> do {
          (b, s) \<leftarrow> Id3V2ReadVariedStringToUnicodeBuffer R (of_nat (length body)) b len s;
          Some (upd b, s) }) =
    map_option (\<lambda>m. (m, s')) (case x of None \<Rightarrow> Some m | Some b \<Rightarrow> map_option upd (decode_text R len b body))"
    if "field \<noteq> None" "field_ok len x" for x len and upd :: "WORD list \<Rightarrow> file_meta"
  proof (cases x)
    case (Some b)
    then have "text_ok len b" using that(2) by (simp add: field_ok_def)
    from varied_at [OF assms(1,2) assms(4) [OF that(1)] this] obtain s' where
      "Id3V2ReadVariedStringToUnicodeBuffer R (of_nat (length body)) b len s = map_option (\<lambda>b. (b, s')) (decode_text R len b body)"
      by blast
    then show ?thesis using Some by (cases "decode_text R len b body") auto
  qed auto
  show ?thesis
  proof (cases field)
    case None
    then show ?thesis by (auto simp: read_text_def store_text_def)
  next
    case (Some t)
    then show ?thesis
      using S [OF _ ok(1), of "\<lambda>b. m\<lparr>wAlbum := Some b\<rparr>"] S [OF _ ok(2), of "\<lambda>b. m\<lparr>wTitle := Some b\<rparr>"]
        S [OF _ ok(3), of "\<lambda>b. m\<lparr>wArtist := Some b\<rparr>"]
      by (cases t) (simp_all add: read_text_def store_text_def)
  qed
qed

lemma store_text_ok:
  assumes "song_laws (song R) data pos" and "at data pos s (body @ rest)" and "meta_ok m"
    and "field \<noteq> None \<Longrightarrow> body_ok body"
  shows "\<exists>m'. store_text R field body m = Some m' \<and> meta_ok m'"
proof -
  have "after data pos 0 s" using assms(2) by (simp add: at_def after_def)
  from read_text_keeps [OF assms(1) this assms(3), of field "of_nat (length body)"]
  obtain m' s' where "read_text R field (of_nat (length body)) (m, s) = Some (m', s')" "meta_ok m'"
    by (auto simp: keeps_def)
  moreover obtain s'' where "read_text R field (of_nat (length body)) (m, s) = map_option (\<lambda>m. (m, s'')) (store_text R field body m)"
    using read_text_at [OF assms(1-3), of field] assms(4) by blast
  ultimately show ?thesis by (cases "store_text R field body m") auto
qed

section \<open>One frame\<close>

lemma little_3:
  assumes "length x = 3" and "length y = 3"
  shows "little x = little y \<longleftrightarrow> x = y"
proof
  obtain a b c where x: "x = [a, b, c]" using assms(1) by (auto simp: numeral_3_eq_3 length_Suc_conv)
  obtain a' b' c' where y: "y = [a', b', c']" using assms(2) by (auto simp: numeral_3_eq_3 length_Suc_conv)
  assume e: "little x = little y"
  have v: "ucast (little [u, v, w]) = u" "ucast (drop_bit 8 (little [u, v, w])) = v" "ucast (drop_bit 16 (little [u, v, w])) = w"
    for u v w :: BYTE
    by (rule bit_word_eqI, auto simp: little_def bit_simps dest: bit_imp_le_length)+
  show "x = y" using v [of a b c] v [of a' b' c'] e unfolding x y by metis
qed simp

lemma field_little:
  assumes "length i = 4"
  shows "(if (ucast (hd i) :: WORD) = 0x54 then field_2_3 (little (tl i)) else None) = field_of i"
proof -
  obtain a t where i: "i = a # t" "length t = 3" using assms by (cases i) auto
  have c: "TALB = little [0x41, 0x4c, 0x42]" "TIT2 = little [0x49, 0x54, 0x32]" "TPE1 = little [0x50, 0x45, 0x31]"
    by (simp_all add: TALB_def TIT2_def TPE1_def little_def)
  have "(ucast a :: WORD) = 0x54 \<longleftrightarrow> a = 0x54" using wide_eq [of a "0x54"] by simp
  then show ?thesis
    using i(2) by (auto simp: i(1) field_2_3_def field_of_def c little_3)
qed

lemma seek_over:
  assumes "song_laws F data pos" and "at data pos s0 (bs @ rest)"
  shows "at data pos (snd (fseek F (int (pos s0) + int (length bs)) SEEK_SET s)) rest"
proof -
  have l: "length data = pos s0 + (length bs + length rest)" using at_length [OF assms(2)] by simp
  have "drop (pos s0 + length bs) data = drop (length bs) (drop (pos s0) data)" by (simp add: add.commute)
  also have "\<dots> = rest" using assms(2) by (simp add: at_def)
  finally have d: "drop (pos s0 + length bs) data = rest" .
  have "pos (snd (fseek F (int (pos s0) + int (length bs)) SEEK_SET s)) = pos s0 + length bs"
    using song_seek(1) [OF assms(1), of "int (pos s0) + int (length bs)" SEEK_SET s] l by (simp add: target_def)
  then show ?thesis using d l by (simp add: at_def)
qed

lemma seek_past:
  assumes "song_laws F data pos" and "at data pos s (bs @ rest)"
  shows "at data pos (snd (fseek F (int (length bs)) SEEK_CUR s)) rest"
proof -
  have l: "length data = pos s + (length bs + length rest)" using at_length [OF assms(2)] by simp
  have "drop (pos s + length bs) data = drop (length bs) (drop (pos s) data)" by (simp add: add.commute)
  also have "\<dots> = rest" using assms(2) by (simp add: at_def)
  finally have d: "drop (pos s + length bs) data = rest" .
  have "pos (snd (fseek F (int (length bs)) SEEK_CUR s)) = pos s + length bs"
    using song_seek(1) [OF assms(1), of "int (length bs)" SEEK_CUR s] l by (simp add: target_def)
  then show ?thesis using d l by (simp add: at_def)
qed

lemma frame_head_at:
  assumes "song_laws F data pos" and "at data pos s (encode_frame sync f @ rest)" and "frame_wf f"
  obtains s1 s2 s3 s4 where "FSFileRead F 1 0 s = (1, ucast (hd (frame_id f)), s1)"
    and "FSFileRead F 3 sub s1 = (3, little (tl (frame_id f)), s2)"
    and "Id3V2ReadInt F sync 4 s2 = (of_nat (length (frame_body f)), s3)"
    and "FSFileRead F 2 0 s3 = (2, little (frame_flags f), s4)"
    and "at data pos s4 (frame_body f @ rest)"
proof -
  let ?k = "if sync then 7 else 8 :: nat" and ?body = "frame_body f"
  obtain a t where i: "frame_id f = a # t" "length t = 3" using assms(3) by (cases "frame_id f") (auto simp: frame_wf_def)
  have "at data pos s ([a] @ t @ be_bytes ?k 4 (length ?body) @ frame_flags f @ ?body @ rest)"
    using assms(2) i by (simp add: encode_frame_def)
  from at_read [OF assms(1) this, of 1 0] obtain s1 where
    s1: "FSFileRead F 1 0 s = (1, ucast a, s1)" "at data pos s1 (t @ be_bytes ?k 4 (length ?body) @ frame_flags f @ ?body @ rest)"
    by (auto simp: fill_byte)
  obtain s2 where s2: "FSFileRead F 3 sub s1 = (3, little t, s2)" "at data pos s2 (be_bytes ?k 4 (length ?body) @ frame_flags f @ ?body @ rest)"
    using at_read [OF assms(1) s1(2) i(2), of sub] fill_word [OF i(2)] by metis
  have "(2::nat) ^ 24 \<le> 2 ^ (?k * 4)" by (rule power_increasing) auto
  moreover have "length ?body < 2 ^ 24" using assms(3) by (simp add: frame_wf_def)
  ultimately have "length ?body < 2 ^ (?k * 4)" by (rule order_less_le_trans [rotated])
  then obtain s3 where s3: "Id3V2ReadInt F sync 4 s2 = (of_nat (length ?body), s3)" "at data pos s3 (frame_flags f @ ?body @ rest)"
    by (rule ReadInt_at [OF assms(1) s2(2)])
  have "length (frame_flags f) = 2" using assms(3) by (simp add: frame_wf_def)
  from at_read [OF assms(1) s3(2) this, of 0] obtain s4 where
    s4: "FSFileRead F 2 0 s3 = (2, little (frame_flags f), s4)" "at data pos s4 (?body @ rest)" by (auto simp: fill_zero)
  show thesis using that [of s1 s2 s3 s4] s1(1) s2(1) s3(1) s4 i by simp
qed

lemma ReadFrame_at:
  assumes "song_laws (song R) data pos" and "at data pos s (encode_frame sync f @ rest)" and "frame_wf f" and "meta_ok m"
  shows "\<exists>m' s'. Id3V2_3and2_4ReadFrame R sub sync (m, s) = Some (True, m', s') \<and> apply_frame R f m = Some m' \<and>
    meta_ok m' \<and> at data pos s' rest"
proof -
  let ?F = "song R" and ?body = "frame_body f"
  obtain s1 s2 s3 s4 where r: "FSFileRead ?F 1 0 s = (1, ucast (hd (frame_id f)), s1)"
      "FSFileRead ?F 3 sub s1 = (3, little (tl (frame_id f)), s2)"
      "Id3V2ReadInt ?F sync 4 s2 = (of_nat (length ?body), s3)"
      "FSFileRead ?F 2 0 s3 = (2, little (frame_flags f), s4)"
    and a: "at data pos s4 (?body @ rest)"
    by (rule frame_head_at [OF assms(1-3)])
  have wf: "length (frame_id f) = 4" "frame_letter (ucast (hd (frame_id f)))" "length ?body < 2 ^ 24"
      "field_of (frame_id f) \<noteq> None \<Longrightarrow> body_ok ?body"
    using assms(3) by (simp_all add: frame_wf_def letter_byte_def)
  have sz: "uint (of_nat (length ?body) :: WORD) = int (length ?body)"
    using unat_small [OF wf(3)] by (simp only: uint_nat)
  note here = song_tell [OF assms(1), of s4]
  show ?thesis
  proof (cases "supported f")
    case True
    obtain m' where m': "store_text R (field_of (frame_id f)) ?body m = Some m'" "meta_ok m'"
      using store_text_ok [OF assms(1) a assms(4) wf(4)] by blast
    obtain s5 where s5: "read_text R (field_of (frame_id f)) (of_nat (length ?body)) (m, s4) = Some (m', s5)"
      using read_text_at [OF assms(1) a assms(4), of "field_of (frame_id f)"] wf(4) m'(1) by fastforce
    note e = seek_over [OF assms(1) a, of s5]
    have "read_text R None (of_nat (length ?body)) (m, s4) = Some (m, s4)" by (simp add: read_text_def)
    then have c: "(if (ucast (hd (frame_id f)) :: WORD) = 0x54 then read_text R (field_2_3 (little (tl (frame_id f)))) (of_nat (length ?body)) (m, s4)
        else Some (m, s4)) = Some (m', s5)"
      using s5 field_little [OF wf(1)] by (auto split: if_splits)
    show ?thesis
      using True r wf(2) m' e by (simp add: Id3V2_3and2_4ReadFrame_def Let_def apply_frame_def supported_def sz here c)
  next
    case False
    then show ?thesis
      using r wf(2) seek_past [OF assms(1) a] assms(4)
      by (simp add: Id3V2_3and2_4ReadFrame_def Let_def apply_frame_def supported_def sz)
  qed
qed

section \<open>The frames of a tag\<close>

definition no_frame :: "BYTE list \<Rightarrow> bool" where
  "no_frame bs \<longleftrightarrow> bs = [] \<or> \<not> letter_byte (hd bs)"

lemma ReadFrame_end:
  assumes "song_laws (song R) data pos" and "at data pos s bs" and "no_frame bs"
  shows "\<exists>s'. Id3V2_3and2_4ReadFrame R sub sync (m, s) = Some (False, m, s')"
proof -
  have "\<exists>k s1 t. FSFileRead (song R) 1 0 s = (k, t, s1) \<and> \<not> frame_letter t"
  proof (cases bs)
    case Nil
    then have "fst (Fread (song R) 1 s) = []" using song_read(1) [OF assms(1), of 1 s] assms(2) by (simp add: at_def)
    then show ?thesis by (auto simp: FSFileRead_def split_beta Let_def fill_def little_def frame_letter_def)
  next
    case (Cons c cs)
    then have "at data pos s ([c] @ cs)" using assms(2) by simp
    from at_read [OF assms(1) this, of 1 0] obtain s1 where "FSFileRead (song R) 1 0 s = (1, ucast c, s1)"
      by (auto simp: fill_byte)
    then show ?thesis using assms(3) Cons by (auto simp: no_frame_def letter_byte_def)
  qed
  then show ?thesis by (auto simp: Id3V2_3and2_4ReadFrame_def Let_def split_beta)
qed

lemma frames_at:
  assumes "song_laws (song R) data pos" and "at data pos s (concat (map (encode_frame sync) fs) @ rest)"
    and "list_all frame_wf fs" and "no_frame rest" and "meta_ok m"
  shows "\<exists>m' s'. read_frames (Id3V2_3and2_4ReadFrame R sub sync) (m, s) = Some (Some (m', s')) \<and> apply_frames R fs m = Some m'"
  using assms(2,3,5)
proof (induction fs arbitrary: m s)
  case Nil
  then have "at data pos s rest" by simp
  from ReadFrame_end [OF assms(1) this assms(4)] obtain s' where
    "Id3V2_3and2_4ReadFrame R sub sync (m, s) = Some (False, m, s')" by blast
  then show ?case using read_frames.simps [of "Id3V2_3and2_4ReadFrame R sub sync" "(m, s)"] by simp
next
  case (Cons f fs)
  have "at data pos s (encode_frame sync f @ concat (map (encode_frame sync) fs) @ rest)" "frame_wf f"
    using Cons.prems by simp_all
  then obtain m1 s1 where
    f: "Id3V2_3and2_4ReadFrame R sub sync (m, s) = Some (True, m1, s1)" "apply_frame R f m = Some m1" "meta_ok m1"
      "at data pos s1 (concat (map (encode_frame sync) fs) @ rest)"
    using ReadFrame_at [OF assms(1) _ _ Cons.prems(3)] by blast
  have "list_all frame_wf fs" using Cons.prems(2) by simp
  from Cons.IH [OF f(4) this f(3)] show ?case
    using read_frames.simps [of "Id3V2_3and2_4ReadFrame R sub sync" "(m, s)"] f(1,2) by simp
qed

section \<open>The tag\<close>

definition tag_content :: "bool \<Rightarrow> frame list \<Rightarrow> BYTE list \<Rightarrow> BYTE list" where
  "tag_content sync fs pad = concat (map (encode_frame sync) fs) @ pad"

definition encode_tag :: "BYTE \<Rightarrow> BYTE \<Rightarrow> BYTE \<Rightarrow> BYTE list \<Rightarrow> BYTE list" where
  "encode_tag v revision flags content = [0x49, 0x44, 0x33, v, revision, flags] @ be_bytes 7 4 (length content) @ content"

lemma flag_clear:
  fixes flags :: BYTE
  assumes "flags AND 0xd0 = 0"
  shows "(ucast flags :: WORD) AND 0x40 = 0" and "(ucast flags :: WORD) AND 0x80 = 0" and "(ucast flags :: WORD) AND 0x10 = 0"
proof -
  have b: "\<not> bit flags n" if "bit (0xd0 :: BYTE) n" for n
    using assms that by (metis bit_0_eq bit_and_iff bot_apply bot_bool_def)
  have z: "x AND push_bit n 1 = 0" if "\<not> bit x n" for x :: WORD and n
    by (rule bit_word_eqI) (use that in \<open>auto simp: bit_simps\<close>)
  have "\<not> bit flags 6" "\<not> bit flags 7" "\<not> bit flags 4" using b by simp_all
  then show "(ucast flags :: WORD) AND 0x40 = 0" "(ucast flags :: WORD) AND 0x80 = 0" "(ucast flags :: WORD) AND 0x10 = 0"
    using z [of "ucast flags" 6] z [of "ucast flags" 7] z [of "ucast flags" 4] by (simp_all add: bit_simps)
qed

lemma version_word:
  "(little [v, r] AND 0xff :: WORD) = ucast v" "little [v, r] AND 0xff00 = 0xff00 \<longleftrightarrow> r = 0xff"
proof -
  have m: "(0xff :: WORD) = mask 8" by (simp add: mask_eq_exp_minus_1)
  show "(little [v, r] AND 0xff :: WORD) = ucast v"
    unfolding m by (rule bit_word_eqI) (auto simp: little_def bit_simps dest: bit_imp_le_length)
  have m': "(0xff00 :: WORD) = push_bit 8 (ucast (0xff::BYTE))" by simp
  have e: "little [v, r] AND 0xff00 = push_bit 8 (ucast r :: WORD)"
  proof -
    have k: "(0xff00 :: WORD) = push_bit 8 (mask 8)" by (simp add: mask_eq_exp_minus_1)
    show ?thesis unfolding k by (rule bit_word_eqI) (auto simp: little_def bit_simps dest: bit_imp_le_length)
  qed
  have u: "ucast (drop_bit 8 (push_bit 8 (ucast x :: WORD))) = x" for x :: BYTE
    by (rule bit_word_eqI) (auto simp: bit_simps dest: bit_imp_le_length)
  show "little [v, r] AND 0xff00 = 0xff00 \<longleftrightarrow> r = 0xff"
    unfolding e using u [of r] u [of "0xff"] unfolding m' by metis
qed

text \<open>
  C27. A tag of version 2.3 or 2.4 without the flags for unsynchronisation, an extended header and a footer is
  read as it was written: the texts are those of its own frames, applied in their order, the sound begins behind
  it, and so does the position, whatever bytes follow the tag, as long as the byte behind the last frame is not a
  letter or a digit.
\<close>
theorem Mp3MetaDataReadID3V2_tag:
  assumes "song_laws (song R) data pos" and "pos s \<le> length data"
    and "drop (pos s) data = encode_tag v revision flags (tag_content (v = 4) fs pad) @ rest"
    and "v \<in> {3, 4}" and "revision \<noteq> 0xff" and "flags AND 0xd0 = 0" and "list_all frame_wf fs" and "no_frame (pad @ rest)"
    and "length (tag_content (v = 4) fs pad) + 10 < 2 ^ 24" and "meta_ok m"
  shows "\<exists>m' s'. Mp3MetaDataReadID3V2 R sub (m, s) = Some (Some (m', s'))
    \<and> apply_frames R fs (m\<lparr>dwStartPos := dwStartPos m + of_nat (length (tag_content (v = 4) fs pad) + 10),
        dwNumBytes := dwNumBytes m - of_nat (length (tag_content (v = 4) fs pad) + 10)\<rparr>) = Some m'
    \<and> at data pos s' rest"
proof -
  let ?F = "song R" and ?c = "tag_content (v = 4) fs pad"
  have a: "at data pos s ([0x49, 0x44, 0x33] @ [v, revision, flags] @ be_bytes 7 4 (length ?c) @ ?c @ rest)"
    using assms(2,3) by (simp add: at_def encode_tag_def)
  obtain s1 where s1: "FSFileRead ?F 3 sub s = (3, 0x334449, s1)" "at data pos s1 ([v, revision] @ [flags] @ be_bytes 7 4 (length ?c) @ ?c @ rest)"
    using at_read [OF assms(1) a, of 3 sub] by (auto simp: fill_word little_def)
  obtain s2 where s2: "FSFileRead ?F 2 0 s1 = (2, little [v, revision], s2)" "at data pos s2 ([flags] @ be_bytes 7 4 (length ?c) @ ?c @ rest)"
    using at_read [OF assms(1) s1(2), of 2 0] by (auto simp: fill_zero)
  obtain s3 where s3: "FSFileRead ?F 1 0 s2 = (1, ucast flags, s3)" "at data pos s3 (be_bytes 7 4 (length ?c) @ ?c @ rest)"
    using at_read [OF assms(1) s2(2), of 1 0] by (auto simp: fill_byte)
  obtain s4 where s4: "Id3V2ReadInt ?F True 4 s3 = (of_nat (length ?c), s4)" "at data pos s4 (?c @ rest)"
    using ReadInt_at [OF assms(1), of s3 True 4 "length ?c"] s3(2) assms(9) by auto
  have v: "(ucast v :: WORD) \<le> 4" "(ucast v :: WORD) \<noteq> 2" "(\<not> (ucast v :: WORD) < 4) = (v = 4)"
    using assms(4) by auto
  note fl = flag_clear [OF assms(6)]
  let ?m = "m\<lparr>dwStartPos := dwStartPos m + of_nat (length ?c + 10), dwNumBytes := dwNumBytes m - of_nat (length ?c + 10)\<rparr>"
  have "at data pos s4 (concat (map (encode_frame (v = 4)) fs) @ pad @ rest)" using s4(2) by (simp add: tag_content_def)
  moreover have "meta_ok ?m" using assms(10) by (simp add: meta_ok_def)
  ultimately obtain m' s5 where f: "read_frames (Id3V2_3and2_4ReadFrame R sub (v = 4)) (?m, s4) = Some (Some (m', s5))"
      "apply_frames R fs ?m = Some m'"
    using frames_at [OF assms(1) _ assms(7,8)] by blast
  have n: "length ?c + 10 < 2 ^ 24" by (rule assms(9))
  define h :: WORD where "h = of_nat (length ?c + 10)"
  have u: "unat h = length ?c + 10" using unat_small [OF n] by (simp only: h_def)
  have h1: "10 + of_nat (length ?c) = h" unfolding h_def by (simp only: of_nat_add of_nat_numeral add.commute)
  have "(of_nat (unat h) :: DWORD) = ucast h" by (rule of_nat_unat)
  then have h2: "(ucast h :: DWORD) = of_nat (length ?c + 10)" by (simp only: u)
  have h3: "uint h = int (length ?c + 10)" by (simp only: u uint_nat)
  let ?t = "[0x49, 0x44, 0x33, v, revision, flags] @ be_bytes 7 4 (length ?c) @ ?c"
  have "at data pos s (?t @ rest)" using a by simp
  from seek_over [OF assms(1) this, of s5]
  have e: "at data pos (snd (fseek ?F (int (pos s) + int (length ?c + 10)) SEEK_SET s5)) rest" by (simp add: add.commute)
  have w: "little [v, revision] AND 0xff00 \<noteq> 0xff00" using version_word(2) assms(5) by blast
  have b: "tag_body R sub (ucast v) (ucast flags) (?m, s4) = Some (Some (m', s5))"
    using v fl f(1) by (simp add: tag_body_def Let_def skip_extended_def ID3V2_HEADER_EXTENDED_HEADER_def ID3V2_HEADER_UNSYNCRONIZATION_def)
  have "Mp3MetaDataReadID3V2 R sub (m, s) = Some (Some (m', snd (fseek ?F (int (pos s) + int (length ?c + 10)) SEEK_SET s5)))"
    using v(1) w fl(3) b
    by (simp add: Mp3MetaDataReadID3V2_def Let_def song_tell [OF assms(1)] s1(1) s2(1) s3(1) [unfolded One_nat_def] s4(1) version_word(1) h1 h2 h3
        ID3V2_HEADER_FLAG_FOOTER_def)
  then show ?thesis using f(2) e by blast
qed

text \<open>A title of two letters and two bytes of padding, between a byte in front of the tag and the sound.\<close>

definition a_title :: frame where
  "a_title = \<lparr>frame_id = [0x54, 0x49, 0x54, 0x32], frame_flags = [0, 0], frame_body = [0, 0x48, 0x69]\<rparr>"

definition a_song :: "BYTE list" where
  "a_song = [0x99] @ encode_tag 4 0 0 (tag_content True [a_title] [0, 0]) @ [0xff, 0xfb]"

definition a_meta :: file_meta where
  "a_meta = \<lparr>iTitleBufferLength = 4, wTitle = Some [0, 0, 0, 0], iArtistBufferLength = 2, wArtist = Some [0, 0],
     iAlbumBufferLength = 2, wAlbum = Some [0, 0], btGenre = 0, dwStartPos = 1, dwNumBytes = 26\<rparr>"

lemma a_meta_ok: "meta_ok a_meta"
  by (simp add: a_meta_def meta_ok_def field_ok_def text_ok_def)

lemma a_song_at:
  "id (1::nat) \<le> length a_song" "drop (id 1) a_song = encode_tag 4 0 0 (tag_content ((4::BYTE) = 4) [a_title] [0, 0]) @ [0xff, 0xfb]"
  by (simp_all add: a_song_def)

lemma a_title_wf: "list_all frame_wf [a_title]"
  by (simp add: a_title_def frame_wf_def letter_byte_def frame_letter_def field_of_def body_ok_def)

lemma a_song_content: "length (tag_content ((4::BYTE) = 4) [a_title] [0, 0]) = 15"
  by (simp add: tag_content_def encode_frame_def a_title_def)

lemma Mp3MetaDataReadID3V2_tag_witness:
  "\<exists>m' s'. Mp3MetaDataReadID3V2 (memory_reader a_song) 0 (a_meta, 1) = Some (Some (m', s'))
    \<and> apply_frames (memory_reader a_song) [a_title]
        (a_meta\<lparr>dwStartPos := dwStartPos a_meta + of_nat (length (tag_content ((4::BYTE) = 4) [a_title] [0, 0]) + 10),
          dwNumBytes := dwNumBytes a_meta - of_nat (length (tag_content ((4::BYTE) = 4) [a_title] [0, 0]) + 10)\<rparr>) = Some m'
    \<and> at a_song id s' [0xff, 0xfb]"
  by (rule Mp3MetaDataReadID3V2_tag [OF memory_laws(2) a_song_at(1,2) _ _ _ a_title_wf _ _ a_meta_ok])
    (simp_all add: a_song_content [simplified] no_frame_def letter_byte_def frame_letter_def)

end
