(* ===== verification/Id3Check.thy ===== *)
theory Id3Check imports Id3Frame begin

text \<open>
  Both tags of a song: the ID3v1 tag at the end, the ID3v2 tag in front, and the choice between their texts, on any
  file. The buffers are those of the player: none of the three is missing, and none is longer than the array that
  keeps its text while the second tag is read.
\<close>

section \<open>The ID3v1 tag\<close>

lemma v1_text_ok:
  assumes "field_ok len b"
  shows "\<exists>b'. v1_text R b len temp = Some b' \<and> field_ok len b' \<and> (b' = None \<longleftrightarrow> b = None)"
proof (cases b)
  case (Some t)
  then have t: "length t = unat len" "2 \<le> length t" "length t < 2 ^ 23" using assms by (simp_all add: field_ok_def text_ok_def)
  let ?u = "if len < 31 then len else 31"
  have m: "unat ?u = min (unat len) 31" by (auto simp: word_less_nat_alt)
  then have "unat ?u < 2 ^ 23" by simp
  then have u: "sint ?u = int (min (unat len) 31)" using sint_small [of ?u] m by simp
  have "int 0 + 2 \<le> sint ?u" "sint ?u \<le> int (length t)" unfolding u t(1) using t(1,2) by linarith+
  from dbcs_loop_ok [OF this, of "maps R" temp 0] obtain t' where
    "dbcs_loop (maps R) temp (sint ?u) 0 0 t = Some t'" "length t' = length t" "0 \<in> set t'" by blast
  then show ?thesis using Some t by (simp add: v1_text_def Let_def DBCSToUnicode_def field_ok_def text_ok_def)
qed (simp add: v1_text_def field_ok_def)

text \<open>The three texts are there, and each fits the array it is kept in.\<close>

definition fits :: "nat \<Rightarrow> WORD list option \<Rightarrow> bool" where
  "fits n b \<longleftrightarrow> (\<exists>t. b = Some t \<and> length t \<le> n)"

definition buffers_ok :: "file_meta \<Rightarrow> bool" where
  "buffers_ok m \<longleftrightarrow> meta_ok m \<and> fits TITLE_SIZE (wTitle m) \<and> fits ARTIST_SIZE (wArtist m) \<and> fits ALBUM_SIZE (wAlbum m)"

definition shape :: "file_meta \<Rightarrow> (WORD \<times> bool) \<times> (WORD \<times> bool) \<times> (WORD \<times> bool)" where
  "shape m = ((iTitleBufferLength m, wTitle m = None), (iArtistBufferLength m, wArtist m = None), (iAlbumBufferLength m, wAlbum m = None))"

lemma shape_text:
  "b \<noteq> None \<Longrightarrow> wTitle m \<noteq> None \<Longrightarrow> shape (m\<lparr>wTitle := b\<rparr>) = shape m"
  "b \<noteq> None \<Longrightarrow> wArtist m \<noteq> None \<Longrightarrow> shape (m\<lparr>wArtist := b\<rparr>) = shape m"
  "b \<noteq> None \<Longrightarrow> wAlbum m \<noteq> None \<Longrightarrow> shape (m\<lparr>wAlbum := b\<rparr>) = shape m"
  by (auto simp: shape_def)

lemma read_text_shape: "read_text R field n (m, s) = Some (m', s') \<Longrightarrow> shape m' = shape m"
  unfolding read_text_def
  by (auto simp: shape_text bind_eq_Some_conv split: option.splits text_field.splits)

lemma frame_2_2_shape: "Id3V2_2ReadFrame R sync (m, s) = Some (found, m', s') \<Longrightarrow> shape m' = shape m"
  unfolding Id3V2_2ReadFrame_def Let_def
  by (auto simp: bind_eq_Some_conv dest: read_text_shape split: if_splits prod.splits)

lemma frame_2_3_shape: "Id3V2_3and2_4ReadFrame R sub sync (m, s) = Some (found, m', s') \<Longrightarrow> shape m' = shape m"
  unfolding Id3V2_3and2_4ReadFrame_def Let_def
  by (auto simp: bind_eq_Some_conv dest: read_text_shape split: if_splits prod.splits)

definition keeps_shape :: "(file_meta \<times> 's \<Rightarrow> (bool \<times> file_meta \<times> 's) option) \<Rightarrow> bool" where
  "keeps_shape f \<longleftrightarrow> (\<forall>m s found m' s'. f (m, s) = Some (found, m', s') \<longrightarrow> shape m' = shape m)"

lemma read_frames_shape:
  assumes "keeps_shape f" and "read_frames f (m, s) = Some (Some (m', s'))"
  shows "shape m' = shape m"
proof -
  have "\<forall>m s m' s'. keeps_shape f \<and> ms = (m, s) \<and> r = Some (m', s') \<longrightarrow> shape m' = shape m"
    if "read_frames f ms = Some r" for f and ms :: "file_meta \<times> 's" and r
    using that
  proof (rule read_frames.raw_induct [where P = "\<lambda>f ms r. \<forall>m s m' s'. keeps_shape f \<and> ms = (m, s) \<and> r = Some (m', s') \<longrightarrow> shape m' = shape m", rotated])
    fix g f r and ms :: "file_meta \<times> 's"
    assume h: "\<And>f x y. g f x = Some y \<Longrightarrow> \<forall>m s m' s'. keeps_shape f \<and> x = (m, s) \<and> y = Some (m', s') \<longrightarrow> shape m' = shape m"
      and e: "(case f ms of None \<Rightarrow> Some None | Some (found, ms) \<Rightarrow> if found then g f ms else Some (Some ms)) = Some r"
    show "\<forall>m s m' s'. keeps_shape f \<and> ms = (m, s) \<and> r = Some (m', s') \<longrightarrow> shape m' = shape m"
    proof (intro allI impI)
      fix m s m' s' assume k: "keeps_shape f \<and> ms = (m, s) \<and> r = Some (m', s')"
      then obtain found m1 s1 where f: "f (m, s) = Some (found, m1, s1)" using e by (cases "f (m, s)") auto
      then have "shape m1 = shape m" using k unfolding keeps_shape_def by blast
      then show "shape m' = shape m" using e f k h [of f "(m1, s1)" r] by (cases found) auto
    qed
  qed
  then show ?thesis using assms by blast
qed

lemma ReadID3V2_shape:
  assumes "Mp3MetaDataReadID3V2 R sub (m, s) = Some (Some (m', s'))"
  shows "shape m' = shape m"
proof -
  have k: "keeps_shape (Id3V2_2ReadFrame R sync)" "keeps_shape (Id3V2_3and2_4ReadFrame R sub sync)" for sync
    by (auto simp: keeps_shape_def dest: frame_2_2_shape frame_2_3_shape)
  have b: "shape m2 = shape m1" if "tag_body R sub v fl (m1, s1) = Some (Some (m2, s2))" for v fl m1 s1 m2 s2
    using that read_frames_shape [OF k(1)] read_frames_shape [OF k(2)]
    by (auto simp: tag_body_def Let_def split: if_splits)
  have d: "shape (m\<lparr>dwStartPos := x, dwNumBytes := y\<rparr>) = shape m" for x y by (simp add: shape_def)
  show ?thesis
    using assms b d unfolding Mp3MetaDataReadID3V2_def Let_def
    by (auto simp: bind_eq_Some_conv split: if_splits prod.splits)
qed

lemma fits_shape:
  assumes "field_ok len b" and "field_ok len b'" and "b' = None \<longleftrightarrow> b = None" and "fits n b"
  shows "fits n b'"
  using assms by (cases b; cases b') (auto simp: fits_def field_ok_def text_ok_def)

lemma buffers_shape:
  assumes "buffers_ok m" and "meta_ok m'" and "shape m' = shape m"
  shows "buffers_ok m'"
proof -
  have e: "iTitleBufferLength m' = iTitleBufferLength m" "wTitle m' = None \<longleftrightarrow> wTitle m = None"
      "iArtistBufferLength m' = iArtistBufferLength m" "wArtist m' = None \<longleftrightarrow> wArtist m = None"
      "iAlbumBufferLength m' = iAlbumBufferLength m" "wAlbum m' = None \<longleftrightarrow> wAlbum m = None"
    using assms(3) by (simp_all add: shape_def)
  have f: "field_ok (iTitleBufferLength m') (wTitle m')" "field_ok (iArtistBufferLength m') (wArtist m')"
      "field_ok (iAlbumBufferLength m') (wAlbum m')"
    using assms(2) by (simp_all add: meta_ok_def)
  have g: "field_ok (iTitleBufferLength m) (wTitle m)" "field_ok (iArtistBufferLength m) (wArtist m)"
      "field_ok (iAlbumBufferLength m) (wAlbum m)"
      "fits TITLE_SIZE (wTitle m)" "fits ARTIST_SIZE (wArtist m)" "fits ALBUM_SIZE (wAlbum m)"
    using assms(1) by (simp_all add: buffers_ok_def meta_ok_def)
  show ?thesis
    unfolding buffers_ok_def
    using assms(2) fits_shape [OF g(1) f(1) [unfolded e(1)] e(2) g(4)] fits_shape [OF g(2) f(2) [unfolded e(3)] e(4) g(5)]
      fits_shape [OF g(3) f(3) [unfolded e(5)] e(6) g(6)] by simp
qed

lemma ReadID3V1_ok:
  assumes "song_laws (song R) data pos" and "buffers_ok m" and "pos s \<le> length data"
  shows "\<exists>m' s'. Mp3MetaDataReadID3V1 R (m, s) = Some (m', s') \<and> buffers_ok m' \<and> pos s' = pos s"
proof -
  let ?F = "song R"
  have home: "pos (snd (fseek ?F (ftell ?F s) SEEK_SET s')) = pos s" for s'
    using song_seek(1) [OF assms(1), of "int (pos s)" SEEK_SET s'] song_tell [OF assms(1), of s] assms(3) by (simp add: target_def)
  obtain found s1 where r1: "fseek ?F (- 128) SEEK_END s = (found, s1)" by (cases "fseek ?F (- 128) SEEK_END s")
  obtain w s2 where r2: "(if found then snd (FSFileRead ?F 3 0 s1) else (0, s1)) = (w, s2)"
    by (cases "if found then snd (FSFileRead ?F 3 0 s1) else (0, s1)")
  have ok: "meta_ok m" using assms(2) by (simp add: buffers_ok_def)
  show ?thesis
  proof (cases "w = 0x474154")
    case True
    obtain T1 s3 where t1: "read_temp R (junk R) s2 = (T1, s3)" by (cases "read_temp R (junk R) s2")
    obtain T2 s4 where t2: "read_temp R T1 s3 = (T2, s4)" by (cases "read_temp R T1 s3")
    obtain T3 s5 where t3: "read_temp R T2 s4 = (T3, s5)" by (cases "read_temp R T2 s4")
    obtain t where t: "v1_text R (wTitle m) (iTitleBufferLength m) T1 = Some t" "field_ok (iTitleBufferLength m) t" "t = None \<longleftrightarrow> wTitle m = None"
      using v1_text_ok [of "iTitleBufferLength m" "wTitle m"] ok unfolding meta_ok_def by blast
    obtain a where a: "v1_text R (wArtist m) (iArtistBufferLength m) T2 = Some a" "field_ok (iArtistBufferLength m) a" "a = None \<longleftrightarrow> wArtist m = None"
      using v1_text_ok [of "iArtistBufferLength m" "wArtist m"] ok unfolding meta_ok_def by blast
    obtain l where l: "v1_text R (wAlbum m) (iAlbumBufferLength m) T3 = Some l" "field_ok (iAlbumBufferLength m) l" "l = None \<longleftrightarrow> wAlbum m = None"
      using v1_text_ok [of "iAlbumBufferLength m" "wAlbum m"] ok unfolding meta_ok_def by blast
    obtain k g s6 where r6: "FSFileRead ?F 1 0 (snd (fseek ?F 34 SEEK_CUR s5)) = (k, g, s6)"
      by (cases "FSFileRead ?F 1 0 (snd (fseek ?F 34 SEEK_CUR s5))")
    let ?m = "m\<lparr>dwNumBytes := dwNumBytes m - 128, wTitle := t, wArtist := a, wAlbum := l, btGenre := g AND 0xff\<rparr>"
    have "Mp3MetaDataReadID3V1 R (m, s) = Some (?m, snd (fseek ?F (ftell ?F s) SEEK_SET s6))"
      using True t(1) a(1) l(1)
      by (simp add: Mp3MetaDataReadID3V1_def Let_def r1 r2 t1 t2 t3 r6 [unfolded One_nat_def])
    moreover have "buffers_ok ?m"
      by (rule buffers_shape [OF assms(2)]) (use t a l in \<open>simp_all add: meta_ok_def shape_def\<close>)
    ultimately show ?thesis using home by blast
  next
    case False
    then show ?thesis using assms(2) home by (simp add: Mp3MetaDataReadID3V1_def Let_def r1 r2)
  qed
qed

section \<open>The choice\<close>

abbreviation string_of :: "WORD list \<Rightarrow> WORD list" where
  "string_of \<equiv> takeWhile (\<lambda>w. w \<noteq> 0)"

lemma string_shorter: "0 \<in> set b \<Longrightarrow> length (string_of b) < length b"
proof -
  assume "0 \<in> set b"
  then have "string_of b \<noteq> b" by (metis (mono_tags, lifting) set_takeWhileD)
  then show ?thesis by (metis length_takeWhile_le nat_less_le takeWhile_eq_take take_all_iff le_refl)
qed

lemma strcpy_ok:
  assumes "0 \<in> set src" and "length (string_of src) < length dst"
  shows "\<exists>b. strcpy dst src = Some b \<and> length b = length dst \<and> 0 \<in> set b \<and> string_of b = string_of src"
proof -
  have t: "string_of (string_of src @ 0 # vs) = string_of src" for vs
    by (subst takeWhile_append2) (auto dest: set_takeWhileD)
  have "strcpy dst src = Some (string_of src @ 0 # drop (Suc (length (string_of src))) dst)"
    using assms string_shorter [OF assms(1)] by (simp add: strcpy_def Let_def)
  then show ?thesis using t assms(2) by simp
qed

lemma save_ok:
  assumes "field_ok len b" and "fits n b"
  shows "\<exists>k. save n b = Some k \<and> 0 \<in> set k \<and> length (string_of k) < unat len"
proof -
  obtain t where t: "b = Some t" "length t \<le> n" "0 \<in> set t" "length t = unat len"
    using assms by (auto simp: fits_def field_ok_def text_ok_def)
  have "length (string_of t) < length (replicate n (0 :: WORD))" using string_shorter [OF t(3)] t(2) by simp
  from strcpy_ok [OF t(3) this] show ?thesis using t string_shorter [OF t(3)] by (auto simp: save_def)
qed

lemma fall_back_ok:
  assumes "field_ok len b" and "b \<noteq> None" and "0 \<in> set k" and "length (string_of k) < unat len"
  shows "\<exists>b'. fall_back k b = Some b' \<and> field_ok len b' \<and> b' \<noteq> None"
proof -
  obtain t where t: "b = Some t" "text_ok len t" using assms(1,2) by (auto simp: field_ok_def)
  then have "length (string_of k) < length t" using assms(4) by (simp add: text_ok_def)
  from strcpy_ok [OF assms(3) this] t show ?thesis
    by (cases "looks_empty t") (auto simp: fall_back_def field_ok_def text_ok_def)
qed

lemma clear_text_ok:
  assumes "field_ok len b" and "b \<noteq> None"
  shows "\<exists>b'. clear b = Some b' \<and> field_ok len b' \<and> b' \<noteq> None"
proof -
  obtain t where t: "b = Some t" "text_ok len t" using assms by (auto simp: field_ok_def)
  then show ?thesis using put_zero [of 0 t] by (auto simp: clear_def field_ok_def text_ok_def)
qed

text \<open>
  C28. Whatever bytes a file holds and whichever tag is selected, reading both of its tags from any position ends,
  writes no text outside its buffer or outside the array that keeps it, and leaves a terminated string in each buffer.
\<close>
theorem CheckID3Headers_safe:
  assumes "song_laws (song R) data pos" and "buffers_ok m" and "pos s \<le> length data"
  shows "\<exists>m' s'. CheckID3Headers R sub tag (m, s) = Some (Some (m', s')) \<and> buffers_ok m' \<and> pos s' \<le> length data"
proof -
  obtain m1 s1 where v1: "Mp3MetaDataReadID3V1 R (m, s) = Some (m1, s1)" and b1: "buffers_ok m1" and p1: "pos s1 \<le> length data"
    using ReadID3V1_ok [OF assms] assms(3) by auto
  have f: "field_ok (iTitleBufferLength m1) (wTitle m1)" "field_ok (iArtistBufferLength m1) (wArtist m1)"
      "field_ok (iAlbumBufferLength m1) (wAlbum m1)" "fits TITLE_SIZE (wTitle m1)" "fits ARTIST_SIZE (wArtist m1)" "fits ALBUM_SIZE (wAlbum m1)"
    using b1 by (simp_all add: buffers_ok_def meta_ok_def)
  have n: "wTitle m1 \<noteq> None" "wArtist m1 \<noteq> None" "wAlbum m1 \<noteq> None" using f(4-6) by (auto simp: fits_def)
  have v2: "\<exists>m3 s3. Mp3MetaDataReadID3V2 R sub (m2, s1) = Some (Some (m3, s3)) \<and> buffers_ok m3 \<and> shape m3 = shape m2 \<and> pos s3 \<le> length data"
    if b2: "buffers_ok m2" for m2
  proof -
    have "meta_ok m2" using b2 by (simp add: buffers_ok_def)
    from ReadID3V2_safe [OF assms(1) this p1, of sub] obtain m3 s3 where
      r: "Mp3MetaDataReadID3V2 R sub (m2, s1) = Some (Some (m3, s3))" "meta_ok m3" "pos s3 \<le> length data" by blast
    then show ?thesis using ReadID3V2_shape [OF r(1)] buffers_shape [OF b2 r(2)] by blast
  qed
  show ?thesis
  proof (cases tag)
    case ID3V1_TAG_SELECTED
    then show ?thesis using v1 b1 p1 by (simp add: CheckID3Headers_def)
  next
    case ID3V2_TAG_SELECTED
    obtain t a l where c: "clear (wTitle m1) = Some t" "field_ok (iTitleBufferLength m1) t" "t \<noteq> None"
        "clear (wArtist m1) = Some a" "field_ok (iArtistBufferLength m1) a" "a \<noteq> None"
        "clear (wAlbum m1) = Some l" "field_ok (iAlbumBufferLength m1) l" "l \<noteq> None"
      using clear_text_ok [OF f(1) n(1)] clear_text_ok [OF f(2) n(2)] clear_text_ok [OF f(3) n(3)] by blast
    have "buffers_ok (m1\<lparr>wTitle := t, wArtist := a, wAlbum := l\<rparr>)"
      by (rule buffers_shape [OF b1]) (use c n in \<open>auto simp: meta_ok_def shape_def\<close>)
    from v2 [OF this] show ?thesis using ID3V2_TAG_SELECTED v1 c by (auto simp: CheckID3Headers_def)
  next
    case NO_TAG_SELECTED
    obtain kt ka kl where k: "save TITLE_SIZE (wTitle m1) = Some kt" "0 \<in> set kt" "length (string_of kt) < unat (iTitleBufferLength m1)"
        "save ARTIST_SIZE (wArtist m1) = Some ka" "0 \<in> set ka" "length (string_of ka) < unat (iArtistBufferLength m1)"
        "save ALBUM_SIZE (wAlbum m1) = Some kl" "0 \<in> set kl" "length (string_of kl) < unat (iAlbumBufferLength m1)"
      using save_ok [OF f(1,4)] save_ok [OF f(2,5)] save_ok [OF f(3,6)] by blast
    obtain m3 s3 where r: "Mp3MetaDataReadID3V2 R sub (m1, s1) = Some (Some (m3, s3))" "buffers_ok m3" "shape m3 = shape m1" "pos s3 \<le> length data"
      using v2 [OF b1] by blast
    have g: "field_ok (iTitleBufferLength m1) (wTitle m3)" "field_ok (iArtistBufferLength m1) (wArtist m3)"
        "field_ok (iAlbumBufferLength m1) (wAlbum m3)" "wTitle m3 \<noteq> None" "wArtist m3 \<noteq> None" "wAlbum m3 \<noteq> None"
      using r(2,3) n by (simp_all add: buffers_ok_def meta_ok_def shape_def)
    obtain t a l where c: "fall_back kt (wTitle m3) = Some t" "field_ok (iTitleBufferLength m1) t" "t \<noteq> None"
        "fall_back ka (wArtist m3) = Some a" "field_ok (iArtistBufferLength m1) a" "a \<noteq> None"
        "fall_back kl (wAlbum m3) = Some l" "field_ok (iAlbumBufferLength m1) l" "l \<noteq> None"
      using fall_back_ok [OF g(1,4) k(2,3)] fall_back_ok [OF g(2,5) k(5,6)] fall_back_ok [OF g(3,6) k(8,9)] by blast
    have "buffers_ok (m3\<lparr>wTitle := t, wArtist := a, wAlbum := l\<rparr>)"
      by (rule buffers_shape [OF r(2)]) (use c g r(3) n in \<open>auto simp: meta_ok_def shape_def\<close>)
    then show ?thesis using NO_TAG_SELECTED v1 k r c by (simp add: CheckID3Headers_def)
  qed
qed

lemma CheckID3Headers_safe_witness:
  "\<exists>m' s'. CheckID3Headers (memory_reader a_song) 0 NO_TAG_SELECTED (a_meta, 1) = Some (Some (m', s')) \<and> buffers_ok m' \<and> id s' \<le> length a_song"
proof -
  have "buffers_ok a_meta"
    using a_meta_ok by (simp add: buffers_ok_def fits_def a_meta_def TITLE_SIZE_def ARTIST_SIZE_def ALBUM_SIZE_def)
  from CheckID3Headers_safe [OF memory_laws(2) this a_song_at(1)] show ?thesis by simp
qed

end
