(* ===== verification/Usb.thy ===== *)
theory Usb imports Prelude begin

text \<open>
  The USB device driver below the requests: the transfer descriptors and their queues, the services, the
  status words (\<^verbatim>\<open>DeviceDriver/Media/usb/usb_api.c\<close>) and the handling of the controller's events
  (\<^verbatim>\<open>USB20/DevCtrlInt/usb20dd.c\<close>).

  The state holds the driver's variables, the registers of the controller that it reads and writes, and the
  transfer descriptors of the endpoints as \<^verbatim>\<open>FdTDPack\<close> stores them. The controller changes registers and
  descriptors between the events; \<open>None\<close> is a halt at an \<^verbatim>\<open>assert\<close> or an access outside an array.
  The dQH words, the clocks and the PHY are not part of the state.
\<close>

section \<open>usb\_api.h, usb\_internal.h\<close>

datatype usb_dir = USB_OUT | USB_IN

datatype xd_status = TRANSFER_IDLE | TRANSFER_SUCCESS | TRANSFER_ACCEPTED | TRANSFER_IN_PROGRESS | TRANSFER_ERROR

record xd_struct =
  btEndpointNum :: nat
  btDirection :: usb_dir
  btStatus :: xd_status
  pbtStartAddressWord :: WORD
  btStartOffsetByte :: WORD
  usTotalLength :: WORD
  bIsDataPhase :: bool
  pNext :: "nat option"
  wPrivateData :: WORD
  usBytesCopied :: WORD
  wCurrentOffsetByte :: WORD
  pbtCurrentAddressWord :: WORD

record dTD_struct =
  usTotalBytes :: WORD
  usCurrentOffset :: WORD
  pbtBufPage0 :: WORD
  pbtBufPage1 :: WORD
  usStatusIoc :: WORD

record setup_data =
  bValid :: bool
  RequestType :: WORD
  btRequest :: WORD
  wValue :: WORD
  wIndex :: WORD
  wLength :: WORD

text \<open>A service is registered with the number of its function; what the call passes is a record.\<close>

record usb_call =
  bSetup :: bool
  cDirection :: usb_dir
  cBuffer :: WORD
  cLength :: WORD
  cPrivate :: WORD

record usb =
  btSpeed :: WORD
  btCurConfig :: WORD
  btCurInterface :: WORD
  btAddress :: WORD
  usUsbState :: WORD
  usUsbStatePriorSusp :: WORD
  usUsbDeviceState :: WORD
  usSofCount :: WORD
  btBusResetting :: bool
  bEnterTestMode :: WORD
  usConnectionState :: WORD
  Services :: "(WORD \<times> nat) list"
  s_btHoldOffEP0 :: bool
  s_btStatusPhase :: bool
  s_bUsbFirstInit :: bool
  g_XdPool :: "xd_struct list"
  g_dXD_Queues :: "nat \<times> usb_dir \<Rightarrow> nat option"
  g_SetupData :: "nat \<Rightarrow> setup_data"
  dTDs :: "nat \<times> usb_dir \<Rightarrow> dTD_struct"
  endptctrl :: "nat \<Rightarrow> DWORD"
  endptprime :: "nat \<times> usb_dir \<Rightarrow> bool"
  endptstatus :: "nat \<times> usb_dir \<Rightarrow> bool"
  endptsetupstat :: "nat \<Rightarrow> bool"
  setup_bytes :: "nat \<Rightarrow> BYTE list"
  devaddr :: DWORD
  portsc1 :: DWORD
  test_mode :: "WORD option"
  vbussense :: bool
  pluggedin :: bool
  usDataToSend :: WORD
  app_status :: WORD
  usTestModeIndex :: WORD
  btNewAddress :: WORD
  g_bUsbConfigured :: bool
  Descriptor :: "WORD list"

text \<open>Where the linker puts what the driver sends from.\<close>

record layout =
  dQH_Base_Add :: WORD
  usDataToSend_at :: WORD
  Descriptor_at :: WORD
  TestPacket_at :: WORD
  btStatus_at :: WORD

definition "MAX_NUM_EP = (4::nat)"
definition "MAX_NUMBER_SERVICES = (10::nat)"
definition "MAX_USB_TRANSFERS_QUEUED = (48::nat)"
definition "USB_MAX_SIZE_PER_TRANSFER = (0x4000::WORD)"

definition "USB_OK = (0::WORD)"
definition "USBERR_REGISTER_SERVICE = (1::WORD)"
definition "USBERR_NO_SERVICE = (2::WORD)"
definition "USBERR_SIZE_TOO_LARGE = (4::WORD)"
definition "USBERR_EP_INIT_FAILED = (5::WORD)"
definition "USBERR_DEVICE_NOT_CONFIGURED = (7::WORD)"

definition "USB_SPEED_FULL = (0::WORD)"
definition "USB_SPEED_HIGH = (2::WORD)"

definition "USB_STATE_UNKNOWN = (0xff::WORD)"
definition "USB_STATE_POWERED = (3::WORD)"
definition "USB_STATE_DEFAULT = (2::WORD)"
definition "USB_STATE_ADDRESSED = (1::WORD)"
definition "USB_STATE_CONFIGURED = (0::WORD)"
definition "USB_STATE_SUSPENDED = (0x80::WORD)"

lemmas usb_states = USB_STATE_UNKNOWN_def USB_STATE_POWERED_def USB_STATE_DEFAULT_def USB_STATE_ADDRESSED_def
  USB_STATE_CONFIGURED_def USB_STATE_SUSPENDED_def

definition "USB_SERVICE_EP0 = (0::WORD)"
definition "USB_SERVICE_BUS_RESET = (0x10::WORD)"
definition "USB_SERVICE_SUSPEND = (0x11::WORD)"
definition "USB_SERVICE_SPEED_DETECTION = (0x15::WORD)"
definition "USB_SERVICE_TEST = (0x16::WORD)"
definition "USB_SERVICE_CHANGE_CONFIG = (0x17::WORD)"
definition "USB_SERVICE_CHANGE_IFACE = (0x18::WORD)"

definition "USB_STATUS_DEVICE_STATE = (1::WORD)"
definition "USB_STATUS_INTERFACE = (2::WORD)"
definition "USB_STATUS_ADDRESS = (3::WORD)"
definition "USB_STATUS_CURRENT_CONFIG = (4::WORD)"
definition "USB_STATUS_SOF_COUNT = (5::WORD)"
definition "USB_STATUS = (6::WORD)"
definition "USB_STATUS_TEST_MODE = (7::WORD)"
definition "USB_STATUS_DEVICE_SPEED = (8::WORD)"
definition "USB_STATUS_DEVICE_TEST = (9::WORD)"
definition "USB_STATUS_CURRENT_IFACE = (0x0a::WORD)"
definition "USB_STATUS_CONNECTION = (0x0b::WORD)"
definition "USB_STATUS_ENDPOINT = (0x10::WORD)"
definition "USB_STATUS_ENDPOINT_NUMBER_MASK = (0x0f::WORD)"

lemmas usb_status_types = USB_STATUS_DEVICE_STATE_def USB_STATUS_INTERFACE_def USB_STATUS_ADDRESS_def
  USB_STATUS_CURRENT_CONFIG_def USB_STATUS_SOF_COUNT_def USB_STATUS_def USB_STATUS_TEST_MODE_def
  USB_STATUS_DEVICE_SPEED_def USB_STATUS_DEVICE_TEST_def USB_STATUS_CURRENT_IFACE_def USB_STATUS_CONNECTION_def
  USB_STATUS_ENDPOINT_def USB_STATUS_ENDPOINT_NUMBER_MASK_def

definition "USB_CONNECTED = (0::WORD)"
definition "USB_DISCONNECTED = (1::WORD)"

definition "ENDPTCTRL_RXS = (push_bit 0 1 :: WORD)"
definition "ENDPTCTRL_RXR = (push_bit 6 1 :: WORD)"
definition "ENDPTCTRL_RXE = (push_bit 7 1 :: WORD)"
definition "ENDPTCTRL_TXS = (push_bit 16 1 :: WORD)"
definition "ENDPTCTRL_TXR = (push_bit 22 1 :: WORD)"
definition "ENDPTCTRL_TXE = (push_bit 23 1 :: WORD)"

definition "PORTSC1_SUSP = (0x80::DWORD)"
definition "PORTSC1_PR = (0x100::DWORD)"
definition "PORTSC1_HSP = (0x200::DWORD)"

definition "USB_EP_dTD_ACTIVE = (0x80::WORD)"
definition "USB_EP_dTD_NO_ERROR = (0xe8::WORD)"
definition "USB_EP_dTD_IOC = (0x8000::WORD)"

section \<open>usb20dd.c: the endpoints\<close>

definition usb_dci_get_endpoint_status :: "nat \<Rightarrow> usb \<Rightarrow> WORD" where
  "usb_dci_get_endpoint_status btEndpoint s =
     (if endptctrl s btEndpoint AND (ucast ENDPTCTRL_TXS OR ucast ENDPTCTRL_RXS) \<noteq> 0 then 1 else 0)"

definition usb_dci_stall_endpoint :: "nat \<Rightarrow> usb_dir \<Rightarrow> usb \<Rightarrow> usb" where
  "usb_dci_stall_endpoint btEndpoint d s =
     (let dwRegister = endptctrl s btEndpoint;
          dwRegister = dwRegister OR (if d = USB_IN then ucast ENDPTCTRL_TXS else ucast ENDPTCTRL_RXS);
          dwRegister = dwRegister OR (if d = USB_IN then ucast ENDPTCTRL_TXR else ucast ENDPTCTRL_RXR)
      in s\<lparr>endptctrl := (endptctrl s)(btEndpoint := dwRegister)\<rparr>)"

definition usb_dci_unstall_endpoint :: "nat \<Rightarrow> usb_dir \<Rightarrow> usb \<Rightarrow> usb" where
  "usb_dci_unstall_endpoint btEndpoint d s =
     (let dwRegister = endptctrl s btEndpoint;
          dwRegister = dwRegister AND (if d = USB_IN then ucast (NOT ENDPTCTRL_TXS) else ucast (NOT ENDPTCTRL_RXS));
          dwRegister = dwRegister AND (if d = USB_IN then ucast (NOT ENDPTCTRL_TXR) else ucast (NOT ENDPTCTRL_RXR))
      in s\<lparr>endptctrl := (endptctrl s)(btEndpoint := dwRegister)\<rparr>)"

definition usb_dci_set_endpoint_status :: "nat \<Rightarrow> WORD \<Rightarrow> usb \<Rightarrow> usb" where
  "usb_dci_set_endpoint_status btEndpoint usStatus s =
     (if usStatus = 1 then usb_dci_stall_endpoint btEndpoint USB_IN (usb_dci_stall_endpoint btEndpoint USB_OUT s)
      else usb_dci_unstall_endpoint btEndpoint USB_IN (usb_dci_unstall_endpoint btEndpoint USB_OUT s))"

definition usb_dci_set_address :: "WORD \<Rightarrow> usb \<Rightarrow> usb" where
  "usb_dci_set_address a s = s\<lparr>devaddr := push_bit 25 (ucast a)\<rparr>"

definition usb_dci_init_data_toggle_endpoint :: "nat \<Rightarrow> usb \<Rightarrow> usb" where
  "usb_dci_init_data_toggle_endpoint btEndpoint s =
     s\<lparr>endptctrl := (endptctrl s)(btEndpoint := endptctrl s btEndpoint OR ucast ENDPTCTRL_TXR OR ucast ENDPTCTRL_RXR)\<rparr>"

definition usb_dci_update_connection_status :: "usb \<Rightarrow> usb" where
  "usb_dci_update_connection_status s =
     s\<lparr>usConnectionState := (if \<not> vbussense s then USB_DISCONNECTED else if pluggedin s then USB_CONNECTED else USB_DISCONNECTED)\<rparr>"

text \<open>Initialising an endpoint fails while it is primed.\<close>

definition usb_dci_init_endpoint :: "nat \<Rightarrow> usb_dir \<Rightarrow> WORD \<Rightarrow> usb \<Rightarrow> WORD \<times> usb" where
  "usb_dci_init_endpoint ep d btEndpointType s =
     (if \<not> endptprime s (ep, d) \<and> \<not> endptstatus s (ep, d)
      then let r = endptctrl s ep;
               r = (if d = USB_IN then r OR ucast ENDPTCTRL_TXE OR ucast ENDPTCTRL_TXR OR push_bit 18 (ucast btEndpointType)
                    else r OR ucast ENDPTCTRL_RXE OR ucast ENDPTCTRL_RXR OR push_bit 2 (ucast btEndpointType))
           in (USB_OK, s\<lparr>endptctrl := (endptctrl s)(ep := r)\<rparr>)
      else (USBERR_EP_INIT_FAILED, s))"

text \<open>The 8 bytes of a setup packet, and the read that ends the lockout.\<close>

definition usb_dci_get_setup_data :: "nat \<Rightarrow> usb \<Rightarrow> usb" where
  "usb_dci_get_setup_data ep s =
     (if bValid (g_SetupData s ep) then s
      else
        let b = (\<lambda>i. ucast (setup_bytes s ep ! i) :: WORD)
        in s\<lparr>g_SetupData := (g_SetupData s)(ep :=
               \<lparr>bValid = True, RequestType = b 0, btRequest = b 1, wValue = b 2 + push_bit 8 (b 3),
                wIndex = b 4 + push_bit 8 (b 5), wLength = b 6 + push_bit 8 (b 7)\<rparr>),
             endptsetupstat := (endptsetupstat s)(ep := False)\<rparr>)"

definition usb_dci_finish_transaction :: "nat \<Rightarrow> usb \<Rightarrow> usb" where
  "usb_dci_finish_transaction ep s = s\<lparr>g_SetupData := (g_SetupData s)(ep := (g_SetupData s ep)\<lparr>bValid := False\<rparr>)\<rparr>"

section \<open>usb\_api.c: the pool of transfer descriptors\<close>

definition GetEmptyXd :: "usb \<Rightarrow> (nat \<times> usb) option" where
  "GetEmptyXd s =
     (case find (\<lambda>i. btStatus (g_XdPool s ! i) = TRANSFER_IDLE) [0..<length (g_XdPool s)] of
        None \<Rightarrow> None
      | Some i \<Rightarrow> Some (i, s\<lparr>g_XdPool := (g_XdPool s)[i := (g_XdPool s ! i)\<lparr>pNext := None\<rparr>]\<rparr>))"

definition FreeXd :: "nat \<Rightarrow> usb \<Rightarrow> usb" where
  "FreeXd i s = s\<lparr>g_XdPool := (g_XdPool s)[i := (g_XdPool s ! i)\<lparr>btStatus := TRANSFER_IDLE, pNext := None\<rparr>]\<rparr>"

text \<open>
  The walk to the end of a queue. A queue that ends has at most as many descriptors as the pool; with that
  much fuel \<open>None\<close> is a walk that goes round a circle.
\<close>

fun last_xd :: "nat \<Rightarrow> xd_struct list \<Rightarrow> nat \<Rightarrow> nat option" where
  "last_xd 0 pool pHead = None"
| "last_xd (Suc n) pool pHead = (case pNext (pool ! pHead) of None \<Rightarrow> Some pHead | Some p \<Rightarrow> last_xd n pool p)"

definition AddXdToQueue :: "nat \<Rightarrow> nat \<Rightarrow> usb \<Rightarrow> usb option" where
  "AddXdToQueue pHead pElement s = do {
     p \<leftarrow> last_xd (length (g_XdPool s)) (g_XdPool s) pHead;
     Some (s\<lparr>g_XdPool := (g_XdPool s)[p := (g_XdPool s ! p)\<lparr>pNext := Some pElement\<rparr>]\<rparr>) }"

text \<open>Each descriptor is freed before the next one, so the walk ends on any pool.\<close>

fun free_all :: "nat \<Rightarrow> nat option \<Rightarrow> usb \<Rightarrow> usb" where
  "free_all 0 p s = s"
| "free_all (Suc n) p s = (case p of None \<Rightarrow> s | Some i \<Rightarrow> free_all n (pNext (g_XdPool s ! i)) (FreeXd i s))"

definition usb_dci_clear_dxd_queue :: "nat \<times> usb_dir \<Rightarrow> usb \<Rightarrow> usb" where
  "usb_dci_clear_dxd_queue q s =
     (let s = free_all (Suc (length (g_XdPool s))) (g_dXD_Queues s q) s
      in s\<lparr>g_dXD_Queues := (g_dXD_Queues s)(q := None)\<rparr>)"

section \<open>usb20dd.c, usb\_api.c: transfers\<close>

definition arc_address :: "layout \<Rightarrow> xd_struct \<Rightarrow> WORD" where
  "arc_address L x = (pbtStartAddressWord x - dQH_Base_Add L) * 3 + btStartOffsetByte x"

definition usb_dci_transfer_data :: "layout \<Rightarrow> nat \<Rightarrow> usb \<Rightarrow> WORD \<times> usb" where
  "usb_dci_transfer_data L i s =
     (let x = g_XdPool s ! i;
          q = (btEndpointNum x, btDirection x);
          s = s\<lparr>g_dXD_Queues := (g_dXD_Queues s)(q := Some i)\<rparr>;
          (usArcPage, usArcByteOffset) =
            (if usTotalLength x = 0 then (0, 0)
             else (drop_bit 12 (arc_address L x), arc_address L x AND 0xFFF));
          s = s\<lparr>dTDs := (dTDs s)(q :=
                \<lparr>usTotalBytes = usTotalLength x, usCurrentOffset = usArcByteOffset, pbtBufPage0 = usArcPage,
                 pbtBufPage1 = usArcPage + 1, usStatusIoc = USB_EP_dTD_IOC OR USB_EP_dTD_ACTIVE\<rparr>),
              endptprime := (endptprime s)(q := True)\<rparr>;
          s = (if bIsDataPhase x \<and> endptsetupstat s (btEndpointNum x)
               then s\<lparr>g_XdPool := (g_XdPool s)[i := x\<lparr>btStatus := TRANSFER_IDLE\<rparr>]\<rparr> else s)
      in (USB_OK, s))"

definition usb_device_transfer_data ::
    "layout \<Rightarrow> nat \<Rightarrow> WORD \<Rightarrow> WORD \<Rightarrow> WORD \<Rightarrow> WORD \<Rightarrow> bool \<Rightarrow> usb_dir \<Rightarrow> usb \<Rightarrow> (WORD \<times> usb) option" where
  "usb_device_transfer_data L btEndpoint pbtStmpWordAdd btByteOffset usSize wPriv phase wDirection s =
     (if usSize > USB_MAX_SIZE_PER_TRANSFER then Some (USBERR_SIZE_TOO_LARGE, s)
      else if wDirection = USB_IN \<and> btEndpoint \<noteq> 0 \<and> usUsbState s \<noteq> USB_STATE_CONFIGURED
      then Some (USBERR_DEVICE_NOT_CONFIGURED, s)
      else if MAX_NUM_EP \<le> btEndpoint then None
      else do {
        (pNewXd, s) \<leftarrow> GetEmptyXd s;
        let s = s\<lparr>g_XdPool := (g_XdPool s)[pNewXd := (g_XdPool s ! pNewXd)
              \<lparr>btEndpointNum := btEndpoint, btDirection := wDirection, btStatus := TRANSFER_IN_PROGRESS,
               pbtStartAddressWord := pbtStmpWordAdd, btStartOffsetByte := btByteOffset, usTotalLength := usSize,
               usBytesCopied := 0, bIsDataPhase := phase, wPrivateData := wPriv,
               pbtCurrentAddressWord := pbtStmpWordAdd, wCurrentOffsetByte := btByteOffset\<rparr>]\<rparr>;
        (case g_dXD_Queues s (btEndpoint, wDirection) of
           Some pCurrentXd \<Rightarrow> do { s \<leftarrow> AddXdToQueue pCurrentXd pNewXd s; Some (USB_OK, s) }
         | None \<Rightarrow>
             (let (btError, s) = usb_dci_transfer_data L pNewXd s
              in Some (btError, if btError \<noteq> USB_OK then FreeXd pNewXd s else s))) })"

definition usb_device_send_data :: "layout \<Rightarrow> nat \<Rightarrow> WORD \<Rightarrow> WORD \<Rightarrow> WORD \<Rightarrow> WORD \<Rightarrow> bool \<Rightarrow> usb \<Rightarrow> (WORD \<times> usb) option" where
  "usb_device_send_data L ep a off sz priv phase s = usb_device_transfer_data L ep a off sz priv phase USB_IN s"

definition usb_device_recv_data :: "layout \<Rightarrow> nat \<Rightarrow> WORD \<Rightarrow> WORD \<Rightarrow> WORD \<Rightarrow> WORD \<Rightarrow> bool \<Rightarrow> usb \<Rightarrow> (WORD \<times> usb) option" where
  "usb_device_recv_data L ep a off sz priv phase s = usb_device_transfer_data L ep a off sz priv phase USB_OUT s"

section \<open>usb\_api.c: services, holding, status\<close>

definition usb_device_register_service :: "WORD \<Rightarrow> nat \<Rightarrow> usb \<Rightarrow> WORD \<times> usb" where
  "usb_device_register_service btType Service s =
     (case find (\<lambda>i. fst (Services s ! i) = btType) [0..<length (Services s)] of
        None \<Rightarrow>
          if length (Services s) \<ge> MAX_NUMBER_SERVICES - 1 then (USBERR_REGISTER_SERVICE, s)
          else (USB_OK, s\<lparr>Services := Services s @ [(btType, Service)]\<rparr>)
      | Some i \<Rightarrow> (USB_OK, s\<lparr>Services := (Services s)[i := (btType, Service)]\<rparr>))"

definition usb_device_call_service ::
    "(nat \<Rightarrow> usb_call \<Rightarrow> usb \<Rightarrow> usb option) \<Rightarrow> WORD \<Rightarrow> usb_call \<Rightarrow> usb \<Rightarrow> (WORD \<times> usb) option" where
  "usb_device_call_service run btType c s =
     (case find (\<lambda>v. fst v = btType) (Services s) of
        None \<Rightarrow> Some (USBERR_NO_SERVICE, s)
      | Some v \<Rightarrow> do { s \<leftarrow> run (snd v) c s; Some (USB_OK, s) })"

definition no_data :: usb_call where
  "no_data = \<lparr>bSetup = False, cDirection = USB_OUT, cBuffer = 0, cLength = 0, cPrivate = 0\<rparr>"

definition usb_device_is_hold :: "usb \<Rightarrow> bool" where
  "usb_device_is_hold s = s_btHoldOffEP0 s"

definition usb_device_data_phase_required :: "usb \<Rightarrow> usb" where
  "usb_device_data_phase_required s = s\<lparr>s_btStatusPhase := True\<rparr>"

definition usb_device_hold :: "usb \<Rightarrow> usb" where
  "usb_device_hold s = (if \<not> usb_device_is_hold s then s\<lparr>s_btHoldOffEP0 := True, s_btStatusPhase := False\<rparr> else s)"

definition usb_device_release :: "layout \<Rightarrow> usb \<Rightarrow> usb option" where
  "usb_device_release L s =
     (let s = s\<lparr>s_btHoldOffEP0 := False\<rparr>
      in if s_btStatusPhase s
         then do { (_, s) \<leftarrow> usb_device_recv_data L 0 0 0 0 0 False s; Some (s\<lparr>s_btStatusPhase := False\<rparr>) }
         else Some s)"

text \<open>Reading a status gives the word and the state, since the connection is looked at; \<open>w\<close> is what the caller's variable held.\<close>

definition usb_device_get_status :: "WORD \<Rightarrow> WORD \<Rightarrow> usb \<Rightarrow> WORD \<times> usb" where
  "usb_device_get_status btType w s =
     (if btType = USB_STATUS_DEVICE_STATE then (usUsbDeviceState s, s)
      else if btType = USB_STATUS_DEVICE_SPEED then (btSpeed s, s)
      else if btType = USB_STATUS_DEVICE_TEST then (bEnterTestMode s, s)
      else if btType = USB_STATUS then (usUsbState s, s)
      else if btType = USB_STATUS_INTERFACE then (w, s)
      else if btType = USB_STATUS_ADDRESS then (btAddress s, s)
      else if btType = USB_STATUS_CURRENT_CONFIG then (btCurConfig s, s)
      else if btType = USB_STATUS_CURRENT_IFACE then (btCurInterface s, s)
      else if btType = USB_STATUS_SOF_COUNT then (usSofCount s, s)
      else if btType = USB_STATUS_CONNECTION
      then let s = usb_dci_update_connection_status s in (usConnectionState s, s)
      else if btType AND USB_STATUS_ENDPOINT \<noteq> 0
      then (usb_dci_get_endpoint_status (unat (btType AND USB_STATUS_ENDPOINT_NUMBER_MASK)) s, s)
      else (w, s))"

text \<open>The part of \<^verbatim>\<open>usb_dci_set_test_mode\<close> that sends: the rest writes clocks, PHY and port.\<close>

definition usb_dci_set_test_mode :: "layout \<Rightarrow> WORD \<Rightarrow> usb \<Rightarrow> usb option" where
  "usb_dci_set_test_mode L usTest s =
     (let s = s\<lparr>endptctrl := (endptctrl s)(0 := endptctrl s 0 OR ucast ENDPTCTRL_TXR), test_mode := Some usTest\<rparr>
      in if usTest = 4 then do { (_, s) \<leftarrow> usb_device_send_data L 0 (TestPacket_at L) 0 53 0 False s; Some s } else Some s)"

definition usb_device_set_status :: "layout \<Rightarrow> WORD \<Rightarrow> WORD \<Rightarrow> usb \<Rightarrow> usb option" where
  "usb_device_set_status L btType usStatus s =
     (if btType = USB_STATUS_DEVICE_STATE then Some (s\<lparr>usUsbDeviceState := usStatus\<rparr>)
      else if btType = USB_STATUS_DEVICE_TEST then Some (s\<lparr>bEnterTestMode := usStatus\<rparr>)
      else if btType = USB_STATUS then Some (s\<lparr>usUsbState := usStatus\<rparr>)
      else if btType = USB_STATUS_INTERFACE then Some s
      else if btType = USB_STATUS_ADDRESS then Some (usb_dci_set_address usStatus (s\<lparr>btAddress := usStatus\<rparr>))
      else if btType = USB_STATUS_CURRENT_CONFIG then Some (s\<lparr>btCurConfig := usStatus\<rparr>)
      else if btType = USB_STATUS_CURRENT_IFACE then Some (s\<lparr>btCurInterface := usStatus\<rparr>)
      else if btType = USB_STATUS_SOF_COUNT then Some (s\<lparr>usSofCount := usStatus\<rparr>)
      else if btType = USB_STATUS_TEST_MODE then usb_dci_set_test_mode L usStatus s
      else if btType AND USB_STATUS_ENDPOINT \<noteq> 0
      then Some (usb_dci_set_endpoint_status (unat (btType AND USB_STATUS_ENDPOINT_NUMBER_MASK)) usStatus s)
      else Some s)"

end
