(* ===== verification/UsbCh9.thy ===== *)
theory UsbCh9 imports Usb begin

text \<open>
  The standard requests on endpoint 0, \<^verbatim>\<open>USB20/Ch9/usb20ch9.c\<close>, and the events that lead to them,
  \<^verbatim>\<open>usb20dd.c\<close>, in the build without \<^verbatim>\<open>USBTEST_FOR_USBCV_1_3\<close>.

  A handler takes \<open>True\<close> with the setup packet and \<open>False\<close> when a transfer of endpoint 0 is complete.
  The services that are not those of this file are the function \<open>run\<close>; the descriptors are the function
  \<open>GetDescriptor\<close>, which gives a pointer, \<open>None\<close> for null, and fills the buffer.
\<close>

section \<open>usb20ch9.c\<close>

definition "USB_REMOTE_WAKEUP = (2::WORD)"

definition "RECIPIENT_DEVICE = (0::WORD)"
definition "RECIPIENT_INTERFACE = (1::WORD)"
definition "RECIPIENT_ENDPOINT = (2::WORD)"

definition "DESCRIPTOR_TYPE_DEVICE = (1::WORD)"
definition "DESCRIPTOR_TYPE_CONFIG = (2::WORD)"
definition "DESCRIPTOR_TYPE_STRING = (3::WORD)"
definition "DESCRIPTOR_TYPE_DEVICE_QUALIFIER = (6::WORD)"
definition "DESCRIPTOR_TYPE_OTHER_SPEED_CONFIG = (7::WORD)"

definition Recipient :: "setup_data \<Rightarrow> WORD" where
  "Recipient p = RequestType p AND 0x1f"

definition req_type :: "setup_data \<Rightarrow> WORD" where
  "req_type p = drop_bit 5 (RequestType p) AND 3"

text \<open>
  What a handler sends and receives, with the result of the transfer ignored. The calls pass the flag of the
  data phase in the place of the private data: the fifth argument is the flag and the sixth 0.
\<close>

definition send :: "layout \<Rightarrow> WORD \<Rightarrow> WORD \<Rightarrow> WORD \<Rightarrow> usb \<Rightarrow> usb option" where
  "send L a sz priv s = map_option snd (usb_device_send_data L 0 a 0 sz priv False s)"

definition recv_status :: "layout \<Rightarrow> usb \<Rightarrow> usb option" where
  "recv_status L s = map_option snd (usb_device_recv_data L 0 0 0 0 0 False s)"

definition request_valid :: "nat \<Rightarrow> usb \<Rightarrow> bool" where
  "request_valid btIndex s \<longleftrightarrow> btIndex = 0 \<or> btIndex < MAX_NUM_EP \<and> usUsbState s = USB_STATE_CONFIGURED"

definition endpoint_of :: "setup_data \<Rightarrow> nat" where
  "endpoint_of p = unat (wIndex p AND 0x0f)"

definition direction_of :: "setup_data \<Rightarrow> usb_dir" where
  "direction_of p = (if wIndex p AND 0x80 \<noteq> 0 then USB_IN else USB_OUT)"

definition ch9GetStatus :: "layout \<Rightarrow> bool \<Rightarrow> setup_data \<Rightarrow> usb \<Rightarrow> usb option" where
  "ch9GetStatus L setup p s =
     (if \<not> setup then Some s
      else if Recipient p = RECIPIENT_DEVICE
      then do {
        s \<leftarrow> send L (usDataToSend_at L) 2 1 (s\<lparr>usDataToSend := usUsbDeviceState s AND 3\<rparr>);
        recv_status L s }
      else if Recipient p = RECIPIENT_INTERFACE
      then do {
        s \<leftarrow> send L (usDataToSend_at L) 2 1 (s\<lparr>usDataToSend := 0\<rparr>);
        recv_status L s }
      else if Recipient p = RECIPIENT_ENDPOINT
      then if request_valid (endpoint_of p) s
           then do {
             s \<leftarrow> send L (usDataToSend_at L) 2 1 (s\<lparr>usDataToSend := usb_dci_get_endpoint_status (endpoint_of p) s AND 1\<rparr>);
             recv_status L s }
           else Some (usb_dci_stall_endpoint 0 USB_IN s)
      else Some (usb_dci_stall_endpoint 0 USB_IN s))"

definition unstall_all :: "usb \<Rightarrow> usb" where
  "unstall_all s = foldl (\<lambda>s i. usb_dci_unstall_endpoint i USB_OUT (usb_dci_unstall_endpoint i USB_IN s)) s [0..<MAX_NUM_EP]"

definition ch9ClearFeature :: "layout \<Rightarrow> bool \<Rightarrow> setup_data \<Rightarrow> usb \<Rightarrow> usb option" where
  "ch9ClearFeature L setup p s =
     (if \<not> setup then Some s
      else if Recipient p = RECIPIENT_DEVICE
      then if wValue p = 1
           then send L 0 0 0 (s\<lparr>usUsbDeviceState := usUsbDeviceState s AND NOT USB_REMOTE_WAKEUP\<rparr>)
           else Some (usb_dci_stall_endpoint 0 USB_IN s)
      else if Recipient p = RECIPIENT_ENDPOINT
      then if request_valid (endpoint_of p) s
           then send L 0 0 0 (if endpoint_of p = 0 then unstall_all s
                              else usb_dci_unstall_endpoint (endpoint_of p) (direction_of p) s)
           else Some (usb_dci_stall_endpoint 0 USB_IN s)
      else Some (usb_dci_stall_endpoint 0 USB_IN s))"

definition ch9SetFeature ::
    "layout \<Rightarrow> (nat \<Rightarrow> usb_call \<Rightarrow> usb \<Rightarrow> usb option) \<Rightarrow> bool \<Rightarrow> setup_data \<Rightarrow> usb \<Rightarrow> usb option" where
  "ch9SetFeature L run setup p s =
     (let usDeviceState = usUsbState s in
      if setup
      then
        if Recipient p = RECIPIENT_DEVICE
        then if wValue p = 1
             then send L 0 0 0 (s\<lparr>usUsbDeviceState := usUsbDeviceState s OR USB_REMOTE_WAKEUP\<rparr>)
             else if wValue p = 2
             then if wIndex p AND 0xff \<noteq> 0 \<or> btSpeed s \<noteq> USB_SPEED_HIGH then Some (usb_dci_stall_endpoint 0 USB_IN s)
                  else if usDeviceState = USB_STATE_CONFIGURED \<or> usDeviceState = USB_STATE_ADDRESSED \<or> usDeviceState = USB_STATE_DEFAULT
                  then send L 0 0 0 (s\<lparr>bEnterTestMode := 1, usTestModeIndex := drop_bit 8 (wIndex p) AND 0xff\<rparr>)
                  else Some (usb_dci_stall_endpoint 0 USB_IN s)
             else Some (usb_dci_stall_endpoint 0 USB_IN s)
        else if Recipient p = RECIPIENT_ENDPOINT
        then if endpoint_of p < MAX_NUM_EP \<and> usDeviceState = USB_STATE_CONFIGURED
             then send L 0 0 0 (usb_dci_stall_endpoint (endpoint_of p) (direction_of p) s)
             else Some (usb_dci_stall_endpoint 0 USB_IN s)
        else Some (usb_dci_stall_endpoint 0 USB_IN s)
      else if bEnterTestMode s = 1
      then do {
        s \<leftarrow> usb_device_set_status L USB_STATUS_TEST_MODE (usTestModeIndex s) s;
        (_, s) \<leftarrow> usb_device_call_service run USB_SERVICE_TEST no_data s;
        Some s }
      else Some s)"

definition ch9SetAddress :: "layout \<Rightarrow> bool \<Rightarrow> setup_data \<Rightarrow> usb \<Rightarrow> usb option" where
  "ch9SetAddress L setup p s =
     (if setup
      then send L (usDataToSend_at L) 0 0 (s\<lparr>btNewAddress := wValue p, usDataToSend := 0\<rparr>)
      else do {
        s \<leftarrow> usb_device_set_status L USB_STATUS_ADDRESS (btNewAddress s) s;
        usb_device_set_status L USB_STATUS (if btNewAddress s \<noteq> 0 then USB_STATE_ADDRESSED else USB_STATE_DEFAULT) s })"

definition ch9GetDescription ::
    "layout \<Rightarrow> (WORD \<Rightarrow> WORD \<Rightarrow> WORD \<Rightarrow> usb \<Rightarrow> (WORD option \<times> usb) option) \<Rightarrow> bool \<Rightarrow> setup_data \<Rightarrow> usb \<Rightarrow> usb option" where
  "ch9GetDescription L GetDescriptor setup p s =
     (let wDescriptorType = drop_bit 8 (wValue p AND 0xff00); wDescriptorIndex = wValue p AND 0xff in
      if \<not> setup then Some s
      else if wDescriptorType = DESCRIPTOR_TYPE_STRING \<or> wDescriptorType = DESCRIPTOR_TYPE_DEVICE \<or>
        wDescriptorType = DESCRIPTOR_TYPE_CONFIG \<or> wDescriptorType = DESCRIPTOR_TYPE_DEVICE_QUALIFIER \<or>
        wDescriptorType = DESCRIPTOR_TYPE_OTHER_SPEED_CONFIG
      then do {
        (pbtDesc, s) \<leftarrow> GetDescriptor wDescriptorType (btSpeed s) wDescriptorIndex s;
        s \<leftarrow> (case pbtDesc of
               None \<Rightarrow> Some s
             | Some a \<Rightarrow>
                 if wLength p = 0 then Some (usb_dci_stall_endpoint 0 USB_IN s)
                 else
                   let d0 = Descriptor s ! 0; d1 = Descriptor s ! 1;
                       usLength =
                         (if wDescriptorType = DESCRIPTOR_TYPE_OTHER_SPEED_CONFIG \<or> wDescriptorType = DESCRIPTOR_TYPE_CONFIG
                          then let usDescLength = drop_bit 16 (d0 AND 0xff0000) + drop_bit 16 (d1 AND 0x0000ff)
                               in if wLength p > usDescLength then usDescLength else wLength p
                          else if wLength p > d0 AND 0x0000ff then d0 AND 0x0000ff else wLength p)
                   in send L a usLength 1 s);
        (if \<not> usb_device_is_hold s then recv_status L s else Some (usb_device_data_phase_required s)) }
      else Some (usb_dci_stall_endpoint 0 USB_IN s))"

definition ch9SetDescription :: "bool \<Rightarrow> setup_data \<Rightarrow> usb \<Rightarrow> usb option" where
  "ch9SetDescription setup p s = Some (usb_dci_stall_endpoint 0 USB_IN s)"

definition ch9GetConfig :: "layout \<Rightarrow> bool \<Rightarrow> setup_data \<Rightarrow> usb \<Rightarrow> usb option" where
  "ch9GetConfig L setup p s =
     (if \<not> setup then Some s
      else do {
        s \<leftarrow> send L (usDataToSend_at L) 1 1
               (s\<lparr>usDataToSend := if usUsbState s \<noteq> USB_STATE_CONFIGURED then 0 else btCurConfig s\<rparr>);
        recv_status L s })"

text \<open>Every endpoint that is stalled in a direction is freed in both.\<close>

definition unstall_stalled :: "usb \<Rightarrow> usb" where
  "unstall_stalled s =
     foldl (\<lambda>s i. if usb_dci_get_endpoint_status i s = 1 then usb_dci_set_endpoint_status i 0 s else s) s [0..<MAX_NUM_EP]"

definition change_call :: "layout \<Rightarrow> setup_data \<Rightarrow> usb_call" where
  "change_call L p = no_data\<lparr>cBuffer := btStatus_at L, cLength := wValue p\<rparr>"

definition ch9SetConfig ::
    "layout \<Rightarrow> (nat \<Rightarrow> usb_call \<Rightarrow> usb \<Rightarrow> usb option) \<Rightarrow> bool \<Rightarrow> setup_data \<Rightarrow> usb \<Rightarrow> usb option" where
  "ch9SetConfig L run setup p s =
     (if \<not> setup then Some s
      else if usUsbState s = USB_STATE_CONFIGURED \<or> usUsbState s = USB_STATE_ADDRESSED
      then
        let s = unstall_stalled s in
        if wValue p = 0
        then do {
          (_, s) \<leftarrow> usb_device_call_service run USB_SERVICE_CHANGE_CONFIG (change_call L p) s;
          s \<leftarrow> usb_device_set_status L USB_STATUS_CURRENT_CONFIG 0 s;
          s \<leftarrow> usb_device_set_status L USB_STATUS USB_STATE_ADDRESSED s;
          send L 0 0 0 s }
        else do {
          (_, s) \<leftarrow> usb_device_call_service run USB_SERVICE_CHANGE_CONFIG (change_call L p) (s\<lparr>app_status := USB_OK\<rparr>);
          (if app_status s = USB_OK
           then do {
             s \<leftarrow> usb_device_set_status L USB_STATUS_CURRENT_CONFIG (wValue p) s;
             s \<leftarrow> usb_device_set_status L USB_STATUS USB_STATE_CONFIGURED (s\<lparr>g_bUsbConfigured := True\<rparr>);
             send L 0 0 0 s }
           else Some (usb_dci_stall_endpoint 0 USB_IN s)) }
      else Some (usb_dci_stall_endpoint 0 USB_IN s))"

definition ch9GetInterface :: "layout \<Rightarrow> bool \<Rightarrow> setup_data \<Rightarrow> usb \<Rightarrow> usb option" where
  "ch9GetInterface L setup p s =
     (if usUsbState s \<noteq> USB_STATE_CONFIGURED then Some (usb_dci_stall_endpoint 0 USB_IN s)
      else if \<not> setup then Some s
      else do {
        s \<leftarrow> send L (usDataToSend_at L) 1 1 (s\<lparr>usDataToSend := btCurInterface s\<rparr>);
        recv_status L s })"

definition ch9SetInterface ::
    "layout \<Rightarrow> (nat \<Rightarrow> usb_call \<Rightarrow> usb \<Rightarrow> usb option) \<Rightarrow> bool \<Rightarrow> setup_data \<Rightarrow> usb \<Rightarrow> usb option" where
  "ch9SetInterface L run setup p s =
     (if usUsbState s \<noteq> USB_STATE_CONFIGURED then Some (usb_dci_stall_endpoint 0 USB_IN s)
      else if \<not> setup then Some s
      else do {
        (_, s) \<leftarrow> usb_device_call_service run USB_SERVICE_CHANGE_IFACE (change_call L p) ((unstall_stalled s)\<lparr>app_status := USB_OK\<rparr>);
        (if app_status s = USB_OK
         then do {
           s \<leftarrow> usb_device_set_status L USB_STATUS_CURRENT_IFACE (wValue p) s;
           send L 0 0 0 s }
         else Some (usb_dci_stall_endpoint 0 USB_IN s)) })"

definition ch9SynchFrame :: "bool \<Rightarrow> setup_data \<Rightarrow> usb \<Rightarrow> usb option" where
  "ch9SynchFrame setup p s = Some (if setup then usb_dci_stall_endpoint 0 USB_IN s else s)"

text \<open>What the requests use of the rest: where the linker put the buffers, the application and the descriptors.\<close>

record device =
  lay :: layout
  run :: "nat \<Rightarrow> usb_call \<Rightarrow> usb \<Rightarrow> usb option"
  get_descriptor :: "WORD \<Rightarrow> WORD \<Rightarrow> WORD \<Rightarrow> usb \<Rightarrow> (WORD option \<times> usb) option"

definition standard_request :: "device \<Rightarrow> bool \<Rightarrow> setup_data \<Rightarrow> usb \<Rightarrow> usb option" where
  "standard_request D setup p s =
     (let L = lay D; r = btRequest p in
      if r = 0 then ch9GetStatus L setup p s
      else if r = 1 then ch9ClearFeature L setup p s
      else if r = 3 then ch9SetFeature L (run D) setup p s
      else if r = 5 then ch9SetAddress L setup p s
      else if r = 6 then ch9GetDescription L (get_descriptor D) setup p s
      else if r = 7 then ch9SetDescription setup p s
      else if r = 8 then ch9GetConfig L setup p s
      else if r = 9 then ch9SetConfig L (run D) setup p s
      else if r = 0x0a then ch9GetInterface L setup p s
      else if r = 0x0b then ch9SetInterface L (run D) setup p s
      else if r = 0x0c then ch9SynchFrame setup p s
      else Some (usb_dci_stall_endpoint 0 USB_OUT s))"

definition ch9ServiceEp0 :: "device \<Rightarrow> usb_call \<Rightarrow> usb \<Rightarrow> usb option" where
  "ch9ServiceEp0 D c s =
     (let s = (if bSetup c then usb_dci_finish_transaction 0 (usb_dci_get_setup_data 0 s) else s);
          pSetup = g_SetupData s 0
      in if req_type pSetup = 0 then standard_request D (bSetup c) pSetup s
         else Some (usb_dci_stall_endpoint 0 USB_OUT s))"

text \<open>The functions a service can be: number 0 is \<open>ch9ServiceEp0\<close>, the others are the application's.\<close>

definition service :: "device \<Rightarrow> nat \<Rightarrow> usb_call \<Rightarrow> usb \<Rightarrow> usb option" where
  "service D h c s = (if h = 0 then ch9ServiceEp0 D c s else run D h c s)"

end
