(* ===== verification/UsbEvents.thy ===== *)
theory UsbEvents imports UsbCh9 begin

text \<open>
  The events of the USB controller, \<^verbatim>\<open>USB20/DevCtrlInt/usb20dd.c\<close>: bus reset, port change, suspend, and
  setup packets and transfers that are complete.
\<close>

definition call :: "device \<Rightarrow> WORD \<Rightarrow> usb_call \<Rightarrow> usb \<Rightarrow> usb option" where
  "call D btType c s = map_option snd (usb_device_call_service (service D) btType c s)"

section \<open>Setup packets and completions\<close>

definition ProcessEndptSetup :: "device \<Rightarrow> WORD \<Rightarrow> usb \<Rightarrow> usb option" where
  "ProcessEndptSetup D wRegSetup s =
     (if wRegSetup = 0 then Some s
      else foldl (\<lambda>r i. do {
             s \<leftarrow> r;
             (if wRegSetup AND push_bit i 1 \<noteq> 0
              then call D (of_nat i) \<lparr>bSetup = True, cDirection = USB_OUT, cBuffer = 0, cLength = 8, cPrivate = 0\<rparr> s
              else Some s) }) (Some s) [0..<MAX_NUM_EP])"

text \<open>
  One completed transfer: the service of the endpoint is called with what was transferred before the descriptor
  leaves its queue. The call reads the descriptor, so a completion without one is an access through null.
\<close>

definition complete_one :: "device \<Rightarrow> nat \<times> usb_dir \<Rightarrow> usb \<Rightarrow> usb option" where
  "complete_one D q s =
     (if MAX_NUM_EP \<le> fst q then None
      else case g_dXD_Queues s q of
        None \<Rightarrow> None
      | Some pStXd \<Rightarrow>
          let pStdTD = dTDs s q;
              active = usStatusIoc pStdTD AND USB_EP_dTD_ACTIVE \<noteq> 0;
              status = (if active then TRANSFER_IN_PROGRESS
                        else if usStatusIoc pStdTD AND USB_EP_dTD_NO_ERROR \<noteq> 0 then TRANSFER_ERROR else TRANSFER_SUCCESS);
              s = s\<lparr>g_XdPool := (g_XdPool s)[pStXd := (g_XdPool s ! pStXd)\<lparr>btStatus := status\<rparr>]\<rparr>;
              x = g_XdPool s ! pStXd;
              usActualBytesTransfer = (if active then 0 else usTotalLength x - usTotalBytes pStdTD);
              s = (if active then s else s\<lparr>dTDs := (dTDs s)(q := pStdTD\<lparr>usStatusIoc := 0\<rparr>)\<rparr>)
          in do {
            s \<leftarrow> call D (of_nat (fst q))
                  \<lparr>bSetup = False, cDirection = snd q, cBuffer = pbtStartAddressWord x, cLength = usActualBytesTransfer,
                   cPrivate = wPrivateData x\<rparr> s;
            let s = s\<lparr>g_dXD_Queues := (g_dXD_Queues s)(q := pNext (g_XdPool s ! pStXd))\<rparr>;
            let s = FreeXd pStXd s;
            Some (case g_dXD_Queues s q of None \<Rightarrow> s | Some i \<Rightarrow> snd (usb_dci_transfer_data (lay D) i s)) })"

text \<open>
  The walk over the bits of both directions, with the counter, the mask and the two words it goes back and
  forth between. It stops at 32; the counter never takes more than 64 turns.
\<close>

fun complete_loop :: "nat \<Rightarrow> device \<Rightarrow> int \<Rightarrow> WORD \<Rightarrow> WORD \<Rightarrow> WORD \<Rightarrow> WORD \<Rightarrow> usb \<Rightarrow> usb option" where
  "complete_loop 0 D btEndpointNumber wMask wRegCompleteRx wRegCompleteTx wRegComplete s = None"
| "complete_loop (Suc n) D btEndpointNumber wMask wRegCompleteRx wRegCompleteTx wRegComplete s =
     (if \<not> btEndpointNumber < 32 \<or> wRegCompleteTx = 0 \<and> wRegCompleteRx = 0 then Some s
      else do {
        (wRegComplete, s) \<leftarrow>
          (if wRegComplete AND wMask \<noteq> 0
           then if btEndpointNumber < 0 then None
                else do {
                  s \<leftarrow> complete_one D (if btEndpointNumber > 15 then (nat (btEndpointNumber - 16), USB_IN) else (nat btEndpointNumber, USB_OUT)) s;
                  Some (wRegComplete AND NOT wMask, s) }
           else Some (wRegComplete, s));
        (if btEndpointNumber < int MAX_NUM_EP
         then complete_loop n D (btEndpointNumber + 16) wMask wRegComplete wRegCompleteTx wRegCompleteTx s
         else complete_loop n D (btEndpointNumber - 15) (wMask * 2) wRegCompleteRx wRegComplete wRegCompleteRx s) })"

definition ProcessEndptComplete :: "device \<Rightarrow> DWORD \<Rightarrow> usb \<Rightarrow> usb option" where
  "ProcessEndptComplete D dwRegComplete s =
     (let wRegCompleteTx = ucast (drop_bit 24 dwRegComplete); wRegCompleteRx = ucast (dwRegComplete AND 0x00ffff)
      in if dwRegComplete = 0 then Some s
         else complete_loop 64 D 0 1 wRegCompleteRx wRegCompleteTx wRegCompleteRx s)"

text \<open>
  A completion that is pending together with a setup packet of the same endpoint belongs to the request before
  it and is handled first.
\<close>

definition usb_dci_process_tr_complete :: "device \<Rightarrow> WORD \<Rightarrow> DWORD \<Rightarrow> usb \<Rightarrow> usb option" where
  "usb_dci_process_tr_complete D wRegSetup dwRegComplete s =
     (if ucast dwRegComplete AND wRegSetup \<noteq> 0 \<or> ucast (drop_bit 24 dwRegComplete) AND wRegSetup \<noteq> 0
      then do { s \<leftarrow> ProcessEndptComplete D dwRegComplete s; ProcessEndptSetup D wRegSetup s }
      else do { s \<leftarrow> ProcessEndptSetup D wRegSetup s; ProcessEndptComplete D dwRegComplete s })"

section \<open>Reset, port change, suspend\<close>

text \<open>
  The controller is stopped and reset to its default values, its structures are cleared, and endpoint 0 is set up
  again; the interrupts and the run bit are not part of the state.
\<close>

definition usb_dci_chip_enable :: "usb \<Rightarrow> usb" where
  "usb_dci_chip_enable s =
     (let s = s\<lparr>endptctrl := (\<lambda>_. 0), endptprime := (\<lambda>_. False), endptstatus := (\<lambda>_. False), endptsetupstat := (\<lambda>_. False), devaddr := 0,
            dTDs := (\<lambda>_. \<lparr>usTotalBytes = 0, usCurrentOffset = 0, pbtBufPage0 = 0, pbtBufPage1 = 0, usStatusIoc = 0\<rparr>)\<rparr>;
          r = endptctrl s 0 OR ucast ENDPTCTRL_TXR OR ucast ENDPTCTRL_RXR;
          r = r AND ucast (NOT ENDPTCTRL_TXS) AND ucast (NOT ENDPTCTRL_RXS)
      in s\<lparr>endptctrl := (endptctrl s)(0 := r)\<rparr>)"

definition all_queues :: "(nat \<times> usb_dir) list" where
  "all_queues = concat (map (\<lambda>i. [(i, USB_OUT), (i, USB_IN)]) [0..<MAX_NUM_EP])"

definition usb_dci_process_reset :: "device \<Rightarrow> usb \<Rightarrow> usb option" where
  "usb_dci_process_reset D s =
     (let s = snd (usb_dci_init_endpoint 0 USB_OUT 0 s);
          s = snd (usb_dci_init_endpoint 0 USB_IN 0 s);
          s = foldl (\<lambda>s q. usb_dci_clear_dxd_queue q s) s all_queues
      in do {
        s \<leftarrow> call D USB_SERVICE_BUS_RESET no_data s;
        let s = s\<lparr>devaddr := devaddr s AND 0x01ffffff, btAddress := 0,
                  endptsetupstat := (\<lambda>_. False), endptprime := (\<lambda>_. False), endptstatus := (\<lambda>_. False)\<rparr>;
        Some (if portsc1 s AND PORTSC1_PR \<noteq> 0
              then s\<lparr>btBusResetting := True, usUsbState := USB_STATE_POWERED\<rparr>
              else usb_dci_chip_enable s) })"

definition enable_endpoints :: "usb \<Rightarrow> usb" where
  "enable_endpoints s =
     foldl (\<lambda>s i. s\<lparr>endptctrl := (endptctrl s)(i := endptctrl s i OR ucast ENDPTCTRL_RXE OR ucast ENDPTCTRL_TXE)\<rparr>) s [1..<MAX_NUM_EP]"

definition usb_dci_process_port_change :: "device \<Rightarrow> usb \<Rightarrow> usb option" where
  "usb_dci_process_port_change D s =
     (let s = (if btBusResetting s
               then enable_endpoints (s\<lparr>btBusResetting := False, usUsbState := USB_STATE_DEFAULT\<rparr>) else s);
          dwStatus = portsc1 s
      in do {
        s \<leftarrow> (if dwStatus AND PORTSC1_PR = 0
              then let s = s\<lparr>btSpeed := (if dwStatus AND PORTSC1_HSP \<noteq> 0 then USB_SPEED_HIGH else USB_SPEED_FULL)\<rparr>
                   in call D USB_SERVICE_SPEED_DETECTION (no_data\<lparr>cLength := btSpeed s\<rparr>) s
              else Some s);
        s \<leftarrow> (if dwStatus AND PORTSC1_SUSP \<noteq> 0
              then let s = (if usUsbState s \<noteq> USB_STATE_SUSPENDED
                            then s\<lparr>usUsbStatePriorSusp := usUsbState s, usUsbState := USB_STATE_SUSPENDED\<rparr> else s)
                   in call D USB_SERVICE_SUSPEND no_data s
              else Some s);
        Some (if dwStatus AND PORTSC1_SUSP = 0 \<and> usUsbState s = USB_STATE_SUSPENDED
              then s\<lparr>usUsbState := usUsbStatePriorSusp s\<rparr> else s) })"

text \<open>The wait for the end of a suspend gives whether it ended with a reset: \<open>wReset\<close>.\<close>

definition usb_dci_process_suspend :: "device \<Rightarrow> bool \<Rightarrow> usb \<Rightarrow> usb option" where
  "usb_dci_process_suspend D wReset s =
     (if usUsbState s \<noteq> USB_STATE_SUSPENDED
      then do {
        s \<leftarrow> call D USB_SERVICE_SUSPEND no_data s;
        s \<leftarrow> call D 0x13 no_data s;
        (if wReset
         then do {
           s \<leftarrow> usb_dci_process_reset D s;
           Some ((usb_device_hold s)\<lparr>s_bUsbFirstInit := True\<rparr>) }
         else Some s) }
      else Some s)"

section \<open>Initialisation\<close>

definition idle_xd :: xd_struct where
  "idle_xd = \<lparr>btEndpointNum = 0, btDirection = USB_OUT, btStatus = TRANSFER_IDLE, pbtStartAddressWord = 0, btStartOffsetByte = 0,
     usTotalLength = 0, bIsDataPhase = False, pNext = None, wPrivateData = 0, usBytesCopied = 0, wCurrentOffsetByte = 0,
     pbtCurrentAddressWord = 0\<rparr>"

text \<open>\<^verbatim>\<open>usb_device_init\<close> clears the device state and the pool, not the heads of the queues, and \<^verbatim>\<open>usb_dci_init\<close> ends the setup data.\<close>

definition usb_device_init :: "usb \<Rightarrow> usb" where
  "usb_device_init s =
     (let s = s\<lparr>btSpeed := USB_SPEED_HIGH, btCurConfig := 0, btCurInterface := 0, btAddress := 0, usUsbState := USB_STATE_UNKNOWN,
            usUsbStatePriorSusp := 0, usUsbDeviceState := 0, usSofCount := 0, btBusResetting := False, bEnterTestMode := 0,
            usConnectionState := 0, Services := [], g_XdPool := replicate MAX_USB_TRANSFERS_QUEUED idle_xd\<rparr>;
          s = snd (usb_device_register_service USB_SERVICE_EP0 0 s);
          s = s\<lparr>g_SetupData := (\<lambda>i. (g_SetupData s i)\<lparr>bValid := False\<rparr>)\<rparr>
      in usb_dci_update_connection_status s)"

end
