(* ===== verification/UsbDesc.thy ===== *)
theory UsbDesc imports UsbCh9 begin

text \<open>
  The descriptors, \<^verbatim>\<open>USB20/Ch9/PackDesc.c\<close> and \<^verbatim>\<open>usb_descriptor.c\<close>: GET\_DESCRIPTOR packs the bytes of
  the tables of the project three to a word into the buffer \<open>Descriptor\<close>, and writes the total length into a
  configuration descriptor.

  \<^verbatim>\<open>PutByteInArrayInX\<close> is a routine of the library that is not among the sources: the parameter \<open>put\<close>, with what
  \<open>puts_bytes\<close> says of it.
\<close>

section \<open>PackDesc.c\<close>

definition "MS_OS_STRING_DESCRIPTOR_INDEX = (0xEE::WORD)"
definition "MS_OS_STRING_DESCRIPTOR_INDEX_IN_ARRAY = (7::nat)"
definition "MAX_DESC_SIZE = (86::nat)"

text \<open>
  A descriptor is its bytes, the first its length. The pointers of \<open>ConfigStruct\<close> come in pairs, full speed first;
  \<open>iStrings\<close> is the number of strings before the null pointer.
\<close>

record descriptors =
  StDescDevice :: "BYTE list"
  StDescDeviceQualFs :: "BYTE list"
  StDescDeviceQualHs :: "BYTE list"
  ConfigStruct :: "(BYTE list list \<times> BYTE list list) list"
  StStringDescriptor :: "BYTE list list"
  iStrings :: nat
  g_bUsbHsEnabled :: bool

type_synonym put_byte = "WORD list \<Rightarrow> nat \<Rightarrow> BYTE \<Rightarrow> WORD list"

definition usb_PackDescriptor :: "put_byte \<Rightarrow> BYTE list \<Rightarrow> nat \<Rightarrow> WORD list \<Rightarrow> WORD list" where
  "usb_PackDescriptor put p start dest = foldl (\<lambda>d i. put d (start + i) (p ! i)) dest [0..<unat (p ! 0)]"

fun BuildConfigLoop :: "put_byte \<Rightarrow> BYTE list list \<Rightarrow> nat \<Rightarrow> WORD list \<Rightarrow> nat \<times> WORD list" where
  "BuildConfigLoop put [] bytes dest = (bytes, dest)"
| "BuildConfigLoop put (p # pConfigRule) bytes dest =
     BuildConfigLoop put pConfigRule (bytes + unat (p ! 0)) (usb_PackDescriptor put p bytes dest)"

definition BuildConfigDescriptor :: "put_byte \<Rightarrow> BYTE list list \<Rightarrow> WORD list \<Rightarrow> WORD list" where
  "BuildConfigDescriptor put pConfigRule dest =
     (let (bytes, d) = BuildConfigLoop put pConfigRule 0 dest;
          d = d[0 := (d ! 0 AND 0x00ffff) OR push_bit 16 (of_nat bytes AND 0x0000ff)]
      in d[1 := (d ! 1 AND 0xffff00) OR drop_bit 8 (of_nat bytes AND 0x00ff00)])"

text \<open>The fields of the device descriptor that are written are written on every call.\<close>

definition device_bytes :: "descriptors \<Rightarrow> WORD \<Rightarrow> BYTE list" where
  "device_bytes T btDevSpeed =
     (let q = (if btDevSpeed = USB_SPEED_HIGH then StDescDeviceQualHs T else StDescDeviceQualFs T);
          d = (StDescDevice T)[4 := q ! 4, 5 := q ! 5, 6 := q ! 6, 7 := q ! 7]
      in if g_bUsbHsEnabled T then d else d[2 := 0x10, 3 := 0x01])"

definition GetDescriptor :: "put_byte \<Rightarrow> descriptors \<Rightarrow> layout \<Rightarrow> WORD \<Rightarrow> WORD \<Rightarrow> WORD \<Rightarrow> usb \<Rightarrow> (WORD option \<times> usb) option" where
  "GetDescriptor put T L btDescType btDevSpeed btIndex s =
     (let give = (\<lambda>d. Some (Some (Descriptor_at L), s\<lparr>Descriptor := d\<rparr>)) in
      if btDescType = DESCRIPTOR_TYPE_DEVICE then give (usb_PackDescriptor put (device_bytes T btDevSpeed) 0 (Descriptor s))
      else if btDescType = DESCRIPTOR_TYPE_OTHER_SPEED_CONFIG \<or> btDescType = DESCRIPTOR_TYPE_CONFIG
      then
        let bDescTypeOtherSpeed = (btDescType = DESCRIPTOR_TYPE_OTHER_SPEED_CONFIG);
            btDevSpeed = (if bDescTypeOtherSpeed then if btDevSpeed = USB_SPEED_HIGH then USB_SPEED_FULL else USB_SPEED_HIGH else btDevSpeed)
        in if unat btIndex \<ge> length (ConfigStruct T) then Some (None, s)
           else
             let rule = (if btDevSpeed = USB_SPEED_HIGH then snd else fst) (ConfigStruct T ! unat btIndex);
                 d = BuildConfigDescriptor put rule (Descriptor s)
             in give (if bDescTypeOtherSpeed
                      then d[0 := (d ! 0 AND 0xff00ff) OR push_bit 8 DESCRIPTOR_TYPE_OTHER_SPEED_CONFIG] else d)
      else if btDescType = DESCRIPTOR_TYPE_STRING
      then
        if btIndex = MS_OS_STRING_DESCRIPTOR_INDEX
        then give (usb_PackDescriptor put (StStringDescriptor T ! MS_OS_STRING_DESCRIPTOR_INDEX_IN_ARRAY) 0 (Descriptor s))
        else if unat btIndex < iStrings T
        then give (usb_PackDescriptor put (StStringDescriptor T ! unat btIndex) 0 (Descriptor s))
        else if iStrings T = 0 then None
        else give (usb_PackDescriptor put (StStringDescriptor T ! (iStrings T - 1)) 0 (Descriptor s))
      else if btDescType = DESCRIPTOR_TYPE_DEVICE_QUALIFIER
      then give (usb_PackDescriptor put (if btDevSpeed = USB_SPEED_HIGH then StDescDeviceQualHs T else StDescDeviceQualFs T) 0 (Descriptor s))
      else Some (None, s))"

lemma GetDescriptor_same:
  "GetDescriptor put T L t v i s = Some (x, s') \<Longrightarrow> \<exists>d. s' = s\<lparr>Descriptor := d\<rparr>"
proof -
  assume "GetDescriptor put T L t v i s = Some (x, s')"
  then have "s' = s \<or> (\<exists>d. s' = s\<lparr>Descriptor := d\<rparr>)"
    by (auto simp: GetDescriptor_def Let_def split: if_splits)
  moreover have "s = s\<lparr>Descriptor := Descriptor s\<rparr>" by simp
  ultimately show ?thesis by metis
qed

section \<open>The bytes of the buffer\<close>

definition byte_in :: "WORD list \<Rightarrow> nat \<Rightarrow> BYTE" where
  "byte_in d k = ucast (drop_bit (8 * (k mod 3)) (d ! (k div 3)))"

definition puts_bytes :: "put_byte \<Rightarrow> bool" where
  "puts_bytes put \<longleftrightarrow> (\<forall>d k b. k < 3 * length d \<longrightarrow> length (put d k b) = length d \<and>
     (\<forall>j<3 * length d. byte_in (put d k b) j = (if j = k then b else byte_in d j)))"

lemma bit_ff: "bit (0xff::int) n \<longleftrightarrow> n < 8" "bit (0xffff::int) n \<longleftrightarrow> n < 16"
    "bit (0xffff00::int) n \<longleftrightarrow> 8 \<le> n \<and> n < 24" "bit (0xff00::int) n \<longleftrightarrow> 8 \<le> n \<and> n < 16"
proof -
  have m: "(0xff::int) = mask 8" "(0xffff::int) = mask 16" "(0xffff00::int) = push_bit 8 (mask 16)" "(0xff00::int) = push_bit 8 (mask 8)"
    by (simp_all add: mask_eq_exp_minus_1 push_bit_eq_mult)
  show "bit (0xff::int) n \<longleftrightarrow> n < 8" "bit (0xffff::int) n \<longleftrightarrow> n < 16"
    unfolding m(1,2) bit_mask_iff by auto
  show "bit (0xffff00::int) n \<longleftrightarrow> 8 \<le> n \<and> n < 24" "bit (0xff00::int) n \<longleftrightarrow> 8 \<le> n \<and> n < 16"
    unfolding m(3,4) bit_push_bit_iff bit_mask_iff by auto
qed

text \<open>A routine that does.\<close>

definition put_byte_of_word :: put_byte where
  "put_byte_of_word d k b =
     d[k div 3 := (d ! (k div 3) AND NOT (push_bit (8 * (k mod 3)) 0xff)) OR push_bit (8 * (k mod 3)) (ucast b)]"

lemma puts_put_byte_of_word: "puts_bytes put_byte_of_word"
  unfolding puts_bytes_def
proof (intro allI impI conjI)
  fix d :: "WORD list" and k b assume k: "k < 3 * length d"
  show "length (put_byte_of_word d k b) = length d" by (simp add: put_byte_of_word_def)
  fix j assume j: "j < 3 * length d"
  have b24: "i < 8 \<Longrightarrow> m < 3 \<Longrightarrow> 8 * m + i < (24::nat)" for i m by arith
  show "byte_in (put_byte_of_word d k b) j = (if j = k then b else byte_in d j)"
  proof (cases "j div 3 = k div 3")
    case False
    then show ?thesis by (auto simp: put_byte_of_word_def byte_in_def)
  next
    case True
    have 3: "j mod 3 < 3" "k mod 3 < 3" by simp_all
    have l: "k div 3 < length d" using k by simp
    show ?thesis
    proof (rule bit_word_eqI)
      fix i assume "i < LENGTH(8)"
      then have i: "i < 8" by simp
      note m = mod_less_divisor
      show "bit (byte_in (put_byte_of_word d k b) j) i = bit (if j = k then b else byte_in d j) i"
      proof (cases "j = k")
        case True
        then show ?thesis
          using i l b24 [OF i 3(1)]
          by (simp add: put_byte_of_word_def byte_in_def bit_simps bit_ff)
      next
        case False
        then have ne: "j mod 3 \<noteq> k mod 3" using \<open>j div 3 = k div 3\<close> by (metis div_mult_mod_eq)
        then have "8 * (j mod 3) + i < 8 * (k mod 3) \<or> 8 * (k mod 3) + 8 \<le> 8 * (j mod 3) + i" using i by arith
        then show ?thesis
          using i l False b24 [OF i 3(1)] True
          by (auto simp: put_byte_of_word_def byte_in_def bit_simps bit_ff dest: bit_imp_le_length)
      qed
    qed
  qed
qed

lemma packed_bytes:
  assumes put: "puts_bytes put" and n: "start + unat (p ! 0) \<le> 3 * length d"
  shows "length (usb_PackDescriptor put p start d) = length d"
    and "j < 3 * length d \<Longrightarrow> byte_in (usb_PackDescriptor put p start d) j =
      (if start \<le> j \<and> j < start + unat (p ! 0) then p ! (j - start) else byte_in d j)"
proof -
  let ?f = "\<lambda>n. foldl (\<lambda>d i. put d (start + i) (p ! i)) d [0..<n]"
  have "start + n \<le> 3 * length d \<Longrightarrow> length (?f n) = length d \<and>
      (\<forall>j<3 * length d. byte_in (?f n) j = (if start \<le> j \<and> j < start + n then p ! (j - start) else byte_in d j))" for n
  proof (induction n)
    case (Suc n)
    then have IH: "length (?f n) = length d" "\<And>j. j < 3 * length d \<Longrightarrow> byte_in (?f n) j = (if start \<le> j \<and> j < start + n then p ! (j - start) else byte_in d j)"
      by auto
    have "start + n < 3 * length (?f n)" using Suc.prems IH(1) by simp
    with put have P: "length (put (?f n) (start + n) (p ! n)) = length (?f n)"
        "\<And>j. j < 3 * length (?f n) \<Longrightarrow> byte_in (put (?f n) (start + n) (p ! n)) j = (if j = start + n then p ! n else byte_in (?f n) j)"
      unfolding puts_bytes_def by blast+
    have "?f (Suc n) = put (?f n) (start + n) (p ! n)" by simp
    then show ?case using P IH by auto
  next
    case 0
    have "\<not> (start \<le> j \<and> j < start)" for j by auto
    then show ?case by (simp only: upt.simps foldl.simps add_0_right if_False simp_thms)
  qed
  from this [OF n] show "length (usb_PackDescriptor put p start d) = length d"
    and "j < 3 * length d \<Longrightarrow> byte_in (usb_PackDescriptor put p start d) j =
      (if start \<le> j \<and> j < start + unat (p ! 0) then p ! (j - start) else byte_in d j)"
    by (simp_all add: usb_PackDescriptor_def)
qed

text \<open>A descriptor whose first byte is its length.\<close>

definition descriptor_ok :: "BYTE list \<Rightarrow> bool" where
  "descriptor_ok p \<longleftrightarrow> p \<noteq> [] \<and> length p = unat (p ! 0)"

lemma loop_bytes:
  assumes put: "puts_bytes put"
  shows "list_all descriptor_ok rule \<Longrightarrow> start + length (concat rule) \<le> 3 * length d \<Longrightarrow>
    \<exists>d'. BuildConfigLoop put rule start d = (start + length (concat rule), d') \<and> length d' = length d \<and>
      (\<forall>j<3 * length d. byte_in d' j = (if start \<le> j \<and> j < start + length (concat rule) then concat rule ! (j - start) else byte_in d j))"
proof (induction rule arbitrary: start d)
  case (Cons p rule)
  let ?d = "usb_PackDescriptor put p start d"
  have p: "unat (p ! 0) = length p" using Cons.prems(1) by (simp add: descriptor_ok_def)
  have "start + unat (p ! 0) \<le> 3 * length d" using Cons.prems(2) p by simp
  note P = packed_bytes [OF put this]
  obtain d' where d': "BuildConfigLoop put rule (start + length p) ?d = (start + length p + length (concat rule), d')" "length d' = length d"
      "\<And>j. j < 3 * length d \<Longrightarrow> byte_in d' j = (if start + length p \<le> j \<and> j < start + length p + length (concat rule) then concat rule ! (j - (start + length p)) else byte_in ?d j)"
    using Cons.IH [of "start + length p" ?d] Cons.prems P(1) by auto
  have "byte_in d' j = (if start \<le> j \<and> j < start + length (concat (p # rule)) then concat (p # rule) ! (j - start) else byte_in d j)"
    if j: "j < 3 * length d" for j
    using d'(3) [OF j] P(2) [OF j] p by (auto simp: nth_append algebra_simps)
  moreover have "BuildConfigLoop put (p # rule) start d = (start + length (concat (p # rule)), d')" using d'(1) p by (simp add: add.assoc)
  ultimately show ?case using d'(2) by blast
next
  case Nil
  have "\<not> (start \<le> j \<and> j < start)" for j by auto
  then show ?case by (intro exI [of _ d]) (simp only: BuildConfigLoop.simps concat.simps list.size add_0_right if_False simp_thms)
qed

lemma config_bytes:
  assumes put: "puts_bytes put" and rule: "list_all descriptor_ok rule" and n: "4 \<le> length (concat rule)" "length (concat rule) \<le> 3 * length d"
  shows "length (BuildConfigDescriptor put rule d) = length d"
    and "j < length (concat rule) \<Longrightarrow> byte_in (BuildConfigDescriptor put rule d) j =
      (concat rule)[2 := of_nat (length (concat rule)), 3 := of_nat (length (concat rule) div 256)] ! j"
proof -
  let ?n = "length (concat rule)"
  obtain d' where d': "BuildConfigLoop put rule 0 d = (?n, d')" "length d' = length d"
      "\<And>j. j < 3 * length d \<Longrightarrow> byte_in d' j = (if j < ?n then concat rule ! j else byte_in d j)"
    using loop_bytes [OF put rule, of 0 d] n(2) by auto
  have len: "1 < length d'" using n d'(2) by arith
  let ?w = "of_nat ?n :: WORD"
  let ?e = "d'[0 := (d' ! 0 AND 0x00ffff) OR push_bit 16 (?w AND 0x0000ff), 1 := (d' ! 1 AND 0xffff00) OR drop_bit 8 (?w AND 0x00ff00)]"
  have E: "BuildConfigDescriptor put rule d = ?e" using len by (simp add: BuildConfigDescriptor_def d' Let_def)
  show "length (BuildConfigDescriptor put rule d) = length d" by (simp add: E d')
  have of_nat: "bit (of_nat m :: WORD) i \<longleftrightarrow> i < 24 \<and> bit m i" "bit (of_nat m :: BYTE) i \<longleftrightarrow> i < 8 \<and> bit m i" for m i
    unfolding bit_of_nat_iff by auto
  show "byte_in (BuildConfigDescriptor put rule d) j = (concat rule)[2 := of_nat ?n, 3 := of_nat (?n div 256)] ! j" if j: "j < ?n"
  proof -
    have jd: "j < 3 * length d" using j n(2) by simp
    have s: "Suc 0 < length d'" "0 < length d'" using len by linarith+
    have old: "byte_in d' j = concat rule ! j" using d'(3) [OF jd] j by simp
    have div: "?n div 256 = drop_bit 8 ?n" by (simp add: drop_bit_eq_div)
    have e: "byte_in ?e j = (if j = 2 then of_nat ?n else if j = 3 then of_nat (?n div 256) else byte_in d' j)"
    proof (rule bit_word_eqI)
      fix i assume "i < LENGTH(8)"
      then have i: "i < 8" by simp
      consider "j = 0" | "j = 1" | "j = 2" | "j = 3" | "j = 4" | "j = 5" | "6 \<le> j" by linarith
      then show "bit (byte_in ?e j) i = bit (if j = 2 then of_nat ?n else if j = 3 then of_nat (?n div 256) else byte_in d' j) i"
      proof cases
        case 7
        then have "2 \<le> j div 3" by simp
        then have "j div 3 \<noteq> 0" "j div 3 \<noteq> 1" "j div 3 \<noteq> Suc 0" by linarith+
        then show ?thesis using 7 by (simp add: byte_in_def)
      qed (use i s in \<open>simp_all add: byte_in_def bit_simps bit_ff of_nat div\<close>)
    qed
    show ?thesis unfolding E e using j old by (auto simp: nth_list_update)
  qed
qed

lemma sent_length:
  fixes d0 d1 :: WORD
  shows "drop_bit 16 (d0 AND 0xff0000) + drop_bit 16 (d1 AND 0x0000ff) = ucast (ucast (drop_bit 16 d0) :: BYTE)"
proof -
  have m: "(0xff0000::int) = push_bit 16 (mask 8)" by (simp add: mask_eq_exp_minus_1 push_bit_eq_mult)
  have b: "bit (0xff0000::int) (16 + n) \<longleftrightarrow> n < 8" for n
    unfolding m bit_push_bit_iff bit_mask_iff by auto
  have "drop_bit 16 (d0 AND 0xff0000) = (ucast (ucast (drop_bit 16 d0) :: BYTE) :: WORD)"
  proof (rule bit_word_eqI)
    fix n assume "n < LENGTH(24)"
    have "bit d0 (16 + n) \<Longrightarrow> n < 8" using bit_imp_le_length [of d0 "16 + n"] by simp
    then show "bit (drop_bit 16 (d0 AND 0xff0000)) n = bit (ucast (ucast (drop_bit 16 d0) :: BYTE) :: WORD) n"
      using b [of n] by (cases "bit d0 (16 + n)") (simp_all add: bit_simps bit_ff)
  qed
  moreover have "drop_bit 16 (d1 AND 0x0000ff) = (0::WORD)"
    by (rule bit_word_eqI) (auto simp: bit_simps bit_ff)
  ultimately show ?thesis by simp
qed

end
