(* ===== verification/UsbQueue.thy ===== *)
theory UsbQueue imports UsbEvents begin

text \<open>
  The queues of transfer descriptors: every endpoint and direction has a queue linked through the pool, the queues
  share no descriptor, and a descriptor is idle exactly when it is in none. Seen from the endpoints the pool is one
  first-in-first-out list of requests for each of them.
\<close>

section \<open>Linked lists in the pool\<close>

lemma last_xd_chain:
  "chain (\<lambda>i. pNext (P ! i)) (Some h) is \<Longrightarrow> length is \<le> n \<Longrightarrow> last_xd n P h = Some (last is)"
proof (induction n arbitrary: h "is")
  case 0
  then show ?case by (cases "is") auto
next
  case (Suc n)
  then obtain js where js: "is = h # js" "chain (\<lambda>i. pNext (P ! i)) (pNext (P ! h)) js" by (cases "is") auto
  show ?case
  proof (cases "pNext (P ! h)")
    case None
    then show ?thesis using js by (simp add: chain_None)
  next
    case (Some p)
    then have "js \<noteq> []" using js(2) by auto
    then show ?thesis using Suc.IH [of p js] js Some Suc.prems(2) by simp
  qed
qed

section \<open>The queues\<close>

text \<open>The caller's part of a descriptor.\<close>

type_synonym request = "WORD \<times> WORD \<times> WORD \<times> WORD"

definition request_of :: "xd_struct \<Rightarrow> request" where
  "request_of x = (pbtStartAddressWord x, btStartOffsetByte x, usTotalLength x, wPrivateData x)"

definition queues_rep :: "usb \<Rightarrow> (nat \<times> usb_dir \<Rightarrow> nat list) \<Rightarrow> bool" where
  "queues_rep s Q \<longleftrightarrow>
     length (g_XdPool s) = MAX_USB_TRANSFERS_QUEUED
   \<and> (\<forall>q. fst q < MAX_NUM_EP \<longrightarrow> chain (\<lambda>i. pNext (g_XdPool s ! i)) (g_dXD_Queues s q) (Q q))
   \<and> (\<forall>q. MAX_NUM_EP \<le> fst q \<longrightarrow> Q q = [])
   \<and> (\<forall>q. distinct (Q q))
   \<and> (\<forall>q. \<forall>i\<in>set (Q q). i < MAX_USB_TRANSFERS_QUEUED \<and>
        (btEndpointNum (g_XdPool s ! i), btDirection (g_XdPool s ! i)) = q \<and> \<not> bIsDataPhase (g_XdPool s ! i))
   \<and> (\<forall>i<MAX_USB_TRANSFERS_QUEUED. btStatus (g_XdPool s ! i) = TRANSFER_IDLE \<longleftrightarrow> (\<forall>q. i \<notin> set (Q q)))"

definition requests :: "usb \<Rightarrow> (nat \<times> usb_dir \<Rightarrow> nat list) \<Rightarrow> nat \<times> usb_dir \<Rightarrow> request list" where
  "requests s Q q = map (\<lambda>i. request_of (g_XdPool s ! i)) (Q q)"

lemma queues_repD:
  assumes "queues_rep s Q"
  shows "length (g_XdPool s) = MAX_USB_TRANSFERS_QUEUED"
    and "fst q < MAX_NUM_EP \<Longrightarrow> chain (\<lambda>i. pNext (g_XdPool s ! i)) (g_dXD_Queues s q) (Q q)"
    and "distinct (Q q)"
    and "i \<in> set (Q q) \<Longrightarrow> i < MAX_USB_TRANSFERS_QUEUED \<and> (btEndpointNum (g_XdPool s ! i), btDirection (g_XdPool s ! i)) = q
          \<and> \<not> bIsDataPhase (g_XdPool s ! i) \<and> btStatus (g_XdPool s ! i) \<noteq> TRANSFER_IDLE"
    and "i < MAX_USB_TRANSFERS_QUEUED \<Longrightarrow> btStatus (g_XdPool s ! i) = TRANSFER_IDLE \<Longrightarrow> i \<notin> set (Q q)"
    and "Q q \<noteq> [] \<Longrightarrow> fst q < MAX_NUM_EP"
    and "i \<in> set (Q q) \<Longrightarrow> i \<in> set (Q q') \<Longrightarrow> q = q'"
proof -
  show "length (g_XdPool s) = MAX_USB_TRANSFERS_QUEUED"
    and "fst q < MAX_NUM_EP \<Longrightarrow> chain (\<lambda>i. pNext (g_XdPool s ! i)) (g_dXD_Queues s q) (Q q)"
    and "distinct (Q q)"
    and "i < MAX_USB_TRANSFERS_QUEUED \<Longrightarrow> btStatus (g_XdPool s ! i) = TRANSFER_IDLE \<Longrightarrow> i \<notin> set (Q q)"
    using assms unfolding queues_rep_def by blast+
  show "i \<in> set (Q q) \<Longrightarrow> i < MAX_USB_TRANSFERS_QUEUED \<and> (btEndpointNum (g_XdPool s ! i), btDirection (g_XdPool s ! i)) = q
      \<and> \<not> bIsDataPhase (g_XdPool s ! i) \<and> btStatus (g_XdPool s ! i) \<noteq> TRANSFER_IDLE"
    using assms unfolding queues_rep_def by blast
  show "Q q \<noteq> [] \<Longrightarrow> fst q < MAX_NUM_EP"
    using assms unfolding queues_rep_def by (meson leI)
  show "i \<in> set (Q q) \<Longrightarrow> i \<in> set (Q q') \<Longrightarrow> q = q'"
    using assms unfolding queues_rep_def by metis
qed

text \<open>Only the pool and the heads matter.\<close>

lemma queues_rep_cong:
  "g_XdPool s' = g_XdPool s \<Longrightarrow> g_dXD_Queues s' = g_dXD_Queues s \<Longrightarrow> queues_rep s' Q = queues_rep s Q"
  by (simp add: queues_rep_def)

lemma head_of_queue:
  assumes "queues_rep s Q" and "fst q < MAX_NUM_EP"
  shows "g_dXD_Queues s q = (case Q q of [] \<Rightarrow> None | i # is \<Rightarrow> Some i)"
  using queues_repD(2) [OF assms] by (cases "Q q") auto

lemma queue_length:
  assumes "queues_rep s Q"
  shows "length (Q q) \<le> MAX_USB_TRANSFERS_QUEUED"
proof -
  have "set (Q q) \<subseteq> {..<MAX_USB_TRANSFERS_QUEUED}" using queues_repD(4) [OF assms] by blast
  then have "card (set (Q q)) \<le> MAX_USB_TRANSFERS_QUEUED" using card_mono [of "{..<MAX_USB_TRANSFERS_QUEUED}"] by fastforce
  then show ?thesis using distinct_card [OF queues_repD(3) [OF assms]] by simp
qed

section \<open>Taking a descriptor\<close>

definition busy :: "(nat \<times> usb_dir \<Rightarrow> nat list) \<Rightarrow> nat" where
  "busy Q = sum_list (map (\<lambda>q. length (Q q)) all_queues)"

lemma set_all_queues: "set all_queues = {q. fst q < MAX_NUM_EP}"
proof -
  have "q \<in> set all_queues \<longleftrightarrow> fst q < MAX_NUM_EP" for q
    by (cases q; cases "snd q") (auto simp: all_queues_def)
  then show ?thesis by blast
qed

lemma distinct_all_queues: "distinct all_queues"
  by (simp add: all_queues_def MAX_NUM_EP_def upt_conv_Cons)

lemma distinct_concat_map:
  "distinct qs \<Longrightarrow> (\<And>q. q \<in> set qs \<Longrightarrow> distinct (Q q)) \<Longrightarrow> (\<And>q q' i. i \<in> set (Q q) \<Longrightarrow> i \<in> set (Q q') \<Longrightarrow> q = q') \<Longrightarrow>
   distinct (concat (map Q qs))"
  by (induction qs) auto

lemma busy_card:
  assumes "queues_rep s Q"
  shows "busy Q = card {i. i < MAX_USB_TRANSFERS_QUEUED \<and> btStatus (g_XdPool s ! i) \<noteq> TRANSFER_IDLE}"
proof -
  let ?is = "concat (map Q all_queues)"
  have "set ?is = {i. i < MAX_USB_TRANSFERS_QUEUED \<and> btStatus (g_XdPool s ! i) \<noteq> TRANSFER_IDLE}" (is "_ = ?B")
  proof
    show "set ?is \<subseteq> ?B" using queues_repD(4) [OF assms] by (simp only: set_concat set_map) blast
    show "?B \<subseteq> set ?is"
    proof
      fix i assume "i \<in> ?B"
      then obtain q where "i \<in> set (Q q)" using assms unfolding queues_rep_def by blast
      moreover have "Q q \<noteq> []" using \<open>i \<in> set (Q q)\<close> by auto
      then have "q \<in> set all_queues" using queues_repD(6) [OF assms] unfolding set_all_queues by blast
      ultimately show "i \<in> set ?is" by (simp only: set_concat set_map) blast
    qed
  qed
  moreover have "distinct ?is"
    by (rule distinct_concat_map [OF distinct_all_queues]) (blast intro: queues_repD(3,7) [OF assms])+
  ultimately have "card ?B = length ?is" using distinct_card [of ?is] by simp
  then show ?thesis by (simp add: busy_def length_concat comp_def)
qed

lemma card_below:
  fixes n :: nat
  shows "card {i. i < n \<and> P i} \<le> n" and "card {i. i < n \<and> P i} = n \<longleftrightarrow> (\<forall>i<n. P i)"
proof -
  have s: "{i. i < n \<and> P i} \<subseteq> {..<n}" by auto
  show "card {i. i < n \<and> P i} \<le> n" using card_mono [OF _ s] by simp
  show "card {i. i < n \<and> P i} = n \<longleftrightarrow> (\<forall>i<n. P i)"
  proof
    assume "card {i. i < n \<and> P i} = n"
    then have "{i. i < n \<and> P i} = {..<n}" by (intro card_subset_eq [OF _ s]) simp_all
    then show "\<forall>i<n. P i" by blast
  next
    assume "\<forall>i<n. P i"
    then have "{i. i < n \<and> P i} = {..<n}" by auto
    then show "card {i. i < n \<and> P i} = n" by simp
  qed
qed

lemma busy_bound:
  assumes "queues_rep s Q"
  shows "busy Q \<le> MAX_USB_TRANSFERS_QUEUED"
    and "busy Q = MAX_USB_TRANSFERS_QUEUED \<longleftrightarrow> (\<forall>i<MAX_USB_TRANSFERS_QUEUED. btStatus (g_XdPool s ! i) \<noteq> TRANSFER_IDLE)"
  unfolding busy_card [OF assms] by (rule card_below)+

lemma GetEmptyXd_cases:
  assumes "queues_rep s Q"
  shows "(GetEmptyXd s = None \<and> busy Q = MAX_USB_TRANSFERS_QUEUED) \<or>
    (\<exists>i. GetEmptyXd s = Some (i, s\<lparr>g_XdPool := (g_XdPool s)[i := (g_XdPool s ! i)\<lparr>pNext := None\<rparr>]\<rparr>)
      \<and> i < MAX_USB_TRANSFERS_QUEUED \<and> (\<forall>q. i \<notin> set (Q q)) \<and> busy Q < MAX_USB_TRANSFERS_QUEUED)"
proof -
  note l = queues_repD(1) [OF assms]
  show ?thesis
  proof (cases "find (\<lambda>i. btStatus (g_XdPool s ! i) = TRANSFER_IDLE) [0..<length (g_XdPool s)]")
    case None
    then have "GetEmptyXd s = None" by (simp add: GetEmptyXd_def)
    moreover have "busy Q = MAX_USB_TRANSFERS_QUEUED"
      using None unfolding busy_bound(2) [OF assms] find_None_iff by (auto simp: l)
    ultimately show ?thesis by blast
  next
    case (Some i)
    then have i: "i < MAX_USB_TRANSFERS_QUEUED" "btStatus (g_XdPool s ! i) = TRANSFER_IDLE"
      by (auto simp: find_Some_iff l)
    have "busy Q \<noteq> MAX_USB_TRANSFERS_QUEUED" using busy_bound(2) [OF assms] i by blast
    then have "busy Q < MAX_USB_TRANSFERS_QUEUED" using busy_bound(1) [OF assms] by simp
    moreover have "\<forall>q. i \<notin> set (Q q)" using queues_repD(5) [OF assms i] by blast
    ultimately show ?thesis using Some i by (simp add: GetEmptyXd_def)
  qed
qed

section \<open>Adding a descriptor\<close>

lemma queue_put:
  assumes rep: "queues_rep s Q" and i: "i < MAX_USB_TRANSFERS_QUEUED" "\<And>q. i \<notin> set (Q q)" and q: "fst q < MAX_NUM_EP"
    and x: "(btEndpointNum x, btDirection x) = q" "btStatus x \<noteq> TRANSFER_IDLE" "\<not> bIsDataPhase x" "pNext x = None"
    and P: "g_XdPool s' = (let P = (g_XdPool s)[i := x] in if Q q = [] then P else P[last (Q q) := (P ! last (Q q))\<lparr>pNext := Some i\<rparr>])"
    and H: "g_dXD_Queues s' = (if Q q = [] then (g_dXD_Queues s)(q := Some i) else g_dXD_Queues s)"
  shows "queues_rep s' (Q(q := Q q @ [i]))"
    and "requests s' (Q(q := Q q @ [i])) = (requests s Q)(q := requests s Q q @ [request_of x])"
proof -
  note D = queues_repD [OF rep]
  have len: "length (g_XdPool s') = MAX_USB_TRANSFERS_QUEUED" using D(1) by (simp add: P Let_def)
  have li: "Q q \<noteq> [] \<Longrightarrow> last (Q q) \<noteq> i \<and> last (Q q) < MAX_USB_TRANSFERS_QUEUED"
    using i(2) [of q] D(4) [of "last (Q q)" q] by (metis last_in_set)
  have new: "g_XdPool s' ! i = x" using i(1) li D(1) by (auto simp: P Let_def)
  have other: "g_XdPool s' ! j = (if Q q \<noteq> [] \<and> j = last (Q q) then (g_XdPool s ! j)\<lparr>pNext := Some i\<rparr> else g_XdPool s ! j)"
    if "j \<noteq> i" "j < MAX_USB_TRANSFERS_QUEUED" for j
    using that li D(1) by (auto simp: P Let_def nth_list_update)
  have fields: "(btEndpointNum (g_XdPool s' ! j), btDirection (g_XdPool s' ! j)) = (btEndpointNum (g_XdPool s ! j), btDirection (g_XdPool s ! j))"
      "bIsDataPhase (g_XdPool s' ! j) = bIsDataPhase (g_XdPool s ! j)" "btStatus (g_XdPool s' ! j) = btStatus (g_XdPool s ! j)"
      "request_of (g_XdPool s' ! j) = request_of (g_XdPool s ! j)"
    if "j \<noteq> i" "j < MAX_USB_TRANSFERS_QUEUED" for j
    using other [OF that] by (auto simp: request_of_def)
  have chains: "chain (\<lambda>j. pNext (g_XdPool s' ! j)) (g_dXD_Queues s' r) ((Q(q := Q q @ [i])) r)" if r: "fst r < MAX_NUM_EP" for r
  proof (cases "r = q")
    case True
    show ?thesis
    proof (cases "Q q = []")
      case True
      then show ?thesis using \<open>r = q\<close> new x(4) by (simp add: H)
    next
      case False
      have "chain (\<lambda>j. pNext (g_XdPool s' ! j)) (g_dXD_Queues s q) (Q q @ [i])"
      proof (rule chain_snoc [OF D(2) [OF q] False D(3)])
        show "pNext (g_XdPool s' ! last (Q q)) = Some i" using other li [OF False] False by auto
        show "pNext (g_XdPool s' ! i) = None" using new x(4) by simp
        fix j assume j: "j \<in> set (butlast (Q q))"
        then have "j \<in> set (Q q)" by (rule in_set_butlastD)
        then have "j \<noteq> i" "j < MAX_USB_TRANSFERS_QUEUED" using i(2) D(4) by blast+
        moreover have "j \<noteq> last (Q q)"
          using j D(3) [of q] False by (metis append_butlast_last_id distinct_append disjoint_iff list.set_intros(1))
        ultimately show "pNext (g_XdPool s' ! j) = pNext (g_XdPool s ! j)" using other by simp
      qed
      then show ?thesis using False \<open>r = q\<close> by (simp add: H)
    qed
  next
    case False
    have "pNext (g_XdPool s' ! j) = pNext (g_XdPool s ! j)" if "j \<in> set (Q r)" for j
    proof -
      have "j \<noteq> i" "j < MAX_USB_TRANSFERS_QUEUED" using that i(2) D(4) by blast+
      moreover have "Q q = [] \<or> j \<noteq> last (Q q)" using that False D(7) last_in_set by blast
      ultimately show ?thesis using other by auto
    qed
    then have "chain (\<lambda>j. pNext (g_XdPool s' ! j)) (g_dXD_Queues s r) (Q r)"
      using D(2) [OF r] chain_cong [of "Q r"] by (metis (no_types, lifting))
    then show ?thesis using False by (simp add: H)
  qed
  show "queues_rep s' (Q(q := Q q @ [i]))"
    unfolding queues_rep_def
  proof (intro conjI allI impI ballI)
    show "length (g_XdPool s') = MAX_USB_TRANSFERS_QUEUED" by (rule len)
  next
    fix r :: "nat \<times> usb_dir" assume "fst r < MAX_NUM_EP"
    then show "chain (\<lambda>i. pNext (g_XdPool s' ! i)) (g_dXD_Queues s' r) ((Q(q := Q q @ [i])) r)" by (rule chains)
  next
    fix r :: "nat \<times> usb_dir" assume "MAX_NUM_EP \<le> fst r"
    then show "(Q(q := Q q @ [i])) r = []" using q D(6) [of r] by (cases "r = q") auto
  next
    fix r show "distinct ((Q(q := Q q @ [i])) r)" using D(3) i(2) by simp
  next
    fix r j assume j: "j \<in> set ((Q(q := Q q @ [i])) r)"
    have "j = i \<and> r = q \<or> j \<in> set (Q r)" using j by (auto split: if_splits)
    then have *: "j < MAX_USB_TRANSFERS_QUEUED \<and> (btEndpointNum (g_XdPool s' ! j), btDirection (g_XdPool s' ! j)) = r \<and> \<not> bIsDataPhase (g_XdPool s' ! j)"
    proof
      assume "j = i \<and> r = q"
      then show ?thesis using i(1) new x(1,3) by simp
    next
      assume m: "j \<in> set (Q r)"
      then have "j \<noteq> i" using i(2) by blast
      with D(4) [OF m] fields [of j] show ?thesis by simp
    qed
    show "j < MAX_USB_TRANSFERS_QUEUED" "(btEndpointNum (g_XdPool s' ! j), btDirection (g_XdPool s' ! j)) = r" "\<not> bIsDataPhase (g_XdPool s' ! j)"
      using * by blast+
  next
    fix j assume j: "j < MAX_USB_TRANSFERS_QUEUED"
    have "j \<in> set ((Q(q := Q q @ [i])) r) \<longleftrightarrow> j \<in> set (Q r) \<or> r = q \<and> j = i" for r
      by (cases "r = q") auto
    moreover have "(\<forall>r. r \<noteq> q \<or> j \<noteq> i) \<longleftrightarrow> j \<noteq> i" by metis
    ultimately have e: "(\<forall>r. j \<notin> set ((Q(q := Q q @ [i])) r)) \<longleftrightarrow> (\<forall>r. j \<notin> set (Q r)) \<and> j \<noteq> i"
      by (simp only: de_Morgan_disj de_Morgan_conj all_conj_distrib)
    show "btStatus (g_XdPool s' ! j) = TRANSFER_IDLE \<longleftrightarrow> (\<forall>r. j \<notin> set ((Q(q := Q q @ [i])) r))"
    proof (cases "j = i")
      case True
      then show ?thesis unfolding e using new x(2) by simp
    next
      case False
      then show ?thesis unfolding e using fields(3) [OF False j] rep j unfolding queues_rep_def by simp
    qed
  qed
  show "requests s' (Q(q := Q q @ [i])) = (requests s Q)(q := requests s Q q @ [request_of x])"
  proof
    fix r
    have "map (\<lambda>j. request_of (g_XdPool s' ! j)) (Q r) = map (\<lambda>j. request_of (g_XdPool s ! j)) (Q r)"
      by (rule map_cong [OF refl]) (metis i(2) D(4) fields(4))
    then show "requests s' (Q(q := Q q @ [i])) r = ((requests s Q)(q := requests s Q q @ [request_of x])) r"
      using new by (simp add: requests_def)
  qed
qed

section \<open>A transfer\<close>

text \<open>The new descriptor.\<close>

definition new_xd :: "nat \<times> usb_dir \<Rightarrow> request \<Rightarrow> xd_struct \<Rightarrow> xd_struct" where
  "new_xd q r x = (case r of (a, off, sz, priv) \<Rightarrow>
     x\<lparr>btEndpointNum := fst q, btDirection := snd q, btStatus := TRANSFER_IN_PROGRESS, pbtStartAddressWord := a,
       btStartOffsetByte := off, usTotalLength := sz, bIsDataPhase := False, pNext := None, wPrivateData := priv,
       usBytesCopied := 0, wCurrentOffsetByte := off, pbtCurrentAddressWord := a\<rparr>)"

lemma new_xd_fields:
  "btEndpointNum (new_xd q r x) = fst q" "btDirection (new_xd q r x) = snd q" "btStatus (new_xd q r x) = TRANSFER_IN_PROGRESS"
  "\<not> bIsDataPhase (new_xd q r x)" "pNext (new_xd q r x) = None" "request_of (new_xd q r x) = r"
  by (simp_all add: new_xd_def request_of_def split: prod.split)

lemma new_xd_written:
  "x\<lparr>pNext := None, btEndpointNum := fst q, btDirection := snd q, btStatus := TRANSFER_IN_PROGRESS, pbtStartAddressWord := a,
     btStartOffsetByte := off, usTotalLength := sz, usBytesCopied := 0, bIsDataPhase := False, wPrivateData := priv,
     pbtCurrentAddressWord := a, wCurrentOffsetByte := off\<rparr> = new_xd q (a, off, sz, priv) x"
  by (cases x) (simp add: new_xd_def)

text \<open>The descriptor the controller is given for a request.\<close>

definition started :: "layout \<Rightarrow> request \<Rightarrow> dTD_struct" where
  "started L r = (case r of (a, off, sz, priv) \<Rightarrow>
     let b = (a - dQH_Base_Add L) * 3 + off
     in \<lparr>usTotalBytes = sz, usCurrentOffset = if sz = 0 then 0 else b AND 0xFFF, pbtBufPage0 = if sz = 0 then 0 else drop_bit 12 b,
         pbtBufPage1 = (if sz = 0 then 0 else drop_bit 12 b) + 1, usStatusIoc = USB_EP_dTD_IOC OR USB_EP_dTD_ACTIVE\<rparr>)"

lemma dci_transfer:
  assumes "i < length (g_XdPool s)" and "\<not> bIsDataPhase (g_XdPool s ! i)"
    and "q = (btEndpointNum (g_XdPool s ! i), btDirection (g_XdPool s ! i))"
  shows "usb_dci_transfer_data L i s = (USB_OK, s\<lparr>g_dXD_Queues := (g_dXD_Queues s)(q := Some i),
    dTDs := (dTDs s)(q := started L (request_of (g_XdPool s ! i))), endptprime := (endptprime s)(q := True)\<rparr>)"
  using assms by (simp add: usb_dci_transfer_data_def Let_def started_def request_of_def arc_address_def)

text \<open>What a transfer leaves alone, and what it does to the queue it is for.\<close>

definition transferred :: "layout \<Rightarrow> nat \<times> usb_dir \<Rightarrow> request \<Rightarrow> usb \<Rightarrow> (nat \<times> usb_dir \<Rightarrow> nat list) \<Rightarrow> usb \<Rightarrow> (nat \<times> usb_dir \<Rightarrow> nat list) \<Rightarrow> bool" where
  "transferred L q r s Q s' Q' \<longleftrightarrow> queues_rep s' Q' \<and> (\<exists>i. Q' = Q(q := Q q @ [i]))
     \<and> requests s' Q' = (requests s Q)(q := requests s Q q @ [r])
     \<and> s' = s\<lparr>g_XdPool := g_XdPool s', g_dXD_Queues := g_dXD_Queues s',
         dTDs := if Q q = [] then (dTDs s)(q := started L r) else dTDs s,
         endptprime := if Q q = [] then (endptprime s)(q := True) else endptprime s\<rparr>"

definition admitted :: "nat \<times> usb_dir \<Rightarrow> WORD \<Rightarrow> usb \<Rightarrow> bool" where
  "admitted q sz s \<longleftrightarrow> sz \<le> USB_MAX_SIZE_PER_TRANSFER \<and> fst q < MAX_NUM_EP \<and>
     (snd q = USB_IN \<and> fst q \<noteq> 0 \<longrightarrow> usUsbState s = USB_STATE_CONFIGURED)"

lemma transfer_ok:
  assumes rep: "queues_rep s Q" and "admitted q sz s"
  shows "if busy Q = MAX_USB_TRANSFERS_QUEUED
    then usb_device_transfer_data L (fst q) a off sz priv False (snd q) s = None
    else \<exists>s' Q'. usb_device_transfer_data L (fst q) a off sz priv False (snd q) s = Some (USB_OK, s') \<and>
      transferred L q (a, off, sz, priv) s Q s' Q'"
proof -
  let ?r = "(a, off, sz, priv)"
  have adm: "\<not> sz > USB_MAX_SIZE_PER_TRANSFER" "\<not> (snd q = USB_IN \<and> fst q \<noteq> 0 \<and> usUsbState s \<noteq> USB_STATE_CONFIGURED)"
      "\<not> MAX_NUM_EP \<le> fst q" "fst q < MAX_NUM_EP"
    using assms(2) by (auto simp: admitted_def)
  note D = queues_repD [OF rep]
  from GetEmptyXd_cases [OF rep] show ?thesis
  proof
    assume "GetEmptyXd s = None \<and> busy Q = MAX_USB_TRANSFERS_QUEUED"
    then show ?thesis using adm by (simp add: usb_device_transfer_data_def)
  next
    assume "\<exists>i. GetEmptyXd s = Some (i, s\<lparr>g_XdPool := (g_XdPool s)[i := (g_XdPool s ! i)\<lparr>pNext := None\<rparr>]\<rparr>)
      \<and> i < MAX_USB_TRANSFERS_QUEUED \<and> (\<forall>q. i \<notin> set (Q q)) \<and> busy Q < MAX_USB_TRANSFERS_QUEUED"
    then obtain i where G: "GetEmptyXd s = Some (i, s\<lparr>g_XdPool := (g_XdPool s)[i := (g_XdPool s ! i)\<lparr>pNext := None\<rparr>]\<rparr>)
      \<and> i < MAX_USB_TRANSFERS_QUEUED \<and> (\<forall>q. i \<notin> set (Q q)) \<and> busy Q < MAX_USB_TRANSFERS_QUEUED" ..
    then have g: "GetEmptyXd s = Some (i, s\<lparr>g_XdPool := (g_XdPool s)[i := (g_XdPool s ! i)\<lparr>pNext := None\<rparr>]\<rparr>)" by (rule conjunct1)
    have i: "i < MAX_USB_TRANSFERS_QUEUED" "\<And>q. i \<notin> set (Q q)" and b: "busy Q \<noteq> MAX_USB_TRANSFERS_QUEUED"
      using G by (blast, blast, linarith)
    let ?x = "new_xd q ?r (g_XdPool s ! i)"
    let ?s = "s\<lparr>g_XdPool := (g_XdPool s)[i := ?x]\<rparr>"
    have t: "usb_device_transfer_data L (fst q) a off sz priv False (snd q) s =
      (case g_dXD_Queues s q of
         Some h \<Rightarrow> do { s \<leftarrow> AddXdToQueue h i ?s; Some (USB_OK, s) }
       | None \<Rightarrow> (let (e, s) = usb_dci_transfer_data L i ?s in Some (e, if e \<noteq> USB_OK then FreeXd i s else s)))"
    proof -
      let ?u = "s\<lparr>g_XdPool := (g_XdPool s)[i := (g_XdPool s ! i)\<lparr>pNext := None\<rparr>]\<rparr>"
      have "?u\<lparr>g_XdPool := (g_XdPool ?u)[i := (g_XdPool ?u ! i)
        \<lparr>btEndpointNum := fst q, btDirection := snd q, btStatus := TRANSFER_IN_PROGRESS, pbtStartAddressWord := a,
         btStartOffsetByte := off, usTotalLength := sz, usBytesCopied := 0, bIsDataPhase := False, wPrivateData := priv,
         pbtCurrentAddressWord := a, wCurrentOffsetByte := off\<rparr>]\<rparr> = ?s"
        using i(1) D(1) by (simp add: new_xd_written)
      moreover have "g_dXD_Queues ?s q = g_dXD_Queues s q" by simp
      ultimately show ?thesis
        by (simp only: usb_device_transfer_data_def g if_not_P [OF adm(1)] if_not_P [OF adm(2)] if_not_P [OF adm(3)] Let_def
            bind.simps prod.case prod.collapse usb.simps)
    qed
    have x: "(btEndpointNum ?x, btDirection ?x) = q" "btStatus ?x \<noteq> TRANSFER_IDLE" "\<not> bIsDataPhase ?x" "pNext ?x = None"
      by (simp_all add: new_xd_fields)
    show ?thesis
    proof (cases "Q q = []")
      case True
      let ?t = "?s\<lparr>g_dXD_Queues := (g_dXD_Queues s)(q := Some i), dTDs := (dTDs s)(q := started L ?r), endptprime := (endptprime s)(q := True)\<rparr>"
      have "g_dXD_Queues s q = None" using head_of_queue [OF rep adm(4)] True by simp
      moreover have "usb_dci_transfer_data L i ?s = (USB_OK, ?t)"
        using dci_transfer [of i ?s q L] i(1) D(1) by (simp add: new_xd_fields)
      ultimately have "usb_device_transfer_data L (fst q) a off sz priv False (snd q) s = Some (USB_OK, ?t)"
        using t by simp
      moreover have "transferred L q ?r s Q ?t (Q(q := Q q @ [i]))"
        using queue_put [OF rep i adm(4) x, of ?t] True by (auto simp: transferred_def new_xd_fields)
      ultimately show ?thesis using b by auto
    next
      case False
      let ?P = "(g_XdPool s)[i := ?x]"
      let ?t = "s\<lparr>g_XdPool := ?P[last (Q q) := (?P ! last (Q q))\<lparr>pNext := Some i\<rparr>]\<rparr>"
      obtain h "is" where h: "Q q = h # is" using False by (cases "Q q") auto
      then have hd: "g_dXD_Queues s q = Some h" using head_of_queue [OF rep adm(4)] by simp
      have "pNext (?P ! j) = pNext (g_XdPool s ! j)" if "j \<in> set (Q q)" for j
        using that i(2) [of q] by (cases "j = i") auto
      then have "chain (\<lambda>j. pNext (?P ! j)) (Some h) (Q q)"
        using D(2) [OF adm(4)] chain_cong [of "Q q"] hd by (metis (no_types, lifting))
      then have "last_xd (length ?P) ?P h = Some (last (Q q))"
        by (rule last_xd_chain) (use queue_length [OF rep] D(1) in simp)
      then have "AddXdToQueue h i ?s = Some ?t" by (simp add: AddXdToQueue_def)
      then have "usb_device_transfer_data L (fst q) a off sz priv False (snd q) s = Some (USB_OK, ?t)"
        using t hd by simp
      moreover have "transferred L q ?r s Q ?t (Q(q := Q q @ [i]))"
        using queue_put [OF rep i adm(4) x, of ?t] False by (auto simp: transferred_def new_xd_fields Let_def)
      ultimately show ?thesis using b by auto
    qed
  qed
qed

end
