(* ===== verification/UsbSound.thy ===== *)
theory UsbSound imports UsbQueue begin

text \<open>
  The controller and the queues: whatever the application does through the API, every queue that is not empty has
  its first descriptor at the controller, and a completion takes that one out and starts the next.
\<close>

section \<open>Removing the first descriptor\<close>

lemma queue_pop:
  assumes rep: "queues_rep s Q" and q: "Q q = i # is"
    and P: "g_XdPool s' = (g_XdPool s)[i := x]" and x: "btStatus x = TRANSFER_IDLE"
    and H: "g_dXD_Queues s' = (g_dXD_Queues s)(q := pNext (g_XdPool s ! i))"
  shows "queues_rep s' (Q(q := is))" and "requests s' (Q(q := is)) = (requests s Q)(q := tl (requests s Q q))"
proof -
  note D = queues_repD [OF rep]
  have i: "i < MAX_USB_TRANSFERS_QUEUED" "i \<notin> set is" "fst q < MAX_NUM_EP" using D(4) [of i q] D(3) [of q] D(6) [of q] q by auto
  have only: "i \<notin> set ((Q(q := is)) r)" for r
  proof (cases "r = q")
    case False
    then show ?thesis using D(7) [of i q r] q by auto
  qed (use i in simp)
  have sub: "set ((Q(q := is)) r) \<subseteq> set (Q r)" for r using q by auto
  have same: "g_XdPool s' ! j = g_XdPool s ! j" if "j \<noteq> i" for j using that by (simp add: P)
  have chains: "chain (\<lambda>j. pNext (g_XdPool s' ! j)) (g_dXD_Queues s' r) ((Q(q := is)) r)" if r: "fst r < MAX_NUM_EP" for r
  proof -
    have "chain (\<lambda>j. pNext (g_XdPool s ! j)) (g_dXD_Queues s' r) ((Q(q := is)) r)"
      using D(2) [OF r] D(2) [OF i(3)] q by (auto simp: H)
    moreover have "pNext (g_XdPool s' ! j) = pNext (g_XdPool s ! j)" if "j \<in> set ((Q(q := is)) r)" for j
      using same [of j] only [of r] that by metis
    ultimately show ?thesis using chain_cong [of "(Q(q := is)) r"] by (metis (no_types, lifting))
  qed
  show "queues_rep s' (Q(q := is))"
    unfolding queues_rep_def
  proof (intro conjI allI impI ballI)
    show "length (g_XdPool s') = MAX_USB_TRANSFERS_QUEUED" using D(1) by (simp add: P)
  next
    fix r :: "nat \<times> usb_dir" assume "fst r < MAX_NUM_EP"
    then show "chain (\<lambda>i. pNext (g_XdPool s' ! i)) (g_dXD_Queues s' r) ((Q(q := is)) r)" by (rule chains)
  next
    fix r :: "nat \<times> usb_dir" assume "MAX_NUM_EP \<le> fst r"
    then show "(Q(q := is)) r = []" using i(3) D(6) [of r] by (cases "r = q") auto
  next
    fix r show "distinct ((Q(q := is)) r)" using D(3) [of q] D(3) [of r] q by simp
  next
    fix r j assume j: "j \<in> set ((Q(q := is)) r)"
    then have "j \<noteq> i" "j \<in> set (Q r)" using only sub by blast+
    then show "j < MAX_USB_TRANSFERS_QUEUED" "(btEndpointNum (g_XdPool s' ! j), btDirection (g_XdPool s' ! j)) = r" "\<not> bIsDataPhase (g_XdPool s' ! j)"
      using D(4) [of j r] same [of j] by auto
  next
    fix j assume j: "j < MAX_USB_TRANSFERS_QUEUED"
    show "btStatus (g_XdPool s' ! j) = TRANSFER_IDLE \<longleftrightarrow> (\<forall>r. j \<notin> set ((Q(q := is)) r))"
    proof (cases "j = i")
      case True
      then show ?thesis using only x i(1) D(1) by (simp add: P)
    next
      case False
      have "j \<in> set ((Q(q := is)) r) \<longleftrightarrow> j \<in> set (Q r)" for r using False q by (cases "r = q") auto
      then show ?thesis using same [OF False] rep j unfolding queues_rep_def by simp
    qed
  qed
  show "requests s' (Q(q := is)) = (requests s Q)(q := tl (requests s Q q))"
  proof
    fix r
    have "map (\<lambda>j. request_of (g_XdPool s' ! j)) ((Q(q := is)) r) = map (\<lambda>j. request_of (g_XdPool s ! j)) ((Q(q := is)) r)"
      using same only [of r] by (intro map_cong [OF refl]) metis
    then show "requests s' (Q(q := is)) r = ((requests s Q)(q := tl (requests s Q q))) r"
      using q by (auto simp: requests_def)
  qed
qed

section \<open>The contract\<close>

text \<open>A descriptor at the controller is that of the request, with at most its bytes left.\<close>

definition at_controller :: "layout \<Rightarrow> dTD_struct \<Rightarrow> request \<Rightarrow> bool" where
  "at_controller L t r \<longleftrightarrow> usCurrentOffset t = usCurrentOffset (started L r) \<and> pbtBufPage0 t = pbtBufPage0 (started L r) \<and>
     pbtBufPage1 t = pbtBufPage1 (started L r) \<and> usTotalBytes t \<le> usTotalBytes (started L r)"

text \<open>\<open>C\<close> are the queues whose completion is still to be handled.\<close>

definition sound :: "layout \<Rightarrow> usb \<Rightarrow> (nat \<times> usb_dir \<Rightarrow> nat list) \<Rightarrow> (nat \<times> usb_dir) set \<Rightarrow> bool" where
  "sound L s Q C \<longleftrightarrow> queues_rep s Q
     \<and> (\<forall>q. Q q \<noteq> [] \<longleftrightarrow> endptprime s q \<or> endptstatus s q \<or> q \<in> C)
     \<and> (\<forall>q\<in>C. \<not> endptprime s q \<and> \<not> endptstatus s q)
     \<and> (\<forall>q. Q q \<noteq> [] \<longrightarrow> at_controller L (dTDs s q) (hd (requests s Q q)))"

lemma soundD:
  assumes "sound L s Q C"
  shows "queues_rep s Q" and "Q x \<noteq> [] \<longleftrightarrow> endptprime s x \<or> endptstatus s x \<or> x \<in> C"
    and "x \<in> C \<Longrightarrow> \<not> endptprime s x \<and> \<not> endptstatus s x"
    and "Q x \<noteq> [] \<Longrightarrow> at_controller L (dTDs s x) (hd (requests s Q x))"
  using assms unfolding sound_def by blast+

definition grows :: "usb \<Rightarrow> (nat \<times> usb_dir \<Rightarrow> nat list) \<Rightarrow> usb \<Rightarrow> (nat \<times> usb_dir \<Rightarrow> nat list) \<Rightarrow> bool" where
  "grows s Q s' Q' \<longleftrightarrow> (\<forall>q. \<exists>is rs. Q' q = Q q @ is \<and> requests s' Q' q = requests s Q q @ rs)"

definition keeps_queues :: "layout \<Rightarrow> (usb \<Rightarrow> usb option) \<Rightarrow> bool" where
  "keeps_queues L f \<longleftrightarrow> (\<forall>s Q C s'. sound L s Q C \<and> f s = Some s' \<longrightarrow> (\<exists>Q'. sound L s' Q' C \<and> grows s Q s' Q'))"

lemma grows_refl: "grows s Q s Q"
  unfolding grows_def by (intro allI exI [of _ "[]"]) simp

lemma grows_trans:
  assumes "grows s Q s1 Q1" and "grows s1 Q1 s2 Q2"
  shows "grows s Q s2 Q2"
  unfolding grows_def
proof
  fix q
  obtain "is" rs js ts where "Q1 q = Q q @ is" "requests s1 Q1 q = requests s Q q @ rs"
      "Q2 q = Q1 q @ js" "requests s2 Q2 q = requests s1 Q1 q @ ts"
    using assms unfolding grows_def by blast
  then show "\<exists>is rs. Q2 q = Q q @ is \<and> requests s2 Q2 q = requests s Q q @ rs" by simp
qed

text \<open>The part of the state the queues are about.\<close>

definition queue_part :: "usb \<Rightarrow> xd_struct list \<times> (nat \<times> usb_dir \<Rightarrow> nat option) \<times> (nat \<times> usb_dir \<Rightarrow> dTD_struct) \<times> (nat \<times> usb_dir \<Rightarrow> bool) \<times> (nat \<times> usb_dir \<Rightarrow> bool)" where
  "queue_part s = (g_XdPool s, g_dXD_Queues s, dTDs s, endptprime s, endptstatus s)"

lemma sound_cong:
  assumes "queue_part s' = queue_part s"
  shows "sound L s' Q C = sound L s Q C" and "requests s' Q = requests s Q"
proof -
  have e: "g_XdPool s' = g_XdPool s" "g_dXD_Queues s' = g_dXD_Queues s" "dTDs s' = dTDs s" "endptprime s' = endptprime s"
      "endptstatus s' = endptstatus s"
    using assms by (simp_all add: queue_part_def)
  then show r: "requests s' Q = requests s Q" by (simp add: requests_def fun_eq_iff)
  show "sound L s' Q C = sound L s Q C" by (simp add: sound_def queues_rep_def r e)
qed

named_theorems keeps "operations that keep the queues"

lemma keeps_same: "(\<And>s s'. f s = Some s' \<Longrightarrow> queue_part s' = queue_part s) \<Longrightarrow> keeps_queues L f"
  unfolding keeps_queues_def using sound_cong grows_refl unfolding grows_def by (metis append_Nil2)

lemma keeps_bind:
  assumes "keeps_queues L f" and "keeps_queues L g"
  shows "keeps_queues L (\<lambda>s. do { s \<leftarrow> f s; g s })"
  unfolding keeps_queues_def
proof (intro allI impI, elim conjE)
  fix s Q C s' assume "sound L s Q C" and "(f s \<bind> g) = Some s'"
  then obtain s1 where s1: "f s = Some s1" "g s1 = Some s'" by (auto simp: bind_eq_Some_conv)
  then obtain Q1 where Q1: "sound L s1 Q1 C" "grows s Q s1 Q1" using assms(1) \<open>sound L s Q C\<close> unfolding keeps_queues_def by blast
  then obtain Q2 where "sound L s' Q2 C" "grows s1 Q1 s' Q2" using assms(2) s1 unfolding keeps_queues_def by blast
  then show "\<exists>Q'. sound L s' Q' C \<and> grows s Q s' Q'" using grows_trans Q1(2) by blast
qed

section \<open>Transfers keep it\<close>

lemma transferred_sound:
  assumes "sound L s Q C" and "transferred L q r s Q s' Q'"
  shows "sound L s' Q' C" and "grows s Q s' Q'"
proof -
  obtain i where Q': "Q' = Q(q := Q q @ [i])" and R: "requests s' Q' = (requests s Q)(q := requests s Q q @ [r])"
    and rep: "queues_rep s' Q'"
    and d: "dTDs s' = (if Q q = [] then (dTDs s)(q := started L r) else dTDs s)"
    and p: "endptprime s' = (if Q q = [] then (endptprime s)(q := True) else endptprime s)" "endptstatus s' = endptstatus s"
  proof -
    from assms(2) have e: "queues_rep s' Q'" "\<exists>i. Q' = Q(q := Q q @ [i])" "requests s' Q' = (requests s Q)(q := requests s Q q @ [r])"
      and s': "s' = s\<lparr>g_XdPool := g_XdPool s', g_dXD_Queues := g_dXD_Queues s',
         dTDs := if Q q = [] then (dTDs s)(q := started L r) else dTDs s,
         endptprime := if Q q = [] then (endptprime s)(q := True) else endptprime s\<rparr>"
      unfolding transferred_def by blast+
    have "dTDs s' = (if Q q = [] then (dTDs s)(q := started L r) else dTDs s)"
      "endptprime s' = (if Q q = [] then (endptprime s)(q := True) else endptprime s)" "endptstatus s' = endptstatus s"
      by (subst s', simp)+
    with e show thesis using that by blast
  qed
  note S = assms(1) [unfolded sound_def]
  have len: "requests s Q x = [] \<longleftrightarrow> Q x = []" for x by (simp add: requests_def)
  show "sound L s' Q' C"
    unfolding sound_def
  proof (intro conjI allI impI ballI)
    show "queues_rep s' Q'" by (rule rep)
  next
    fix x assume "x \<in> C"
    then have "Q x \<noteq> []" "\<not> endptprime s x" "\<not> endptstatus s x" using S by blast+
    then show "\<not> endptprime s' x" "\<not> endptstatus s' x" using p by auto
  next
    fix x
    have "Q x \<noteq> [] \<longleftrightarrow> endptprime s x \<or> endptstatus s x \<or> x \<in> C" using S by blast
    then show "Q' x \<noteq> [] \<longleftrightarrow> endptprime s' x \<or> endptstatus s' x \<or> x \<in> C"
      using p by (cases "x = q"; cases "Q q = []") (auto simp: Q')
  next
    fix x assume "Q' x \<noteq> []"
    show "at_controller L (dTDs s' x) (hd (requests s' Q' x))"
    proof (cases "x = q \<and> Q q = []")
      case True
      then show ?thesis using len [of q] d by (simp add: R at_controller_def)
    next
      case False
      then have "Q x \<noteq> []" using \<open>Q' x \<noteq> []\<close> by (auto simp: Q' split: if_splits)
      then have "at_controller L (dTDs s x) (hd (requests s Q x))" using S by blast
      then show ?thesis using False len [of x] \<open>Q x \<noteq> []\<close> d by (auto simp: R)
    qed
  qed
  show "grows s Q s' Q'"
    unfolding grows_def
  proof
    fix x show "\<exists>is rs. Q' x = Q x @ is \<and> requests s' Q' x = requests s Q x @ rs"
      by (cases "x = q") (simp_all add: R, simp_all add: Q')
  qed
qed

lemma transfer_keeps: "keeps_queues L (\<lambda>s. map_option snd (usb_device_transfer_data L ep a off sz priv False d s))"
  unfolding keeps_queues_def
proof (intro allI impI, elim conjE)
  fix s Q C s' assume S: "sound L s Q C" and t: "map_option snd (usb_device_transfer_data L ep a off sz priv False d s) = Some s'"
  show "\<exists>Q'. sound L s' Q' C \<and> grows s Q s' Q'"
  proof (cases "admitted (ep, d) sz s")
    case True
    have "queues_rep s Q" using S by (simp add: sound_def)
    from transfer_ok [OF this True, of L a off priv] t obtain Q' where "transferred L (ep, d) (a, off, sz, priv) s Q s' Q'"
      by (auto split: if_splits)
    then show ?thesis using transferred_sound [OF S] by blast
  next
    case False
    then have "s' = s" using t by (auto simp: usb_device_transfer_data_def admitted_def split: if_splits)
    then show ?thesis using S grows_refl by blast
  qed
qed

lemma send_keeps [keeps]: "keeps_queues L (send L a sz priv)"
  unfolding send_def [abs_def] usb_device_send_data_def by (rule transfer_keeps)

lemma recv_keeps [keeps]: "keeps_queues L (recv_status L)"
  unfolding recv_status_def [abs_def] usb_device_recv_data_def by (rule transfer_keeps)

lemma stall_same [simp]:
  "queue_part (usb_dci_stall_endpoint ep d s) = queue_part s" "queue_part (usb_dci_unstall_endpoint ep d s) = queue_part s"
  "queue_part (usb_dci_set_endpoint_status ep w s) = queue_part s" "queue_part (unstall_all s) = queue_part s"
  "queue_part (unstall_stalled s) = queue_part s" "queue_part (usb_dci_get_setup_data ep s) = queue_part s"
  "queue_part (usb_dci_finish_transaction ep s) = queue_part s"
proof -
  show u: "queue_part (usb_dci_stall_endpoint ep d s) = queue_part s" "queue_part (usb_dci_unstall_endpoint ep d s) = queue_part s" for ep d s
    by (simp_all add: usb_dci_stall_endpoint_def usb_dci_unstall_endpoint_def Let_def queue_part_def)
  then show e: "queue_part (usb_dci_set_endpoint_status ep w s) = queue_part s" for ep w s
    by (simp add: usb_dci_set_endpoint_status_def)
  have f: "queue_part (foldl g s is) = queue_part s" if "\<And>s i. queue_part (g s i) = queue_part s" for g :: "usb \<Rightarrow> nat \<Rightarrow> usb" and "is" s
    using that by (induction "is" arbitrary: s) auto
  show "queue_part (unstall_all s) = queue_part s" "queue_part (unstall_stalled s) = queue_part s"
    using u e by (simp_all add: unstall_all_def unstall_stalled_def f)
  show "queue_part (usb_dci_get_setup_data ep s) = queue_part s" "queue_part (usb_dci_finish_transaction ep s) = queue_part s"
    by (simp_all add: usb_dci_get_setup_data_def usb_dci_finish_transaction_def Let_def queue_part_def)
qed

section \<open>The requests keep it\<close>

lemma keeps_Some [keeps]: "(\<And>s. queue_part (u s) = queue_part s) \<Longrightarrow> keeps_queues L (\<lambda>s. Some (u s))"
  by (rule keeps_same) auto

lemma keeps_update: "(\<And>s. queue_part (u s) = queue_part s) \<Longrightarrow> keeps_queues L f \<Longrightarrow> keeps_queues L (\<lambda>s. f (u s))"
  using keeps_bind [OF keeps_Some [of u L]] by simp

lemma keeps_if [keeps]: "keeps_queues L f \<Longrightarrow> keeps_queues L g \<Longrightarrow> keeps_queues L (\<lambda>s. if P s then f s else g s)"
  unfolding keeps_queues_def by (metis (full_types))

lemma bind_snd: "(do { (_, s) \<leftarrow> r; g s }) = (do { s \<leftarrow> map_option snd r; g s })"
  by (cases r) auto

lemma call_service_keeps:
  assumes "\<And>h. keeps_queues L (app h c)"
  shows "keeps_queues L (\<lambda>s. map_option snd (usb_device_call_service app t c s))"
  unfolding keeps_queues_def
proof (intro allI impI, elim conjE)
  fix s Q C s' assume S: "sound L s Q C" and c: "map_option snd (usb_device_call_service app t c s) = Some s'"
  show "\<exists>Q'. sound L s' Q' C \<and> grows s Q s' Q'"
  proof (cases "find (\<lambda>v. fst v = t) (Services s)")
    case None
    then show ?thesis using c S grows_refl by (auto simp: usb_device_call_service_def)
  next
    case (Some v)
    then have "app (snd v) c s = Some s'" using c by (auto simp: usb_device_call_service_def bind_eq_Some_conv)
    then show ?thesis using assms S unfolding keeps_queues_def by blast
  qed
qed

lemma test_mode_keeps [keeps]: "keeps_queues L (usb_dci_set_test_mode L w)"
proof -
  have "keeps_queues L (\<lambda>s. usb_device_transfer_data L 0 a off sz p False d s \<bind> (\<lambda>(_, s). Some s))" for a off sz p d
  proof -
    have "(usb_device_transfer_data L 0 a off sz p False d s \<bind> (\<lambda>(_, s). Some s)) = map_option snd (usb_device_transfer_data L 0 a off sz p False d s)" for s
      by (cases "usb_device_transfer_data L 0 a off sz p False d s") auto
    then show ?thesis using transfer_keeps by simp
  qed
  then show ?thesis
    unfolding usb_dci_set_test_mode_def usb_device_send_data_def Let_def
    by (intro keeps_if keeps_Some keeps_update [of "\<lambda>s. s\<lparr>endptctrl := (endptctrl s)(0 := endptctrl s 0 OR ucast ENDPTCTRL_TXR), test_mode := Some w\<rparr>"])
      (simp_all add: queue_part_def)
qed

lemma set_status_keeps [keeps]: "keeps_queues L (usb_device_set_status L t w)"
  unfolding usb_device_set_status_def
  by (intro keeps keeps_if keeps_Some)
    (simp_all add: usb_dci_set_address_def queue_part_def usb_dci_set_endpoint_status_def usb_dci_stall_endpoint_def usb_dci_unstall_endpoint_def Let_def)

lemma keeps_send_update: "(\<And>s. queue_part (u s) = queue_part s) \<Longrightarrow> keeps_queues L (\<lambda>s. send L a sz priv (u s))"
  by (rule keeps_update [OF _ send_keeps])

lemma keeps_call_update:
  "(\<And>s. queue_part (u s) = queue_part s) \<Longrightarrow> (\<And>h. keeps_queues L (app h c)) \<Longrightarrow>
   keeps_queues L (\<lambda>s. map_option snd (usb_device_call_service app t c (u s)))"
  by (rule keeps_update [OF _ call_service_keeps])

lemma keeps_set_update:
  "(\<And>s. queue_part (u s) = queue_part s) \<Longrightarrow> keeps_queues L (\<lambda>s. usb_device_set_status L t w (u s))"
  by (rule keeps_update [OF _ set_status_keeps])

lemma keeps_at: "(\<And>x. keeps_queues L (f x)) \<Longrightarrow> keeps_queues L (\<lambda>s. f s s)"
  unfolding keeps_queues_def by blast

lemma set_status_at: "keeps_queues L (\<lambda>s. usb_device_set_status L (t s) (w s) s)"
  by (rule keeps_at [of L "\<lambda>x. usb_device_set_status L (t x) (w x)"]) (rule set_status_keeps)

lemma queue_part_update [simp]:
  "queue_part (s\<lparr>usDataToSend := w\<rparr>) = queue_part s" "queue_part (s\<lparr>usUsbDeviceState := w\<rparr>) = queue_part s"
  "queue_part (s\<lparr>bEnterTestMode := w\<rparr>) = queue_part s" "queue_part (s\<lparr>usTestModeIndex := w\<rparr>) = queue_part s"
  "queue_part (s\<lparr>btNewAddress := w\<rparr>) = queue_part s" "queue_part (s\<lparr>app_status := w\<rparr>) = queue_part s"
  "queue_part (s\<lparr>g_bUsbConfigured := b\<rparr>) = queue_part s" "queue_part (s\<lparr>s_btStatusPhase := b\<rparr>) = queue_part s"
  by (simp_all add: queue_part_def)

lemmas keeps_rules = keeps_if keeps_bind keeps_send_update recv_keeps keeps_Some

lemma GetStatus_keeps: "keeps_queues L (ch9GetStatus L setup p)"
  unfolding ch9GetStatus_def by (intro keeps_rules) simp_all

lemma ClearFeature_keeps: "keeps_queues L (ch9ClearFeature L setup p)"
proof -
  have u: "queue_part (if endpoint_of p = 0 then unstall_all s else usb_dci_unstall_endpoint (endpoint_of p) (direction_of p) s) = queue_part s" for s
    by simp
  show ?thesis
    unfolding ch9ClearFeature_def by (intro keeps_rules u) simp_all
qed

lemma SetAddress_keeps: "keeps_queues L (ch9SetAddress L setup p)"
  unfolding ch9SetAddress_def by (intro keeps_rules set_status_at) simp_all

lemma GetConfig_keeps: "keeps_queues L (ch9GetConfig L setup p)"
  unfolding ch9GetConfig_def by (intro keeps_rules) simp_all

lemma GetInterface_keeps: "keeps_queues L (ch9GetInterface L setup p)"
  unfolding ch9GetInterface_def by (intro keeps_rules) simp_all

lemma SetFeature_keeps:
  assumes "\<And>h c. keeps_queues L (app h c)"
  shows "keeps_queues L (ch9SetFeature L app setup p)"
proof -
  have c: "keeps_queues L (\<lambda>s. do {
      s \<leftarrow> usb_device_set_status L USB_STATUS_TEST_MODE (usTestModeIndex s) s;
      s \<leftarrow> map_option snd (usb_device_call_service app USB_SERVICE_TEST no_data s);
      Some s })"
    by (intro keeps_bind set_status_at call_service_keeps assms keeps_Some) simp
  show ?thesis
    unfolding ch9SetFeature_def Let_def bind_snd by (intro keeps_rules c) simp_all
qed

lemma SetConfig_keeps:
  assumes "\<And>h c. keeps_queues L (app h c)"
  shows "keeps_queues L (ch9SetConfig L app setup p)"
  unfolding ch9SetConfig_def Let_def bind_snd
  by (intro keeps_rules keeps_call_update assms keeps_set_update set_status_keeps send_keeps)
    simp_all

lemma SetInterface_keeps:
  assumes "\<And>h c. keeps_queues L (app h c)"
  shows "keeps_queues L (ch9SetInterface L app setup p)"
  unfolding ch9SetInterface_def Let_def bind_snd
  by (intro keeps_rules keeps_call_update assms keeps_set_update set_status_keeps send_keeps)
    simp_all

end
