(* ===== verification/UsbApp.thy ===== *)
theory UsbApp imports UsbSound UsbDesc begin

text \<open>
  The application of the USB device: what the stack relies on when it calls a service, as a locale, and the
  programs of calls of \<^verbatim>\<open>usb_api.h\<close> that give it.
\<close>

section \<open>The requests with an application\<close>

lemma keeps_bind_val:
  assumes "keeps_queues L (\<lambda>s. map_option snd (f s))" and "\<And>x. keeps_queues L (g x)"
  shows "keeps_queues L (\<lambda>s. do { (x, s) \<leftarrow> f s; g x s })"
  unfolding keeps_queues_def
proof (intro allI impI, elim conjE)
  fix s Q C s' assume S: "sound L s Q C" and "(f s \<bind> (\<lambda>(x, s). g x s)) = Some s'"
  then obtain x s1 where f: "f s = Some (x, s1)" and g: "g x s1 = Some s'" by (auto simp: bind_eq_Some_conv)
  then obtain Q1 where Q1: "sound L s1 Q1 C" "grows s Q s1 Q1" using assms(1) S unfolding keeps_queues_def by fastforce
  then obtain Q2 where "sound L s' Q2 C" "grows s1 Q1 s' Q2" using assms(2) [of x] g unfolding keeps_queues_def by blast
  then show "\<exists>Q'. sound L s' Q' C \<and> grows s Q s' Q'" using grows_trans Q1(2) by blast
qed

lemma send_at: "keeps_queues L (\<lambda>s. send L a (n s) priv s)"
  by (rule keeps_at [of L "\<lambda>x. send L a (n x) priv"]) (rule send_keeps)

lemma GetDescription_keeps:
  assumes "\<And>t v i. keeps_queues L (\<lambda>s. map_option snd (gd t v i s))"
  shows "keeps_queues L (ch9GetDescription L gd setup p)"
proof -
  have g: "keeps_queues L (\<lambda>s. map_option snd (gd t (btSpeed s) i s))" for t i
    by (rule keeps_at [of L "\<lambda>x s. map_option snd (gd t (btSpeed x) i s)"]) (rule assms)
  have c: "keeps_queues L (\<lambda>s. case x of None \<Rightarrow> Some s | Some a \<Rightarrow>
      if wLength p = 0 then Some (usb_dci_stall_endpoint 0 USB_IN s) else send L a (n s) 1 s)" for x n
    by (cases x) (simp_all add: keeps_if keeps_Some send_at)
  show ?thesis
    unfolding ch9GetDescription_def Let_def
    by (intro keeps_if keeps_bind_val g keeps_bind c recv_keeps keeps_Some) (simp_all add: usb_device_data_phase_required_def)
qed

text \<open>The words that say which configuration the host has set; the application leaves them to the stack.\<close>

definition config_part :: "usb \<Rightarrow> WORD \<times> WORD \<times> WORD" where
  "config_part s = (usUsbState s, usUsbStatePriorSusp s, btCurConfig s)"

locale usb_application =
  fixes D :: device
  assumes run_keeps: "keeps_queues (lay D) (run D h c)"
    and desc_keeps: "keeps_queues (lay D) (\<lambda>s. map_option snd (get_descriptor D t v i s))"
    and run_config: "run D h c s = Some s' \<Longrightarrow> config_part s' = config_part s"
    and desc_config: "get_descriptor D t v i s = Some (x, s') \<Longrightarrow> config_part s' = config_part s"
begin

lemma standard_request_keeps: "keeps_queues (lay D) (standard_request D setup p)"
  unfolding standard_request_def Let_def
  by (intro keeps_if GetStatus_keeps ClearFeature_keeps SetFeature_keeps SetAddress_keeps GetDescription_keeps GetConfig_keeps
      SetConfig_keeps GetInterface_keeps SetInterface_keeps run_keeps desc_keeps)
    (simp_all add: ch9SetDescription_def [abs_def] ch9SynchFrame_def [abs_def] keeps_Some)

lemma ch9ServiceEp0_keeps: "keeps_queues (lay D) (ch9ServiceEp0 D c)"
proof -
  let ?u = "\<lambda>s. if bSetup c then usb_dci_finish_transaction 0 (usb_dci_get_setup_data 0 s) else s"
  have "keeps_queues (lay D) (\<lambda>s. if req_type (g_SetupData s 0) = 0 then standard_request D (bSetup c) (g_SetupData s 0) s
      else Some (usb_dci_stall_endpoint 0 USB_OUT s))"
    by (intro keeps_if keeps_at [of _ "\<lambda>x. standard_request D (bSetup c) (g_SetupData x 0)"] standard_request_keeps keeps_Some) simp
  then have "keeps_queues (lay D) (\<lambda>s. (\<lambda>s. if req_type (g_SetupData s 0) = 0 then standard_request D (bSetup c) (g_SetupData s 0) s
      else Some (usb_dci_stall_endpoint 0 USB_OUT s)) (?u s))"
    by (rule keeps_update [rotated]) simp
  then show ?thesis by (simp add: ch9ServiceEp0_def [abs_def] Let_def)
qed

lemma service_keeps: "keeps_queues (lay D) (service D h c)"
  unfolding service_def [abs_def] by (intro keeps_if ch9ServiceEp0_keeps run_keeps)

lemma call_keeps: "keeps_queues (lay D) (call D t c)"
  unfolding call_def [abs_def] by (rule call_service_keeps) (rule service_keeps)

lemma ProcessEndptSetup_keeps: "keeps_queues (lay D) (ProcessEndptSetup D w)"
proof -
  have "keeps_queues (lay D) (\<lambda>s. foldl (\<lambda>r i. do { s \<leftarrow> r; (if w AND push_bit i 1 \<noteq> 0 then call D (of_nat i) (c i) s else Some s) }) (Some s) is)"
    for "is" c
  proof (induction "is" rule: rev_induct)
    case (snoc i "is")
    show ?case
      unfolding foldl_append foldl.simps by (intro keeps_bind snoc keeps_if call_keeps keeps_Some) simp
  qed (simp add: keeps_Some)
  from keeps_if [OF keeps_Some this, of "\<lambda>s. s"] show ?thesis
    unfolding ProcessEndptSetup_def [abs_def] by simp
qed

end

section \<open>Applications\<close>

text \<open>
  A service of the application as a program of calls of \<^verbatim>\<open>usb_api.h\<close>: after every call it looks at the state and goes on.
  The transfers are not those of a data phase.
\<close>

datatype api_call =
    Send nat WORD WORD WORD WORD
  | Recv nat WORD WORD WORD WORD
  | Stall nat usb_dir
  | Unstall nat usb_dir
  | Init_endpoint nat usb_dir WORD
  | Hold
  | Release
  | Data_phase_required
  | Answer WORD

datatype program = Finish | Then api_call "usb \<Rightarrow> program"

fun api :: "layout \<Rightarrow> api_call \<Rightarrow> usb \<Rightarrow> usb option" where
  "api L (Send ep a off sz priv) s = map_option snd (usb_device_send_data L ep a off sz priv False s)"
| "api L (Recv ep a off sz priv) s = map_option snd (usb_device_recv_data L ep a off sz priv False s)"
| "api L (Stall ep d) s = Some (usb_dci_stall_endpoint ep d s)"
| "api L (Unstall ep d) s = Some (usb_dci_unstall_endpoint ep d s)"
| "api L (Init_endpoint ep d t) s = Some (snd (usb_dci_init_endpoint ep d t s))"
| "api L Hold s = Some (usb_device_hold s)"
| "api L Release s = usb_device_release L s"
| "api L Data_phase_required s = Some (usb_device_data_phase_required s)"
| "api L (Answer w) s = Some (s\<lparr>app_status := w\<rparr>)"

primrec run_program :: "layout \<Rightarrow> program \<Rightarrow> usb \<Rightarrow> usb option" where
  "run_program L Finish = Some"
| "run_program L (Then a k) = (\<lambda>s. do { s \<leftarrow> api L a s; run_program L (k s) s })"

definition api_device :: "layout \<Rightarrow> (nat \<Rightarrow> usb_call \<Rightarrow> usb \<Rightarrow> program) \<Rightarrow> put_byte \<Rightarrow> descriptors \<Rightarrow> device" where
  "api_device L prog put T = \<lparr>lay = L, run = (\<lambda>h c s. run_program L (prog h c s) s), get_descriptor = GetDescriptor put T L\<rparr>"

lemma release_keeps: "keeps_queues L (usb_device_release L)"
proof -
  have "keeps_queues L (\<lambda>s. if s_btStatusPhase s
      then do { s \<leftarrow> map_option snd (usb_device_transfer_data L 0 0 0 0 0 False USB_OUT s); Some (s\<lparr>s_btStatusPhase := False\<rparr>) } else Some s)"
    by (intro keeps_if keeps_bind transfer_keeps keeps_Some) simp_all
  from keeps_update [OF _ this, of "\<lambda>s. s\<lparr>s_btHoldOffEP0 := False\<rparr>"] show ?thesis
    unfolding usb_device_release_def [abs_def] usb_device_recv_data_def bind_snd Let_def by (simp add: queue_part_def)
qed

lemma api_keeps: "keeps_queues L (api L a)"
proof (cases a)
  case (Send ep w off sz priv)
  have "api L a = (\<lambda>s. map_option snd (usb_device_transfer_data L ep w off sz priv False USB_IN s))" by (simp add: Send fun_eq_iff usb_device_send_data_def)
  then show ?thesis using transfer_keeps by simp
next
  case (Recv ep w off sz priv)
  have "api L a = (\<lambda>s. map_option snd (usb_device_transfer_data L ep w off sz priv False USB_OUT s))" by (simp add: Recv fun_eq_iff usb_device_recv_data_def)
  then show ?thesis using transfer_keeps by simp
next
  case (Init_endpoint ep d t)
  then show ?thesis by (intro keeps_same) (auto simp: usb_dci_init_endpoint_def Let_def queue_part_def split: if_splits)
next
  case Release
  have "api L a = usb_device_release L" by (simp add: Release fun_eq_iff)
  then show ?thesis using release_keeps by simp
qed (intro keeps_same; auto simp: usb_device_hold_def usb_device_data_phase_required_def queue_part_def usb_dci_stall_endpoint_def
  usb_dci_unstall_endpoint_def Let_def)+

lemma transfer_config:
  "usb_device_transfer_data L ep a off sz priv phase d s = Some (e, s') \<Longrightarrow> config_part s' = config_part s"
  by (auto simp: usb_device_transfer_data_def usb_dci_transfer_data_def GetEmptyXd_def AddXdToQueue_def FreeXd_def Let_def config_part_def
      bind_eq_Some_conv split: if_splits option.splits)

lemma api_config: "api L a s = Some s' \<Longrightarrow> config_part s' = config_part s"
proof (cases a)
  case Release
  assume "api L a s = Some s'"
  then show ?thesis
    using transfer_config [where s = "s\<lparr>s_btHoldOffEP0 := False\<rparr>"]
    by (auto simp: Release usb_device_release_def usb_device_recv_data_def Let_def config_part_def bind_eq_Some_conv split: if_splits)
qed (auto simp: usb_device_send_data_def usb_device_recv_data_def usb_dci_stall_endpoint_def usb_dci_unstall_endpoint_def Let_def
  usb_dci_init_endpoint_def usb_device_hold_def usb_device_data_phase_required_def config_part_def dest!: transfer_config split: if_splits)

lemma program_keeps: "keeps_queues L (run_program L p)"
proof (induction p)
  case Finish
  show ?case using keeps_Some [of "\<lambda>s. s" L] by (simp add: eta_contract_eq)
next
  case (Then a k)
  have "keeps_queues L (\<lambda>s. run_program L (k s) s)"
    by (rule keeps_at [of L "\<lambda>x. run_program L (k x)"]) (rule Then [OF rangeI])
  then show ?case using keeps_bind [OF api_keeps] by simp
qed

lemma program_config: "run_program L p s = Some s' \<Longrightarrow> config_part s' = config_part s"
proof (induction p arbitrary: s)
  case (Then a k)
  then obtain s1 where s1: "api L a s = Some s1" "run_program L (k s1) s1 = Some s'" by (auto simp: bind_eq_Some_conv)
  then show ?case using Then.IH [OF rangeI s1(2)] api_config by simp
qed simp

interpretation api_application: usb_application "api_device L prog put T" for L prog put T
proof
  show "keeps_queues (lay (api_device L prog put T)) (run (api_device L prog put T) h c)" for h c
    using keeps_at [of L "\<lambda>x. run_program L (prog h c x)"] program_keeps by (simp add: api_device_def)
  show "keeps_queues (lay (api_device L prog put T)) (\<lambda>s. map_option snd (get_descriptor (api_device L prog put T) t v i s))" for t v i
    by (rule keeps_same) (auto simp: api_device_def queue_part_def dest: GetDescriptor_same)
  show "run (api_device L prog put T) h c s = Some s' \<Longrightarrow> config_part s' = config_part s" for h c s s'
    using program_config by (simp add: api_device_def)
  show "get_descriptor (api_device L prog put T) t v i s = Some (x, s') \<Longrightarrow> config_part s' = config_part s" for t v i s x s'
    by (auto simp: api_device_def config_part_def dest!: GetDescriptor_same)
qed

end
