(* ===== verification/UsbComplete.thy ===== *)
theory UsbComplete imports UsbApp begin

text \<open>
  Completions: the service of the endpoint is called for the oldest request of its queue, that request leaves the
  queue and the next one goes to the controller.
\<close>

section \<open>One completion\<close>

text \<open>What the service is told about a completed request.\<close>

definition completion :: "nat \<times> usb_dir \<Rightarrow> request \<Rightarrow> dTD_struct \<Rightarrow> usb_call" where
  "completion q r t = (case r of (a, off, sz, priv) \<Rightarrow>
     \<lparr>bSetup = False, cDirection = snd q, cBuffer = a,
      cLength = if usStatusIoc t AND USB_EP_dTD_ACTIVE \<noteq> 0 then 0 else sz - usTotalBytes t, cPrivate = priv\<rparr>)"

definition finished :: "nat \<times> usb_dir \<Rightarrow> nat \<Rightarrow> usb \<Rightarrow> usb" where
  "finished q i s =
     (let t = dTDs s q; active = usStatusIoc t AND USB_EP_dTD_ACTIVE \<noteq> 0
      in s\<lparr>g_XdPool := (g_XdPool s)[i := (g_XdPool s ! i)\<lparr>btStatus := if active then TRANSFER_IN_PROGRESS
             else if usStatusIoc t AND USB_EP_dTD_NO_ERROR \<noteq> 0 then TRANSFER_ERROR else TRANSFER_SUCCESS\<rparr>],
           dTDs := if active then dTDs s else (dTDs s)(q := t\<lparr>usStatusIoc := 0\<rparr>)\<rparr>)"

definition next_transfer :: "layout \<Rightarrow> nat \<times> usb_dir \<Rightarrow> nat \<Rightarrow> usb \<Rightarrow> usb" where
  "next_transfer L q i s =
     (let s = FreeXd i (s\<lparr>g_dXD_Queues := (g_dXD_Queues s)(q := pNext (g_XdPool s ! i))\<rparr>)
      in case g_dXD_Queues s q of None \<Rightarrow> s | Some j \<Rightarrow> snd (usb_dci_transfer_data L j s))"

lemma complete_one_steps:
  assumes "g_dXD_Queues s q = Some i" and "fst q < MAX_NUM_EP" and "i < length (g_XdPool s)"
  shows "complete_one D q s =
    do { s \<leftarrow> call D (of_nat (fst q)) (completion q (request_of (g_XdPool s ! i)) (dTDs s q)) (finished q i s);
         Some (next_transfer (lay D) q i s) }"
  using assms
  by (simp add: complete_one_def finished_def completion_def request_of_def next_transfer_def Let_def)

lemma finished_sound:
  assumes S: "sound L s Q C" and q: "Q q = i # is"
  shows "sound L (finished q i s) Q C" and "requests (finished q i s) Q = requests s Q"
proof -
  let ?s = "finished q i s"
  have rep: "queues_rep s Q" using S by (simp add: sound_def)
  note D = queues_repD [OF rep]
  have i: "i \<in> set (Q q)" "i < length (g_XdPool s)" using q D(1) D(4) [of i q] by auto
  have st: "g_XdPool ?s ! j = (if j = i then (g_XdPool s ! i)\<lparr>btStatus := btStatus (g_XdPool ?s ! i)\<rparr> else g_XdPool s ! j)" for j
    using i(2) by (simp add: finished_def Let_def)
  have len: "length (g_XdPool ?s) = length (g_XdPool s)" by (simp add: finished_def Let_def)
  have busy: "btStatus (g_XdPool ?s ! i) \<noteq> TRANSFER_IDLE" using i(2) by (simp add: finished_def Let_def)
  have same: "pNext (g_XdPool ?s ! j) = pNext (g_XdPool s ! j)" "btEndpointNum (g_XdPool ?s ! j) = btEndpointNum (g_XdPool s ! j)"
      "btDirection (g_XdPool ?s ! j) = btDirection (g_XdPool s ! j)" "bIsDataPhase (g_XdPool ?s ! j) = bIsDataPhase (g_XdPool s ! j)"
      "request_of (g_XdPool ?s ! j) = request_of (g_XdPool s ! j)" for j
    by (subst st, simp add: request_of_def)+
  have idle: "btStatus (g_XdPool ?s ! j) = TRANSFER_IDLE \<longleftrightarrow> btStatus (g_XdPool s ! j) = TRANSFER_IDLE" for j
    using st [of j] busy D(4) [OF i(1)] by (cases "j = i") auto
  have rest: "g_dXD_Queues ?s = g_dXD_Queues s" "endptprime ?s = endptprime s" "endptstatus ?s = endptstatus s"
    by (simp_all add: finished_def Let_def)
  show R: "requests ?s Q = requests s Q" by (simp add: requests_def fun_eq_iff same)
  have rep': "queues_rep ?s Q" using rep unfolding queues_rep_def len rest same idle .
  have "at_controller L (dTDs ?s x) r = at_controller L (dTDs s x) r" for x r
    by (simp add: finished_def Let_def at_controller_def)
  then show "sound L ?s Q C" using S by (simp add: sound_def rest rep' R)
qed

lemma next_transfer_sound:
  assumes S: "sound L s Q C" and C: "q \<in> C" and q: "Q q = i # is"
  defines "Q' \<equiv> Q(q := is)"
  shows "sound L (next_transfer L q i s) Q' (C - {q})"
    and "requests (next_transfer L q i s) Q' = (requests s Q)(q := tl (requests s Q q))"
proof -
  have rep: "queues_rep s Q" using S by (simp add: sound_def)
  let ?u = "FreeXd i (s\<lparr>g_dXD_Queues := (g_dXD_Queues s)(q := pNext (g_XdPool s ! i))\<rparr>)"
  have rep': "queues_rep ?u Q'" and R: "requests ?u Q' = (requests s Q)(q := tl (requests s Q q))"
  proof -
    have u: "g_XdPool ?u = (g_XdPool s)[i := (g_XdPool s ! i)\<lparr>btStatus := TRANSFER_IDLE, pNext := None\<rparr>]"
      "g_dXD_Queues ?u = (g_dXD_Queues s)(q := pNext (g_XdPool s ! i))"
      by (simp_all add: FreeXd_def)
    show "queues_rep ?u Q'" "requests ?u Q' = (requests s Q)(q := tl (requests s Q q))"
      unfolding Q'_def by (rule queue_pop [where x = "(g_XdPool s ! i)\<lparr>btStatus := TRANSFER_IDLE, pNext := None\<rparr>", OF rep q u(1) _ u(2)], simp)+
  qed
  have fst: "fst q < MAX_NUM_EP" using queues_repD(6) [OF rep, of q] q by simp
  have part: "dTDs ?u = dTDs s" "endptprime ?u = endptprime s" "endptstatus ?u = endptstatus s" by (simp_all add: FreeXd_def)
  note Q = soundD(2) [OF S] and D = soundD(3) [OF S] and T = soundD(4) [OF S]
  have stopped: "\<not> endptprime s q" "\<not> endptstatus s q" using D [OF C] by simp_all
  have other: "Q' x = Q x" "requests ?u Q' x = requests s Q x" if "x \<noteq> q" for x
    using that unfolding R by (simp_all add: Q'_def)
  have head: "g_dXD_Queues ?u q = (case is of [] \<Rightarrow> None | j # js \<Rightarrow> Some j)"
    using head_of_queue [OF rep' fst] by (simp add: Q'_def)
  show "sound L (next_transfer L q i s) Q' (C - {q})" and "requests (next_transfer L q i s) Q' = (requests s Q)(q := tl (requests s Q q))"
  proof -
    let ?n = "next_transfer L q i s"
    consider "is = []" | j js where "is = j # js" by (cases "is") auto
    then have "sound L ?n Q' (C - {q}) \<and> requests ?n Q' = requests ?u Q'"
    proof cases
      case 1
      then have n: "?n = ?u" using head by (simp add: next_transfer_def Let_def)
      have "sound L ?u Q' (C - {q})"
        unfolding sound_def
      proof (intro conjI allI impI ballI)
        fix x show "Q' x \<noteq> [] \<longleftrightarrow> endptprime ?u x \<or> endptstatus ?u x \<or> x \<in> C - {q}"
          using Q [of x] stopped 1 by (cases "x = q") (simp_all add: Q'_def part)
      next
        fix x assume "Q' x \<noteq> []"
        then have "x \<noteq> q" "Q x \<noteq> []" using 1 by (auto simp: Q'_def split: if_splits)
        then show "at_controller L (dTDs ?u x) (hd (requests ?u Q' x))" using T [of x] other [of x] by (simp add: part)
      qed (use rep' D in \<open>auto simp: part\<close>)
      then show ?thesis by (simp add: n)
    next
      case 2
      have j: "j < length (g_XdPool ?u)" "\<not> bIsDataPhase (g_XdPool ?u ! j)" "q = (btEndpointNum (g_XdPool ?u ! j), btDirection (g_XdPool ?u ! j))"
        using queues_repD(1) [OF rep'] queues_repD(4) [OF rep', of j q] 2 by (auto simp: Q'_def)
      have h: "g_dXD_Queues ?u q = Some j" using head 2 by simp
      let ?r = "request_of (g_XdPool ?u ! j)"
      have n: "?n = ?u\<lparr>g_dXD_Queues := (g_dXD_Queues ?u)(q := Some j), dTDs := (dTDs ?u)(q := started L ?r), endptprime := (endptprime ?u)(q := True)\<rparr>"
        using h dci_transfer [OF j] by (simp add: next_transfer_def Let_def)
      have "(g_dXD_Queues ?u)(q := Some j) = g_dXD_Queues ?u" using h by (rule fun_upd_idem)
      then have e: "g_XdPool ?n = g_XdPool ?u" "g_dXD_Queues ?n = g_dXD_Queues ?u" "dTDs ?n = (dTDs s)(q := started L ?r)"
          "endptprime ?n = (endptprime s)(q := True)" "endptstatus ?n = endptstatus s"
        by (simp_all add: n part)
      have R': "requests ?n Q' = requests ?u Q'" by (simp add: requests_def fun_eq_iff e)
      have hd: "hd (requests ?u Q' q) = ?r" using 2 by (simp add: requests_def Q'_def)
      have "sound L ?n Q' (C - {q})"
        unfolding sound_def
      proof (intro conjI allI impI ballI)
        show "queues_rep ?n Q'" using rep' queues_rep_cong [OF e(1,2)] by simp
      next
        fix x show "Q' x \<noteq> [] \<longleftrightarrow> endptprime ?n x \<or> endptstatus ?n x \<or> x \<in> C - {q}"
          using Q [of x] 2 by (cases "x = q") (simp_all add: Q'_def e)
      next
        fix x assume "Q' x \<noteq> []"
        then show "at_controller L (dTDs ?n x) (hd (requests ?n Q' x))"
          using T [of x] other [of x] hd by (cases "x = q") (simp_all add: e R' at_controller_def)
      qed (use D in \<open>auto simp: e\<close>)
      then show ?thesis by (simp add: R')
    qed
    then show "sound L ?n Q' (C - {q})" and "requests ?n Q' = (requests s Q)(q := tl (requests s Q q))" by (simp_all add: R)
  qed
qed

text \<open>What completions of the queues \<open>P\<close> do to the requests, with what the services add at the ends.\<close>

definition served :: "(nat \<times> usb_dir) set \<Rightarrow> usb \<Rightarrow> (nat \<times> usb_dir \<Rightarrow> nat list) \<Rightarrow> usb \<Rightarrow> (nat \<times> usb_dir \<Rightarrow> nat list) \<Rightarrow> bool" where
  "served P s Q s' Q' \<longleftrightarrow> (\<forall>x. \<exists>rs. requests s' Q' x = (if x \<in> P then tl (requests s Q x) else requests s Q x) @ rs)"

context usb_application
begin

lemma complete_one_fifo:
  assumes S: "sound (lay D) s Q C" and C: "q \<in> C" and c: "complete_one D q s = Some s'"
  shows "\<exists>Q'. sound (lay D) s' Q' (C - {q}) \<and> served {q} s Q s' Q'"
proof -
  let ?L = "lay D"
  have rep: "queues_rep s Q" using S by (simp add: sound_def)
  have "Q q \<noteq> []" using S C unfolding sound_def by blast
  then obtain i "is" where q: "Q q = i # is" by (cases "Q q") auto
  have fst: "fst q < MAX_NUM_EP" using queues_repD(6) [OF rep, of q] q by simp
  have "g_dXD_Queues s q = Some i" using head_of_queue [OF rep fst] q by simp
  moreover have "i < length (g_XdPool s)" using queues_repD(1) [OF rep] queues_repD(4) [OF rep, of i q] q by simp
  ultimately obtain c2 s2 where s2: "call D (of_nat (fst q)) c2 (finished q i s) = Some s2" "s' = next_transfer ?L q i s2"
    using c complete_one_steps [OF _ fst] by (auto simp: bind_eq_Some_conv)
  obtain Q1 where Q1: "sound ?L s2 Q1 C" "grows (finished q i s) Q s2 Q1"
    using call_keeps finished_sound(1) [OF S q] s2(1) unfolding keeps_queues_def by blast
  obtain js ts where Q1q: "Q1 q = i # (is @ js)" and ts: "requests s2 Q1 q = requests s Q q @ ts"
    using Q1(2) q finished_sound(2) [OF S q] unfolding grows_def by (metis append_Cons)
  note n = next_transfer_sound [OF Q1(1) C Q1q]
  have ne: "requests s Q q \<noteq> []" using q by (simp add: requests_def)
  have "\<exists>rs. requests s' (Q1(q := is @ js)) x = (if x \<in> {q} then tl (requests s Q x) else requests s Q x) @ rs" for x
  proof (cases "x = q")
    case True
    then show ?thesis using n(2) ts ne by (simp add: s2(2))
  next
    case False
    moreover obtain us where "requests s2 Q1 x = requests s Q x @ us"
      using Q1(2) finished_sound(2) [OF S q] unfolding grows_def by metis
    ultimately show ?thesis using n(2) by (simp add: s2(2))
  qed
  then have "served {q} s Q s' (Q1(q := is @ js))" unfolding served_def by blast
  then show ?thesis using n(1) s2(2) by blast
qed

end

end
