(* ===== verification/UsbLoop.thy ===== *)
theory UsbLoop imports UsbComplete begin

unbundle bit_operations_syntax

text \<open>
  The walk over the completed endpoints: the interplay of the counter, the mask and the two words visits every
  pending queue once, in the order of the endpoints and the receiving direction first.
\<close>

section \<open>The walk visits each queue once\<close>

fun complete_each :: "device \<Rightarrow> (nat \<times> usb_dir) list \<Rightarrow> usb \<Rightarrow> usb option" where
  "complete_each D [] s = Some s"
| "complete_each D (q # qs) s = do { s \<leftarrow> complete_one D q s; complete_each D qs s }"

lemma complete_each_append: "complete_each D (qs @ rs) s = do { s \<leftarrow> complete_each D qs s; complete_each D rs s }"
proof (induction qs arbitrary: s)
  case (Cons q qs)
  then show ?case by (cases "complete_one D q s") simp_all
qed simp

definition pending :: "WORD \<Rightarrow> WORD \<Rightarrow> (nat \<times> usb_dir) list" where
  "pending wRx wTx = filter (\<lambda>q. bit (if snd q = USB_OUT then wRx else wTx) (fst q)) all_queues"

lemma set_pending: "q \<in> set (pending wRx wTx) \<longleftrightarrow> fst q < MAX_NUM_EP \<and> bit (if snd q = USB_OUT then wRx else wTx) (fst q)"
  using set_all_queues by (auto simp: pending_def)

lemma distinct_pending: "distinct (pending wRx wTx)"
  by (simp add: pending_def distinct_all_queues)

lemma and_not_push_bit: "w AND NOT (push_bit i 1) = unset_bit i w" for w :: WORD
  by (rule bit_word_eqI) (auto simp: bit_simps)

lemma unset_bit_idem: "\<not> bit w i \<Longrightarrow> unset_bit i w = w" for w :: WORD
  by (rule bit_word_eqI) (auto simp: bit_simps)

lemma complete_loop_end: "complete_loop (Suc n) D i m 0 0 w s = Some s"
  by simp

text \<open>One endpoint takes two turns.\<close>

lemma complete_loop_endpoint:
  assumes i: "i < MAX_NUM_EP"
  shows "complete_loop (Suc (Suc (Suc n))) D (int i) (push_bit i 1) Rx Tx Rx s =
    do { s \<leftarrow> complete_each D (filter (\<lambda>q. bit (if snd q = USB_OUT then Rx else Tx) (fst q)) [(i, USB_OUT), (i, USB_IN)]) s;
         complete_loop (Suc n) D (int (Suc i)) (push_bit (Suc i) 1) (unset_bit i Rx) (unset_bit i Tx) (unset_bit i Rx) s }"
proof -
  have i4: "i < 4" using i by (simp add: MAX_NUM_EP_def)
  have m: "push_bit i 1 * 2 = (push_bit (Suc i) 1 :: WORD)" by (simp add: push_bit_eq_mult)
  have out: "(if w AND push_bit i 1 \<noteq> 0 then if int i < 0 then None
        else do { s \<leftarrow> complete_one D (if int i > 15 then (nat (int i - 16), USB_IN) else (nat (int i), USB_OUT)) s; Some (w AND NOT (push_bit i 1), s) }
      else Some (w, s)) =
      do { s \<leftarrow> (if bit w i then complete_one D (i, USB_OUT) s else Some s); Some (unset_bit i w, s) }" for w :: WORD and s
    using i4 by (simp only: bit_iff_and_push_bit_not_eq_0 [symmetric] and_not_push_bit) (simp add: unset_bit_idem)
  have into: "(if w AND push_bit i 1 \<noteq> 0 then if int i + 16 < 0 then None
        else do { s \<leftarrow> complete_one D (if int i + 16 > 15 then (nat (int i + 16 - 16), USB_IN) else (nat (int i + 16), USB_OUT)) s; Some (w AND NOT (push_bit i 1), s) }
      else Some (w, s)) =
      do { s \<leftarrow> (if bit w i then complete_one D (i, USB_IN) s else Some s); Some (unset_bit i w, s) }" for w :: WORD and s
    using i4 by (simp only: bit_iff_and_push_bit_not_eq_0 [symmetric] and_not_push_bit) (simp add: unset_bit_idem)
  have second: "complete_loop (Suc (Suc n)) D (int i + 16) (push_bit i 1) Rx' Tx Tx s =
      do { s \<leftarrow> (if bit Tx i then complete_one D (i, USB_IN) s else Some s);
           complete_loop (Suc n) D (int (Suc i)) (push_bit (Suc i) 1) Rx' (unset_bit i Tx) Rx' s }" for Rx' s
  proof (cases "Tx = 0 \<and> Rx' = 0")
    case False
    have "int i + 16 < 32" "\<not> int i + 16 < int MAX_NUM_EP" "int i + 16 - 15 = int (Suc i)" using i4 by (simp_all add: MAX_NUM_EP_def)
    then show ?thesis using False by (simp only: complete_loop.simps(2) into m) (simp add: Option.bind_assoc)
  qed simp
  have first: "complete_loop (Suc (Suc (Suc n))) D (int i) (push_bit i 1) Rx Tx Rx s =
      do { s \<leftarrow> (if bit Rx i then complete_one D (i, USB_OUT) s else Some s);
           complete_loop (Suc (Suc n)) D (int i + 16) (push_bit i 1) (unset_bit i Rx) Tx Tx s }"
  proof (cases "Tx = 0 \<and> Rx = 0")
    case False
    have "int i < 32" "int i < int MAX_NUM_EP" using i4 by (simp_all add: MAX_NUM_EP_def)
    then show ?thesis using False by (simp only: complete_loop.simps(2) out) (simp add: Option.bind_assoc)
  qed simp
  show ?thesis
    unfolding first second by (cases "bit Rx i"; cases "bit Tx i") (simp_all add: Option.bind_assoc del: complete_loop.simps)
qed


lemma bits_below: "w < 16 \<Longrightarrow> bit w j \<Longrightarrow> j < 4" for w :: WORD
proof -
  assume w: "w < 16" and b: "bit w j"
  have "unat w < 2 ^ 4" using w by (simp add: word_less_nat_alt)
  then have "unat (take_bit 4 w) = unat w" by (simp only: unsigned_take_bit_eq take_bit_nat_eq_self)
  then have "take_bit 4 w = w" by (simp only: word_unat_eq_iff)
  then show "j < 4" using b bit_take_bit_iff [of 4 w j] by simp
qed

lemma complete_loop_from:
  assumes "i + k = MAX_NUM_EP" and "\<And>j. bit Rx j \<or> bit Tx j \<Longrightarrow> i \<le> j \<and> j < MAX_NUM_EP"
  shows "complete_loop (Suc (2 * k + m)) D (int i) (push_bit i 1) Rx Tx Rx s =
    complete_each D (filter (\<lambda>q. bit (if snd q = USB_OUT then Rx else Tx) (fst q)) (concat (map (\<lambda>i. [(i, USB_OUT), (i, USB_IN)]) [i..<MAX_NUM_EP]))) s"
  using assms
proof (induction k arbitrary: i Rx Tx s)
  case 0
  then have "\<not> bit Rx j" "\<not> bit Tx j" for j by fastforce+
  then have "Rx = 0" "Tx = 0" by (auto intro: bit_word_eqI)
  then show ?case using 0 by simp
next
  case (Suc k)
  let ?qs = "concat (map (\<lambda>i. [(i, USB_OUT), (i, USB_IN)]) [Suc i..<MAX_NUM_EP])"
  have i: "i < MAX_NUM_EP" using Suc.prems(1) by simp
  have n: "Suc (2 * Suc k + m) = Suc (Suc (Suc (2 * k + m)))" by simp
  have same: "filter (\<lambda>q. bit (if snd q = USB_OUT then unset_bit i Rx else unset_bit i Tx) (fst q)) ?qs =
      filter (\<lambda>q. bit (if snd q = USB_OUT then Rx else Tx) (fst q)) ?qs"
    by (rule filter_cong [OF refl]) (auto simp: bit_simps)
  have IH: "complete_loop (Suc (2 * k + m)) D (int (Suc i)) (push_bit (Suc i) 1) (unset_bit i Rx) (unset_bit i Tx) (unset_bit i Rx) s =
      complete_each D (filter (\<lambda>q. bit (if snd q = USB_OUT then Rx else Tx) (fst q)) ?qs) s" for s
    unfolding same [symmetric]
  proof (rule Suc.IH)
    fix j assume "bit (unset_bit i Rx) j \<or> bit (unset_bit i Tx) j"
    then have "bit Rx j \<or> bit Tx j" "j \<noteq> i" by (auto simp: bit_simps)
    then show "Suc i \<le> j \<and> j < MAX_NUM_EP" using Suc.prems(2) [of j] by auto
  qed (use Suc.prems(1) in simp)
  have "concat (map (\<lambda>i. [(i, USB_OUT), (i, USB_IN)]) [i..<MAX_NUM_EP]) = [(i, USB_OUT), (i, USB_IN)] @ ?qs"
    using i by (simp add: upt_conv_Cons)
  then show ?case
    unfolding n complete_loop_endpoint [OF i] IH by (simp only: filter_append complete_each_append)
qed

lemma complete_loop_each:
  assumes "wRx < 16" and "wTx < 16"
  shows "complete_loop 64 D 0 1 wRx wTx wRx s = complete_each D (pending wRx wTx) s"
proof -
  have "complete_loop (Suc (2 * 4 + 55)) D (int 0) (push_bit 0 1) wRx wTx wRx s = complete_each D (pending wRx wTx) s"
    unfolding pending_def all_queues_def
    by (rule complete_loop_from) (use bits_below assms in \<open>auto simp: MAX_NUM_EP_def\<close>)
  then show ?thesis by (simp del: complete_loop.simps)
qed

end
