(* ===== verification/UsbReset.thy ===== *)
theory UsbReset imports UsbLoop begin

text \<open>
  The interrupts and the queues: an interrupt retires the oldest request of every pending queue, and a reset empties
  them all.
\<close>

section \<open>Interrupts\<close>

lemma served_grows: "served P s Q s1 Q1 \<Longrightarrow> grows s1 Q1 s2 Q2 \<Longrightarrow> served P s Q s2 Q2"
  unfolding served_def grows_def by (metis append.assoc)

lemma grows_served:
  assumes "grows s Q s1 Q1" and "served P s1 Q1 s2 Q2" and "\<And>x. x \<in> P \<Longrightarrow> requests s Q x \<noteq> []"
  shows "served P s Q s2 Q2"
  unfolding served_def
proof
  fix x
  obtain rs ts where "requests s1 Q1 x = requests s Q x @ rs" "requests s2 Q2 x = (if x \<in> P then tl (requests s1 Q1 x) else requests s1 Q1 x) @ ts"
    using assms(1,2) unfolding served_def grows_def by blast
  then show "\<exists>rs. requests s2 Q2 x = (if x \<in> P then tl (requests s Q x) else requests s Q x) @ rs"
    using assms(3) [of x] by (cases "x \<in> P") simp_all
qed

lemma served_then:
  assumes "served P s Q s1 Q1" and "served P' s1 Q1 s2 Q2" and "P \<inter> P' = {}" and "\<And>x. x \<in> P' \<Longrightarrow> requests s Q x \<noteq> []"
  shows "served (P \<union> P') s Q s2 Q2"
  unfolding served_def
proof
  fix x
  obtain rs ts where "requests s1 Q1 x = (if x \<in> P then tl (requests s Q x) else requests s Q x) @ rs"
      "requests s2 Q2 x = (if x \<in> P' then tl (requests s1 Q1 x) else requests s1 Q1 x) @ ts"
    using assms(1,2) unfolding served_def by blast
  moreover have "x \<notin> P \<or> x \<notin> P'" using assms(3) by blast
  ultimately show "\<exists>rs. requests s2 Q2 x = (if x \<in> P \<union> P' then tl (requests s Q x) else requests s Q x) @ rs"
    using assms(4) [of x] by (cases "x \<in> P'") simp_all
qed

lemma served_none: "served {} s Q s Q"
  by (simp add: served_def)

lemma requests_Nil: "requests s Q x = [] \<longleftrightarrow> Q x = []"
  by (simp add: requests_def)

definition completed_Rx :: "DWORD \<Rightarrow> WORD" where "completed_Rx dw = ucast (dw AND 0x00ffff)"
definition completed_Tx :: "DWORD \<Rightarrow> WORD" where "completed_Tx dw = ucast (drop_bit 24 dw)"

text \<open>The register of completions, for a controller of four endpoints.\<close>

definition completes :: "DWORD \<Rightarrow> (nat \<times> usb_dir) set \<Rightarrow> bool" where
  "completes dw P \<longleftrightarrow> completed_Rx dw < 16 \<and> completed_Tx dw < 16 \<and> set (pending (completed_Rx dw) (completed_Tx dw)) = P"

lemma ProcessEndptComplete_each:
  assumes "completes dw P"
  shows "ProcessEndptComplete D dw s = complete_each D (pending (completed_Rx dw) (completed_Tx dw)) s"
proof (cases "dw = 0")
  case True
  then have "pending (completed_Rx dw) (completed_Tx dw) = []" by (simp add: pending_def completed_Rx_def completed_Tx_def)
  then show ?thesis using True by (simp add: ProcessEndptComplete_def)
next
  case False
  then show ?thesis
    using complete_loop_each [of "completed_Rx dw" "completed_Tx dw" D s] assms
    by (simp add: ProcessEndptComplete_def completes_def completed_Rx_def completed_Tx_def Let_def del: complete_loop.simps)
qed

context usb_application
begin

lemma complete_each_fifo:
  "sound (lay D) s Q C \<Longrightarrow> distinct qs \<Longrightarrow> set qs \<subseteq> C \<Longrightarrow> complete_each D qs s = Some s' \<Longrightarrow>
   \<exists>Q'. sound (lay D) s' Q' (C - set qs) \<and> served (set qs) s Q s' Q'"
proof (induction qs arbitrary: s Q C)
  case Nil
  then show ?case using served_none by auto
next
  case (Cons q qs)
  then obtain s1 where s1: "complete_one D q s = Some s1" "complete_each D qs s1 = Some s'" by (auto simp: bind_eq_Some_conv)
  have "q \<in> C" using Cons.prems(3) by simp
  from complete_one_fifo [OF Cons.prems(1) this s1(1)] obtain Q1 where Q1: "sound (lay D) s1 Q1 (C - {q})" "served {q} s Q s1 Q1" by blast
  have "distinct qs" "set qs \<subseteq> C - {q}" using Cons.prems(2,3) by auto
  from Cons.IH [OF Q1(1) this s1(2)] obtain Q2 where Q2: "sound (lay D) s' Q2 (C - {q} - set qs)" "served (set qs) s1 Q1 s' Q2" by blast
  have "requests s Q x \<noteq> []" if "x \<in> set qs" for x
    using soundD(2) [OF Cons.prems(1), of x] that Cons.prems(3) unfolding requests_Nil by auto
  moreover have "{q} \<inter> set qs = {}" using Cons.prems(2) by simp
  ultimately have "served ({q} \<union> set qs) s Q s' Q2" using served_then [OF Q1(2) Q2(2)] by blast
  moreover have "C - {q} - set qs = C - set (q # qs)" by auto
  ultimately show ?case using Q2(1) by auto
qed

lemma tr_complete_fifo:
  assumes S: "sound (lay D) s Q C" and dw: "completes dw P" and P: "P \<subseteq> C" and t: "usb_dci_process_tr_complete D w dw s = Some s'"
  shows "\<exists>Q'. sound (lay D) s' Q' (C - P) \<and> served P s Q s' Q'"
proof -
  let ?qs = "pending (completed_Rx dw) (completed_Tx dw)"
  have qs: "distinct ?qs" "set ?qs = P" using dw distinct_pending by (simp_all add: completes_def)
  have E: "ProcessEndptComplete D dw = complete_each D ?qs" using ProcessEndptComplete_each [OF dw] by blast
  have ne: "requests s Q x \<noteq> []" if "x \<in> P" for x using soundD(2) [OF S, of x] that P unfolding requests_Nil by blast
  show ?thesis
  proof (cases "ucast dw AND w \<noteq> 0 \<or> ucast (drop_bit 24 dw) AND w \<noteq> 0")
    case True
    then obtain s1 where s1: "complete_each D ?qs s = Some s1" "ProcessEndptSetup D w s1 = Some s'"
      using t by (auto simp: usb_dci_process_tr_complete_def E bind_eq_Some_conv)
    from complete_each_fifo [OF S qs(1) _ s1(1)] qs(2) P obtain Q1 where Q1: "sound (lay D) s1 Q1 (C - P)" "served P s Q s1 Q1" by auto
    moreover obtain Q' where "sound (lay D) s' Q' (C - P)" "grows s1 Q1 s' Q'"
      using ProcessEndptSetup_keeps Q1(1) s1(2) unfolding keeps_queues_def by blast
    ultimately show ?thesis using served_grows by blast
  next
    case False
    then obtain s1 where s1: "ProcessEndptSetup D w s = Some s1" "complete_each D ?qs s1 = Some s'"
      using t by (auto simp: usb_dci_process_tr_complete_def E bind_eq_Some_conv)
    obtain Q1 where Q1: "sound (lay D) s1 Q1 C" "grows s Q s1 Q1"
      using ProcessEndptSetup_keeps S s1(1) unfolding keeps_queues_def by blast
    from complete_each_fifo [OF Q1(1) qs(1) _ s1(2)] qs(2) P obtain Q' where "sound (lay D) s' Q' (C - P)" "served P s1 Q1 s' Q'" by auto
    then show ?thesis using grows_served [OF Q1(2) _ ne] by blast
  qed
qed

end

section \<open>Reset\<close>

lemma free_all_heads: "free_all n p (s\<lparr>g_dXD_Queues := H\<rparr>) = (free_all n p s)\<lparr>g_dXD_Queues := H\<rparr>"
proof (induction n arbitrary: p s)
  case (Suc n)
  have "FreeXd i (s\<lparr>g_dXD_Queues := H\<rparr>) = (FreeXd i s)\<lparr>g_dXD_Queues := H\<rparr>" for i by (simp add: FreeXd_def)
  then show ?case using Suc by (simp split: option.split)
qed simp

lemma free_all_same: "g_dXD_Queues (free_all n p s) = g_dXD_Queues s"
  by (induction n arbitrary: p s) (auto simp: FreeXd_def split: option.split)

lemma free_all_rep:
  assumes "queues_rep s Q" and "fst q < MAX_NUM_EP" and "length (Q q) < n"
  shows "queues_rep ((free_all n (g_dXD_Queues s q) s)\<lparr>g_dXD_Queues := (g_dXD_Queues s)(q := None)\<rparr>) (Q(q := []))"
  using assms
proof (induction n arbitrary: s Q)
  case (Suc n)
  note head = head_of_queue [OF Suc.prems(1,2)]
  show ?case
  proof (cases "Q q")
    case Nil
    then have "(g_dXD_Queues s)(q := None) = g_dXD_Queues s" "Q(q := []) = Q" "g_dXD_Queues s q = None"
      using head by (simp_all add: fun_upd_idem)
    then show ?thesis using Suc.prems(1) by simp
  next
    case (Cons i "is")
    let ?H = "(g_dXD_Queues s)(q := pNext (g_XdPool s ! i))"
    let ?u = "FreeXd i (s\<lparr>g_dXD_Queues := ?H\<rparr>)"
    have u: "g_XdPool ?u = (g_XdPool s)[i := (g_XdPool s ! i)\<lparr>btStatus := TRANSFER_IDLE, pNext := None\<rparr>]" "g_dXD_Queues ?u = ?H"
      by (simp_all add: FreeXd_def)
    have rep: "queues_rep ?u (Q(q := is))"
      by (rule queue_pop(1) [where x = "(g_XdPool s ! i)\<lparr>btStatus := TRANSFER_IDLE, pNext := None\<rparr>", OF Suc.prems(1) Cons u(1) _ u(2)]) simp
    have "queues_rep ((free_all n (g_dXD_Queues ?u q) ?u)\<lparr>g_dXD_Queues := (g_dXD_Queues ?u)(q := None)\<rparr>) ((Q(q := is))(q := []))"
      by (rule Suc.IH [OF rep Suc.prems(2)]) (use Suc.prems(3) Cons in simp)
    moreover have "?u = (FreeXd i s)\<lparr>g_dXD_Queues := ?H\<rparr>" by (simp add: FreeXd_def)
    then have "(free_all n (g_dXD_Queues ?u q) ?u)\<lparr>g_dXD_Queues := (g_dXD_Queues ?u)(q := None)\<rparr> =
        (free_all n (pNext (g_XdPool s ! i)) (FreeXd i s))\<lparr>g_dXD_Queues := (g_dXD_Queues s)(q := None)\<rparr>"
      by (simp add: free_all_heads)
    moreover have "free_all (Suc n) (g_dXD_Queues s q) s = free_all n (pNext (g_XdPool s ! i)) (FreeXd i s)" using head Cons by simp
    ultimately show ?thesis by (simp only: fun_upd_upd)
  qed
qed simp

lemma clear_queue_rep:
  assumes "queues_rep s Q" and "fst q < MAX_NUM_EP"
  shows "queues_rep (usb_dci_clear_dxd_queue q s) (Q(q := []))"
  using free_all_rep [OF assms, of "Suc (length (g_XdPool s))"] queue_length [OF assms(1), of q] queues_repD(1) [OF assms(1)]
  by (simp add: usb_dci_clear_dxd_queue_def Let_def free_all_same del: free_all.simps)

lemma clear_all_rep:
  assumes "queues_rep s Q"
  shows "queues_rep (foldl (\<lambda>s q. usb_dci_clear_dxd_queue q s) s all_queues) (\<lambda>_. [])"
proof -
  have *: "queues_rep (foldl (\<lambda>s q. usb_dci_clear_dxd_queue q s) s qs) (\<lambda>q. if q \<in> set qs then [] else Q q)" if "set qs \<subseteq> set all_queues" for qs
    using that
  proof (induction qs rule: rev_induct)
    case Nil
    then show ?case using assms by simp
  next
    case (snoc q qs)
    then have "fst q < MAX_NUM_EP" using set_all_queues by auto
    from clear_queue_rep [OF _ this] snoc
    have "queues_rep (usb_dci_clear_dxd_queue q (foldl (\<lambda>s q. usb_dci_clear_dxd_queue q s) s qs)) ((\<lambda>q. if q \<in> set qs then [] else Q q)(q := []))"
      by simp
    moreover have "(\<lambda>q. if q \<in> set qs then [] else Q q)(q := []) = (\<lambda>x. if x \<in> set (qs @ [q]) then [] else Q x)" by auto
    ultimately show ?case by simp
  qed
  have "(\<lambda>q. if q \<in> set all_queues then [] else Q q) = (\<lambda>_. [])"
  proof
    fix q show "(if q \<in> set all_queues then [] else Q q) = []"
      using queues_repD(6) [OF assms, of q] set_all_queues by auto
  qed
  then show ?thesis using * [OF order_refl] by simp
qed

text \<open>The state the service for the reset is called in.\<close>

definition flushed :: "usb \<Rightarrow> usb" where
  "flushed s = foldl (\<lambda>s q. usb_dci_clear_dxd_queue q s) (snd (usb_dci_init_endpoint 0 USB_IN 0 (snd (usb_dci_init_endpoint 0 USB_OUT 0 s)))) all_queues"

lemma empty_sound:
  assumes "queues_rep s (\<lambda>_. [])" and "\<And>q. \<not> endptprime s q" and "\<And>q. \<not> endptstatus s q"
  shows "sound L s (\<lambda>_. []) {}"
  using assms by (simp add: sound_def)

lemma reset_sound:
  assumes rep: "queues_rep s Q" and r: "usb_dci_process_reset D s = Some s'"
    and quiet: "\<And>s1. call D USB_SERVICE_BUS_RESET no_data (flushed s) = Some s1 \<Longrightarrow> queue_part s1 = queue_part (flushed s)"
  shows "sound L s' (\<lambda>_. []) {}"
proof -
  have "queue_part (snd (usb_dci_init_endpoint ep d w s)) = queue_part s" for ep d w s
    by (simp add: usb_dci_init_endpoint_def Let_def queue_part_def)
  then have "queues_rep (snd (usb_dci_init_endpoint 0 USB_IN 0 (snd (usb_dci_init_endpoint 0 USB_OUT 0 s)))) Q"
    using queues_rep_cong [of _ s Q] rep by (simp add: queue_part_def)
  then have f: "queues_rep (flushed s) (\<lambda>_. [])" unfolding flushed_def by (rule clear_all_rep)
  obtain s1 where s1: "call D USB_SERVICE_BUS_RESET no_data (flushed s) = Some s1"
      "queue_part s1 = queue_part (flushed s)"
    using r quiet by (auto simp: usb_dci_process_reset_def flushed_def Let_def bind_eq_Some_conv)
  have e: "g_XdPool s' = g_XdPool s1" "g_dXD_Queues s' = g_dXD_Queues s1" "endptprime s' = (\<lambda>_. False)" "endptstatus s' = (\<lambda>_. False)"
    using r s1(1) by (auto simp: usb_dci_process_reset_def flushed_def Let_def usb_dci_chip_enable_def)
  have "queues_rep s' (\<lambda>_. [])"
    using f s1(2) queues_rep_cong [of s' "flushed s"] e by (simp add: queue_part_def)
  then show ?thesis by (rule empty_sound) (simp_all add: e)
qed

end
