(* ===== verification/UsbConfig.thy ===== *)
theory UsbConfig imports UsbReset begin

text \<open>
  The configuration: the device is in the configured state, or suspended from it, only with a configuration the host
  has set.
\<close>

section \<open>What leaves the configuration alone\<close>

definition config_ok :: "usb \<Rightarrow> bool" where
  "config_ok s \<longleftrightarrow> (usUsbState s = USB_STATE_CONFIGURED \<longrightarrow> btCurConfig s \<noteq> 0) \<and>
     (usUsbState s = USB_STATE_SUSPENDED \<and> usUsbStatePriorSusp s = USB_STATE_CONFIGURED \<longrightarrow> btCurConfig s \<noteq> 0)"

lemma config_ok_alt: "config_ok s \<longleftrightarrow> (case config_part s of (st, prior, c) \<Rightarrow>
    (st = USB_STATE_CONFIGURED \<longrightarrow> c \<noteq> 0) \<and> (st = USB_STATE_SUSPENDED \<and> prior = USB_STATE_CONFIGURED \<longrightarrow> c \<noteq> 0))"
  by (simp add: config_ok_def config_part_def)

definition leaves :: "(usb \<Rightarrow> usb option) \<Rightarrow> bool" where
  "leaves f \<longleftrightarrow> (\<forall>s s'. f s = Some s' \<longrightarrow> config_part s' = config_part s)"

definition keeps_config :: "(usb \<Rightarrow> usb option) \<Rightarrow> bool" where
  "keeps_config f \<longleftrightarrow> (\<forall>s s'. config_ok s \<and> f s = Some s' \<longrightarrow> config_ok s')"

lemma config_ok_cong: "config_part s' = config_part s \<Longrightarrow> config_ok s' = config_ok s"
  by (simp add: config_part_def config_ok_def)

lemma leaves_keeps: "leaves f \<Longrightarrow> keeps_config f"
  unfolding leaves_def keeps_config_def using config_ok_cong by blast

lemma leaves_Some: "(\<And>s. config_part (u s) = config_part s) \<Longrightarrow> leaves (\<lambda>s. Some (u s))"
  by (auto simp: leaves_def)

lemma leaves_if: "leaves f \<Longrightarrow> leaves g \<Longrightarrow> leaves (\<lambda>s. if P s then f s else g s)"
  by (simp add: leaves_def)

lemma leaves_if_const: "(P \<Longrightarrow> leaves f) \<Longrightarrow> (\<not> P \<Longrightarrow> leaves g) \<Longrightarrow> leaves (\<lambda>s. if P then f s else g s)"
  by (cases P) simp_all

lemma leaves_bind: "leaves f \<Longrightarrow> leaves g \<Longrightarrow> leaves (\<lambda>s. do { s \<leftarrow> f s; g s })"
  unfolding leaves_def bind_eq_Some_conv by fastforce

lemma leaves_bind_val:
  "leaves (\<lambda>s. map_option snd (f s)) \<Longrightarrow> (\<And>x. leaves (g x)) \<Longrightarrow> leaves (\<lambda>s. do { (x, s) \<leftarrow> f s; g x s })"
  unfolding leaves_def
proof (intro allI impI)
  fix s s' assume f: "\<forall>s s'. map_option snd (f s) = Some s' \<longrightarrow> config_part s' = config_part s"
    and g: "\<And>x. \<forall>s s'. g x s = Some s' \<longrightarrow> config_part s' = config_part s" and "(f s \<bind> (\<lambda>(x, s). g x s)) = Some s'"
  then obtain x s1 where "f s = Some (x, s1)" "g x s1 = Some s'" by (auto simp: bind_eq_Some_conv)
  then have "map_option snd (f s) = Some s1" "g x s1 = Some s'" by simp_all
  then have "config_part s1 = config_part s" "config_part s' = config_part s1" using f g by blast+
  then show "config_part s' = config_part s" by simp
qed

lemma leaves_at: "(\<And>x. leaves (f x)) \<Longrightarrow> leaves (\<lambda>s. f s s)"
  by (simp add: leaves_def)

lemma leaves_update: "(\<And>s. config_part (u s) = config_part s) \<Longrightarrow> leaves f \<Longrightarrow> leaves (\<lambda>s. f (u s))"
  unfolding leaves_def by metis

lemma keeps_config_if: "keeps_config f \<Longrightarrow> keeps_config g \<Longrightarrow> keeps_config (\<lambda>s. if P s then f s else g s)"
  unfolding keeps_config_def by (metis (full_types))

lemma keeps_config_bind: "keeps_config f \<Longrightarrow> keeps_config g \<Longrightarrow> keeps_config (\<lambda>s. do { s \<leftarrow> f s; g s })"
  unfolding keeps_config_def bind_eq_Some_conv by blast

lemma keeps_config_at: "(\<And>x. keeps_config (f x)) \<Longrightarrow> keeps_config (\<lambda>s. f s s)"
  unfolding keeps_config_def by blast

lemma keeps_config_update: "(\<And>s. config_ok s \<Longrightarrow> config_ok (u s)) \<Longrightarrow> keeps_config f \<Longrightarrow> keeps_config (\<lambda>s. f (u s))"
  unfolding keeps_config_def by blast

lemma keeps_config_Some: "(\<And>s. config_ok s \<Longrightarrow> config_ok (u s)) \<Longrightarrow> keeps_config (\<lambda>s. Some (u s))"
  by (auto simp: keeps_config_def)

section \<open>The requests\<close>

lemma config_part_update [simp]:
  "config_part (s\<lparr>usDataToSend := w\<rparr>) = config_part s" "config_part (s\<lparr>usUsbDeviceState := w\<rparr>) = config_part s"
  "config_part (s\<lparr>bEnterTestMode := w\<rparr>) = config_part s" "config_part (s\<lparr>usTestModeIndex := w\<rparr>) = config_part s"
  "config_part (s\<lparr>btNewAddress := w\<rparr>) = config_part s" "config_part (s\<lparr>app_status := w\<rparr>) = config_part s"
  "config_part (s\<lparr>g_bUsbConfigured := b\<rparr>) = config_part s" "config_part (s\<lparr>s_btStatusPhase := b\<rparr>) = config_part s"
  "config_part (s\<lparr>s_btHoldOffEP0 := b\<rparr>) = config_part s" "config_part (s\<lparr>s_bUsbFirstInit := b\<rparr>) = config_part s"
  "config_part (s\<lparr>btSpeed := w\<rparr>) = config_part s" "config_part (s\<lparr>btAddress := w\<rparr>) = config_part s"
  "config_part (s\<lparr>btCurInterface := w\<rparr>) = config_part s" "config_part (s\<lparr>usSofCount := w\<rparr>) = config_part s"
  "config_part (usb_dci_set_address w s) = config_part s"
  by (simp_all add: config_part_def usb_dci_set_address_def)

lemma config_part_stall [simp]:
  "config_part (usb_dci_stall_endpoint ep d s) = config_part s" "config_part (usb_dci_unstall_endpoint ep d s) = config_part s"
  "config_part (usb_dci_set_endpoint_status ep w s) = config_part s" "config_part (unstall_all s) = config_part s"
  "config_part (unstall_stalled s) = config_part s" "config_part (usb_dci_get_setup_data ep s) = config_part s"
  "config_part (usb_dci_finish_transaction ep s) = config_part s" "config_part (snd (usb_dci_init_endpoint ep d t s)) = config_part s"
  "config_part (usb_dci_chip_enable s) = config_part s" "config_part (usb_dci_clear_dxd_queue q s) = config_part s"
  "config_part (usb_device_hold s) = config_part s" "config_part (usb_device_data_phase_required s) = config_part s"
proof -
  show u: "config_part (usb_dci_stall_endpoint ep d s) = config_part s" "config_part (usb_dci_unstall_endpoint ep d s) = config_part s" for ep d s
    by (simp_all add: usb_dci_stall_endpoint_def usb_dci_unstall_endpoint_def Let_def config_part_def)
  then show e: "config_part (usb_dci_set_endpoint_status ep w s) = config_part s" for ep w s
    by (simp add: usb_dci_set_endpoint_status_def)
  have f: "config_part (foldl g s is) = config_part s" if "\<And>s i. config_part (g s i) = config_part s" for g :: "usb \<Rightarrow> nat \<Rightarrow> usb" and "is" s
    using that by (induction "is" arbitrary: s) auto
  show "config_part (unstall_all s) = config_part s" "config_part (unstall_stalled s) = config_part s"
    using u e by (simp_all add: unstall_all_def unstall_stalled_def f)
  have x: "config_part (free_all n p s) = config_part s" for n p
    by (induction n arbitrary: p s) (auto simp: FreeXd_def config_part_def split: option.split)
  show "config_part (usb_dci_clear_dxd_queue q s) = config_part s"
    using x [of "Suc (length (g_XdPool s))" "g_dXD_Queues s q"]
    by (simp add: usb_dci_clear_dxd_queue_def Let_def config_part_def del: free_all.simps)
qed (simp_all add: usb_dci_get_setup_data_def usb_dci_finish_transaction_def usb_dci_init_endpoint_def usb_dci_chip_enable_def
  usb_device_hold_def usb_device_data_phase_required_def Let_def config_part_def)

lemma transfer_leaves: "leaves (\<lambda>s. map_option snd (usb_device_transfer_data L ep a off sz priv phase d s))"
  by (auto simp: leaves_def dest: transfer_config)

lemma send_leaves: "leaves (send L a sz priv)" and recv_leaves: "leaves (recv_status L)"
  unfolding send_def [abs_def] recv_status_def [abs_def] usb_device_send_data_def usb_device_recv_data_def by (rule transfer_leaves)+

lemma leaves_send_update: "(\<And>s. config_part (u s) = config_part s) \<Longrightarrow> leaves (\<lambda>s. send L a sz priv (u s))"
  by (rule leaves_update [OF _ send_leaves])

lemma call_service_leaves:
  assumes "\<And>h. leaves (app h c)"
  shows "leaves (\<lambda>s. map_option snd (usb_device_call_service app t c s))"
  using assms by (auto simp: leaves_def usb_device_call_service_def bind_eq_Some_conv split: option.splits)

lemma leaves_call_update:
  "(\<And>s. config_part (u s) = config_part s) \<Longrightarrow> (\<And>h. leaves (app h c)) \<Longrightarrow>
   leaves (\<lambda>s. map_option snd (usb_device_call_service app t c (u s)))"
  by (rule leaves_update [OF _ call_service_leaves])

lemma test_mode_leaves: "leaves (usb_dci_set_test_mode L w)"
proof -
  have *: "config_part s' = config_part s" if "do { (_, s) \<leftarrow> usb_device_transfer_data L 0 a off sz p False d s; Some s } = Some s'" for s s' a off sz p d
    using that transfer_config by (auto simp: bind_eq_Some_conv)
  show ?thesis
    unfolding leaves_def
  proof (intro allI impI)
    fix s s' assume r: "usb_dci_set_test_mode L w s = Some s'"
    let ?s = "s\<lparr>endptctrl := (endptctrl s)(0 := endptctrl s 0 OR ucast ENDPTCTRL_TXR), test_mode := Some w\<rparr>"
    have "config_part s' = config_part ?s"
      using r * [of _ _ _ _ _ ?s s'] unfolding usb_dci_set_test_mode_def usb_device_send_data_def Let_def
      by (auto split: if_splits)
    then show "config_part s' = config_part s" by (simp add: config_part_def)
  qed
qed

lemma set_status_leaves:
  assumes "t \<noteq> USB_STATUS" and "t \<noteq> USB_STATUS_CURRENT_CONFIG"
  shows "leaves (usb_device_set_status L t w)"
  unfolding usb_device_set_status_def
  by (intro leaves_if_const leaves_Some test_mode_leaves) (use assms in \<open>simp_all\<close>)

lemmas leaves_rules = leaves_if leaves_bind leaves_send_update recv_leaves leaves_Some

lemma GetStatus_leaves: "leaves (ch9GetStatus L setup p)"
  unfolding ch9GetStatus_def by (intro leaves_rules) simp_all

lemma ClearFeature_leaves: "leaves (ch9ClearFeature L setup p)"
proof -
  have u: "config_part (if endpoint_of p = 0 then unstall_all s else usb_dci_unstall_endpoint (endpoint_of p) (direction_of p) s) = config_part s" for s
    by simp
  show ?thesis unfolding ch9ClearFeature_def by (intro leaves_rules u) simp_all
qed

lemma GetConfig_leaves: "leaves (ch9GetConfig L setup p)"
  unfolding ch9GetConfig_def by (intro leaves_rules) simp_all

lemma GetInterface_leaves: "leaves (ch9GetInterface L setup p)"
  unfolding ch9GetInterface_def by (intro leaves_rules) simp_all

lemma SetFeature_leaves:
  assumes "\<And>h c. leaves (app h c)"
  shows "leaves (ch9SetFeature L app setup p)"
proof -
  have t: "leaves (\<lambda>s. usb_device_set_status L USB_STATUS_TEST_MODE (w s) s)" for w
    by (rule leaves_at [of "\<lambda>x. usb_device_set_status L USB_STATUS_TEST_MODE (w x)"]) (rule set_status_leaves; simp add: usb_status_types)
  show ?thesis
    unfolding ch9SetFeature_def Let_def bind_snd
    by (intro leaves_rules t call_service_leaves assms) simp_all
qed

lemma SetInterface_leaves:
  assumes "\<And>h c. leaves (app h c)"
  shows "leaves (ch9SetInterface L app setup p)"
  unfolding ch9SetInterface_def bind_snd
  by (intro leaves_if leaves_bind leaves_call_update send_leaves leaves_Some set_status_leaves assms) (simp_all add: usb_status_types)

lemma GetDescription_leaves:
  assumes "\<And>t v i. leaves (\<lambda>s. map_option snd (gd t v i s))"
  shows "leaves (ch9GetDescription L gd setup p)"
proof -
  have g: "leaves (\<lambda>s. map_option snd (gd t (btSpeed s) i s))" for t i
    by (rule leaves_at [of "\<lambda>x s. map_option snd (gd t (btSpeed x) i s)"]) (rule assms)
  have n: "leaves (\<lambda>s. send L a (n s) 1 s)" for a n
    by (rule leaves_at [of "\<lambda>x. send L a (n x) 1"]) (rule send_leaves)
  have c: "leaves (\<lambda>s. case x of None \<Rightarrow> Some s | Some a \<Rightarrow>
      if wLength p = 0 then Some (usb_dci_stall_endpoint 0 USB_IN s) else send L a (n s) 1 s)" for x n
    by (cases x) (simp_all add: leaves_if leaves_Some n)
  show ?thesis
    unfolding ch9GetDescription_def Let_def
    by (intro leaves_if leaves_bind_val g leaves_bind c recv_leaves leaves_Some) simp_all
qed

section \<open>SET\_ADDRESS and SET\_CONFIGURATION\<close>

lemma set_config_status: "usb_device_set_status L USB_STATUS_CURRENT_CONFIG w s = Some (s\<lparr>btCurConfig := w\<rparr>)"
  and set_usb_status: "usb_device_set_status L USB_STATUS w s = Some (s\<lparr>usUsbState := w\<rparr>)"
  by (simp_all add: usb_device_set_status_def usb_status_types)

lemma config_part_set [simp]:
  "config_part (s\<lparr>btCurConfig := w\<rparr>) = (usUsbState s, usUsbStatePriorSusp s, w)"
  "config_part (s\<lparr>usUsbState := w\<rparr>) = (w, usUsbStatePriorSusp s, btCurConfig s)"
  by (simp_all add: config_part_def)

lemma keeps_config_if_const: "(P \<Longrightarrow> keeps_config f) \<Longrightarrow> (\<not> P \<Longrightarrow> keeps_config g) \<Longrightarrow> keeps_config (\<lambda>s. if P then f s else g s)"
  by (cases P) simp_all

lemma SetAddress_keeps_config: "keeps_config (ch9SetAddress L setup p)"
proof -
  have "leaves (\<lambda>s. usb_device_set_status L USB_STATUS_ADDRESS (btNewAddress s) s)"
    by (rule leaves_at [of "\<lambda>x. usb_device_set_status L USB_STATUS_ADDRESS (btNewAddress x)"])
      (rule set_status_leaves; simp add: usb_status_types)
  then have a: "keeps_config (\<lambda>s. usb_device_set_status L USB_STATUS_ADDRESS (btNewAddress s) s)" by (rule leaves_keeps)
  show ?thesis
    unfolding ch9SetAddress_def set_usb_status
    by (intro keeps_config_if keeps_config_bind a leaves_keeps [OF leaves_send_update] keeps_config_Some)
      (simp_all add: config_ok_alt usb_states)
qed

lemma SetConfig_keeps_config:
  assumes "\<And>h c. leaves (app h c)"
  shows "keeps_config (ch9SetConfig L app setup p)"
proof -
  have send: "keeps_config (\<lambda>s. send L 0 0 0 (u s))" if "\<And>s. config_ok s \<Longrightarrow> config_ok (u s)" for u
    by (rule keeps_config_update [OF that leaves_keeps [OF send_leaves]])
  show ?thesis
    unfolding ch9SetConfig_def Let_def bind_snd set_config_status set_usb_status bind.simps
    by (intro keeps_config_if_const keeps_config_if keeps_config_bind leaves_keeps [OF leaves_call_update] assms send keeps_config_Some)
      (simp_all add: config_ok_alt usb_states)
qed

lemma Setup_foldl_keeps:
  assumes "\<And>i. keeps_config (f i)"
  shows "keeps_config (\<lambda>s. foldl (\<lambda>r i. do { s \<leftarrow> r; (if P i then f i s else Some s) }) (Some s) is)"
proof (induction "is" rule: rev_induct)
  case Nil
  then show ?case by (simp add: keeps_config_def)
next
  case (snoc i "is")
  show ?case
    unfolding foldl_append foldl.simps
    by (intro keeps_config_bind snoc keeps_config_if_const assms keeps_config_Some)
qed

context usb_application
begin

lemma run_leaves: "leaves (run D h c)"
  unfolding leaves_def using run_config by blast

lemma desc_leaves: "leaves (\<lambda>s. map_option snd (get_descriptor D t v i s))"
  unfolding leaves_def using desc_config by auto

lemma standard_request_config: "keeps_config (standard_request D setup p)"
  unfolding standard_request_def Let_def
  by (intro keeps_config_if SetAddress_keeps_config SetConfig_keeps_config leaves_keeps [OF GetStatus_leaves] leaves_keeps [OF ClearFeature_leaves]
      leaves_keeps [OF SetFeature_leaves] leaves_keeps [OF GetDescription_leaves] leaves_keeps [OF GetConfig_leaves]
      leaves_keeps [OF GetInterface_leaves] leaves_keeps [OF SetInterface_leaves] run_leaves desc_leaves)
    (simp_all add: ch9SetDescription_def [abs_def] ch9SynchFrame_def [abs_def] leaves_keeps leaves_Some)

lemma service_config: "keeps_config (service D h c)"
proof -
  let ?u = "\<lambda>s. if bSetup c then usb_dci_finish_transaction 0 (usb_dci_get_setup_data 0 s) else s"
  have "keeps_config (\<lambda>s. if req_type (g_SetupData s 0) = 0 then standard_request D (bSetup c) (g_SetupData s 0) s
      else Some (usb_dci_stall_endpoint 0 USB_OUT s))"
    by (intro keeps_config_if keeps_config_at [of "\<lambda>x. standard_request D (bSetup c) (g_SetupData x 0)"] standard_request_config keeps_config_Some)
      (simp add: config_ok_alt)
  then have "keeps_config (\<lambda>s. (\<lambda>s. if req_type (g_SetupData s 0) = 0 then standard_request D (bSetup c) (g_SetupData s 0) s
      else Some (usb_dci_stall_endpoint 0 USB_OUT s)) (?u s))"
    by (rule keeps_config_update [rotated]) (simp add: config_ok_alt)
  then have "keeps_config (ch9ServiceEp0 D c)" by (simp add: ch9ServiceEp0_def [abs_def] Let_def)
  then show ?thesis unfolding service_def [abs_def] by (intro keeps_config_if leaves_keeps [OF run_leaves])
qed

lemma call_config: "keeps_config (call D t c)"
  unfolding keeps_config_def
proof (intro allI impI, elim conjE)
  fix s s' assume s: "config_ok s" and "call D t c s = Some s'"
  then have "s' = s \<or> (\<exists>h. service D h c s = Some s')"
    by (auto simp: call_def usb_device_call_service_def bind_eq_Some_conv split: option.splits)
  then show "config_ok s'" using s service_config unfolding keeps_config_def by blast
qed

lemma ProcessEndptSetup_config: "keeps_config (ProcessEndptSetup D w)"
  unfolding ProcessEndptSetup_def [abs_def]
  by (intro keeps_config_if_const keeps_config_Some Setup_foldl_keeps call_config)

lemma complete_one_config: "keeps_config (complete_one D q)"
  unfolding keeps_config_def
proof (intro allI impI, elim conjE)
  fix s s' assume s: "config_ok s" and c: "complete_one D q s = Some s'"
  then obtain i where i: "g_dXD_Queues s q = Some i" "\<not> MAX_NUM_EP \<le> fst q" by (auto simp: complete_one_def split: if_splits option.splits)
  let ?t = "dTDs s q"
  let ?a = "usStatusIoc ?t AND USB_EP_dTD_ACTIVE \<noteq> 0"
  let ?s = "s\<lparr>g_XdPool := (g_XdPool s)[i := (g_XdPool s ! i)\<lparr>btStatus := if ?a then TRANSFER_IN_PROGRESS
    else if usStatusIoc ?t AND USB_EP_dTD_NO_ERROR \<noteq> 0 then TRANSFER_ERROR else TRANSFER_SUCCESS\<rparr>]\<rparr>"
  let ?u = "if ?a then ?s else ?s\<lparr>dTDs := (dTDs ?s)(q := ?t\<lparr>usStatusIoc := 0\<rparr>)\<rparr>"
  let ?c = "\<lparr>bSetup = False, cDirection = snd q, cBuffer = pbtStartAddressWord (g_XdPool ?s ! i),
    cLength = if ?a then 0 else usTotalLength (g_XdPool ?s ! i) - usTotalBytes ?t, cPrivate = wPrivateData (g_XdPool ?s ! i)\<rparr>"
  have "do { s \<leftarrow> call D (of_nat (fst q)) ?c ?u; Some (next_transfer (lay D) q i s) } = Some s'"
    using c i by (simp only: complete_one_def next_transfer_def if_False option.case Let_def)
  then obtain s2 where s2: "call D (of_nat (fst q)) ?c ?u = Some s2" and s': "s' = next_transfer (lay D) q i s2"
    unfolding bind_eq_Some_conv by blast
  have "config_part ?u = config_part s" by (simp add: config_part_def)
  then have "config_ok ?u" using s config_ok_cong by blast
  then have "config_ok s2" using s2 call_config unfolding keeps_config_def by blast
  moreover have "config_part (next_transfer L q i u) = config_part u" for L u
    by (auto simp: next_transfer_def Let_def FreeXd_def usb_dci_transfer_data_def config_part_def split: option.split)
  ultimately show "config_ok s'" using s' config_ok_cong by blast
qed

lemma complete_loop_config: "keeps_config (complete_loop n D b m Rx Tx R)"
proof (induction n arbitrary: b m Rx Tx R)
  case (Suc n)
  let ?f = "\<lambda>s. if R AND m \<noteq> 0 then if b < 0 then None
      else do { s \<leftarrow> complete_one D (if b > 15 then (nat (b - 16), USB_IN) else (nat b, USB_OUT)) s; Some (R AND NOT m, s) }
    else Some (R, s)"
  have f: "config_ok s'" if "config_ok s" "?f s = Some (x, s')" for s x s'
  proof -
    have "s' = s \<or> (\<exists>q. complete_one D q s = Some s')"
      using that(2) by (auto simp: bind_eq_Some_conv simp del: split_paired_Ex split: if_splits)
    then show ?thesis using that(1) complete_one_config unfolding keeps_config_def by blast
  qed
  have f2: "keeps_config (\<lambda>s. do { (x, s) \<leftarrow> ?f s; g x s })" if "\<And>x. keeps_config (g x)" for g
    unfolding keeps_config_def
  proof (intro allI impI, elim conjE)
    fix s s' assume s: "config_ok s" and "(?f s \<bind> (\<lambda>(x, s). g x s)) = Some s'"
    then obtain x s1 where s1: "?f s = Some (x, s1)" "g x s1 = Some s'" unfolding bind_eq_Some_conv by auto
    then show "config_ok s'" using f [OF s s1(1)] that unfolding keeps_config_def by blast
  qed
  show ?case
    unfolding complete_loop.simps by (intro keeps_config_if_const keeps_config_Some f2 Suc.IH) assumption
qed (simp add: keeps_config_def)

lemma tr_complete_config: "keeps_config (usb_dci_process_tr_complete D w dw)"
proof -
  have "keeps_config (ProcessEndptComplete D dw)"
    unfolding ProcessEndptComplete_def [abs_def] Let_def by (intro keeps_config_if_const keeps_config_Some complete_loop_config)
  then show ?thesis
    unfolding usb_dci_process_tr_complete_def [abs_def] by (intro keeps_config_if_const keeps_config_bind ProcessEndptSetup_config)
qed

end

end
