(* ===== verification/UsbReach.thy ===== *)
theory UsbReach imports UsbConfig begin

text \<open>
  The device with its controller: the steps of the hardware, of the driver at its interrupts and of the application, and
  what holds in every state they reach.
\<close>

section \<open>Port change and suspend\<close>

definition port_speed :: "DWORD \<Rightarrow> WORD" where
  "port_speed dwStatus = (if dwStatus AND PORTSC1_HSP \<noteq> 0 then USB_SPEED_HIGH else USB_SPEED_FULL)"

definition port_default :: "usb \<Rightarrow> usb" where
  "port_default s = (if btBusResetting s then enable_endpoints (s\<lparr>btBusResetting := False, usUsbState := USB_STATE_DEFAULT\<rparr>) else s)"

definition port_suspended :: "usb \<Rightarrow> usb" where
  "port_suspended s = (if usUsbState s \<noteq> USB_STATE_SUSPENDED then s\<lparr>usUsbStatePriorSusp := usUsbState s, usUsbState := USB_STATE_SUSPENDED\<rparr> else s)"

definition port_body :: "device \<Rightarrow> DWORD \<Rightarrow> usb \<Rightarrow> usb option" where
  "port_body D dwStatus s =
     do { s \<leftarrow> (if dwStatus AND PORTSC1_PR = 0
               then call D USB_SERVICE_SPEED_DETECTION (no_data\<lparr>cLength := port_speed dwStatus\<rparr>) (s\<lparr>btSpeed := port_speed dwStatus\<rparr>)
               else Some s);
          s \<leftarrow> (if dwStatus AND PORTSC1_SUSP \<noteq> 0 then call D USB_SERVICE_SUSPEND no_data (port_suspended s) else Some s);
          Some (if dwStatus AND PORTSC1_SUSP = 0 \<and> usUsbState s = USB_STATE_SUSPENDED then s\<lparr>usUsbState := usUsbStatePriorSusp s\<rparr> else s) }"

lemma port_change_body: "usb_dci_process_port_change D s = port_body D (portsc1 (port_default s)) (port_default s)"
  by (simp add: usb_dci_process_port_change_def port_body_def port_default_def port_speed_def port_suspended_def Let_def)

lemma enable_endpoints_part [simp]: "queue_part (enable_endpoints s) = queue_part s" "config_part (enable_endpoints s) = config_part s"
proof -
  have q: "queue_part (foldl g s is) = queue_part s" if "\<And>s i. queue_part (g s i) = queue_part s" for g :: "usb \<Rightarrow> nat \<Rightarrow> usb" and "is" s
    using that by (induction "is" arbitrary: s) auto
  have c: "config_part (foldl g s is) = config_part s" if "\<And>s i. config_part (g s i) = config_part s" for g :: "usb \<Rightarrow> nat \<Rightarrow> usb" and "is" s
    using that by (induction "is" arbitrary: s) auto
  show "queue_part (enable_endpoints s) = queue_part s" unfolding enable_endpoints_def by (rule q) (simp add: queue_part_def)
  show "config_part (enable_endpoints s) = config_part s" unfolding enable_endpoints_def by (rule c) (simp add: config_part_def)
qed

lemma port_default_part: "queue_part (port_default s) = queue_part s"
proof -
  have "queue_part (s\<lparr>btBusResetting := b, usUsbState := w\<rparr>) = queue_part s" for b w by (simp add: queue_part_def)
  then show ?thesis by (simp add: port_default_def)
qed

lemma port_suspended_ok: "config_ok s \<Longrightarrow> config_ok (port_suspended s)"
  by (simp add: config_ok_def port_suspended_def usb_states)

lemma port_resumed_ok:
  "config_ok s \<Longrightarrow> config_ok (if P \<and> usUsbState s = USB_STATE_SUSPENDED then s\<lparr>usUsbState := usUsbStatePriorSusp s\<rparr> else s)"
  by (auto simp: config_ok_def usb_states)

context usb_application
begin

lemma port_change_keeps: "keeps_queues (lay D) (usb_dci_process_port_change D)"
proof -
  have "keeps_queues (lay D) (port_body D w)" for w
    unfolding port_body_def [abs_def]
    by (intro keeps_bind keeps_if keeps_update [OF _ call_keeps] keeps_Some) (simp_all add: queue_part_def port_suspended_def)
  then have "keeps_queues (lay D) (\<lambda>s. port_body D (portsc1 s) s)" by (rule keeps_at)
  then have "keeps_queues (lay D) (\<lambda>s. port_body D (portsc1 (port_default s)) (port_default s))"
    by (rule keeps_update [rotated]) (rule port_default_part)
  then show ?thesis by (simp only: port_change_body [abs_def])
qed

lemma port_change_config: "keeps_config (usb_dci_process_port_change D)"
proof -
  have "keeps_config (port_body D w)" for w
    unfolding port_body_def [abs_def]
    by (intro keeps_config_bind keeps_config_if keeps_config_update [OF _ call_config] keeps_config_Some)
      ((erule port_suspended_ok | erule port_resumed_ok | simp add: config_ok_alt)+)
  then have "keeps_config (\<lambda>s. port_body D (portsc1 s) s)" by (rule keeps_config_at)
  then have "keeps_config (\<lambda>s. port_body D (portsc1 (port_default s)) (port_default s))"
    by (rule keeps_config_update [rotated]) (auto simp: port_default_def config_ok_alt usb_states)
  then show ?thesis by (simp only: port_change_body [abs_def])
qed

lemma suspend_keeps: "keeps_queues (lay D) (usb_dci_process_suspend D False)"
  unfolding usb_dci_process_suspend_def [abs_def] if_False
  by (intro keeps_if keeps_bind call_keeps keeps_Some) simp_all

lemma reset_config: "keeps_config (usb_dci_process_reset D)"
proof -
  have f: "config_part (foldl (\<lambda>s q. usb_dci_clear_dxd_queue q s) s qs) = config_part s" for s qs
    by (induction qs arbitrary: s) auto
  have fl: "config_ok (flushed s) = config_ok s" for s by (simp add: config_ok_alt flushed_def f)
  show ?thesis
    unfolding keeps_config_def
  proof (intro allI impI, elim conjE)
    fix s s' assume s: "config_ok s" and r: "usb_dci_process_reset D s = Some s'"
    then obtain s1 where s1: "call D USB_SERVICE_BUS_RESET no_data (flushed s) = Some s1"
      by (auto simp: usb_dci_process_reset_def flushed_def Let_def bind_eq_Some_conv)
    then have "config_ok s1" using s fl call_config unfolding keeps_config_def by blast
    moreover have "config_part s' = config_part s1 \<or> usUsbState s' = USB_STATE_POWERED"
      using r s1 by (auto simp: usb_dci_process_reset_def flushed_def Let_def usb_dci_chip_enable_def config_part_def)
    ultimately show "config_ok s'" using config_ok_cong [of s' s1] by (auto simp: config_ok_def usb_states)
  qed
qed

lemma suspend_config: "keeps_config (usb_dci_process_suspend D w)"
  unfolding usb_dci_process_suspend_def [abs_def]
  by (intro keeps_config_if keeps_config_if_const keeps_config_bind call_config reset_config keeps_config_Some)
    (simp_all add: config_ok_alt)

end

section \<open>The steps\<close>

text \<open>
  A state of the driver and the queues whose completion the controller has signalled. The controller accepts a primed
  transfer, ends one with at most its bytes left, and brings setup packets and changes of the port; the driver runs at its
  interrupts; the application calls the interface of the stack.
\<close>

inductive usb_step :: "device \<Rightarrow> usb \<times> (nat \<times> usb_dir) set \<Rightarrow> usb \<times> (nat \<times> usb_dir) set \<Rightarrow> bool" for D where
  accept: "endptprime s q \<Longrightarrow> usb_step D (s, C) (s\<lparr>endptprime := (endptprime s)(q := False), endptstatus := (endptstatus s)(q := True)\<rparr>, C)"
| finish: "endptstatus s q \<Longrightarrow> \<not> endptprime s q \<Longrightarrow> left \<le> usTotalBytes (dTDs s q) \<Longrightarrow>
    usb_step D (s, C) (s\<lparr>endptstatus := (endptstatus s)(q := False),
      dTDs := (dTDs s)(q := (dTDs s q)\<lparr>usTotalBytes := left, usStatusIoc := w\<rparr>)\<rparr>, insert q C)"
| packet: "length bs = 8 \<Longrightarrow>
    usb_step D (s, C) (s\<lparr>setup_bytes := (setup_bytes s)(ep := bs), endptsetupstat := (endptsetupstat s)(ep := True)\<rparr>, C)"
| port: "usb_step D (s, C) (s\<lparr>portsc1 := p, vbussense := v, pluggedin := g\<rparr>, C)"
| transfer: "completes dw C \<Longrightarrow> usb_dci_process_tr_complete D w dw s = Some s' \<Longrightarrow> usb_step D (s, C) (s', {})"
| reset: "usb_dci_process_reset D s = Some s' \<Longrightarrow>
    (\<And>s1. call D USB_SERVICE_BUS_RESET no_data (flushed s) = Some s1 \<Longrightarrow> queue_part s1 = queue_part (flushed s)) \<Longrightarrow>
    usb_step D (s, C) (s', {})"
| port_change: "usb_dci_process_port_change D s = Some s' \<Longrightarrow> usb_step D (s, C) (s', C)"
| suspend: "usb_dci_process_suspend D False s = Some s' \<Longrightarrow> usb_step D (s, C) (s', C)"
| application: "run D h c s = Some s' \<Longrightarrow> usb_step D (s, C) (s', C)"
| service: "usb_step D (s, C) (snd (usb_device_register_service t h s), C)"

inductive usb_reach :: "device \<Rightarrow> usb \<times> (nat \<times> usb_dir) set \<Rightarrow> bool" for D where
  start: "(\<And>q. g_dXD_Queues s q = None) \<Longrightarrow> (\<And>q. \<not> endptprime s q) \<Longrightarrow> (\<And>q. \<not> endptstatus s q) \<Longrightarrow> usb_reach D (usb_device_init s, {})"
| step: "usb_reach D u \<Longrightarrow> usb_step D u v \<Longrightarrow> usb_reach D v"

inductive_cases usb_stepE: "usb_step D (s, C) (s', C')"

definition device_ok :: "device \<Rightarrow> usb \<times> (nat \<times> usb_dir) set \<Rightarrow> bool" where
  "device_ok D u \<longleftrightarrow> (\<exists>Q. sound (lay D) (fst u) Q (snd u)) \<and> config_ok (fst u)"

lemma init_ok:
  assumes "\<And>q. g_dXD_Queues s q = None" and "\<And>q. \<not> endptprime s q" and "\<And>q. \<not> endptstatus s q"
  shows "device_ok D (usb_device_init s, {})"
proof -
  let ?s = "usb_device_init s"
  have e: "g_XdPool ?s = replicate MAX_USB_TRANSFERS_QUEUED idle_xd" "g_dXD_Queues ?s = g_dXD_Queues s" "endptprime ?s = endptprime s"
      "endptstatus ?s = endptstatus s" "usUsbState ?s = USB_STATE_UNKNOWN"
    by (simp_all add: usb_device_init_def Let_def usb_device_register_service_def usb_dci_update_connection_status_def MAX_NUMBER_SERVICES_def)
  have "queues_rep ?s (\<lambda>_. [])"
    using assms(1) unfolding queues_rep_def e by (auto simp: idle_xd_def)
  then have "sound (lay D) ?s (\<lambda>_. []) {}" by (rule empty_sound) (simp_all add: e assms)
  moreover have "config_ok ?s" by (simp add: config_ok_def e usb_states)
  ultimately show ?thesis unfolding device_ok_def by auto
qed

lemma accept_sound:
  assumes S: "sound L s Q C" and p: "endptprime s q"
  shows "sound L (s\<lparr>endptprime := (endptprime s)(q := False), endptstatus := (endptstatus s)(q := True)\<rparr>) Q C" (is "sound L ?s Q C")
proof -
  have "q \<notin> C" using soundD(3) [OF S, of q] p by blast
  have "queues_rep ?s Q" using soundD(1) [OF S] queues_rep_cong [of ?s s] by simp
  moreover have "Q x \<noteq> [] \<longleftrightarrow> endptprime ?s x \<or> endptstatus ?s x \<or> x \<in> C" for x
    using soundD(2) [OF S, of x] p by (cases "x = q") simp_all
  moreover have "\<not> endptprime ?s x \<and> \<not> endptstatus ?s x" if "x \<in> C" for x
    using soundD(3) [OF S that] that \<open>q \<notin> C\<close> by auto
  moreover have "requests ?s Q = requests s Q" by (simp add: requests_def fun_eq_iff)
  then have "at_controller L (dTDs ?s x) (hd (requests ?s Q x))" if "Q x \<noteq> []" for x using soundD(4) [OF S that] by simp
  ultimately show ?thesis unfolding sound_def by blast
qed

lemma finish_sound:
  assumes S: "sound L s Q C" and p: "endptstatus s q" "\<not> endptprime s q" and n: "n \<le> usTotalBytes (dTDs s q)"
  shows "sound L (s\<lparr>endptstatus := (endptstatus s)(q := False), dTDs := (dTDs s)(q := (dTDs s q)\<lparr>usTotalBytes := n, usStatusIoc := w\<rparr>)\<rparr>) Q (insert q C)"
    (is "sound L ?s Q _")
proof -
  have "queues_rep ?s Q" using soundD(1) [OF S] queues_rep_cong [of ?s s] by simp
  moreover have "Q x \<noteq> [] \<longleftrightarrow> endptprime ?s x \<or> endptstatus ?s x \<or> x \<in> insert q C" for x
    using soundD(2) [OF S, of x] p by (cases "x = q") simp_all
  moreover have "\<not> endptprime ?s x \<and> \<not> endptstatus ?s x" if "x \<in> insert q C" for x
    using soundD(3) [OF S, of x] that p by (cases "x = q") auto
  moreover have r: "requests ?s Q = requests s Q" by (simp add: requests_def fun_eq_iff)
  have "at_controller L (dTDs ?s x) (hd (requests ?s Q x))" if "Q x \<noteq> []" for x
    using soundD(4) [OF S that] n by (cases "x = q") (auto simp: r at_controller_def)
  ultimately show ?thesis unfolding sound_def by blast
qed

context usb_application
begin

lemma keeps_device: "keeps_queues (lay D) f \<Longrightarrow> keeps_config f \<Longrightarrow> f s = Some s' \<Longrightarrow> device_ok D (s, C) \<Longrightarrow> device_ok D (s', C)"
  unfolding device_ok_def keeps_queues_def keeps_config_def by fastforce

lemma same_device: "queue_part s' = queue_part s \<Longrightarrow> config_part s' = config_part s \<Longrightarrow> device_ok D (s, C) \<Longrightarrow> device_ok D (s', C)"
  unfolding device_ok_def using sound_cong(1) [of s' s] config_ok_cong [of s' s] by simp

lemma step_ok:
  assumes "usb_step D (s, C) (s', C')" and ok: "device_ok D (s, C)"
  shows "device_ok D (s', C')"
  using assms(1)
proof (cases rule: usb_stepE [consumes 1, case_names accept finish packet port transfer reset port_change suspend application service])
  case (accept q)
  from ok obtain Q where Q: "sound (lay D) s Q C" "config_ok s" by (auto simp: device_ok_def)
  have "config_part s' = config_part s" by (simp add: accept config_part_def)
  then have "config_ok s'" using Q(2) config_ok_cong by blast
  then show ?thesis using accept_sound [OF Q(1), of q] accept unfolding device_ok_def by auto
next
  case (finish q n w)
  from ok obtain Q where Q: "sound (lay D) s Q C" "config_ok s" by (auto simp: device_ok_def)
  have "config_part s' = config_part s" by (simp add: finish config_part_def)
  then have "config_ok s'" using Q(2) config_ok_cong by blast
  then show ?thesis using finish_sound [OF Q(1), of q n w] finish unfolding device_ok_def by auto
next
  case (transfer dw w)
  from ok obtain Q where "sound (lay D) s Q C" "config_ok s" by (auto simp: device_ok_def)
  with tr_complete_fifo [OF this(1) transfer(2) order_refl transfer(3)] tr_complete_config transfer show ?thesis
    unfolding device_ok_def keeps_config_def by auto
next
  case reset
  from ok obtain Q where Q: "sound (lay D) s Q C" "config_ok s" by (auto simp: device_ok_def)
  have "sound (lay D) s' (\<lambda>_. []) {}" by (rule reset_sound [OF soundD(1) [OF Q(1)] reset(2,3)])
  moreover have "config_ok s'" using Q(2) reset(2) reset_config unfolding keeps_config_def by blast
  ultimately show ?thesis using reset(1) unfolding device_ok_def by auto
next
  case packet
  then show ?thesis using ok same_device [of s' s] by (simp add: queue_part_def config_part_def)
next
  case port
  then show ?thesis using ok same_device [of s' s] by (simp add: queue_part_def config_part_def)
next
  case port_change
  then show ?thesis using ok keeps_device [OF port_change_keeps port_change_config] by blast
next
  case suspend
  then show ?thesis using ok keeps_device [OF suspend_keeps suspend_config] by blast
next
  case application
  then show ?thesis using ok keeps_device [OF run_keeps leaves_keeps [OF run_leaves]] by blast
next
  case (service t h)
  then show ?thesis
    using ok same_device [of s' s] by (simp add: usb_device_register_service_def queue_part_def config_part_def split: option.split)
qed

lemma reach_ok: "usb_reach D u \<Longrightarrow> device_ok D u"
proof (induction rule: usb_reach.induct)
  case (start s)
  then show ?case by (rule init_ok)
next
  case (step u v)
  then show ?case by (cases u; cases v) (blast intro: step_ok)
qed

end

end
