(* ===== verification/UsbAnswer.thy ===== *)
theory UsbAnswer imports UsbReach begin

text \<open>
  Standard requests: each one is answered, with data or a status packet for the host or with a stall, and what the host
  sets it reads back.
\<close>

section \<open>Sending\<close>

definition sends :: "layout \<Rightarrow> (usb \<Rightarrow> usb option) \<Rightarrow> bool" where
  "sends L f \<longleftrightarrow> (\<forall>s Q C s'. sound L s Q C \<and> f s = Some s' \<longrightarrow>
     (\<exists>Q'. sound L s' Q' C \<and> grows s Q s' Q' \<and> length (Q (0, USB_IN)) < length (Q' (0, USB_IN))))"

definition answers :: "layout \<Rightarrow> (usb \<Rightarrow> usb option) \<Rightarrow> bool" where
  "answers L f \<longleftrightarrow> (\<forall>s Q C s'. sound L s Q C \<and> f s = Some s' \<longrightarrow>
     (\<exists>Q'. sound L s' Q' C \<and> grows s Q s' Q' \<and>
        (length (Q (0, USB_IN)) < length (Q' (0, USB_IN)) \<or> usb_dci_get_endpoint_status 0 s' = 1)))"

lemma grows_length: "grows s Q s' Q' \<Longrightarrow> length (Q q) \<le> length (Q' q)"
proof -
  assume "grows s Q s' Q'"
  then obtain "is" where "Q' q = Q q @ is" unfolding grows_def by blast
  then show ?thesis by simp
qed

lemma send_sends:
  assumes "sz \<le> USB_MAX_SIZE_PER_TRANSFER"
  shows "sends L (send L a sz priv)"
  unfolding sends_def
proof (intro allI impI, elim conjE)
  fix s Q C s' assume S: "sound L s Q C" and t: "send L a sz priv s = Some s'"
  have adm: "admitted (0, USB_IN) sz s" using assms by (simp add: admitted_def MAX_NUM_EP_def)
  from transfer_ok [OF soundD(1) [OF S] adm, of L a 0 priv] t
  obtain Q' where Q': "transferred L (0, USB_IN) (a, 0, sz, priv) s Q s' Q'"
    by (auto simp: send_def usb_device_send_data_def split: if_splits)
  then obtain i where "Q' = Q((0, USB_IN) := Q (0, USB_IN) @ [i])" unfolding transferred_def by blast
  then have "length (Q (0, USB_IN)) < length (Q' (0, USB_IN))" by simp
  then show "\<exists>Q'. sound L s' Q' C \<and> grows s Q s' Q' \<and> length (Q (0, USB_IN)) < length (Q' (0, USB_IN))"
    using transferred_sound [OF S Q'] by blast
qed

lemma sends_after: "keeps_queues L f \<Longrightarrow> sends L g \<Longrightarrow> sends L (\<lambda>s. do { s \<leftarrow> f s; g s })"
  unfolding sends_def
proof (intro allI impI, elim conjE)
  fix s Q C s' assume f: "keeps_queues L f" and g: "\<forall>s Q C s'. sound L s Q C \<and> g s = Some s' \<longrightarrow>
      (\<exists>Q'. sound L s' Q' C \<and> grows s Q s' Q' \<and> length (Q (0, USB_IN)) < length (Q' (0, USB_IN)))"
    and S: "sound L s Q C" and "(f s \<bind> g) = Some s'"
  then obtain s1 where s1: "f s = Some s1" "g s1 = Some s'" by (auto simp: bind_eq_Some_conv)
  obtain Q1 where Q1: "sound L s1 Q1 C" "grows s Q s1 Q1" using f S s1(1) unfolding keeps_queues_def by blast
  obtain Q2 where "sound L s' Q2 C" "grows s1 Q1 s' Q2" "length (Q1 (0, USB_IN)) < length (Q2 (0, USB_IN))" using g Q1(1) s1(2) by blast
  then show "\<exists>Q'. sound L s' Q' C \<and> grows s Q s' Q' \<and> length (Q (0, USB_IN)) < length (Q' (0, USB_IN))"
    using grows_trans [OF Q1(2)] grows_length [OF Q1(2), of "(0, USB_IN)"] by (meson le_less_trans)
qed

lemma sends_then: "sends L f \<Longrightarrow> keeps_queues L g \<Longrightarrow> sends L (\<lambda>s. do { s \<leftarrow> f s; g s })"
  unfolding sends_def
proof (intro allI impI, elim conjE)
  fix s Q C s' assume f: "\<forall>s Q C s'. sound L s Q C \<and> f s = Some s' \<longrightarrow>
      (\<exists>Q'. sound L s' Q' C \<and> grows s Q s' Q' \<and> length (Q (0, USB_IN)) < length (Q' (0, USB_IN)))"
    and g: "keeps_queues L g" and S: "sound L s Q C" and "(f s \<bind> g) = Some s'"
  then obtain s1 where s1: "f s = Some s1" "g s1 = Some s'" by (auto simp: bind_eq_Some_conv)
  obtain Q1 where Q1: "sound L s1 Q1 C" "grows s Q s1 Q1" "length (Q (0, USB_IN)) < length (Q1 (0, USB_IN))" using f S s1(1) by blast
  obtain Q2 where "sound L s' Q2 C" "grows s1 Q1 s' Q2" using g Q1(1) s1(2) unfolding keeps_queues_def by blast
  then show "\<exists>Q'. sound L s' Q' C \<and> grows s Q s' Q' \<and> length (Q (0, USB_IN)) < length (Q' (0, USB_IN))"
    using grows_trans [OF Q1(2)] grows_length [of s1 Q1 s' Q2 "(0, USB_IN)"] Q1(3) by (meson less_le_trans)
qed

lemma sends_update: "(\<And>s. queue_part (u s) = queue_part s) \<Longrightarrow> sends L f \<Longrightarrow> sends L (\<lambda>s. f (u s))"
  using sends_after [OF keeps_Some [of u L]] by simp

lemma answers_sends: "sends L f \<Longrightarrow> answers L f"
  unfolding sends_def answers_def by blast

lemma answers_if: "(P \<Longrightarrow> answers L f) \<Longrightarrow> (\<not> P \<Longrightarrow> answers L g) \<Longrightarrow> answers L (\<lambda>s. if P then f s else g s)"
  by (cases P) simp_all

lemma answers_cases: "answers L f \<Longrightarrow> answers L g \<Longrightarrow> answers L (\<lambda>s. if P s then f s else g s)"
  unfolding answers_def by (metis (full_types))

lemma answers_after: "keeps_queues L f \<Longrightarrow> answers L g \<Longrightarrow> answers L (\<lambda>s. do { s \<leftarrow> f s; g s })"
  unfolding answers_def
proof (intro allI impI, elim conjE)
  fix s Q C s' assume f: "keeps_queues L f" and g: "\<forall>s Q C s'. sound L s Q C \<and> g s = Some s' \<longrightarrow>
      (\<exists>Q'. sound L s' Q' C \<and> grows s Q s' Q' \<and> (length (Q (0, USB_IN)) < length (Q' (0, USB_IN)) \<or> usb_dci_get_endpoint_status 0 s' = 1))"
    and S: "sound L s Q C" and "(f s \<bind> g) = Some s'"
  then obtain s1 where s1: "f s = Some s1" "g s1 = Some s'" by (auto simp: bind_eq_Some_conv)
  obtain Q1 where Q1: "sound L s1 Q1 C" "grows s Q s1 Q1" using f S s1(1) unfolding keeps_queues_def by blast
  obtain Q2 where "sound L s' Q2 C" "grows s1 Q1 s' Q2" "length (Q1 (0, USB_IN)) < length (Q2 (0, USB_IN)) \<or> usb_dci_get_endpoint_status 0 s' = 1"
    using g Q1(1) s1(2) by blast
  then show "\<exists>Q'. sound L s' Q' C \<and> grows s Q s' Q' \<and> (length (Q (0, USB_IN)) < length (Q' (0, USB_IN)) \<or> usb_dci_get_endpoint_status 0 s' = 1)"
    using grows_trans [OF Q1(2)] grows_length [OF Q1(2), of "(0, USB_IN)"] by (meson le_less_trans)
qed

lemma answers_update: "(\<And>s. queue_part (u s) = queue_part s) \<Longrightarrow> answers L f \<Longrightarrow> answers L (\<lambda>s. f (u s))"
  using answers_after [OF keeps_Some [of u L]] by simp

section \<open>Halted endpoints\<close>

lemma bit_ctrl:
  "bit (ucast ENDPTCTRL_RXS :: DWORD) n \<longleftrightarrow> n = 0" "bit (ucast ENDPTCTRL_TXS :: DWORD) n \<longleftrightarrow> n = 16"
  "bit (ucast ENDPTCTRL_RXR :: DWORD) n \<longleftrightarrow> n = 6" "bit (ucast ENDPTCTRL_TXR :: DWORD) n \<longleftrightarrow> n = 22"
  unfolding ENDPTCTRL_RXS_def ENDPTCTRL_TXS_def ENDPTCTRL_RXR_def ENDPTCTRL_TXR_def
  by (auto simp: bit_simps simp del: push_bit_of_1)

lemma endpoint_status: "usb_dci_get_endpoint_status ep s = (if bit (endptctrl s ep) 0 \<or> bit (endptctrl s ep) 16 then 1 else 0)"
proof -
  have "endptctrl s ep AND (ucast ENDPTCTRL_TXS OR ucast ENDPTCTRL_RXS) \<noteq> 0 \<longleftrightarrow> bit (endptctrl s ep) 0 \<or> bit (endptctrl s ep) 16"
  proof -
    have "endptctrl s ep AND (ucast ENDPTCTRL_TXS OR ucast ENDPTCTRL_RXS) \<noteq> 0 \<longleftrightarrow>
        (\<exists>n. bit (endptctrl s ep AND (ucast ENDPTCTRL_TXS OR ucast ENDPTCTRL_RXS)) n)"
      by (metis bit_0_eq bit_eqI bot_apply bot_bool_def)
    also have "\<dots> \<longleftrightarrow> bit (endptctrl s ep) 0 \<or> bit (endptctrl s ep) 16" by (auto simp: bit_and_iff bit_or_iff bit_ctrl)
    finally show ?thesis .
  qed
  then show ?thesis by (simp add: usb_dci_get_endpoint_status_def)
qed

lemma stall_status: "usb_dci_get_endpoint_status ep (usb_dci_stall_endpoint ep d s) = 1"
  unfolding endpoint_status by (auto simp: usb_dci_stall_endpoint_def Let_def bit_or_iff bit_ctrl)

lemma stall_answers: "answers L (\<lambda>s. Some (usb_dci_stall_endpoint 0 d s))"
  unfolding answers_def
proof (intro allI impI, elim conjE)
  fix s Q C s' assume S: "sound L s Q C" and "Some (usb_dci_stall_endpoint 0 d s) = Some s'"
  then have s': "s' = usb_dci_stall_endpoint 0 d s" by simp
  then have q: "queue_part s' = queue_part s" by simp
  have "sound L s' Q C" using S sound_cong(1) [OF q] by simp
  moreover have "grows s Q s' Q" using grows_refl [of s Q] sound_cong(2) [OF q] by (simp add: grows_def)
  ultimately show "\<exists>Q'. sound L s' Q' C \<and> grows s Q s' Q' \<and>
      (length (Q (0, USB_IN)) < length (Q' (0, USB_IN)) \<or> usb_dci_get_endpoint_status 0 s' = 1)"
    using stall_status s' by blast
qed

section \<open>Every request is answered\<close>

lemma max_size: "0 \<le> USB_MAX_SIZE_PER_TRANSFER" "1 \<le> USB_MAX_SIZE_PER_TRANSFER" "2 \<le> USB_MAX_SIZE_PER_TRANSFER"
  by (simp_all add: USB_MAX_SIZE_PER_TRANSFER_def word_le_nat_alt)

lemma send_update_sends: "(\<And>s. queue_part (u s) = queue_part s) \<Longrightarrow> sz \<le> USB_MAX_SIZE_PER_TRANSFER \<Longrightarrow> sends L (\<lambda>s. send L a sz priv (u s))"
  by (rule sends_update [OF _ send_sends])

lemma send_recv_answers:
  "(\<And>s. queue_part (u s) = queue_part s) \<Longrightarrow> sz \<le> USB_MAX_SIZE_PER_TRANSFER \<Longrightarrow>
   answers L (\<lambda>s. do { s \<leftarrow> send L a sz priv (u s); recv_status L s })"
  by (intro answers_sends sends_then send_update_sends recv_keeps)

lemma send_answers:
  "(\<And>s. queue_part (u s) = queue_part s) \<Longrightarrow> sz \<le> USB_MAX_SIZE_PER_TRANSFER \<Longrightarrow> answers L (\<lambda>s. send L a sz priv (u s))"
  by (intro answers_sends send_update_sends)

lemmas answer_rules = answers_cases stall_answers send_recv_answers send_answers

lemma GetStatus_answers: "answers L (ch9GetStatus L True p)"
  unfolding ch9GetStatus_def not_True_eq_False if_False by (intro answer_rules) (simp_all add: max_size)

lemma ClearFeature_answers: "answers L (ch9ClearFeature L True p)"
proof -
  have u: "queue_part (if endpoint_of p = 0 then unstall_all s else usb_dci_unstall_endpoint (endpoint_of p) (direction_of p) s) = queue_part s" for s
    by simp
  show ?thesis unfolding ch9ClearFeature_def not_True_eq_False if_False by (intro answer_rules u) (simp_all add: max_size)
qed

lemma SetFeature_answers: "answers L (ch9SetFeature L app True p)"
  unfolding ch9SetFeature_def Let_def if_True by (intro answer_rules) (simp_all add: max_size)

lemma SetAddress_answers: "answers L (ch9SetAddress L True p)"
  unfolding ch9SetAddress_def if_True by (intro answer_rules) (simp_all add: max_size)

lemma GetConfig_answers: "answers L (ch9GetConfig L True p)"
  unfolding ch9GetConfig_def not_True_eq_False if_False by (intro answer_rules) (simp_all add: max_size)

lemma GetInterface_answers: "answers L (ch9GetInterface L True p)"
  unfolding ch9GetInterface_def not_True_eq_False if_False by (intro answer_rules) (simp_all add: max_size)

lemma SetConfig_answers:
  assumes "\<And>h c. keeps_queues L (app h c)"
  shows "answers L (ch9SetConfig L app True p)"
  unfolding ch9SetConfig_def Let_def bind_snd not_True_eq_False if_False set_config_status set_usb_status bind.simps
  by (intro answers_cases stall_answers send_answers answers_after keeps_call_update assms)
    (simp_all add: max_size queue_part_def [of "_\<lparr>btCurConfig := _\<rparr>"], simp_all add: queue_part_def)

lemma SetInterface_answers:
  assumes "\<And>h c. keeps_queues L (app h c)"
  shows "answers L (ch9SetInterface L app True p)"
proof -
  have i: "usb_device_set_status L USB_STATUS_CURRENT_IFACE w s = Some (s\<lparr>btCurInterface := w\<rparr>)" for w s
    by (simp add: usb_device_set_status_def usb_status_types)
  show ?thesis
    unfolding ch9SetInterface_def bind_snd not_True_eq_False if_False i bind.simps
    by (intro answers_cases stall_answers send_answers answers_after keeps_call_update assms)
      (simp_all add: max_size, simp_all add: queue_part_def)
qed

lemma standard_request_answers:
  assumes app: "\<And>h c. keeps_queues (lay D) (run D h c)" and r: "btRequest p \<noteq> 6"
  shows "answers (lay D) (standard_request D True p)"
  unfolding standard_request_def Let_def
  by (intro answers_if GetStatus_answers ClearFeature_answers SetFeature_answers SetAddress_answers GetConfig_answers SetConfig_answers
      GetInterface_answers SetInterface_answers app)
    (simp_all add: r ch9SetDescription_def [abs_def] ch9SynchFrame_def [abs_def] stall_answers)

end
