(* ===== verification/UsbProps.thy ===== *)
theory UsbProps imports UsbAnswer begin

text \<open>
  The properties of the USB device, each with a run on a device that has just been started.
\<close>

section \<open>A run\<close>

text \<open>The memory as it is when the device is switched on.\<close>

definition power_up :: usb where
  "power_up = \<lparr>btSpeed = 0, btCurConfig = 0, btCurInterface = 0, btAddress = 0, usUsbState = 0, usUsbStatePriorSusp = 0,
     usUsbDeviceState = 0, usSofCount = 0, btBusResetting = False, bEnterTestMode = 0, usConnectionState = 0, Services = [],
     s_btHoldOffEP0 = False, s_btStatusPhase = False, s_bUsbFirstInit = False, g_XdPool = [], g_dXD_Queues = (\<lambda>_. None),
     g_SetupData = (\<lambda>_. \<lparr>bValid = False, RequestType = 0, btRequest = 0, wValue = 0, wIndex = 0, wLength = 0\<rparr>),
     dTDs = (\<lambda>_. \<lparr>usTotalBytes = 0, usCurrentOffset = 0, pbtBufPage0 = 0, pbtBufPage1 = 0, usStatusIoc = 0\<rparr>),
     endptctrl = (\<lambda>_. 0), endptprime = (\<lambda>_. False), endptstatus = (\<lambda>_. False), endptsetupstat = (\<lambda>_. False),
     setup_bytes = (\<lambda>_. []), devaddr = 0, portsc1 = 0, test_mode = None, vbussense = False, pluggedin = False, usDataToSend = 0,
     app_status = 0, usTestModeIndex = 0, btNewAddress = 0, g_bUsbConfigured = False, Descriptor = replicate MAX_DESC_SIZE 0\<rparr>"

definition booted :: usb where "booted = usb_device_init power_up"

definition memory_map :: layout where
  "memory_map = \<lparr>dQH_Base_Add = 0x1000, usDataToSend_at = 0x2000, Descriptor_at = 0x2100, TestPacket_at = 0x2200, btStatus_at = 0x2300\<rparr>"

definition one_config :: descriptors where
  "one_config = \<lparr>StDescDevice = 18 # 1 # replicate 16 0, StDescDeviceQualFs = 10 # 6 # replicate 8 0,
     StDescDeviceQualHs = 10 # 6 # replicate 8 0,
     ConfigStruct = [([[9, 2, 0, 0, 1, 1, 4, 0x80, 0xFA], [9, 4, 0, 0, 0, 8, 6, 0x50, 5]], [[9, 2, 0, 0, 1, 1, 4, 0x80, 0xFA], [9, 4, 0, 0, 0, 8, 6, 0x50, 5]])],
     StStringDescriptor = replicate 8 [2, 3], iStrings = 1, g_bUsbHsEnabled = True\<rparr>"

text \<open>An application that answers every service with 8 bytes on endpoint 0.\<close>

definition sender :: device where
  "sender = api_device memory_map (\<lambda>_ _ _. Then (Send 0 0x3000 0 8 7) (\<lambda>_. Finish)) put_byte_of_word one_config"

lemma booted_start: "usb_reach D (booted, {})"
  unfolding booted_def by (rule usb_reach.start) (simp_all add: power_up_def)

lemma booted_sound: "sound L booted (\<lambda>_. []) {}"
proof -
  have "queues_rep booted (\<lambda>_. [])"
    by (auto simp: queues_rep_def booted_def usb_device_init_def Let_def usb_device_register_service_def usb_dci_update_connection_status_def
        MAX_NUMBER_SERVICES_def power_up_def idle_xd_def)
  then show ?thesis
    by (rule empty_sound)
      (simp_all add: booted_def usb_device_init_def Let_def usb_device_register_service_def usb_dci_update_connection_status_def
        MAX_NUMBER_SERVICES_def power_up_def)
qed

lemma booted_services: "Services booted = [(0, 0)]"
  by (simp add: booted_def usb_device_init_def Let_def usb_device_register_service_def usb_dci_update_connection_status_def
      MAX_NUMBER_SERVICES_def USB_SERVICE_EP0_def)

lemma busy_none: "busy (\<lambda>_. []) = 0"
  by (simp add: busy_def)

lemma first_send:
  "\<exists>s' Q'. usb_device_transfer_data memory_map 0 0x3000 0 8 7 False USB_IN booted = Some (USB_OK, s') \<and>
     transferred memory_map (0, USB_IN) (0x3000, 0, 8, 7) booted (\<lambda>_. []) s' Q'"
proof -
  have "admitted (0, USB_IN) 8 booted" by (simp add: admitted_def USB_MAX_SIZE_PER_TRANSFER_def MAX_NUM_EP_def)
  from transfer_ok [OF soundD(1) [OF booted_sound] this, of memory_map "0x3000" 0 7] show ?thesis
    by (simp add: busy_none MAX_USB_TRANSFERS_QUEUED_def)
qed

text \<open>The 8 bytes are sent, and the controller says so.\<close>

lemma sent_run:
  "\<exists>s Q. usb_reach sender (s, {(0, USB_IN)}) \<and> sound memory_map s Q {(0, USB_IN)} \<and>
     requests s Q (0, USB_IN) = [(0x3000, 0, 8, 7)] \<and> Services s = [(0, 0)] \<and> g_SetupData s = g_SetupData booted"
proof -
  obtain s1 Q1 where s1: "usb_device_transfer_data memory_map 0 0x3000 0 8 7 False USB_IN booted = Some (USB_OK, s1)"
      "transferred memory_map (0, USB_IN) (0x3000, 0, 8, 7) booted (\<lambda>_. []) s1 Q1" using first_send by blast
  have lay: "lay sender = memory_map" by (simp add: sender_def api_device_def)
  have "run sender 1 no_data booted = Some s1" using s1(1) by (simp add: sender_def api_device_def usb_device_send_data_def)
  then have r1: "usb_reach sender (s1, {})" by (rule usb_reach.step [OF booted_start usb_step.application])
  have S1: "sound memory_map s1 Q1 {}" by (rule transferred_sound(1) [OF booted_sound s1(2)])
  have T: "requests s1 Q1 (0, USB_IN) = [(0x3000, 0, 8, 7)]" "Services s1 = [(0, 0)]" "g_SetupData s1 = g_SetupData booted" and p: "endptprime s1 (0, USB_IN)"
  proof -
    show "requests s1 Q1 (0, USB_IN) = [(0x3000, 0, 8, 7)]" using s1(2) by (simp add: transferred_def requests_def)
    have e: "s1 = booted\<lparr>g_XdPool := g_XdPool s1, g_dXD_Queues := g_dXD_Queues s1,
        dTDs := (dTDs booted)((0, USB_IN) := started memory_map (0x3000, 0, 8, 7)),
        endptprime := (endptprime booted)((0, USB_IN) := True)\<rparr>" using s1(2) by (simp add: transferred_def)
    show "Services s1 = [(0, 0)]" by (subst e) (simp add: booted_services)
    show "g_SetupData s1 = g_SetupData booted" by (subst e) simp
    show "endptprime s1 (0, USB_IN)" by (subst e) simp
  qed
  let ?q = "(0, USB_IN)"
  let ?s2 = "s1\<lparr>endptprime := (endptprime s1)(?q := False), endptstatus := (endptstatus s1)(?q := True)\<rparr>"
  let ?s3 = "?s2\<lparr>endptstatus := (endptstatus ?s2)(?q := False), dTDs := (dTDs ?s2)(?q := (dTDs ?s2 ?q)\<lparr>usTotalBytes := 0, usStatusIoc := 0\<rparr>)\<rparr>"
  have "usb_reach sender (?s2, {})" by (rule usb_reach.step [OF r1 usb_step.accept [OF p]])
  then have "usb_reach sender (?s3, {?q})" by (rule usb_reach.step [OF _ usb_step.finish]) simp_all
  moreover have "sound memory_map ?s3 Q1 {?q}"
    by (rule finish_sound [OF accept_sound [OF S1 p]]) simp_all
  moreover have "requests ?s3 Q1 ?q = [(0x3000, 0, 8, 7)]" using T(1) by (simp add: requests_def)
  ultimately show ?thesis using T(2,3) by (intro exI [of _ ?s3] exI [of _ Q1]) simp
qed

section \<open>The queues\<close>

text \<open>
  C31. The transfers of an endpoint and direction are a first-in-first-out queue. A transfer that is admitted is appended to
  its queue, goes to the controller at once when the queue was empty, and changes nothing else; with all 48 descriptors in
  queues the driver halts instead.
\<close>

theorem usb_device_transfer_data_fifo:
  assumes "queues_rep s Q" and "admitted q sz s"
  shows "if busy Q = MAX_USB_TRANSFERS_QUEUED
    then usb_device_transfer_data L (fst q) a off sz priv False (snd q) s = None
    else \<exists>s' Q'. usb_device_transfer_data L (fst q) a off sz priv False (snd q) s = Some (USB_OK, s') \<and>
      transferred L q (a, off, sz, priv) s Q s' Q'"
  by (rule transfer_ok [OF assms])

theorem usb_device_transfer_data_fifo_witness:
  "\<exists>s' Q'. usb_device_transfer_data memory_map (fst (0, USB_IN)) 0x3000 0 8 7 False (snd (0::nat, USB_IN)) booted = Some (USB_OK, s') \<and>
     transferred memory_map (0, USB_IN) (0x3000, 0, 8, 7) booted (\<lambda>_. []) s' Q'"
proof -
  have "admitted (0, USB_IN) 8 booted" by (simp add: admitted_def USB_MAX_SIZE_PER_TRANSFER_def MAX_NUM_EP_def)
  moreover have "busy (\<lambda>_. []) \<noteq> MAX_USB_TRANSFERS_QUEUED" by (simp add: busy_none MAX_USB_TRANSFERS_QUEUED_def)
  ultimately show ?thesis
    using usb_device_transfer_data_fifo [OF soundD(1) [OF booted_sound], of "(0, USB_IN)" 8 memory_map "0x3000" 0 7] by simp
qed

text \<open>
  C30. An interrupt for completed transfers retires the oldest request of each of the pending queues and no other, and whatever
  the services of the application do, the later requests keep their order in front of the new ones and every queue
  that is not empty has its first request at the controller.
\<close>

theorem usb_dci_process_tr_complete_serves:
  assumes "sound L s Q C" and "completes dw P" and "P \<subseteq> C"
    and "usb_dci_process_tr_complete (api_device L prog put T) w dw s = Some s'"
  shows "\<exists>Q'. sound L s' Q' (C - P) \<and> served P s Q s' Q'"
proof -
  have "lay (api_device L prog put T) = L" by (simp add: api_device_def)
  then show ?thesis
    using api_application.tr_complete_fifo [of L prog put T s Q C dw P w s'] assms by simp
qed

lemma pending_first: "pending (completed_Rx 0x1000000) (completed_Tx 0x1000000) = [(0, USB_IN)]"
proof -
  have "completed_Rx 0x1000000 = 0" "completed_Tx 0x1000000 = 1" by (simp_all add: completed_Rx_def completed_Tx_def)
  then show ?thesis by (simp add: pending_def all_queues_def MAX_NUM_EP_def upt_conv_Cons)
qed

lemma completes_first: "completes 0x1000000 {(0, USB_IN)}"
  unfolding completes_def pending_first by (simp add: completed_Rx_def completed_Tx_def)

lemma first_completion:
  assumes "sound memory_map s Q {(0, USB_IN)}" and "Services s = [(0, 0)]" and "g_SetupData s = g_SetupData booted"
  shows "\<exists>s'. usb_dci_process_tr_complete sender 0 0x1000000 s = Some s'"
proof -
  let ?q = "(0, USB_IN)"
  have rep: "queues_rep s Q" and "Q ?q \<noteq> []" using soundD(1) [OF assms(1)] soundD(2) [OF assms(1), of ?q] by auto
  then obtain i "is" where q: "Q ?q = i # is" by (cases "Q ?q") auto
  have h: "g_dXD_Queues s ?q = Some i" using head_of_queue [OF rep, of ?q] q by (simp add: MAX_NUM_EP_def)
  have i: "i < length (g_XdPool s)" using queues_repD(1) [OF rep] queues_repD(4) [OF rep, of i ?q] q by simp
  have z: "g_SetupData s 0 = \<lparr>bValid = False, RequestType = 0, btRequest = 0, wValue = 0, wIndex = 0, wLength = 0\<rparr>"
    by (simp add: assms(3) booted_def usb_device_init_def Let_def usb_device_register_service_def usb_dci_update_connection_status_def
        MAX_NUMBER_SERVICES_def power_up_def)
  have e0: "ch9ServiceEp0 sender c u = Some u" if "g_SetupData u 0 = g_SetupData s 0" "\<not> bSetup c" for c u
    using that by (simp add: ch9ServiceEp0_def Let_def z req_type_def standard_request_def ch9GetStatus_def)
  have c: "call sender 0 (completion ?q r t) (finished ?q i s) = Some (finished ?q i s)" for r t
    using e0 [of "finished ?q i s" "completion ?q r t"] assms(2)
    by (cases r) (simp add: call_def usb_device_call_service_def finished_def Let_def service_def completion_def)
  have "\<exists>s'. complete_one sender ?q s = Some s'"
    using complete_one_steps [OF h _ i, of sender] c by (simp add: MAX_NUM_EP_def)
  then have "\<exists>s'. ProcessEndptComplete sender 0x1000000 s = Some s'"
    unfolding ProcessEndptComplete_each [OF completes_first] pending_first by auto
  then show ?thesis by (simp add: usb_dci_process_tr_complete_def ProcessEndptSetup_def)
qed

theorem usb_dci_process_tr_complete_serves_witness:
  "\<exists>s Q s' Q'. requests s Q (0, USB_IN) = [(0x3000, 0, 8, 7)] \<and> usb_dci_process_tr_complete sender 0 0x1000000 s = Some s' \<and>
     sound memory_map s' Q' {} \<and> served {(0, USB_IN)} s Q s' Q'"
proof -
  obtain s Q where s: "sound memory_map s Q {(0, USB_IN)}" "requests s Q (0, USB_IN) = [(0x3000, 0, 8, 7)]" "Services s = [(0, 0)]"
      "g_SetupData s = g_SetupData booted" using sent_run by blast
  obtain s' where s': "usb_dci_process_tr_complete sender 0 0x1000000 s = Some s'" using first_completion [OF s(1,3,4)] by blast
  from usb_dci_process_tr_complete_serves [OF s(1) completes_first order_refl s' [unfolded sender_def]] s s' show ?thesis by auto
qed

text \<open>
  C29. In every state that the device, its controller and an application reach, each of the 48 descriptors is idle or in
  exactly one queue, and every request that waits has the first of its queue at the controller or its completion pending:
  no transfer is lost or stuck.
\<close>

theorem usb_reach_sound:
  assumes "usb_reach (api_device L prog put T) (s, C)"
  shows "\<exists>Q. sound L s Q C"
proof -
  have "lay (api_device L prog put T) = L" by (simp add: api_device_def)
  then show ?thesis using api_application.reach_ok [OF assms] by (simp add: device_ok_def)
qed

theorem usb_reach_sound_witness: "\<exists>s Q. usb_reach sender (s, {(0, USB_IN)}) \<and> sound memory_map s Q {(0, USB_IN)}"
  using sent_run usb_reach_sound [of memory_map "\<lambda>_ _ _. Then (Send 0 0x3000 0 8 7) (\<lambda>_. Finish)" put_byte_of_word one_config]
  unfolding sender_def by blast

section \<open>The configuration\<close>


text \<open>The host gives the device the address 5 and sets configuration 1.\<close>

definition quiet :: device where
  "quiet = api_device memory_map (\<lambda>_ _ _. Finish) put_byte_of_word one_config"

definition arrived :: "BYTE list \<Rightarrow> usb \<Rightarrow> usb" where
  "arrived bs s = s\<lparr>setup_bytes := (setup_bytes s)(0 := bs), endptsetupstat := (endptsetupstat s)(0 := True)\<rparr>"

definition taken :: "usb \<Rightarrow> usb" where
  "taken s = s\<lparr>endptprime := (endptprime s)((0, USB_IN) := False), endptstatus := (endptstatus s)((0, USB_IN) := True)\<rparr>"

definition ended :: "usb \<Rightarrow> usb" where
  "ended s = s\<lparr>endptstatus := (endptstatus s)((0, USB_IN) := False),
     dTDs := (dTDs s)((0, USB_IN) := (dTDs s (0, USB_IN))\<lparr>usTotalBytes := 0, usStatusIoc := 0\<rparr>)\<rparr>"

definition address_set :: "usb option" where
  "address_set = usb_dci_process_tr_complete quiet 1 0 (arrived [0, 5, 5, 0, 0, 0, 0, 0] booted)"

definition addressed :: "usb option" where
  "addressed = do { s \<leftarrow> address_set; usb_dci_process_tr_complete quiet 0 0x1000000 (ended (taken s)) }"

definition configured :: "usb option" where
  "configured = do { s \<leftarrow> addressed; usb_dci_process_tr_complete quiet 1 0 (arrived [0, 9, 1, 0, 0, 0, 0, 0] s) }"

lemma configured_run:
  "\<exists>s. configured = Some s \<and> usb_reach quiet (s, {}) \<and> usUsbState s = USB_STATE_CONFIGURED \<and> btCurConfig s = 1"
proof -
  have c: "map_option (\<lambda>s. (usUsbState s, btCurConfig s)) configured = Some (USB_STATE_CONFIGURED, 1)" by code_simp
  have p: "map_option (\<lambda>s. endptprime s (0, USB_IN)) address_set = Some True" by code_simp
  obtain s3 where s3: "configured = Some s3" "usUsbState s3 = USB_STATE_CONFIGURED" "btCurConfig s3 = 1" using c by auto
  from s3(1) obtain s2 where s2: "addressed = Some s2" "usb_dci_process_tr_complete quiet 1 0 (arrived [0, 9, 1, 0, 0, 0, 0, 0] s2) = Some s3"
    unfolding configured_def bind_eq_Some_conv by blast
  from s2(1) obtain s1 where s1: "address_set = Some s1" "usb_dci_process_tr_complete quiet 0 0x1000000 (ended (taken s1)) = Some s2"
    unfolding addressed_def bind_eq_Some_conv by blast
  have none: "completes 0 {}" by (simp add: completes_def completed_Rx_def completed_Tx_def pending_def)
  have arrive: "usb_reach quiet (arrived bs u, {})" if "usb_reach quiet (u, {})" "length bs = 8" for u bs
    unfolding arrived_def by (rule usb_reach.step [OF that(1) usb_step.packet [OF that(2)]])
  have "usb_reach quiet (s1, {})"
    by (rule usb_reach.step [OF arrive [OF booted_start] usb_step.transfer [OF none]]) (use s1(1) in \<open>simp_all add: address_set_def\<close>)
  moreover have "endptprime s1 (0, USB_IN)" using p unfolding s1(1) by simp
  ultimately have "usb_reach quiet (taken s1, {})"
    unfolding taken_def by (blast intro: usb_reach.step usb_step.accept)
  then have "usb_reach quiet (ended (taken s1), {(0, USB_IN)})"
    unfolding ended_def by (rule usb_reach.step [OF _ usb_step.finish]) (simp_all add: taken_def)
  then have "usb_reach quiet (s2, {})"
    by (rule usb_reach.step [OF _ usb_step.transfer [OF completes_first s1(2)]])
  then have "usb_reach quiet (s3, {})"
    by (intro usb_reach.step [OF arrive usb_step.transfer [OF none s2(2)]]) simp_all
  then show ?thesis using s3 by blast
qed


text \<open>
  C34. SET\_CONFIGURATION of an addressed or configured device is decided by the application. When it agrees the device is
  configured and GET\_CONFIGURATION then sends the value that was set; otherwise endpoint 0 is stalled and the configuration
  stays what it was.
\<close>

theorem ch9SetConfig_GetConfig:
  assumes "usUsbState s = USB_STATE_CONFIGURED \<or> usUsbState s = USB_STATE_ADDRESSED" and "wValue p \<noteq> 0"
    and app: "usb_device_call_service app USB_SERVICE_CHANGE_CONFIG (change_call L p) ((unstall_stalled s)\<lparr>app_status := USB_OK\<rparr>) = Some (e, s0)"
    and set: "ch9SetConfig L app True p s = Some s1"
  shows "if app_status s0 = USB_OK
    then usUsbState s1 = USB_STATE_CONFIGURED \<and>
      ch9GetConfig L True p' s1 = do { s \<leftarrow> send L (usDataToSend_at L) 1 1 (s1\<lparr>usDataToSend := wValue p\<rparr>); recv_status L s }
    else s1 = usb_dci_stall_endpoint 0 USB_IN s0"
proof -
  have r: "(if app_status s0 = USB_OK
      then send L 0 0 0 (s0\<lparr>btCurConfig := wValue p, g_bUsbConfigured := True, usUsbState := USB_STATE_CONFIGURED\<rparr>)
      else Some (usb_dci_stall_endpoint 0 USB_IN s0)) = Some s1"
    using set assms(1,2) app by (auto simp: ch9SetConfig_def Let_def set_config_status set_usb_status)
  show ?thesis
  proof (cases "app_status s0 = USB_OK")
    case True
    then have "send L 0 0 0 (s0\<lparr>btCurConfig := wValue p, g_bUsbConfigured := True, usUsbState := USB_STATE_CONFIGURED\<rparr>) = Some s1"
      using r by simp
    then have "config_part s1 = config_part (s0\<lparr>btCurConfig := wValue p, g_bUsbConfigured := True, usUsbState := USB_STATE_CONFIGURED\<rparr>)"
      using send_leaves unfolding leaves_def by blast
    then have "usUsbState s1 = USB_STATE_CONFIGURED" "btCurConfig s1 = wValue p" by (simp_all add: config_part_def)
    then show ?thesis using True by (simp add: ch9GetConfig_def)
  qed (use r in simp)
qed

theorem ch9SetConfig_GetConfig_witness:
  "\<exists>s s1. addressed = Some s \<and> usUsbState s1 = USB_STATE_CONFIGURED \<and>
     ch9GetConfig memory_map True \<lparr>bValid = True, RequestType = 0x80, btRequest = 8, wValue = 0, wIndex = 0, wLength = 1\<rparr> s1 =
       do { s \<leftarrow> send memory_map 0x2000 1 1 (s1\<lparr>usDataToSend := 3\<rparr>); recv_status memory_map s }"
proof -
  let ?p = "\<lparr>bValid = True, RequestType = 0, btRequest = 9, wValue = 3, wIndex = 0, wLength = 0\<rparr>"
  let ?app = "run quiet"
  have a: "map_option usUsbState addressed = Some USB_STATE_ADDRESSED" by code_simp
  have b: "(do { s \<leftarrow> addressed; map_option (\<lambda>r. app_status (snd r))
      (usb_device_call_service ?app USB_SERVICE_CHANGE_CONFIG (change_call memory_map ?p) ((unstall_stalled s)\<lparr>app_status := USB_OK\<rparr>)) }) = Some USB_OK"
    by code_simp
  have c: "map_option (\<lambda>_. ()) (do { s \<leftarrow> addressed; ch9SetConfig memory_map ?app True ?p s }) = Some ()" by code_simp
  obtain s where s: "addressed = Some s" "usUsbState s = USB_STATE_ADDRESSED" using a by auto
  obtain e s0 where s0: "usb_device_call_service ?app USB_SERVICE_CHANGE_CONFIG (change_call memory_map ?p) ((unstall_stalled s)\<lparr>app_status := USB_OK\<rparr>) = Some (e, s0)"
      "app_status s0 = USB_OK"
  proof -
    let ?r = "usb_device_call_service ?app USB_SERVICE_CHANGE_CONFIG (change_call memory_map ?p) ((unstall_stalled s)\<lparr>app_status := USB_OK\<rparr>)"
    have "map_option (\<lambda>r. app_status (snd r)) ?r = Some USB_OK" using b unfolding s(1) bind.simps .
    then obtain r where "?r = Some r" "app_status (snd r) = USB_OK" by (cases ?r) simp_all
    then show thesis using that [of "fst r" "snd r"] by simp
  qed
  obtain s1 where s1: "ch9SetConfig memory_map ?app True ?p s = Some s1" using c unfolding s(1) bind.simps by auto
  show ?thesis
    using ch9SetConfig_GetConfig [OF _ _ s0(1) s1] s s0(2) by (auto simp: memory_map_def)
qed

section \<open>The requests of the host\<close>

text \<open>
  C33. Every standard request but GET\_DESCRIPTOR is answered, whatever it asks and whatever the application does: when its
  setup packet has been handled a data or status packet for the host has been queued on endpoint 0, or endpoint 0 is stalled.
\<close>

theorem standard_request_answered:
  assumes "sound L s Q C" and "btRequest p \<noteq> 6" and "standard_request (api_device L prog put T) True p s = Some s'"
  shows "\<exists>Q'. sound L s' Q' C \<and> grows s Q s' Q' \<and>
    (length (Q (0, USB_IN)) < length (Q' (0, USB_IN)) \<or> usb_dci_get_endpoint_status 0 s' = 1)"
proof -
  have "lay (api_device L prog put T) = L" by (simp add: api_device_def)
  then show ?thesis
    using standard_request_answers [OF api_application.run_keeps assms(2)] assms(1,3) unfolding answers_def by metis
qed

theorem standard_request_answered_witness:
  "\<exists>s' Q'. standard_request quiet True \<lparr>bValid = True, RequestType = 0, btRequest = 5, wValue = 5, wIndex = 0, wLength = 0\<rparr> booted = Some s' \<and>
     sound memory_map s' Q' {} \<and> (0 < length (Q' (0, USB_IN)) \<or> usb_dci_get_endpoint_status 0 s' = 1)"
proof -
  let ?p = "\<lparr>bValid = True, RequestType = 0, btRequest = 5, wValue = 5, wIndex = 0, wLength = 0\<rparr>"
  have "map_option (\<lambda>_. ()) (standard_request quiet True ?p booted) = Some ()" by code_simp
  then obtain s' where "standard_request quiet True ?p booted = Some s'" by (cases "standard_request quiet True ?p booted") simp_all
  then show ?thesis
    using standard_request_answered [OF booted_sound, of ?p memory_map "\<lambda>_ _ _. Finish" put_byte_of_word one_config s'] unfolding quiet_def by fastforce
qed

lemma transfer_ctrl:
  "usb_device_transfer_data L ep a off sz priv phase d s = Some (e, s') \<Longrightarrow> endptctrl s' = endptctrl s"
  by (auto simp: usb_device_transfer_data_def usb_dci_transfer_data_def GetEmptyXd_def AddXdToQueue_def FreeXd_def Let_def
      bind_eq_Some_conv split: if_splits option.splits)

lemma send_ctrl: "send L a sz priv s = Some s' \<Longrightarrow> endptctrl s' = endptctrl s \<and> usUsbState s' = usUsbState s"
  by (auto simp: send_def usb_device_send_data_def config_part_def dest: transfer_ctrl transfer_config)

lemma unstall_bits:
  assumes "n = 0 \<or> n = 16"
  shows "bit (endptctrl (usb_dci_unstall_endpoint ep d s) ep) n \<longleftrightarrow> bit (endptctrl s ep) n \<and> n \<noteq> (if d = USB_IN then 16 else 0)"
proof -
  have nt: "bit (ucast (NOT w) :: DWORD) n \<longleftrightarrow> \<not> bit w n" for w :: WORD
    using assms by (auto simp: bit_simps)
  have b: "bit ENDPTCTRL_RXS m \<longleftrightarrow> m = 0" "bit ENDPTCTRL_TXS m \<longleftrightarrow> m = 16" "bit ENDPTCTRL_RXR m \<longleftrightarrow> m = 6" "bit ENDPTCTRL_TXR m \<longleftrightarrow> m = 22" for m
    unfolding ENDPTCTRL_RXS_def ENDPTCTRL_TXS_def ENDPTCTRL_RXR_def ENDPTCTRL_TXR_def
    by (auto simp: bit_simps simp del: push_bit_of_1)
  show ?thesis using assms by (auto simp: usb_dci_unstall_endpoint_def Let_def bit_and_iff nt b)
qed

lemma stall_bits:
  assumes "n = 0 \<or> n = 16"
  shows "bit (endptctrl (usb_dci_stall_endpoint ep d s) ep) n \<longleftrightarrow> bit (endptctrl s ep) n \<or> n = (if d = USB_IN then 16 else 0)"
  using assms by (auto simp: usb_dci_stall_endpoint_def Let_def bit_or_iff bit_ctrl)



text \<open>
  C36. The walk over the completed endpoints, which goes back and forth between two words with one counter and one mask, handles
  exactly the pending queues, each once, in the order of the endpoints with the receiving direction first.
\<close>

theorem ProcessEndptComplete_order:
  assumes "completed_Rx dw < 16" and "completed_Tx dw < 16"
  shows "ProcessEndptComplete D dw s = complete_each D (pending (completed_Rx dw) (completed_Tx dw)) s"
  by (rule ProcessEndptComplete_each [of dw "set (pending (completed_Rx dw) (completed_Tx dw))"]) (simp add: completes_def assms)

theorem ProcessEndptComplete_order_witness:
  "ProcessEndptComplete quiet 0x3000001 booted = complete_each quiet [(0, USB_OUT), (0, USB_IN), (1, USB_IN)] booted"
proof -
  have e: "completed_Rx 0x3000001 = 1" "completed_Tx 0x3000001 = 3" by (simp_all add: completed_Rx_def completed_Tx_def)
  have "pending 1 3 = [(0, USB_OUT), (0, USB_IN), (1, USB_IN)]" by code_simp
  then show ?thesis using ProcessEndptComplete_order [of "0x3000001" quiet booted] e by simp
qed

text \<open>
  C37. GET\_DESCRIPTOR of a configuration. The descriptors of the rule follow each other in the buffer with their total
  length in bytes 2 and 3, but what is sent is at most the low byte of that length.
\<close>

theorem GetDescription_config:
  assumes put: "puts_bytes put" and p: "drop_bit 8 (wValue p AND 0xff00) = DESCRIPTOR_TYPE_CONFIG" "wLength p \<noteq> 0"
    and i: "unat (wValue p AND 0xff) < length (ConfigStruct T)"
    and rule: "rule = (if btSpeed s = USB_SPEED_HIGH then snd else fst) (ConfigStruct T ! unat (wValue p AND 0xff))"
    and ok: "list_all descriptor_ok rule" and n: "4 \<le> length (concat rule)" "length (concat rule) \<le> 3 * length (Descriptor s)"
  shows "\<exists>d. (\<forall>j<length (concat rule). byte_in d j =
        (concat rule)[2 := of_nat (length (concat rule)), 3 := of_nat (length (concat rule) div 256)] ! j) \<and>
      ch9GetDescription L (GetDescriptor put T L) True p s =
        do { s \<leftarrow> send L (Descriptor_at L) (min (wLength p) (of_nat (length (concat rule) mod 256))) 1 (s\<lparr>Descriptor := d\<rparr>);
             (if \<not> usb_device_is_hold s then recv_status L s else Some (usb_device_data_phase_required s)) }"
proof -
  let ?d = "BuildConfigDescriptor put rule (Descriptor s)" and ?n = "length (concat rule)"
  note B = config_bytes [OF put ok n]
  have t: "DESCRIPTOR_TYPE_CONFIG \<noteq> DESCRIPTOR_TYPE_DEVICE" "DESCRIPTOR_TYPE_CONFIG \<noteq> DESCRIPTOR_TYPE_OTHER_SPEED_CONFIG"
    by (simp_all add: DESCRIPTOR_TYPE_CONFIG_def DESCRIPTOR_TYPE_DEVICE_def DESCRIPTOR_TYPE_OTHER_SPEED_CONFIG_def)
  have G: "GetDescriptor put T L DESCRIPTOR_TYPE_CONFIG (btSpeed s) (wValue p AND 0xff) s = Some (Some (Descriptor_at L), s\<lparr>Descriptor := ?d\<rparr>)"
    using i t by (simp add: GetDescriptor_def Let_def rule not_le del: BuildConfigLoop.simps)
  have "ucast (drop_bit 16 (?d ! 0)) = (of_nat ?n :: BYTE)"
    using B(2) [of 2] n(1) by (simp add: byte_in_def)
  then have len: "drop_bit 16 (?d ! 0 AND 0xff0000) + drop_bit 16 (?d ! 1 AND 0x0000ff) = of_nat (?n mod 256)"
    unfolding sent_length by (simp add: unsigned_of_nat take_bit_eq_mod)
  have D: "Descriptor (s\<lparr>Descriptor := d\<rparr>) = d" for d by simp
  have m: "(if x > y then y else x) = min x y" for x y :: WORD by (auto simp: min_def)
  have "ch9GetDescription L (GetDescriptor put T L) True p s =
      do { s \<leftarrow> send L (Descriptor_at L) (min (wLength p) (of_nat (?n mod 256))) 1 (s\<lparr>Descriptor := ?d\<rparr>);
           (if \<not> usb_device_is_hold s then recv_status L s else Some (usb_device_data_phase_required s)) }"
    by (simp only: ch9GetDescription_def Let_def p(1) not_True_eq_False if_False simp_thms if_True G bind.simps prod.case option.case
        if_not_P [OF p(2)] D len m)
  then show ?thesis using B(2) by blast
qed

theorem GetDescription_config_witness:
  "\<exists>d. byte_in d 2 = 18 \<and> byte_in d 9 = 9 \<and>
     ch9GetDescription memory_map (GetDescriptor put_byte_of_word one_config memory_map) True
       \<lparr>bValid = True, RequestType = 0x80, btRequest = 6, wValue = 0x200, wIndex = 0, wLength = 255\<rparr> booted =
     do { s \<leftarrow> send memory_map 0x2100 18 1 (booted\<lparr>Descriptor := d\<rparr>);
          (if \<not> usb_device_is_hold s then recv_status memory_map s else Some (usb_device_data_phase_required s)) }"
proof -
  let ?p = "\<lparr>bValid = True, RequestType = 0x80, btRequest = 6, wValue = 0x200, wIndex = 0, wLength = 255\<rparr>"
  let ?r = "[[9, 2, 0, 0, 1, 1, 4, 0x80, 0xFA], [9, 4, 0, 0, 0, 8, 6, 0x50, 5]] :: BYTE list list"
  have p: "drop_bit 8 (wValue ?p AND 0xff00) = DESCRIPTOR_TYPE_CONFIG" "wLength ?p \<noteq> 0" by code_simp+
  have i: "unat (wValue ?p AND 0xff) < length (ConfigStruct one_config)" by code_simp
  have r: "?r = (if btSpeed booted = USB_SPEED_HIGH then snd else fst) (ConfigStruct one_config ! unat (wValue ?p AND 0xff))" by code_simp
  have ok: "list_all descriptor_ok ?r" by (simp add: descriptor_ok_def)
  have len: "length (concat ?r) = 18" by simp
  have n: "4 \<le> length (concat ?r)" "length (concat ?r) \<le> 3 * length (Descriptor booted)" unfolding len by code_simp+
  obtain d where d: "\<forall>j<18. byte_in d j = (concat ?r)[2 := of_nat 18, 3 := of_nat (18 div 256)] ! j" and
      c: "ch9GetDescription memory_map (GetDescriptor put_byte_of_word one_config memory_map) True ?p booted =
        do { s \<leftarrow> send memory_map (Descriptor_at memory_map) (min (wLength ?p) (of_nat (18 mod 256))) 1 (booted\<lparr>Descriptor := d\<rparr>);
             (if \<not> usb_device_is_hold s then recv_status memory_map s else Some (usb_device_data_phase_required s)) }"
    using GetDescription_config [OF puts_put_byte_of_word p i r ok n, of memory_map] unfolding len by blast
  have m: "min (wLength ?p) (of_nat (18 mod 256)) = 18" "Descriptor_at memory_map = 0x2100" by code_simp+
  have "byte_in d 2 = 18" "byte_in d 9 = 9" using d by simp_all
  then show ?thesis using c unfolding m by blast
qed

end
