(* ===== verification/MlName.thy ===== *)
theory MlName imports Prelude "HOL-Library.List_Lexorder" begin

text \<open>
  The names of the music library: \<^verbatim>\<open>System/MsgModules/Software/MusicLibMMC/src/musiclib_basic_function.c\<close> and
  \<open>ItemCmp\<close> of \<^verbatim>\<open>mlmmc_build_function.c\<close>. A name is 40 words, three characters to a word when it is all ASCII and
  one to a word otherwise; its sort key leaves out a leading article and the case of its letters. Two keys are
  compared in buffers that hold whatever was there before behind the terminator.

  The build is the one of the player: \<^verbatim>\<open>_SKIP_PERPOSITION_\<close>, \<^verbatim>\<open>_SORTBY_CAPITAL_\<close> and \<^verbatim>\<open>_USE_SMALLEND_\<close> are set.
\<close>

definition "LEN_OF_NAME_IN_BYTE = (120::nat)"
definition "LEN_OF_FLASH_NAME_BUF = (40::nat)"
definition "LEN_OF_MTSTRING = (10::nat)"
definition "EOSTR = (0::WORD)"
definition "BITSET_NAME_ALLASCII = (0::WORD)"
definition "BITSET_NAME_UNICODE = (1::WORD)"
definition "BITSET_NAME_MIXCODE = (2::WORD)"
definition "ITEMCMP_ITEM01_EQUAL = (0::WORD)"
definition "ITEMCMP_ITEM0_SMALL = (0x00FFFF::WORD)"
definition "ITEMCMP_ITEM0_LARGE = (1::WORD)"
definition "UINT24_STR_CMPTYPE = (0::nat)"
definition "UINT24_VAL_CMPTYPE = (1::nat)"
definition "UINT24_MARKTAB_CMPTYPE = (2::nat)"
definition "UINT24_PATH_CMPTYPE = (3::nat)"

lemmas name_consts = LEN_OF_NAME_IN_BYTE_def LEN_OF_FLASH_NAME_BUF_def LEN_OF_MTSTRING_def EOSTR_def
  BITSET_NAME_ALLASCII_def BITSET_NAME_UNICODE_def BITSET_NAME_MIXCODE_def
  ITEMCMP_ITEM01_EQUAL_def ITEMCMP_ITEM0_SMALL_def ITEMCMP_ITEM0_LARGE_def
  UINT24_STR_CMPTYPE_def UINT24_VAL_CMPTYPE_def UINT24_MARKTAB_CMPTYPE_def UINT24_PATH_CMPTYPE_def

section \<open>Sort keys\<close>

text \<open>The characters to leave out at the head of a name: ``the'', ``a'' or ``an'' with its blank.\<close>

definition ML_strhead_pos :: "WORD \<Rightarrow> WORD list \<Rightarrow> nat" where
  "ML_strhead_pos unicode scr =
     (let byte0 = scr ! 0 AND 0x0000FF in
      if unicode = BITSET_NAME_ALLASCII \<and> byte0 = 0 \<or> scr ! 0 = EOSTR then 0
      else if unicode = BITSET_NAME_ALLASCII
      then
        let byte1 = scr ! 0 AND 0x00FF00; byte2 = scr ! 0 AND 0xFF0000 in
        if scr ! 1 AND 0x0000FF = 0x20 \<and> (byte0 = 0x000054 \<or> byte0 = 0x000074) \<and>
           (byte1 = 0x004800 \<or> byte1 = 0x006800) \<and> (byte2 = 0x450000 \<or> byte2 = 0x650000) then 4
        else if byte1 = 0x002000 \<and> (byte0 = 0x000041 \<or> byte0 = 0x000061) then 2
        else if byte2 = 0x200000 \<and> (byte0 = 0x000041 \<or> byte0 = 0x000061) \<and>
           (byte1 = 0x004E00 \<or> byte1 = 0x006E00) then 3
        else 0
      else
        if scr ! 3 = 0x000020 \<and> (scr ! 0 = 0x54 \<or> scr ! 0 = 0x74) \<and> (scr ! 1 = 0x48 \<or> scr ! 1 = 0x68) \<and>
           (scr ! 2 = 0x45 \<or> scr ! 2 = 0x65) then 4
        else if scr ! 1 = 0x000020 \<and> (scr ! 0 = 0x41 \<or> scr ! 0 = 0x61) then 2
        else if scr ! 2 = 0x000020 \<and> (scr ! 0 = 0x41 \<or> scr ! 0 = 0x61) \<and> (scr ! 1 = 0x4E \<or> scr ! 1 = 0x6E) then 3
        else 0)"

definition ML_extract_byte :: "WORD \<Rightarrow> WORD list \<Rightarrow> nat \<Rightarrow> WORD" where
  "ML_extract_byte unicode scr start_pos =
     (if start_pos \<ge> LEN_OF_NAME_IN_BYTE then EOSTR
      else if unicode \<noteq> BITSET_NAME_ALLASCII \<and> start_pos \<ge> LEN_OF_FLASH_NAME_BUF then EOSTR
      else
        let byteout =
              (if unicode = BITSET_NAME_ALLASCII
               then
                 let j = start_pos div 3; k = start_pos - j * 3 in
                 if k = 0 then scr ! j AND 0x0000FF
                 else if k = 1 then drop_bit 8 (scr ! j AND 0x00FF00)
                 else drop_bit 16 (scr ! j AND 0xFF0000)
               else scr ! start_pos)
        in if byteout > 0x60 \<and> byteout < 0x7B then byteout - 0x20 else byteout)"

text \<open>
  The loop of \<open>ML_extract_string\<close> with \<open>n\<close> rounds to go; a string that is cut gets a terminator only when an article
  was left out. The result is the number of characters and the target.
\<close>

fun extract_loop :: "WORD \<Rightarrow> WORD list \<Rightarrow> nat \<Rightarrow> nat \<Rightarrow> nat \<Rightarrow> WORD list \<Rightarrow> nat \<times> WORD list" where
  "extract_loop unicode scr j 0 k tgr = (k, if 0 < j then tgr[k := EOSTR] else tgr)"
| "extract_loop unicode scr j (Suc n) k tgr =
     (let b = ML_extract_byte unicode scr (j + k); tgr = tgr[k := b]
      in if b = EOSTR then (k, tgr) else extract_loop unicode scr j n (Suc k) tgr)"

definition ML_extract_string :: "WORD \<Rightarrow> WORD list \<Rightarrow> WORD list \<Rightarrow> nat \<Rightarrow> nat \<times> WORD list" where
  "ML_extract_string unicode tgr scr cpysize =
     (let j = ML_strhead_pos unicode scr in extract_loop unicode scr j (cpysize - j) 0 tgr)"

section \<open>Comparison\<close>

fun cmp_loop :: "nat \<Rightarrow> nat \<Rightarrow> WORD list \<Rightarrow> WORD list \<Rightarrow> WORD" where
  "cmp_loop 0 i item0 item1 = ITEMCMP_ITEM01_EQUAL"
| "cmp_loop (Suc n) i item0 item1 =
     (if item0 ! i < item1 ! i \<or> item0 ! i = EOSTR \<and> item1 ! i \<noteq> EOSTR then ITEMCMP_ITEM0_SMALL
      else if item0 ! i > item1 ! i \<or> item1 ! i = EOSTR \<and> item0 ! i \<noteq> EOSTR then ITEMCMP_ITEM0_LARGE
      else if item1 ! i = EOSTR \<and> item0 ! i = EOSTR then ITEMCMP_ITEM01_EQUAL
      else cmp_loop n (Suc i) item0 item1)"

definition ItemCmp :: "nat \<Rightarrow> WORD list \<Rightarrow> WORD list \<Rightarrow> WORD" where
  "ItemCmp CmpType item0 item1 =
     (if CmpType = UINT24_STR_CMPTYPE then cmp_loop LEN_OF_NAME_IN_BYTE 0 item0 item1
      else if CmpType = UINT24_VAL_CMPTYPE then cmp_loop 1 0 item0 item1
      else if CmpType = UINT24_MARKTAB_CMPTYPE then cmp_loop LEN_OF_MTSTRING 0 item0 item1
      else if CmpType = UINT24_PATH_CMPTYPE then cmp_loop 43 0 item0 item1
      else 2)"

section \<open>The order of names\<close>

text \<open>A buffer up to its terminator, and the key of a name: both are ordered as lists of characters.\<close>

definition zstring :: "nat \<Rightarrow> WORD list \<Rightarrow> WORD list" where
  "zstring n xs = takeWhile (\<lambda>c. c \<noteq> EOSTR) (take n xs)"

definition name_key :: "WORD \<times> WORD list \<Rightarrow> WORD list" where
  "name_key nm = (let u = fst nm; scr = snd nm; j = ML_strhead_pos u scr
     in takeWhile (\<lambda>c. c \<noteq> EOSTR) (map (ML_extract_byte u scr) [j..<LEN_OF_NAME_IN_BYTE]))"

definition compare_lists :: "WORD list \<Rightarrow> WORD list \<Rightarrow> WORD" where
  "compare_lists xs ys = (if xs < ys then ITEMCMP_ITEM0_SMALL else if xs = ys then ITEMCMP_ITEM01_EQUAL else ITEMCMP_ITEM0_LARGE)"

lemma zstring_Suc:
  "xs \<noteq> [] \<Longrightarrow> zstring (Suc n) xs = (if hd xs = EOSTR then [] else hd xs # zstring n (tl xs))"
  by (cases xs) (simp_all add: zstring_def)

lemma cmp_loop_tl: "cmp_loop n (Suc i) (x # xs) (y # ys) = cmp_loop n i xs ys"
  by (induction n arbitrary: i) simp_all

lemma cmp_loop_compare:
  "n \<le> length xs \<Longrightarrow> n \<le> length ys \<Longrightarrow> cmp_loop n 0 xs ys = compare_lists (zstring n xs) (zstring n ys)"
proof (induction n arbitrary: xs ys)
  case 0
  then show ?case by (simp add: compare_lists_def zstring_def)
next
  case (Suc n)
  obtain x xs' y ys' where c: "xs = x # xs'" "ys = y # ys'"
    using Suc.prems by (metis Suc_le_length_iff)
  then have "cmp_loop n 0 xs' ys' = compare_lists (zstring n xs') (zstring n ys')"
    using Suc by simp
  then show ?case
    by (auto simp: c cmp_loop_tl zstring_Suc compare_lists_def EOSTR_def word_gt_0 not_less_iff_gr_or_eq)
qed

text \<open>What the extraction leaves in the buffer: the key, or the beginning of it that has room beside the article.\<close>

lemma zstring_all: "EOSTR \<notin> set (take k tgr) \<Longrightarrow> zstring k tgr = take k tgr"
  unfolding zstring_def by (rule takeWhile_eq_all_conv [THEN iffD2]) auto

lemma zstring_ends:
  assumes "k < length tgr" and "k < m" and "EOSTR \<notin> set (take k tgr)"
  shows "zstring m (tgr[k := EOSTR]) = take k tgr"
proof -
  have "take m (tgr[k := EOSTR]) = take k tgr @ EOSTR # take (m - Suc k) (drop (Suc k) tgr)"
    using assms(1, 2) by (simp add: upd_conv_take_nth_drop min_def take_Cons')
  moreover have "takeWhile (\<lambda>c. c \<noteq> EOSTR) (take k tgr @ EOSTR # ys) = take k tgr" for ys
    using assms(3) by (subst takeWhile_append2) auto
  ultimately show ?thesis by (simp add: zstring_def)
qed

lemma extract_loop_ok:
  "k + n + j \<le> length tgr \<Longrightarrow> EOSTR \<notin> set (take k tgr) \<Longrightarrow> extract_loop u scr j n k tgr = (c, tgr') \<Longrightarrow>
   length tgr' = length tgr
   \<and> zstring (k + n + j) tgr' = take k tgr @ takeWhile (\<lambda>c. c \<noteq> EOSTR) (map (ML_extract_byte u scr) [j + k..<j + k + n])
   \<and> c = k + length (takeWhile (\<lambda>c. c \<noteq> EOSTR) (map (ML_extract_byte u scr) [j + k..<j + k + n]))"
proof (induction n arbitrary: k tgr)
  case 0
  show ?case
  proof (cases "j = 0")
    case True
    then show ?thesis using 0 zstring_all [OF 0(2)] by simp
  next
    case False
    then show ?thesis using 0 zstring_ends [of k tgr "k + j"] by auto
  qed
next
  case (Suc n)
  let ?b = "ML_extract_byte u scr (j + k)"
  have up: "[j + k..<j + k + Suc n] = (j + k) # [j + Suc k..<j + Suc k + n]"
    by (simp add: upt_conv_Cons)
  have k: "k < length tgr" using Suc.prems(1) by simp
  show ?case
  proof (cases "?b = EOSTR")
    case True
    then have "tgr' = tgr[k := EOSTR]" "c = k" using Suc.prems(3) by (auto simp: Let_def)
    then show ?thesis using zstring_ends [OF k _ Suc.prems(2), of "k + Suc n + j"] True
      unfolding up by simp
  next
    case False
    have run: "extract_loop u scr j n (Suc k) (tgr[k := ?b]) = (c, tgr')"
      using Suc.prems(3) False by (simp add: Let_def)
    have tk: "take (Suc k) (tgr[k := ?b]) = take k tgr @ [?b]"
      using k by (simp add: take_Suc_conv_app_nth)
    have nz: "EOSTR \<notin> set (take (Suc k) (tgr[k := ?b]))"
      unfolding tk using Suc.prems(2) False by auto
    have room: "Suc k + n + j \<le> length (tgr[k := ?b])" using Suc.prems(1) by simp
    note Suc.IH [OF room nz run]
    then show ?thesis unfolding up tk using False by simp
  qed
qed

lemma strhead_small: "ML_strhead_pos u scr \<le> 4"
  by (auto simp: ML_strhead_pos_def Let_def)

theorem extract_string_key:
  assumes "length tgr = LEN_OF_NAME_IN_BYTE" and "ML_extract_string u tgr scr LEN_OF_NAME_IN_BYTE = (c, tgr')"
  shows "length tgr' = LEN_OF_NAME_IN_BYTE" and "zstring LEN_OF_NAME_IN_BYTE tgr' = name_key (u, scr)"
    and "c = length (name_key (u, scr))"
proof -
  let ?j = "ML_strhead_pos u scr"
  have j: "?j \<le> LEN_OF_NAME_IN_BYTE" using strhead_small [of u scr] by (simp add: LEN_OF_NAME_IN_BYTE_def)
  note e = extract_loop_ok [of 0 "LEN_OF_NAME_IN_BYTE - ?j" ?j tgr u scr c tgr']
  show "length tgr' = LEN_OF_NAME_IN_BYTE" "zstring LEN_OF_NAME_IN_BYTE tgr' = name_key (u, scr)" "c = length (name_key (u, scr))"
    using e assms j by (simp_all add: ML_extract_string_def Let_def name_key_def)
qed

text \<open>In the mark table the first ten characters are kept: of a name without an article these are the first ten of its key.\<close>

definition mark_key :: "WORD \<times> WORD list \<Rightarrow> WORD list" where
  "mark_key nm = take (LEN_OF_MTSTRING - ML_strhead_pos (fst nm) (snd nm)) (name_key nm)"

lemma takeWhile_take: "takeWhile P (take n xs) = take n (takeWhile P xs)"
proof (induction xs arbitrary: n)
  case (Cons x xs)
  then show ?case by (cases n) simp_all
qed simp

theorem extract_string_mark:
  assumes "length tgr = LEN_OF_MTSTRING" and "ML_extract_string u tgr scr LEN_OF_MTSTRING = (c, tgr')"
  shows "length tgr' = LEN_OF_MTSTRING" and "zstring LEN_OF_MTSTRING tgr' = mark_key (u, scr)"
proof -
  let ?j = "ML_strhead_pos u scr"
  have j: "?j \<le> 4" by (rule strhead_small)
  note e = extract_loop_ok [of 0 "LEN_OF_MTSTRING - ?j" ?j tgr u scr c tgr']
  have "[?j..<LEN_OF_MTSTRING] = take (LEN_OF_MTSTRING - ?j) [?j..<LEN_OF_NAME_IN_BYTE]"
    using j by (simp add: LEN_OF_NAME_IN_BYTE_def LEN_OF_MTSTRING_def)
  then show "length tgr' = LEN_OF_MTSTRING" "zstring LEN_OF_MTSTRING tgr' = mark_key (u, scr)"
    using e assms j by (simp_all add: ML_extract_string_def Let_def mark_key_def name_key_def LEN_OF_MTSTRING_def
      take_map [symmetric] takeWhile_take)
qed

section \<open>Comparing names\<close>

lemma ItemCmp_strings:
  "length xs = LEN_OF_NAME_IN_BYTE \<Longrightarrow> length ys = LEN_OF_NAME_IN_BYTE \<Longrightarrow>
   ItemCmp UINT24_STR_CMPTYPE xs ys = compare_lists (zstring LEN_OF_NAME_IN_BYTE xs) (zstring LEN_OF_NAME_IN_BYTE ys)"
  by (simp add: ItemCmp_def cmp_loop_compare)

lemma ItemCmp_marks:
  "length xs = LEN_OF_MTSTRING \<Longrightarrow> LEN_OF_MTSTRING \<le> length ys \<Longrightarrow>
   ItemCmp UINT24_MARKTAB_CMPTYPE xs ys = compare_lists (zstring LEN_OF_MTSTRING xs) (zstring LEN_OF_MTSTRING ys)"
  by (simp add: ItemCmp_def cmp_loop_compare UINT24_MARKTAB_CMPTYPE_def UINT24_STR_CMPTYPE_def UINT24_VAL_CMPTYPE_def)

lemma ItemCmp_values:
  "x \<noteq> EOSTR \<Longrightarrow> ItemCmp UINT24_VAL_CMPTYPE (x # xs) (y # ys) = compare_lists [x] [y]" if "y \<noteq> EOSTR"
  using that by (auto simp: ItemCmp_def UINT24_STR_CMPTYPE_def UINT24_VAL_CMPTYPE_def compare_lists_def)

lemma compare_lists_simps [simp]:
  "compare_lists xs ys = ITEMCMP_ITEM0_SMALL \<longleftrightarrow> xs < ys"
  "compare_lists xs ys = ITEMCMP_ITEM0_LARGE \<longleftrightarrow> ys < xs"
  "compare_lists xs ys = ITEMCMP_ITEM01_EQUAL \<longleftrightarrow> xs = ys"
  by (auto simp: compare_lists_def name_consts not_less_iff_gr_or_eq)


text \<open>``The Beatles'' in ASCII, ``BEAT'' in two-byte characters, with left-overs in the buffers.\<close>

definition the_beatles :: "WORD list" where
  "the_beatles = [0x656854, 0x654220, 0x6C7461, 0x007365] @ replicate 36 0"

definition beat :: "WORD list" where
  "beat = [0x62, 0x65, 0x61, 0x74, 0] @ replicate 35 7"


end
