(* ===== verification/MlList.thy ===== *)
theory MlList imports Prelude begin

text \<open>
  The lists of the music library, \<^verbatim>\<open>mlmmc_build_function.c\<close>: 12-bit entries, two to a word, the one with the even
  number in the high half. An entry is a song or group number; \<open>INDEX_EOF\<close> ends a linked list.
\<close>

definition "INDEX_EOF = (0xFFF::nat)"

definition ML_list_get_val :: "WORD list \<Rightarrow> nat \<Rightarrow> nat" where
  "ML_list_get_val p pos =
     (let v = p ! (pos div 2) in
      unat (if odd pos then v AND 0x000FFF else drop_bit 12 (v AND 0xFFF000)))"

definition ML_list_put_val :: "WORD list \<Rightarrow> nat \<Rightarrow> nat \<Rightarrow> WORD list" where
  "ML_list_put_val p pos val =
     (let v = p ! (pos div 2) in
      p[pos div 2 :=
          if odd pos then (v AND 0xFFF000) OR (of_nat val AND 0x000FFF)
          else push_bit 12 (of_nat val AND 0x000FFF) OR (v AND 0x000FFF)])"

definition IncWordVal :: "WORD list \<Rightarrow> nat \<Rightarrow> nat \<Rightarrow> WORD list" where
  "IncWordVal p pos val =
     (let v = p ! (pos div 2) in
      p[pos div 2 :=
          if odd pos then (v AND 0xFFF000) OR ((v AND 0x000FFF) + (of_nat val AND 0x000FFF))
          else push_bit 12 (drop_bit 12 (v AND 0xFFF000) + (of_nat val AND 0x000FFF)) OR (v AND 0x000FFF)])"

section \<open>Halves of a word\<close>

text \<open>A word is packed from two halves.\<close>

definition hi12 :: "WORD \<Rightarrow> WORD" where "hi12 v = drop_bit 12 v"
definition lo12 :: "WORD \<Rightarrow> WORD" where "lo12 v = take_bit 12 v"
definition pack12 :: "WORD \<Rightarrow> WORD \<Rightarrow> WORD" where "pack12 h l = push_bit 12 h OR take_bit 12 l"

lemma masks12: "(0x000FFF :: WORD) = mask 12" "(0xFFF000 :: WORD) = NOT (mask 12)"
  by (simp_all add: mask_eq_exp_minus_1)

lemma halves12:
  "v AND 0x000FFF = lo12 v" "drop_bit 12 v = hi12 v" "hi12 (v AND 0xFFF000) = hi12 v"
  "(v AND 0xFFF000) OR lo12 x = pack12 (hi12 v) x" "push_bit 12 x OR lo12 v = pack12 x v"
  unfolding masks12 hi12_def lo12_def pack12_def
  by (rule bit_word_eqI, force simp: bit_simps dest: bit_imp_le_length)+

lemma pack12_parts:
  "lo12 (pack12 h l) = lo12 l" "hi12 (pack12 h l) = lo12 h" "lo12 (lo12 v) = lo12 v" "lo12 (hi12 v) = hi12 v"
  "pack12 (lo12 h) l = pack12 h l" "pack12 h (lo12 l) = pack12 h l"
  unfolding hi12_def lo12_def pack12_def
  by (rule bit_word_eqI, force simp: bit_simps dest: bit_imp_le_length)+

lemma unat_lo12: "unat (lo12 (of_nat n)) = n mod 4096"
proof -
  have "lo12 (of_nat n) = of_nat (take_bit 12 n)" by (simp only: lo12_def take_bit_of_nat)
  moreover have "take_bit 12 n < 2 ^ LENGTH(24)" by (simp add: take_bit_eq_mod less_trans [OF mod_less_divisor])
  ultimately show ?thesis by (simp add: unsigned_of_nat take_bit_nat_eq_self take_bit_eq_mod)
qed

lemma unat_lo12_less: "unat (lo12 v) < 4096"
  using unat_lo12 [of "unat v"] by simp

lemma lo12_small: "n < 4096 \<Longrightarrow> lo12 (of_nat n) = of_nat n"
  by (rule word_unat_eq_iff [THEN iffD2]) (simp add: unat_lo12 unsigned_of_nat take_bit_nat_eq_self)

section \<open>Reading and writing entries\<close>

lemma get_val_half:
  "ML_list_get_val p pos = unat (if odd pos then lo12 (p ! (pos div 2)) else hi12 (p ! (pos div 2)))"
  by (simp add: ML_list_get_val_def Let_def halves12 pack12_parts)

lemma put_val_half:
  "ML_list_put_val p pos val =
     (let v = p ! (pos div 2) in
      p[pos div 2 := if odd pos then pack12 (hi12 v) (of_nat val) else pack12 (of_nat val) v])"
  by (simp add: ML_list_put_val_def Let_def halves12 pack12_parts)

lemma put_val_length [simp]: "length (ML_list_put_val p pos val) = length p"
  by (simp add: put_val_half Let_def)

lemma half_other: "q \<noteq> pos \<Longrightarrow> q div 2 = pos div 2 \<Longrightarrow> odd q = even pos" for q pos :: nat
  by presburger

theorem ML_list_get_put:
  assumes "pos < 2 * length p"
  shows "ML_list_get_val (ML_list_put_val p pos val) q = (if q = pos then val mod 4096 else ML_list_get_val p q)"
proof -
  have i: "pos div 2 < length p" using assms by simp
  have "unat (hi12 (pack12 (of_nat val) v)) = val mod 4096" "unat (lo12 (pack12 h (of_nat val))) = val mod 4096" for v h
    by (simp_all add: pack12_parts unat_lo12)
  then show ?thesis using i half_other [of q pos]
    by (cases "q div 2 = pos div 2") (auto simp: get_val_half put_val_half Let_def pack12_parts)
qed

lemma get_val_less: "ML_list_get_val p pos < 4096"
  using unat_lo12_less [of "p ! (pos div 2)"] unat_lo12_less [of "hi12 (p ! (pos div 2))"]
  by (simp add: get_val_half pack12_parts)

text \<open>A count goes up by a value as long as it stays in its 12 bits; the other half is never touched then.\<close>

lemma IncWordVal_put:
  assumes "ML_list_get_val p pos + val < 4096"
  shows "IncWordVal p pos val = ML_list_put_val p pos (ML_list_get_val p pos + val)"
proof -
  let ?v = "p ! (pos div 2)"
  have "lo12 (of_nat val) = of_nat val" using assms by (simp add: lo12_small)
  moreover have "lo12 (of_nat (ML_list_get_val p pos)) = of_nat (ML_list_get_val p pos)"
    using assms by (simp add: lo12_small)
  moreover have s: "lo12 ?v + of_nat val = of_nat (ML_list_get_val p pos + val)" if "odd pos"
    using that by (simp add: get_val_half)
  moreover have "hi12 ?v + of_nat val = of_nat (ML_list_get_val p pos + val)" if "even pos"
    using that by (simp add: get_val_half)
  moreover have "lo12 (of_nat (ML_list_get_val p pos + val)) = of_nat (ML_list_get_val p pos + val)"
    using assms by (rule lo12_small)
  moreover have "(?v AND 0xFFF000) OR x = pack12 (hi12 ?v) x" if "lo12 x = x" for x
    using halves12(4) [of ?v x] that by simp
  ultimately show ?thesis
    by (simp add: IncWordVal_def put_val_half Let_def halves12 pack12_parts)
qed

end
