(* ===== verification/MlBuild.thy ===== *)
theory MlBuild imports MlName MlList "HOL-Library.Monad_Syntax" begin

text \<open>
  Building the music library, \<^verbatim>\<open>mlmmc_build_function.c\<close>: \<open>ML_AddEntryToLibrary\<close> puts a song into five groups,
  artists, albums, genres, songs and years. Every group is a list of numbered items, linked in the order of their
  names through \<open>sorted_list\<close>; the names themselves are in the flash. A mark table divides the list into pieces of at
  most \<open>DISTANCE_IN_MARK_TABLE\<close> items and keeps the first characters of the name at the head of each piece: an item is
  found by a binary search in the mark table and one in a piece.

  Numbers of items and positions are \<open>nat\<close>, with the one subtraction that can wrap written out. The flash is the
  parameter \<open>F\<close>, \<open>ML_MemRead\<close> and \<open>ML_MemWrite\<close>: a read gives the words or leaves the target alone; the results of
  writes are ignored by the code. A name in the flash is 40 words and the kind of its characters.
\<close>

definition "MAX_NUM_OF_SONG = (1000::nat)"
definition "DISTANCE_IN_MARK_TABLE = (40::nat)"
definition "NUM_OF_MARK_TABLE_ENTRY = (49::nat)"
definition "ML_SONG_NAME_STRUCT_SIZE = (41::nat)"
definition "ML_PATH_NAME_STRUCT_SIZE = (45::nat)"

definition "ARTIST_SORTLOOP = (0::nat)"
definition "ALBUM_SORTLOOP = (1::nat)"
definition "GENRE_SORTLOOP = (2::nat)"
definition "SONG_SORTLOOP = (3::nat)"
definition "YEAR_SORTLOOP = (4::nat)"
definition "PATH_NAME_DTYPE = (4::nat)"

lemmas loop_consts = ARTIST_SORTLOOP_def ALBUM_SORTLOOP_def GENRE_SORTLOOP_def SONG_SORTLOOP_def YEAR_SORTLOOP_def

section \<open>State\<close>

record 's ml_flash =
  MemRead :: "nat \<Rightarrow> nat \<Rightarrow> nat \<Rightarrow> nat \<Rightarrow> 's \<Rightarrow> WORD list option \<times> 's"
  MemWrite :: "nat \<Rightarrow> nat \<Rightarrow> nat \<Rightarrow> WORD list \<Rightarrow> 's \<Rightarrow> 's"

text \<open>A group: \<open>ram_group\<close>, \<open>ram_marktable\<close>, \<open>MarkTableID\<close> and \<open>num_of_item\<close> at its number.\<close>

record ml_group =
  sorted_list :: "WORD list"
  sorted_list_hd :: nat
  associate_list :: "WORD list"
  mark_table_index :: "(nat \<times> nat) list"
  mark_table_string :: "WORD list list"
  MarkTableID :: nat
  num_of_item :: nat

record new_music =
  song_date :: "WORD list"
  new_list :: "WORD list"
  num_of_id :: nat

record 's ml =
  ram_group :: "nat \<Rightarrow> ml_group"
  ram_song_year :: "WORD list"
  insert_name :: "WORD list"
  temp_name_buf :: "WORD list"
  flash_group_name :: "WORD list \<times> WORD"
  flash_group_name_y :: "WORD list \<times> WORD"
  temp_song_info_name :: "WORD list"
  ml_flash_state :: 's

record song_info =
  artist_name :: "WORD list"
  album_name :: "WORD list"
  genre_name :: "WORD list"
  song_name :: "WORD list"
  path_name :: "WORD list"
  g_songFastKey :: DWORD
  song_year :: WORD
  track_number :: WORD
  song_unicode :: WORD

text \<open>\<^verbatim>\<open>ML_InitLibraryParameter\<close>, for the groups. Of a mark string it clears the first word.\<close>

definition init_group :: "ml_group \<Rightarrow> ml_group" where
  "init_group g = g\<lparr>sorted_list_hd := INDEX_EOF, MarkTableID := 0, num_of_item := 0,
     mark_table_index := replicate NUM_OF_MARK_TABLE_ENTRY (INDEX_EOF, 0),
     mark_table_string := map (\<lambda>m. m[0 := EOSTR]) (mark_table_string g)\<rparr>"

definition ML_InitLibraryParameter :: "('s, 'm) ml_scheme \<Rightarrow> ('s, 'm) ml_scheme" where
  "ML_InitLibraryParameter s = s\<lparr>ram_group := \<lambda>gp. init_group (ram_group s gp)\<rparr>"

abbreviation set_group :: "nat \<Rightarrow> ml_group \<Rightarrow> ('s, 'm) ml_scheme \<Rightarrow> ('s, 'm) ml_scheme" where
  "set_group gp g s \<equiv> s\<lparr>ram_group := (ram_group s)(gp := g)\<rparr>"

section \<open>Searching\<close>

text \<open>Both searches are the same loop: the table is from \<open>lb\<close> to \<open>ub - 1\<close>, the result whether an equal item was met,
  the lower bound and the position.\<close>

function bsearch :: "(nat \<Rightarrow> 's \<Rightarrow> WORD \<times> 's) \<Rightarrow> nat \<Rightarrow> nat \<Rightarrow> 's \<Rightarrow> bool \<times> nat \<times> nat \<times> 's" where
  "bsearch cmp lb ub s =
     (let mid = (ub + lb) div 2; (i, s) = cmp mid s in
      if i = ITEMCMP_ITEM0_SMALL
      then if mid + 1 < ub then bsearch cmp (mid + 1) ub s else (False, mid + 1, (ub + (mid + 1)) div 2, s)
      else if i = ITEMCMP_ITEM0_LARGE
      then if lb < mid then bsearch cmp lb mid s else (False, lb, (mid + lb) div 2, s)
      else (True, lb, mid, s))"
  by pat_completeness auto
termination by (relation "measure (\<lambda>(cmp, lb, ub, s). ub - lb)") auto

declare bsearch.simps [simp del]

text \<open>The name of an item is read from the flash, and its key extracted.\<close>

definition load_name :: "('s, 'x) ml_flash_scheme \<Rightarrow> nat \<Rightarrow> nat \<Rightarrow> nat \<Rightarrow> ('s, 'm) ml_scheme \<Rightarrow> ('s, 'm) ml_scheme" where
  "load_name F Media_type gp n s =
     (let (r, fl) = MemRead F Media_type gp n ML_SONG_NAME_STRUCT_SIZE (ml_flash_state s);
          y = (case r of None \<Rightarrow> flash_group_name_y s | Some w \<Rightarrow> (take LEN_OF_FLASH_NAME_BUF w, w ! LEN_OF_FLASH_NAME_BUF))
      in s\<lparr>ml_flash_state := fl, flash_group_name_y := y, flash_group_name := y\<rparr>)"

definition load_key :: "('s, 'x) ml_flash_scheme \<Rightarrow> nat \<Rightarrow> nat \<Rightarrow> nat \<Rightarrow> ('s, 'm) ml_scheme \<Rightarrow> ('s, 'm) ml_scheme" where
  "load_key F Media_type gp n s =
     (let s = load_name F Media_type gp n s
      in s\<lparr>temp_name_buf := snd (ML_extract_string (snd (flash_group_name s)) (temp_name_buf s)
             (fst (flash_group_name s)) LEN_OF_NAME_IN_BYTE)\<rparr>)"

definition mark_cmp :: "('s, 'x) ml_flash_scheme \<Rightarrow> nat \<Rightarrow> nat \<Rightarrow> nat \<Rightarrow> ('s, 'm) ml_scheme \<Rightarrow> WORD \<times> ('s, 'm) ml_scheme" where
  "mark_cmp F Media_type gp mid s =
     (let g = ram_group s gp;
          i = ItemCmp (if gp = YEAR_SORTLOOP then UINT24_VAL_CMPTYPE else UINT24_MARKTAB_CMPTYPE)
                (mark_table_string g ! mid) (insert_name s)
      in if gp = YEAR_SORTLOOP \<or> i = ITEMCMP_ITEM0_SMALL \<or> i = ITEMCMP_ITEM0_LARGE then (i, s)
         else
           let s = load_key F Media_type gp (fst (mark_table_index g ! mid)) s
           in (ItemCmp UINT24_STR_CMPTYPE (temp_name_buf s) (insert_name s), s))"

definition find_mark :: "('s, 'x) ml_flash_scheme \<Rightarrow> nat \<Rightarrow> nat \<Rightarrow> ('s, 'm) ml_scheme \<Rightarrow> bool \<times> nat \<times> nat \<times> ('s, 'm) ml_scheme" where
  "find_mark F Media_type gp s =
     (if MarkTableID (ram_group s gp) > 1
      then let (found, lb, mid, s) = bsearch (mark_cmp F Media_type gp) 0 (MarkTableID (ram_group s gp)) s
           in (found, lb, if \<not> found \<and> mid > 0 then mid - 1 else mid, s)
      else (False, 0, 0, s))"

text \<open>The piece of the list at a mark: the item before, the item and the item behind for each.\<close>

definition previous_of :: "ml_group \<Rightarrow> nat \<Rightarrow> nat" where
  "previous_of g mid =
     (if mid > 0
      then let (n, count) = mark_table_index g ! (mid - 1); next = ML_list_get_val (sorted_list g)
           in (next ^^ unat ((of_nat count :: WORD) - 2)) (next n)
      else INDEX_EOF)"

fun collect :: "nat \<Rightarrow> WORD list \<Rightarrow> nat \<Rightarrow> nat \<Rightarrow> (nat \<times> nat \<times> nat) list" where
  "collect 0 l pre i = []"
| "collect (Suc n) l pre i =
     (if i = INDEX_EOF then []
      else let nx = ML_list_get_val l i in (pre, i, nx) # collect n l i nx)"

definition temp_list :: "ml_group \<Rightarrow> nat \<Rightarrow> (nat \<times> nat \<times> nat) list" where
  "temp_list g mid =
     (let (n, count) = mark_table_index g ! mid in collect count (sorted_list g) (previous_of g mid) n)"

definition buf_cmp ::
    "('s, 'x) ml_flash_scheme \<Rightarrow> nat \<Rightarrow> nat \<Rightarrow> (nat \<times> nat \<times> nat) list \<Rightarrow> nat \<Rightarrow> ('s, 'm) ml_scheme \<Rightarrow> WORD \<times> ('s, 'm) ml_scheme" where
  "buf_cmp F Media_type gp buf mid s =
     (let (pre, n, nx) = buf ! mid in
      if gp = YEAR_SORTLOOP then (ItemCmp UINT24_VAL_CMPTYPE [ram_song_year s ! n] (insert_name s), s)
      else let s = load_key F Media_type gp n s
           in (ItemCmp UINT24_STR_CMPTYPE (temp_name_buf s) (insert_name s), s))"

definition find_place ::
    "('s, 'x) ml_flash_scheme \<Rightarrow> nat \<Rightarrow> nat \<Rightarrow> (nat \<times> nat \<times> nat) list \<Rightarrow> ('s, 'm) ml_scheme \<Rightarrow> bool \<times> nat \<times> ('s, 'm) ml_scheme" where
  "find_place F Media_type gp buf s =
     (if buf = [] then (False, 0, s)
      else let (found, lb, mid, s) = bsearch (buf_cmp F Media_type gp buf) 0 (length buf) s
           in (found, if found \<and> gp = SONG_SORTLOOP then mid + 1 else mid, s))"

section \<open>Inserting\<close>

text \<open>The new item is linked in at place \<open>k\<close> of the piece.\<close>

definition link_item :: "(nat \<times> nat \<times> nat) list \<Rightarrow> nat \<Rightarrow> ml_group \<Rightarrow> ml_group" where
  "link_item buf k g =
     (let n = num_of_item g; l = sorted_list g in
      if k < length buf
      then
        let (pre, i, nx) = buf ! k; l = ML_list_put_val l n i
        in if pre = INDEX_EOF then g\<lparr>sorted_list := l, sorted_list_hd := n\<rparr>
           else g\<lparr>sorted_list := ML_list_put_val l pre n\<rparr>
      else if length buf > 0
      then
        let (pre, i, nx) = buf ! (k - 1); l = ML_list_put_val l n nx
        in g\<lparr>sorted_list := ML_list_put_val l i n\<rparr>
      else g\<lparr>sorted_list := ML_list_put_val l n INDEX_EOF, sorted_list_hd := n, MarkTableID := 1\<rparr>)"

text \<open>An item that comes first in its piece becomes its mark. For years only the first word of the string is used.\<close>

definition mark_first :: "nat \<Rightarrow> nat \<Rightarrow> nat \<Rightarrow> WORD list \<Rightarrow> ml_group \<Rightarrow> ml_group" where
  "mark_first gp lb mid name g =
     (let ix = mark_table_index g; st = mark_table_string g in
      g\<lparr>mark_table_index := ix[lb := (num_of_item g, snd (ix ! lb))],
        mark_table_string :=
          (if gp = YEAR_SORTLOOP then st[lb := (st ! lb)[0 := name ! 0]]
           else st[mid := take LEN_OF_MTSTRING name @ drop LEN_OF_MTSTRING (st ! mid)])\<rparr>)"

fun move_marks :: "('a \<Rightarrow> 'a \<Rightarrow> 'a) \<Rightarrow> nat \<Rightarrow> nat \<Rightarrow> 'a list \<Rightarrow> 'a list" where
  "move_marks cpy j stop xs = (if j > stop then move_marks cpy (j - 1) stop (xs[j := cpy (xs ! j) (xs ! (j - 1))]) else xs)"

declare move_marks.simps [simp del]

definition grow :: "nat \<Rightarrow> nat \<Rightarrow> nat \<Rightarrow> nat \<Rightarrow> (nat \<times> nat \<times> nat) list \<Rightarrow> WORD list \<Rightarrow> ml_group \<Rightarrow> ml_group" where
  "grow gp lb mid k buf name g =
     (let g = (if k = 0 then mark_first gp lb mid name g else g); g = link_item buf k g; ix = mark_table_index g
      in g\<lparr>mark_table_index := ix[mid := (fst (ix ! mid), snd (ix ! mid) + 1)]\<rparr>)"

text \<open>
  A piece that has become too long is cut in the middle, at item \<open>DISTANCE_IN_MARK_TABLE / 2\<close> of what it was before
  the insertion at \<open>k\<close>. Of the name of that item the first characters are extracted from the flash.
\<close>

definition cut_marks :: "nat \<Rightarrow> nat \<Rightarrow> nat \<Rightarrow> nat \<Rightarrow> nat \<Rightarrow> (nat \<times> nat) list \<Rightarrow> (nat \<times> nat) list" where
  "cut_marks M mid j upper lower ix =
     (let ix = move_marks (\<lambda>_ x. x) M (mid + 1) ix; ix = ix[mid + 1 := (j, upper)] in ix[mid := (fst (ix ! mid), lower)])"

definition split_piece ::
    "('s, 'x) ml_flash_scheme \<Rightarrow> nat \<Rightarrow> nat \<Rightarrow> nat \<Rightarrow> nat \<Rightarrow> (nat \<times> nat \<times> nat) list \<Rightarrow> ('s, 'm) ml_scheme \<Rightarrow> ('s, 'm) ml_scheme" where
  "split_piece F Media_type gp mid k buf s =
     (let g = ram_group s gp; half = DISTANCE_IN_MARK_TABLE div 2; j = fst (snd (buf ! half)); M = MarkTableID g;
          st = move_marks (\<lambda>old x. if gp = YEAR_SORTLOOP then old[0 := x ! 0] else x) M (mid + 1) (mark_table_string g);
          s = (if gp = YEAR_SORTLOOP then s else load_name F Media_type gp j s);
          new = (if gp = YEAR_SORTLOOP then (st ! (mid + 1))[0 := insert_name s ! 0]
                 else snd (ML_extract_string (snd (flash_group_name s)) (st ! (mid + 1)) (fst (flash_group_name s)) LEN_OF_MTSTRING));
          (upper, lower) = (if k > half then (half + 1, half) else (half, half + 1))
      in set_group gp (g\<lparr>mark_table_index := cut_marks M mid j upper lower (mark_table_index g),
           mark_table_string := st[mid + 1 := new], MarkTableID := M + 1\<rparr>) s)"

text \<open>The name of a new item goes to the flash, its year to the table; a song's name is there already.\<close>

definition store_item :: "('s, 'x) ml_flash_scheme \<Rightarrow> nat \<Rightarrow> nat \<Rightarrow> WORD \<Rightarrow> ('s, 'm) ml_scheme \<Rightarrow> ('s, 'm) ml_scheme" where
  "store_item F Media_type gp name_unicode s =
     (let n = num_of_item (ram_group s gp) in
      if gp = YEAR_SORTLOOP then s\<lparr>ram_song_year := (ram_song_year s)[n := insert_name s ! 0]\<rparr>
      else if gp = SONG_SORTLOOP then s
      else
        let nm = take LEN_OF_FLASH_NAME_BUF (temp_song_info_name s)
        in s\<lparr>flash_group_name := (nm, name_unicode),
             ml_flash_state := MemWrite F Media_type gp n (nm @ [name_unicode]) (ml_flash_state s)\<rparr>)"

definition insert_item ::
    "('s, 'x) ml_flash_scheme \<Rightarrow> nat \<Rightarrow> nat \<Rightarrow> nat \<Rightarrow> nat \<Rightarrow> nat \<Rightarrow> (nat \<times> nat \<times> nat) list \<Rightarrow> WORD \<Rightarrow> ('s, 'm) ml_scheme \<Rightarrow> ('s, 'm) ml_scheme" where
  "insert_item F Media_type gp lb mid k buf name_unicode s =
     (let s = store_item F Media_type gp name_unicode s;
          g = grow gp lb mid k buf (insert_name s) (ram_group s gp);
          s = set_group gp g s
      in if snd (mark_table_index g ! mid) > DISTANCE_IN_MARK_TABLE then split_piece F Media_type gp mid k buf s else s)"

text \<open>
  The part of \<open>ML_AddEntryToLibrary\<close> that all groups share, for the name in \<open>insert_name\<close>: an item that is not there,
  or is a song, is inserted, and the song \<open>current\<close> is associated with the item. A song is associated with its track.
\<close>

definition add_to_group ::
    "('s, 'x) ml_flash_scheme \<Rightarrow> nat \<Rightarrow> nat \<Rightarrow> nat \<Rightarrow> WORD \<Rightarrow> WORD \<Rightarrow> ('s, 'm) ml_scheme \<Rightarrow> ('s, 'm) ml_scheme" where
  "add_to_group F Media_type gp current track name_unicode s =
     (let associate = (\<lambda>pos n s. let g = ram_group s gp
             in set_group gp (g\<lparr>associate_list := ML_list_put_val (associate_list g) pos n\<rparr>) s);
          (found, lb, mid, s) = find_mark F Media_type gp s
      in if \<not> found \<or> gp = SONG_SORTLOOP
         then
           let buf = temp_list (ram_group s gp) mid;
               (found, k, s) = find_place F Media_type gp buf s
           in if \<not> found \<or> gp = SONG_SORTLOOP
              then
                let s = insert_item F Media_type gp lb mid k buf name_unicode s;
                    n = num_of_item (ram_group s gp);
                    s = (if gp = SONG_SORTLOOP then associate n (unat track) s else associate current n s);
                    g = ram_group s gp
                in set_group gp (g\<lparr>num_of_item := num_of_item g + 1\<rparr>) s
              else associate current (fst (snd (buf ! k))) s
         else associate current (fst (mark_table_index (ram_group s gp) ! mid)) s)"

end
