(* ===== verification/MlLayout.thy ===== *)
theory MlLayout imports MlBuild begin

text \<open>
  Where the music library keeps its arrays in the flash: the constants of \<^verbatim>\<open>musiclib_flash_function.c\<close>, with those of its
  headers, in the order the areas follow each other. A sector is counted as 170 words, and on a drive with larger
  sectors four of these make up one.
\<close>

definition BYTE_PER_SECTOR :: nat where "BYTE_PER_SECTOR = 512"
definition LB_BYTE_PER_SECTOR :: nat where "LB_BYTE_PER_SECTOR = 2048"
definition NUM_OF_MEDIA :: nat where "NUM_OF_MEDIA = 2"
definition MEDIA_TYPE_FLASH :: nat where "MEDIA_TYPE_FLASH = 0"
definition NUM_OF_LEVEL2_FLASHPART_SEC :: nat where "NUM_OF_LEVEL2_FLASHPART_SEC = 49"
definition NUM_OF_LEVEL2_FLASHPART_2048SEC :: nat where "NUM_OF_LEVEL2_FLASHPART_2048SEC = 13"
definition NUM_OF_LONG_PER_512SEC :: nat where "NUM_OF_LONG_PER_512SEC = 85"
definition NUM_OF_LONG_PER_2048SEC :: nat where "NUM_OF_LONG_PER_2048SEC = 341"
definition NUM_OF_BYTE_PER_SEC :: nat where "NUM_OF_BYTE_PER_SEC = 510"
definition NUM_OF_BYTE_IN_ONE_WORD :: nat where "NUM_OF_BYTE_IN_ONE_WORD = 3"
definition NUM_OF_WORD_PER_SEC :: nat where "NUM_OF_WORD_PER_SEC = NUM_OF_BYTE_PER_SEC div NUM_OF_BYTE_IN_ONE_WORD"
definition FL_LEN_OF_NAME_IN_BYTE :: nat where "FL_LEN_OF_NAME_IN_BYTE = 123"
definition FL_LEN_OF_UNICODE_IN_BYTE :: nat where "FL_LEN_OF_UNICODE_IN_BYTE = 1"
definition NAME_STRUCT_SIZE :: nat where "NAME_STRUCT_SIZE = (FL_LEN_OF_NAME_IN_BYTE div NUM_OF_BYTE_IN_ONE_WORD) + FL_LEN_OF_UNICODE_IN_BYTE"
definition NAME_ITEM_PER_SEC :: nat where "NAME_ITEM_PER_SEC = NUM_OF_WORD_PER_SEC div NAME_STRUCT_SIZE"
definition FL_LEN_OF_FILEPATH_IN_BYTE :: nat where "FL_LEN_OF_FILEPATH_IN_BYTE = 168"
definition FL_LEN_OF_FASTKEY_IN_BYTE :: nat where "FL_LEN_OF_FASTKEY_IN_BYTE = 2"
definition PATH_NAME_STRUCT_SIZE :: nat where "PATH_NAME_STRUCT_SIZE = (FL_LEN_OF_FILEPATH_IN_BYTE div NUM_OF_BYTE_IN_ONE_WORD) + FL_LEN_OF_FASTKEY_IN_BYTE"
definition PATH_NAME_ITEM_PER_SEC :: nat where "PATH_NAME_ITEM_PER_SEC = NUM_OF_WORD_PER_SEC div PATH_NAME_STRUCT_SIZE"
definition FL_LEN_OF_LONG_FILENAME_IN_BYTE :: nat where "FL_LEN_OF_LONG_FILENAME_IN_BYTE = 168"
definition LONG_FILENAME_STRUCT_SIZE :: nat where "LONG_FILENAME_STRUCT_SIZE = FL_LEN_OF_LONG_FILENAME_IN_BYTE div NUM_OF_BYTE_IN_ONE_WORD"
definition LONG_FILENAME_ITEM_PER_SEC :: nat where "LONG_FILENAME_ITEM_PER_SEC = NUM_OF_WORD_PER_SEC div LONG_FILENAME_STRUCT_SIZE"
definition FIRST_SEC_IN_USE :: nat where "FIRST_SEC_IN_USE = 0"
definition ARTIST_NAME_START_SEC :: nat where "ARTIST_NAME_START_SEC = FIRST_SEC_IN_USE"
definition NAME_SEC_SIZE :: nat where "NAME_SEC_SIZE = MAX_NUM_OF_SONG div (NUM_OF_WORD_PER_SEC div NAME_STRUCT_SIZE)"
definition ALBUM_NAME_START_SEC :: nat where "ALBUM_NAME_START_SEC = ARTIST_NAME_START_SEC + NAME_SEC_SIZE"
definition GENRE_NAME_START_SEC :: nat where "GENRE_NAME_START_SEC = ALBUM_NAME_START_SEC + NAME_SEC_SIZE"
definition SONG_NAME_START_SEC :: nat where "SONG_NAME_START_SEC = GENRE_NAME_START_SEC + NAME_SEC_SIZE"
definition PATH_NAME_START_SEC :: nat where "PATH_NAME_START_SEC = SONG_NAME_START_SEC + NAME_SEC_SIZE"
definition PATH_NAME_SEC_SIZE :: nat where "PATH_NAME_SEC_SIZE = (MAX_NUM_OF_SONG) div (NUM_OF_WORD_PER_SEC div PATH_NAME_STRUCT_SIZE) + 1"
definition SONG_ARRAY_START_SEC :: nat where "SONG_ARRAY_START_SEC = PATH_NAME_START_SEC + PATH_NAME_SEC_SIZE"
definition NUM_OF_BIT_IN_ONE_WORD :: nat where "NUM_OF_BIT_IN_ONE_WORD = 24"
definition NUM_OF_BIT_FOR_ONE_ITEM :: nat where "NUM_OF_BIT_FOR_ONE_ITEM = 12"
definition NUM_OF_ITEM_IN_ONE_WORD :: nat where "NUM_OF_ITEM_IN_ONE_WORD = NUM_OF_BIT_IN_ONE_WORD div NUM_OF_BIT_FOR_ONE_ITEM"
definition SONG_ARRAY_SEC_SIZE :: nat where "SONG_ARRAY_SEC_SIZE = ((MAX_NUM_OF_SONG div NUM_OF_ITEM_IN_ONE_WORD) div NUM_OF_WORD_PER_SEC) + 1"
definition SONG_YEAR_START_SEC :: nat where "SONG_YEAR_START_SEC = SONG_ARRAY_START_SEC + SONG_ARRAY_SEC_SIZE"
definition SONG_YEAR_SEC_SIZE :: nat where "SONG_YEAR_SEC_SIZE = (MAX_NUM_OF_SONG div NUM_OF_WORD_PER_SEC) + 1"
definition ARTIST_SORT_START_SEC :: nat where "ARTIST_SORT_START_SEC = SONG_YEAR_START_SEC + SONG_YEAR_SEC_SIZE"
definition ARTIST_SORT_SEC_SIZE :: nat where "ARTIST_SORT_SEC_SIZE = ((MAX_NUM_OF_SONG div NUM_OF_ITEM_IN_ONE_WORD) div NUM_OF_WORD_PER_SEC) + 1"
definition ARTIST_ASSOC_START_SEC :: nat where "ARTIST_ASSOC_START_SEC = ARTIST_SORT_START_SEC + ARTIST_SORT_SEC_SIZE"
definition NUM_OF_LIST_IN_CHILD_ARRAY :: nat where "NUM_OF_LIST_IN_CHILD_ARRAY = 2"
definition ARTIST_ASSOC_SEC_SIZE :: nat where "ARTIST_ASSOC_SEC_SIZE = ((NUM_OF_LIST_IN_CHILD_ARRAY * (MAX_NUM_OF_SONG div NUM_OF_ITEM_IN_ONE_WORD)) div NUM_OF_WORD_PER_SEC) + 1"
definition ARTIST_SUBASSOC_START_SEC :: nat where "ARTIST_SUBASSOC_START_SEC = ARTIST_ASSOC_START_SEC + ARTIST_ASSOC_SEC_SIZE"
definition ARTIST_SUBASSOC_SEC_SIZE :: nat where "ARTIST_SUBASSOC_SEC_SIZE = ((NUM_OF_LIST_IN_CHILD_ARRAY * (MAX_NUM_OF_SONG div NUM_OF_ITEM_IN_ONE_WORD)) div NUM_OF_WORD_PER_SEC) + 1"
definition ALBUM_SORT_START_SEC :: nat where "ALBUM_SORT_START_SEC = ARTIST_SUBASSOC_START_SEC + ARTIST_SUBASSOC_SEC_SIZE"
definition ALBUM_SORT_SEC_SIZE :: nat where "ALBUM_SORT_SEC_SIZE = ((MAX_NUM_OF_SONG div NUM_OF_ITEM_IN_ONE_WORD) div NUM_OF_WORD_PER_SEC) + 1"
definition ALBUM_ASSOC_START_SEC :: nat where "ALBUM_ASSOC_START_SEC = ALBUM_SORT_START_SEC + ALBUM_SORT_SEC_SIZE"
definition ALBUM_ASSOC_SEC_SIZE :: nat where "ALBUM_ASSOC_SEC_SIZE = ((NUM_OF_LIST_IN_CHILD_ARRAY * (MAX_NUM_OF_SONG div NUM_OF_ITEM_IN_ONE_WORD)) div NUM_OF_WORD_PER_SEC) + 1"
definition GENRE_SORT_START_SEC :: nat where "GENRE_SORT_START_SEC = ALBUM_ASSOC_START_SEC + ALBUM_ASSOC_SEC_SIZE"
definition GENRE_SORT_SEC_SIZE :: nat where "GENRE_SORT_SEC_SIZE = ((MAX_NUM_OF_SONG div NUM_OF_ITEM_IN_ONE_WORD) div NUM_OF_WORD_PER_SEC) + 1"
definition GENRE_ASSOC_START_SEC :: nat where "GENRE_ASSOC_START_SEC = GENRE_SORT_START_SEC + GENRE_SORT_SEC_SIZE"
definition GENRE_ASSOC_SEC_SIZE :: nat where "GENRE_ASSOC_SEC_SIZE = ((NUM_OF_LIST_IN_CHILD_ARRAY * (MAX_NUM_OF_SONG div NUM_OF_ITEM_IN_ONE_WORD)) div NUM_OF_WORD_PER_SEC) + 1"
definition YEAR_SORT_START_SEC :: nat where "YEAR_SORT_START_SEC = GENRE_ASSOC_START_SEC + GENRE_ASSOC_SEC_SIZE"
definition YEAR_SORT_SEC_SIZE :: nat where "YEAR_SORT_SEC_SIZE = ((MAX_NUM_OF_SONG div NUM_OF_ITEM_IN_ONE_WORD) div NUM_OF_WORD_PER_SEC) + 1"
definition YEAR_ASSOC_START_SEC :: nat where "YEAR_ASSOC_START_SEC = YEAR_SORT_START_SEC + YEAR_SORT_SEC_SIZE"
definition YEAR_ASSOC_SEC_SIZE :: nat where "YEAR_ASSOC_SEC_SIZE = ((NUM_OF_LIST_IN_CHILD_ARRAY * (MAX_NUM_OF_SONG div NUM_OF_ITEM_IN_ONE_WORD)) div NUM_OF_WORD_PER_SEC) + 1"
definition NEW_MUSIC_START_SEC :: nat where "NEW_MUSIC_START_SEC = YEAR_ASSOC_START_SEC + YEAR_ASSOC_SEC_SIZE"
definition NUM_OF_SONG_IN_NEW_MUSIC :: nat where "NUM_OF_SONG_IN_NEW_MUSIC = 40"
definition NEW_MUSIC_STRUCT_SIZE :: nat where "NEW_MUSIC_STRUCT_SIZE = NUM_OF_SONG_IN_NEW_MUSIC + NUM_OF_SONG_IN_NEW_MUSIC + 4"
definition NEW_MUSIC_SEC_SIZE :: nat where "NEW_MUSIC_SEC_SIZE = (NEW_MUSIC_STRUCT_SIZE div NUM_OF_WORD_PER_SEC) + 1"
definition ON_THE_FLY_START_SEC :: nat where "ON_THE_FLY_START_SEC = NEW_MUSIC_START_SEC + NEW_MUSIC_SEC_SIZE"
definition NUM_OF_SONG_IN_ON_THE_FLY :: nat where "NUM_OF_SONG_IN_ON_THE_FLY = 30"
definition ON_THE_FLY_SEC_SIZE :: nat where "ON_THE_FLY_SEC_SIZE = (NUM_OF_SONG_IN_ON_THE_FLY div NUM_OF_WORD_PER_SEC) + 1"
definition ON_THE_FLY_PATH_START_SEC :: nat where "ON_THE_FLY_PATH_START_SEC = ON_THE_FLY_START_SEC + ON_THE_FLY_SEC_SIZE"
definition ON_THE_FLY_PATH_SEC_SIZE :: nat where "ON_THE_FLY_PATH_SEC_SIZE = NUM_OF_SONG_IN_ON_THE_FLY div (NUM_OF_WORD_PER_SEC div PATH_NAME_STRUCT_SIZE) + 1"
definition M3U_MUSIC_START_SEC :: nat where "M3U_MUSIC_START_SEC = ON_THE_FLY_PATH_START_SEC + ON_THE_FLY_PATH_SEC_SIZE"
definition NUM_OF_LIST_IN_NEW_MUSIC :: nat where "NUM_OF_LIST_IN_NEW_MUSIC = 3"
definition M3U_MUSIC_SEC_SIZE :: nat where "M3U_MUSIC_SEC_SIZE = ((NUM_OF_LIST_IN_NEW_MUSIC * NUM_OF_SONG_IN_NEW_MUSIC) div NUM_OF_WORD_PER_SEC) + 1"
definition SONG_INFO_ARTIST_START_SEC :: nat where "SONG_INFO_ARTIST_START_SEC = M3U_MUSIC_START_SEC + M3U_MUSIC_SEC_SIZE"
definition SONG_INFO_SEC_SIZE :: nat where "SONG_INFO_SEC_SIZE = ((MAX_NUM_OF_SONG div NUM_OF_ITEM_IN_ONE_WORD) div NUM_OF_WORD_PER_SEC) + 1"
definition SONG_INFO_ALBUM_START_SEC :: nat where "SONG_INFO_ALBUM_START_SEC = SONG_INFO_ARTIST_START_SEC + SONG_INFO_SEC_SIZE"
definition SONG_INFO_GENRE_START_SEC :: nat where "SONG_INFO_GENRE_START_SEC = SONG_INFO_ALBUM_START_SEC + SONG_INFO_SEC_SIZE"
definition SONG_INFO_YEAR_START_SEC :: nat where "SONG_INFO_YEAR_START_SEC = SONG_INFO_GENRE_START_SEC + SONG_INFO_SEC_SIZE"
definition AUDIBLE_START_SEC :: nat where "AUDIBLE_START_SEC = SONG_INFO_YEAR_START_SEC + SONG_INFO_SEC_SIZE"
definition NUM_OF_AUDIBLE_FILE :: nat where "NUM_OF_AUDIBLE_FILE = 250"
definition AUDIBLE_SEC_SIZE :: nat where "AUDIBLE_SEC_SIZE = ((NUM_OF_AUDIBLE_FILE div NUM_OF_ITEM_IN_ONE_WORD) div NUM_OF_WORD_PER_SEC) + 1"
definition AUDIBLE_NAME_START_SEC :: nat where "AUDIBLE_NAME_START_SEC = AUDIBLE_START_SEC + AUDIBLE_SEC_SIZE"
definition AUDIBLE_NAME_SEC_SIZE :: nat where "AUDIBLE_NAME_SEC_SIZE = NUM_OF_AUDIBLE_FILE div (NUM_OF_WORD_PER_SEC div NAME_STRUCT_SIZE)"
definition AUDIBLE_PATH_START_SEC :: nat where "AUDIBLE_PATH_START_SEC = AUDIBLE_NAME_START_SEC + AUDIBLE_NAME_SEC_SIZE"
definition AUDIBLE_PATH_SEC_SIZE :: nat where "AUDIBLE_PATH_SEC_SIZE = NUM_OF_AUDIBLE_FILE div (NUM_OF_WORD_PER_SEC div PATH_NAME_STRUCT_SIZE) + 1"
definition VOICE_NAME_START_SEC :: nat where "VOICE_NAME_START_SEC = AUDIBLE_PATH_START_SEC + AUDIBLE_PATH_SEC_SIZE"
definition VOICE_NAME_SEC_SIZE :: nat where "VOICE_NAME_SEC_SIZE = NAME_SEC_SIZE"
definition VOICE_PATH_START_SEC :: nat where "VOICE_PATH_START_SEC = VOICE_NAME_START_SEC + VOICE_NAME_SEC_SIZE"
definition VOICE_PATH_SEC_SIZE :: nat where "VOICE_PATH_SEC_SIZE = PATH_NAME_STRUCT_SIZE"
definition VOICE_MARKTABLE_START_SEC :: nat where "VOICE_MARKTABLE_START_SEC = VOICE_PATH_START_SEC + VOICE_PATH_SEC_SIZE"
definition NUM_OF_MARK_TABLE_COL :: nat where "NUM_OF_MARK_TABLE_COL = 2"
definition LEN_OF_SUB_STRING_IN_BYTE :: nat where "LEN_OF_SUB_STRING_IN_BYTE = 30"
definition ML_VOICE_MARKTABLE_STRUCT_SIZE :: nat where "ML_VOICE_MARKTABLE_STRUCT_SIZE = (NUM_OF_MARK_TABLE_ENTRY * NUM_OF_MARK_TABLE_COL) + (NUM_OF_MARK_TABLE_ENTRY * (LEN_OF_SUB_STRING_IN_BYTE div NUM_OF_BYTE_IN_ONE_WORD)) + 1"
definition VOICE_MARKTABLE_SEC_SIZE :: nat where "VOICE_MARKTABLE_SEC_SIZE = (ML_VOICE_MARKTABLE_STRUCT_SIZE div NUM_OF_WORD_PER_SEC) + 1"
definition VOICE_INFO_START_SEC :: nat where "VOICE_INFO_START_SEC = VOICE_MARKTABLE_START_SEC + VOICE_MARKTABLE_SEC_SIZE"
definition MAX_NUM_OF_VOICE :: nat where "MAX_NUM_OF_VOICE = 1000"
definition ML_VOICE_INFO_STRUCT_SIZE :: nat where "ML_VOICE_INFO_STRUCT_SIZE = (MAX_NUM_OF_VOICE div NUM_OF_ITEM_IN_ONE_WORD) + 2"
definition VOICE_INFO_SEC_SIZE :: nat where "VOICE_INFO_SEC_SIZE = (ML_VOICE_INFO_STRUCT_SIZE div NUM_OF_WORD_PER_SEC) + 1"
definition VOICE_ARRAY_START_SEC :: nat where "VOICE_ARRAY_START_SEC = VOICE_INFO_START_SEC + VOICE_INFO_SEC_SIZE"
definition VOICE_ARRAY_SEC_SIZE :: nat where "VOICE_ARRAY_SEC_SIZE = ((MAX_NUM_OF_VOICE div NUM_OF_ITEM_IN_ONE_WORD) div NUM_OF_WORD_PER_SEC) + 1"
definition FMREC_NAME_START_SEC :: nat where "FMREC_NAME_START_SEC = VOICE_ARRAY_START_SEC + VOICE_ARRAY_SEC_SIZE"
definition FMREC_NAME_SEC_SIZE :: nat where "FMREC_NAME_SEC_SIZE = NAME_SEC_SIZE"
definition FMREC_PATH_START_SEC :: nat where "FMREC_PATH_START_SEC = FMREC_NAME_START_SEC + FMREC_NAME_SEC_SIZE"
definition FMREC_PATH_SEC_SIZE :: nat where "FMREC_PATH_SEC_SIZE = PATH_NAME_STRUCT_SIZE"
definition FMREC_MARKTABLE_START_SEC :: nat where "FMREC_MARKTABLE_START_SEC = FMREC_PATH_START_SEC + FMREC_PATH_SEC_SIZE"
definition FMREC_INFO_START_SEC :: nat where "FMREC_INFO_START_SEC = FMREC_MARKTABLE_START_SEC + VOICE_MARKTABLE_SEC_SIZE"
definition FMREC_ARRAY_START_SEC :: nat where "FMREC_ARRAY_START_SEC = FMREC_INFO_START_SEC + VOICE_INFO_SEC_SIZE"
definition MAX_NUM_OF_FMREC :: nat where "MAX_NUM_OF_FMREC = MAX_NUM_OF_VOICE"
definition FMREC_ARRAY_SEC_SIZE :: nat where "FMREC_ARRAY_SEC_SIZE = ((MAX_NUM_OF_FMREC div NUM_OF_ITEM_IN_ONE_WORD) div NUM_OF_WORD_PER_SEC) + 1"
definition ARTIST_MERGE_START_SEC :: nat where "ARTIST_MERGE_START_SEC = FMREC_ARRAY_START_SEC + FMREC_ARRAY_SEC_SIZE"
definition SONG_MERGE_SEC_SIZE :: nat where "SONG_MERGE_SEC_SIZE = ((2 * (MAX_NUM_OF_SONG div NUM_OF_ITEM_IN_ONE_WORD)) div NUM_OF_WORD_PER_SEC) + 1"
definition ALBUM_MERGE_START_SEC :: nat where "ALBUM_MERGE_START_SEC = ARTIST_MERGE_START_SEC + SONG_MERGE_SEC_SIZE"
definition GENRE_MERGE_START_SEC :: nat where "GENRE_MERGE_START_SEC = ALBUM_MERGE_START_SEC + SONG_MERGE_SEC_SIZE"
definition SONG_MERGE_START_SEC :: nat where "SONG_MERGE_START_SEC = GENRE_MERGE_START_SEC + SONG_MERGE_SEC_SIZE"
definition YEAR_MERGE_START_SEC :: nat where "YEAR_MERGE_START_SEC = SONG_MERGE_START_SEC + SONG_MERGE_SEC_SIZE"
definition PHOTO_NAME_START_SEC :: nat where "PHOTO_NAME_START_SEC = YEAR_MERGE_START_SEC + SONG_MERGE_SEC_SIZE"
definition PHOTO_NAME_SEC_SIZE :: nat where "PHOTO_NAME_SEC_SIZE = NAME_SEC_SIZE"
definition PHOTO_PATH_START_SEC :: nat where "PHOTO_PATH_START_SEC = PHOTO_NAME_START_SEC + PHOTO_NAME_SEC_SIZE"
definition PHOTO_PATH_SEC_SIZE :: nat where "PHOTO_PATH_SEC_SIZE = PATH_NAME_STRUCT_SIZE"
definition PHOTO_MARKTABLE_START_SEC :: nat where "PHOTO_MARKTABLE_START_SEC = PHOTO_PATH_START_SEC + PHOTO_PATH_SEC_SIZE"
definition PHOTO_INFO_START_SEC :: nat where "PHOTO_INFO_START_SEC = PHOTO_MARKTABLE_START_SEC + VOICE_MARKTABLE_SEC_SIZE"
definition PHOTO_ARRAY_START_SEC :: nat where "PHOTO_ARRAY_START_SEC = PHOTO_INFO_START_SEC + VOICE_INFO_SEC_SIZE"
definition MAX_NUM_OF_PHOTO :: nat where "MAX_NUM_OF_PHOTO = MAX_NUM_OF_VOICE"
definition PHOTO_ARRAY_SEC_SIZE :: nat where "PHOTO_ARRAY_SEC_SIZE = ((MAX_NUM_OF_PHOTO div NUM_OF_ITEM_IN_ONE_WORD) div NUM_OF_WORD_PER_SEC) + 1"
definition MVIDEO_NAME_START_SEC :: nat where "MVIDEO_NAME_START_SEC = PHOTO_ARRAY_START_SEC + PHOTO_ARRAY_SEC_SIZE"
definition MVIDEO_NAME_SEC_SIZE :: nat where "MVIDEO_NAME_SEC_SIZE = NAME_SEC_SIZE"
definition MVIDEO_PATH_START_SEC :: nat where "MVIDEO_PATH_START_SEC = MVIDEO_NAME_START_SEC + MVIDEO_NAME_SEC_SIZE"
definition MVIDEO_PATH_SEC_SIZE :: nat where "MVIDEO_PATH_SEC_SIZE = PATH_NAME_STRUCT_SIZE"
definition MVIDEO_MARKTABLE_START_SEC :: nat where "MVIDEO_MARKTABLE_START_SEC = MVIDEO_PATH_START_SEC + MVIDEO_PATH_SEC_SIZE"
definition MVIDEO_INFO_START_SEC :: nat where "MVIDEO_INFO_START_SEC = MVIDEO_MARKTABLE_START_SEC + VOICE_MARKTABLE_SEC_SIZE"
definition MVIDEO_ARRAY_START_SEC :: nat where "MVIDEO_ARRAY_START_SEC = MVIDEO_INFO_START_SEC + VOICE_INFO_SEC_SIZE"
definition MAX_NUM_OF_MVIDEO :: nat where "MAX_NUM_OF_MVIDEO = MAX_NUM_OF_VOICE"
definition MVIDEO_ARRAY_SEC_SIZE :: nat where "MVIDEO_ARRAY_SEC_SIZE = ((MAX_NUM_OF_MVIDEO div NUM_OF_ITEM_IN_ONE_WORD) div NUM_OF_WORD_PER_SEC) + 1"
definition LONG_FILENAME_START_SEC :: nat where "LONG_FILENAME_START_SEC = MVIDEO_ARRAY_START_SEC + MVIDEO_ARRAY_SEC_SIZE"
definition LONG_FILENAME_SEC_SIZE :: nat where "LONG_FILENAME_SEC_SIZE = (MAX_NUM_OF_SONG) div (NUM_OF_WORD_PER_SEC div LONG_FILENAME_STRUCT_SIZE) + 1"
definition AUDIBLE_LONG_FILENAME_START_SEC :: nat where "AUDIBLE_LONG_FILENAME_START_SEC = LONG_FILENAME_START_SEC + LONG_FILENAME_SEC_SIZE"
definition AUDIBLE_LONG_FILENAME_SEC_SIZE :: nat where "AUDIBLE_LONG_FILENAME_SEC_SIZE = NUM_OF_AUDIBLE_FILE div (NUM_OF_WORD_PER_SEC div LONG_FILENAME_STRUCT_SIZE) + 1"
definition TRACKNUM_ARRAY_START_SEC :: nat where "TRACKNUM_ARRAY_START_SEC = AUDIBLE_LONG_FILENAME_START_SEC + AUDIBLE_LONG_FILENAME_SEC_SIZE"
definition ARTIST_NAME_DTYPE :: nat where "ARTIST_NAME_DTYPE = 0"
definition ALBUM_NAME_DTYPE :: nat where "ALBUM_NAME_DTYPE = 1"
definition GENRE_NAME_DTYPE :: nat where "GENRE_NAME_DTYPE = 2"
definition SONG_NAME_DTYPE :: nat where "SONG_NAME_DTYPE = 3"
definition LONG_FILENAME_DTYPE :: nat where "LONG_FILENAME_DTYPE = 93"
definition AUDIBLE_LONG_FILENAME_DTYPE :: nat where "AUDIBLE_LONG_FILENAME_DTYPE = 94"
definition AUDIBLE_NAME_DTYPE :: nat where "AUDIBLE_NAME_DTYPE = 55"
definition AUDIBLE_PATH_DTYPE :: nat where "AUDIBLE_PATH_DTYPE = 56"
definition ON_THE_FLY_PATH_DTYPE :: nat where "ON_THE_FLY_PATH_DTYPE = 57"
definition VOICE_NAME_DTYPE :: nat where "VOICE_NAME_DTYPE = 69"
definition VOICE_PATH_DTYPE :: nat where "VOICE_PATH_DTYPE = 70"
definition FMREC_NAME_DTYPE :: nat where "FMREC_NAME_DTYPE = 75"
definition FMREC_PATH_DTYPE :: nat where "FMREC_PATH_DTYPE = 76"
definition PHOTO_NAME_DTYPE :: nat where "PHOTO_NAME_DTYPE = 81"
definition PHOTO_PATH_DTYPE :: nat where "PHOTO_PATH_DTYPE = 82"
definition MVIDEO_NAME_DTYPE :: nat where "MVIDEO_NAME_DTYPE = 87"
definition MVIDEO_PATH_DTYPE :: nat where "MVIDEO_PATH_DTYPE = 88"
definition FLASH_DRIVEID :: nat where "FLASH_DRIVEID = 0"

lemmas sector_consts =
  BYTE_PER_SECTOR_def LB_BYTE_PER_SECTOR_def NUM_OF_MEDIA_def MEDIA_TYPE_FLASH_def NUM_OF_LEVEL2_FLASHPART_SEC_def
  NUM_OF_LEVEL2_FLASHPART_2048SEC_def NUM_OF_LONG_PER_512SEC_def NUM_OF_LONG_PER_2048SEC_def NUM_OF_BYTE_PER_SEC_def
  NUM_OF_BYTE_IN_ONE_WORD_def NUM_OF_WORD_PER_SEC_def FL_LEN_OF_NAME_IN_BYTE_def FL_LEN_OF_UNICODE_IN_BYTE_def
  NAME_STRUCT_SIZE_def NAME_ITEM_PER_SEC_def FL_LEN_OF_FILEPATH_IN_BYTE_def FL_LEN_OF_FASTKEY_IN_BYTE_def
  PATH_NAME_STRUCT_SIZE_def PATH_NAME_ITEM_PER_SEC_def FL_LEN_OF_LONG_FILENAME_IN_BYTE_def LONG_FILENAME_STRUCT_SIZE_def
  LONG_FILENAME_ITEM_PER_SEC_def FIRST_SEC_IN_USE_def ARTIST_NAME_START_SEC_def NAME_SEC_SIZE_def ALBUM_NAME_START_SEC_def
  GENRE_NAME_START_SEC_def SONG_NAME_START_SEC_def PATH_NAME_START_SEC_def PATH_NAME_SEC_SIZE_def SONG_ARRAY_START_SEC_def
  NUM_OF_BIT_IN_ONE_WORD_def NUM_OF_BIT_FOR_ONE_ITEM_def NUM_OF_ITEM_IN_ONE_WORD_def SONG_ARRAY_SEC_SIZE_def
  SONG_YEAR_START_SEC_def SONG_YEAR_SEC_SIZE_def ARTIST_SORT_START_SEC_def ARTIST_SORT_SEC_SIZE_def
  ARTIST_ASSOC_START_SEC_def NUM_OF_LIST_IN_CHILD_ARRAY_def ARTIST_ASSOC_SEC_SIZE_def ARTIST_SUBASSOC_START_SEC_def
  ARTIST_SUBASSOC_SEC_SIZE_def ALBUM_SORT_START_SEC_def ALBUM_SORT_SEC_SIZE_def ALBUM_ASSOC_START_SEC_def
  ALBUM_ASSOC_SEC_SIZE_def GENRE_SORT_START_SEC_def GENRE_SORT_SEC_SIZE_def GENRE_ASSOC_START_SEC_def
  GENRE_ASSOC_SEC_SIZE_def YEAR_SORT_START_SEC_def YEAR_SORT_SEC_SIZE_def YEAR_ASSOC_START_SEC_def YEAR_ASSOC_SEC_SIZE_def
  NEW_MUSIC_START_SEC_def NUM_OF_SONG_IN_NEW_MUSIC_def NEW_MUSIC_STRUCT_SIZE_def NEW_MUSIC_SEC_SIZE_def
  ON_THE_FLY_START_SEC_def NUM_OF_SONG_IN_ON_THE_FLY_def ON_THE_FLY_SEC_SIZE_def ON_THE_FLY_PATH_START_SEC_def
  ON_THE_FLY_PATH_SEC_SIZE_def M3U_MUSIC_START_SEC_def NUM_OF_LIST_IN_NEW_MUSIC_def M3U_MUSIC_SEC_SIZE_def
  SONG_INFO_ARTIST_START_SEC_def SONG_INFO_SEC_SIZE_def SONG_INFO_ALBUM_START_SEC_def SONG_INFO_GENRE_START_SEC_def
  SONG_INFO_YEAR_START_SEC_def AUDIBLE_START_SEC_def NUM_OF_AUDIBLE_FILE_def AUDIBLE_SEC_SIZE_def AUDIBLE_NAME_START_SEC_def
  AUDIBLE_NAME_SEC_SIZE_def AUDIBLE_PATH_START_SEC_def AUDIBLE_PATH_SEC_SIZE_def VOICE_NAME_START_SEC_def
  VOICE_NAME_SEC_SIZE_def VOICE_PATH_START_SEC_def VOICE_PATH_SEC_SIZE_def VOICE_MARKTABLE_START_SEC_def
  NUM_OF_MARK_TABLE_COL_def LEN_OF_SUB_STRING_IN_BYTE_def ML_VOICE_MARKTABLE_STRUCT_SIZE_def VOICE_MARKTABLE_SEC_SIZE_def
  VOICE_INFO_START_SEC_def MAX_NUM_OF_VOICE_def ML_VOICE_INFO_STRUCT_SIZE_def VOICE_INFO_SEC_SIZE_def
  VOICE_ARRAY_START_SEC_def VOICE_ARRAY_SEC_SIZE_def FMREC_NAME_START_SEC_def FMREC_NAME_SEC_SIZE_def
  FMREC_PATH_START_SEC_def FMREC_PATH_SEC_SIZE_def FMREC_MARKTABLE_START_SEC_def FMREC_INFO_START_SEC_def
  FMREC_ARRAY_START_SEC_def MAX_NUM_OF_FMREC_def FMREC_ARRAY_SEC_SIZE_def ARTIST_MERGE_START_SEC_def SONG_MERGE_SEC_SIZE_def
  ALBUM_MERGE_START_SEC_def GENRE_MERGE_START_SEC_def SONG_MERGE_START_SEC_def YEAR_MERGE_START_SEC_def
  PHOTO_NAME_START_SEC_def PHOTO_NAME_SEC_SIZE_def PHOTO_PATH_START_SEC_def PHOTO_PATH_SEC_SIZE_def
  PHOTO_MARKTABLE_START_SEC_def PHOTO_INFO_START_SEC_def PHOTO_ARRAY_START_SEC_def MAX_NUM_OF_PHOTO_def
  PHOTO_ARRAY_SEC_SIZE_def MVIDEO_NAME_START_SEC_def MVIDEO_NAME_SEC_SIZE_def MVIDEO_PATH_START_SEC_def
  MVIDEO_PATH_SEC_SIZE_def MVIDEO_MARKTABLE_START_SEC_def MVIDEO_INFO_START_SEC_def MVIDEO_ARRAY_START_SEC_def
  MAX_NUM_OF_MVIDEO_def MVIDEO_ARRAY_SEC_SIZE_def LONG_FILENAME_START_SEC_def LONG_FILENAME_SEC_SIZE_def
  AUDIBLE_LONG_FILENAME_START_SEC_def AUDIBLE_LONG_FILENAME_SEC_SIZE_def TRACKNUM_ARRAY_START_SEC_def ARTIST_NAME_DTYPE_def
  ALBUM_NAME_DTYPE_def GENRE_NAME_DTYPE_def SONG_NAME_DTYPE_def LONG_FILENAME_DTYPE_def AUDIBLE_LONG_FILENAME_DTYPE_def
  AUDIBLE_NAME_DTYPE_def AUDIBLE_PATH_DTYPE_def ON_THE_FLY_PATH_DTYPE_def VOICE_NAME_DTYPE_def VOICE_PATH_DTYPE_def
  FMREC_NAME_DTYPE_def FMREC_PATH_DTYPE_def PHOTO_NAME_DTYPE_def PHOTO_PATH_DTYPE_def MVIDEO_NAME_DTYPE_def
  MVIDEO_PATH_DTYPE_def FLASH_DRIVEID_def MAX_NUM_OF_SONG_def NUM_OF_MARK_TABLE_ENTRY_def PATH_NAME_DTYPE_def

text \<open>The type of an item gives the items of a sector, the first sector and the words of an item. A write checks the number
  of the item, a read does not.\<close>

definition write_slot :: "nat \<Rightarrow> nat \<Rightarrow> (nat \<times> nat \<times> nat) option" where
  "write_slot item_type item_id =
     (if item_type = ARTIST_NAME_DTYPE then
        if item_id < MAX_NUM_OF_SONG then Some (NAME_ITEM_PER_SEC, ARTIST_NAME_START_SEC, NAME_STRUCT_SIZE) else None
      else if item_type = ALBUM_NAME_DTYPE then
        if item_id < MAX_NUM_OF_SONG then Some (NAME_ITEM_PER_SEC, ALBUM_NAME_START_SEC, NAME_STRUCT_SIZE) else None
      else if item_type = GENRE_NAME_DTYPE then
        if item_id < MAX_NUM_OF_SONG then Some (NAME_ITEM_PER_SEC, GENRE_NAME_START_SEC, NAME_STRUCT_SIZE) else None
      else if item_type = SONG_NAME_DTYPE then
        if item_id < MAX_NUM_OF_SONG then Some (NAME_ITEM_PER_SEC, SONG_NAME_START_SEC, NAME_STRUCT_SIZE) else None
      else if item_type = PATH_NAME_DTYPE then
        if item_id < MAX_NUM_OF_SONG then Some (PATH_NAME_ITEM_PER_SEC, PATH_NAME_START_SEC, PATH_NAME_STRUCT_SIZE) else None
      else if item_type = LONG_FILENAME_DTYPE then
        if item_id < MAX_NUM_OF_SONG then Some (LONG_FILENAME_ITEM_PER_SEC, LONG_FILENAME_START_SEC, LONG_FILENAME_STRUCT_SIZE) else None
      else if item_type = AUDIBLE_NAME_DTYPE then
        if item_id < NUM_OF_AUDIBLE_FILE then Some (NAME_ITEM_PER_SEC, AUDIBLE_NAME_START_SEC, NAME_STRUCT_SIZE) else None
      else if item_type = AUDIBLE_PATH_DTYPE then
        if item_id < NUM_OF_AUDIBLE_FILE then Some (PATH_NAME_ITEM_PER_SEC, AUDIBLE_PATH_START_SEC, PATH_NAME_STRUCT_SIZE) else None
      else if item_type = AUDIBLE_LONG_FILENAME_DTYPE then
        if item_id < NUM_OF_AUDIBLE_FILE
        then Some (LONG_FILENAME_ITEM_PER_SEC, AUDIBLE_LONG_FILENAME_START_SEC, LONG_FILENAME_STRUCT_SIZE) else None
      else if item_type = ON_THE_FLY_PATH_DTYPE then
        if item_id < NUM_OF_SONG_IN_ON_THE_FLY then Some (PATH_NAME_ITEM_PER_SEC, ON_THE_FLY_PATH_START_SEC, PATH_NAME_STRUCT_SIZE) else None
      else None)"

definition write_name_types :: "nat list" where
  "write_name_types = [ARTIST_NAME_DTYPE, ALBUM_NAME_DTYPE, GENRE_NAME_DTYPE, SONG_NAME_DTYPE, PATH_NAME_DTYPE, LONG_FILENAME_DTYPE,
     AUDIBLE_NAME_DTYPE, AUDIBLE_PATH_DTYPE, AUDIBLE_LONG_FILENAME_DTYPE, ON_THE_FLY_PATH_DTYPE]"

definition read_name_types :: "nat list" where
  "read_name_types = write_name_types @ [VOICE_NAME_DTYPE, VOICE_PATH_DTYPE, FMREC_NAME_DTYPE, FMREC_PATH_DTYPE,
     PHOTO_NAME_DTYPE, PHOTO_PATH_DTYPE, MVIDEO_NAME_DTYPE, MVIDEO_PATH_DTYPE]"

definition read_start_sec :: "nat \<Rightarrow> nat" where
  "read_start_sec item_type =
     (if item_type = VOICE_NAME_DTYPE then VOICE_NAME_START_SEC
      else if item_type = VOICE_PATH_DTYPE then VOICE_PATH_START_SEC
      else if item_type = FMREC_NAME_DTYPE then FMREC_NAME_START_SEC
      else if item_type = FMREC_PATH_DTYPE then FMREC_PATH_START_SEC
      else if item_type = PHOTO_NAME_DTYPE then PHOTO_NAME_START_SEC
      else if item_type = PHOTO_PATH_DTYPE then PHOTO_PATH_START_SEC
      else if item_type = MVIDEO_NAME_DTYPE then MVIDEO_NAME_START_SEC
      else if item_type = MVIDEO_PATH_DTYPE then MVIDEO_PATH_START_SEC
      else if item_type = AUDIBLE_NAME_DTYPE then AUDIBLE_NAME_START_SEC
      else if item_type = AUDIBLE_PATH_DTYPE then AUDIBLE_PATH_START_SEC
      else if item_type = ON_THE_FLY_PATH_DTYPE then ON_THE_FLY_PATH_START_SEC
      else if item_type = LONG_FILENAME_DTYPE then LONG_FILENAME_START_SEC
      else if item_type = AUDIBLE_LONG_FILENAME_DTYPE then AUDIBLE_LONG_FILENAME_START_SEC
      else ARTIST_NAME_START_SEC + item_type * NAME_SEC_SIZE)"

definition read_slot :: "nat \<Rightarrow> nat \<times> nat \<times> nat" where
  "read_slot item_type =
     (let st = read_start_sec item_type in
      if item_type \<in> set [PATH_NAME_DTYPE, AUDIBLE_PATH_DTYPE, ON_THE_FLY_PATH_DTYPE, VOICE_PATH_DTYPE, FMREC_PATH_DTYPE,
           PHOTO_PATH_DTYPE, MVIDEO_PATH_DTYPE]
      then (PATH_NAME_ITEM_PER_SEC, st, PATH_NAME_STRUCT_SIZE)
      else if item_type = LONG_FILENAME_DTYPE \<or> item_type = AUDIBLE_LONG_FILENAME_DTYPE
      then (LONG_FILENAME_ITEM_PER_SEC, st, LONG_FILENAME_STRUCT_SIZE)
      else (NAME_ITEM_PER_SEC, st, NAME_STRUCT_SIZE))"

section \<open>The areas\<close>

text \<open>Reader and writer agree on where an item is.\<close>

lemma read_slot_write: "write_slot t n = Some x \<Longrightarrow> read_slot t = x"
  by (auto simp: write_slot_def read_slot_def read_start_sec_def sector_consts Let_def split: if_splits)

definition name_area :: "nat \<Rightarrow> nat \<times> nat" where
  "name_area t = (if t < 4 then (250 * t, 250 * t + 250) else if t = 4 then (1000, 1501) else if t = 57 then (1554, 1570)
     else if t = 55 then (1584, 1646) else if t = 56 then (1646, 1772) else if t = 93 then (3074, 3408) else (3408, 3492))"

definition has_area :: "nat \<Rightarrow> nat \<Rightarrow> bool" where
  "has_area t n \<longleftrightarrow> t \<in> set write_name_types \<and> write_slot t n \<noteq> None \<and> (t = AUDIBLE_NAME_DTYPE \<longrightarrow> n < 248)"

lemma write_types: "t \<in> set write_name_types \<longleftrightarrow> t < 5 \<or> t = 55 \<or> t = 56 \<or> t = 57 \<or> t = 93 \<or> t = 94"
  by (auto simp: write_name_types_def sector_consts)

text \<open>An item fits between the words of its sector, and its sector is in the area of its type.\<close>

lemma slot_fits:
  assumes "has_area t n" and "write_slot t n = Some (p, st, sz)"
  shows "0 < p" and "sz * (n mod p) + sz \<le> 170" and "fst (name_area t) \<le> st + n div p" and "st + n div p < snd (name_area t)"
    and "st + n div p < TRACKNUM_ARRAY_START_SEC"
proof -
  have "0 < p \<and> sz * p \<le> 170 \<and> fst (name_area t) \<le> st + n div p \<and> st + n div p < snd (name_area t) \<and> snd (name_area t) \<le> 3492"
    using assms by (auto simp: has_area_def write_slot_def name_area_def sector_consts write_types split: if_splits)
  moreover have "sz * (n mod p) + sz \<le> sz * p" if "0 < p"
  proof -
    have "sz * Suc (n mod p) \<le> sz * p" using that by (simp add: Suc_leI del: mult_Suc_right)
    then show ?thesis by (simp add: add.commute)
  qed
  ultimately show "0 < p" "sz * (n mod p) + sz \<le> 170" "fst (name_area t) \<le> st + n div p" "st + n div p < snd (name_area t)"
    "st + n div p < TRACKNUM_ARRAY_START_SEC"
    by (auto simp: sector_consts intro: order.trans)
qed

lemma areas_apart:
  assumes "t \<in> set write_name_types" and "t' \<in> set write_name_types" and "t \<noteq> t'"
    and "fst (name_area t) \<le> k" and "k < snd (name_area t)" and "fst (name_area t') \<le> k" and "k < snd (name_area t')"
  shows False
  using assms by (auto simp: write_types name_area_def split: if_splits)

text \<open>Different items have different words, but for the last two audible names.\<close>

lemma slots_apart:
  assumes a: "has_area t n" "has_area t' n'" and s: "write_slot t n = Some (p, st, sz)" "write_slot t' n' = Some (p', st', sz')"
    and ne: "(t, n) \<noteq> (t', n')" and k: "st + n div p = st' + n' div p'"
  shows "sz * (n mod p) + sz \<le> sz' * (n' mod p') \<or> sz' * (n' mod p') + sz' \<le> sz * (n mod p)"
proof -
  note f = slot_fits [OF a(1) s(1)] slot_fits [OF a(2) s(2)]
  have t: "t = t'" using areas_apart [of t t' "st + n div p"] a f(3, 4, 8, 9) k by (auto simp: has_area_def)
  have e: "p = p'" "st = st'" "sz = sz'"
    using s read_slot_write [OF s(1)] read_slot_write [OF s(2)] t by simp_all
  have "n mod p \<noteq> n' mod p"
    using k ne t e by (metis add_left_cancel div_mod_decomp)
  then have "Suc (n mod p) \<le> n' mod p \<or> Suc (n' mod p) \<le> n mod p" by linarith
  then have "sz * Suc (n mod p) \<le> sz * (n' mod p) \<or> sz * Suc (n' mod p) \<le> sz * (n mod p)" by (metis mult_le_mono2)
  then show ?thesis using e by (simp add: add.commute)
qed

text \<open>The last two audible names have the words of the first two paths of audible files.\<close>

lemma audible_names_overlap:
  "write_slot AUDIBLE_NAME_DTYPE 248 = Some (p, st, sz) \<Longrightarrow> write_slot AUDIBLE_PATH_DTYPE 0 = Some (p', st', sz') \<Longrightarrow>
   st + 248 div p = st' + 0 div p' \<and> sz * (248 mod p) = sz' * (0 mod p')"
  by (auto simp: write_slot_def sector_consts)

end
