(* ===== verification/MlPieces.thy ===== *)
theory MlPieces imports MlBuild begin

text \<open>
  A group of the music library as a list of pieces: its items are in one linked list, and the mark table cuts the list
  into pieces. What the walks of \<open>ML_AddEntryToLibrary\<close> see of a piece, what linking in an item and cutting a piece do
  to the list, and the binary search.
\<close>

section \<open>The linked list\<close>

definition link :: "WORD list \<Rightarrow> nat \<Rightarrow> nat option" where
  "link l i = (let v = ML_list_get_val l i in if v = INDEX_EOF then None else Some v)"

definition list_head :: "ml_group \<Rightarrow> nat option" where
  "list_head g = (if sorted_list_hd g = INDEX_EOF then None else Some (sorted_list_hd g))"

lemma chain_nth:
  "chain nxt h xs \<Longrightarrow> k < length xs \<Longrightarrow> nxt (xs ! k) = (if Suc k < length xs then Some (xs ! Suc k) else None)"
proof (induction xs arbitrary: h k)
  case (Cons x xs)
  show ?case
  proof (cases k)
    case 0
    then show ?thesis using Cons.prems by (cases xs) auto
  next
    case (Suc m)
    then show ?thesis using Cons.IH [of "nxt x" m] Cons.prems by simp
  qed
qed simp

lemma chain_insert:
  "chain nxt h (ys @ zs) \<Longrightarrow> distinct (ys @ zs) \<Longrightarrow> nxt' n = (if zs = [] then None else Some (hd zs)) \<Longrightarrow>
   (ys \<noteq> [] \<Longrightarrow> nxt' (last ys) = Some n) \<Longrightarrow> (\<And>i. i \<in> set (butlast ys) \<union> set zs \<Longrightarrow> nxt' i = nxt i) \<Longrightarrow>
   chain nxt' (if ys = [] then Some n else h) (ys @ n # zs)"
proof (induction ys arbitrary: h)
  case Nil
  have "chain nxt' h zs = chain nxt h zs" by (rule chain_cong) (use Nil.prems(5) in auto)
  then have "chain nxt' h zs" using Nil.prems(1) by simp
  moreover have "h = nxt' n" using Nil.prems(1, 3) by (cases zs) auto
  ultimately show ?case by simp
next
  case (Cons y ys)
  have "chain nxt' (if ys = [] then Some n else nxt y) (ys @ n # zs)"
  proof (rule Cons.IH)
    show "nxt' i = nxt i" if "i \<in> set (butlast ys) \<union> set zs" for i
      using that Cons.prems(5) [of i] by (cases ys) auto
    show "nxt' (last ys) = Some n" if "ys \<noteq> []" using that Cons.prems(4) by simp
  qed (use Cons.prems in auto)
  moreover have "nxt' y = (if ys = [] then Some n else nxt y)"
    using Cons.prems(4) Cons.prems(5) [of y] by (cases ys) auto
  ultimately show ?case using Cons.prems(1) by simp
qed

text \<open>Entries of the list are item numbers; the one behind the last item is the end mark.\<close>

lemma get_nth:
  assumes "chain (link l) h xs" and "k < length xs"
  shows "ML_list_get_val l (xs ! k) = (if Suc k < length xs then xs ! Suc k else INDEX_EOF)"
  using chain_nth [OF assms] by (auto simp: link_def Let_def split: if_splits)

lemma get_funpow:
  assumes "chain (link l) h xs" and "a + m < length xs"
  shows "(ML_list_get_val l ^^ m) (xs ! a) = xs ! (a + m)"
  using assms(2)
proof (induction m)
  case (Suc m)
  then show ?case using get_nth [OF assms(1), of "a + m"] by simp
qed simp

definition before :: "nat list \<Rightarrow> nat \<Rightarrow> nat" where
  "before xs a = (if a = 0 then INDEX_EOF else xs ! (a - 1))"

lemma collect_chain:
  assumes "chain (link l) h xs" and "INDEX_EOF \<notin> set xs" and "a + m \<le> length xs"
  shows "0 < m \<longrightarrow> collect m l (before xs a) (xs ! a) =
    map (\<lambda>j. (before xs j, xs ! j, ML_list_get_val l (xs ! j))) [a..<a + m]"
  using assms(3)
proof (induction m arbitrary: a)
  case (Suc m)
  have a: "a < length xs" using Suc.prems by simp
  then have ne: "xs ! a \<noteq> INDEX_EOF" using assms(2) nth_mem [OF a] by metis
  have nx: "0 < m \<longrightarrow> ML_list_get_val l (xs ! a) = xs ! Suc a"
    using get_nth [OF assms(1) a] Suc.prems by auto
  have "0 < m \<longrightarrow> collect m l (xs ! a) (xs ! Suc a) = map (\<lambda>j. (before xs j, xs ! j, ML_list_get_val l (xs ! j))) [Suc a..<Suc a + m]"
    using Suc.IH [of "Suc a"] Suc.prems by (simp add: before_def)
  then show ?case using ne nx by (cases "m = 0") (auto simp: upt_conv_Cons Let_def)
qed simp

section \<open>Pieces\<close>

text \<open>The pieces of a group, as the mark table has them: \<open>start segs k\<close> is where piece \<open>k\<close> begins.\<close>

definition start :: "nat list list \<Rightarrow> nat \<Rightarrow> nat" where
  "start segs k = length (concat (take k segs))"

lemma start_Suc: "k < length segs \<Longrightarrow> start segs (Suc k) = start segs k + length (segs ! k)"
  by (simp add: start_def take_Suc_conv_app_nth)

lemma start_0 [simp]: "start segs 0 = 0"
  by (simp add: start_def)

lemma concat_split:
  "k < length segs \<Longrightarrow> concat segs = concat (take k segs) @ segs ! k @ concat (drop (Suc k) segs)"
  using id_take_nth_drop [of k segs] by (metis concat.simps(2) concat_append)

lemma concat_nth: "k < length segs \<Longrightarrow> j < length (segs ! k) \<Longrightarrow> concat segs ! (start segs k + j) = segs ! k ! j"
  using concat_split [of k segs] by (simp add: start_def nth_append)

lemma start_bound: "k < length segs \<Longrightarrow> start segs k + length (segs ! k) \<le> length (concat segs)"
  using arg_cong [OF concat_split [of k segs], of length] by (simp add: start_def)

definition marks_ok :: "nat list list \<Rightarrow> ml_group \<Rightarrow> bool" where
  "marks_ok segs g \<longleftrightarrow> MarkTableID g = length segs \<and> length (mark_table_index g) = NUM_OF_MARK_TABLE_ENTRY \<and>
     (\<forall>k < length segs. segs ! k \<noteq> [] \<and> length (segs ! k) \<le> DISTANCE_IN_MARK_TABLE \<and>
        (1 < length segs \<longrightarrow> DISTANCE_IN_MARK_TABLE div 2 \<le> length (segs ! k)) \<and>
        mark_table_index g ! k = (hd (segs ! k), length (segs ! k))) \<and>
     (segs = [] \<longrightarrow> mark_table_index g ! 0 = (INDEX_EOF, 0)) \<and>
     (1 < length segs \<longrightarrow> DISTANCE_IN_MARK_TABLE div 2 * length segs < length (concat segs))"

definition list_ok :: "nat list list \<Rightarrow> ml_group \<Rightarrow> bool" where
  "list_ok segs g \<longleftrightarrow> chain (link (sorted_list g)) (list_head g) (concat segs) \<and> distinct (concat segs) \<and>
     set (concat segs) = {..<num_of_item g} \<and> num_of_item g \<le> MAX_NUM_OF_SONG \<and>
     length (sorted_list g) = MAX_NUM_OF_SONG div 2"

lemma list_ok_length: "list_ok segs g \<Longrightarrow> length (concat segs) = num_of_item g"
  using distinct_card [of "concat segs"] by (simp add: list_ok_def del: length_concat set_concat)

lemma list_ok_no_end: "list_ok segs g \<Longrightarrow> INDEX_EOF \<notin> set (concat segs)"
  by (auto simp: list_ok_def INDEX_EOF_def MAX_NUM_OF_SONG_def)

text \<open>The mark table has room for all pieces.\<close>

lemma marks_bound: "marks_ok segs g \<Longrightarrow> list_ok segs g \<Longrightarrow> length segs \<le> NUM_OF_MARK_TABLE_ENTRY"
  using list_ok_length [of segs g]
  by (cases "1 < length segs") (simp_all add: marks_ok_def list_ok_def DISTANCE_IN_MARK_TABLE_def
      MAX_NUM_OF_SONG_def NUM_OF_MARK_TABLE_ENTRY_def del: length_concat)

lemma nonempty_start: "marks_ok segs g \<Longrightarrow> k < length segs \<Longrightarrow> 0 < k \<Longrightarrow> 0 < start segs k"
  using start_Suc [of "k - 1" segs] by (auto simp: marks_ok_def)

text \<open>The walk from the mark before finds the last item of the piece before.\<close>

lemma previous_of_piece:
  assumes m: "marks_ok segs g" and l: "list_ok segs g" and k: "k < length segs"
  shows "previous_of g k = before (concat segs) (start segs k)"
proof (cases "k = 0")
  case False
  let ?q = "segs ! (k - 1)" and ?c = "length (segs ! (k - 1))" and ?s = "start segs (k - 1)"
  have c: "mark_table_index g ! (k - 1) = (hd ?q, ?c)" "?q \<noteq> []" "20 \<le> ?c" "?c \<le> 40"
    using m k False by (auto simp: marks_ok_def DISTANCE_IN_MARK_TABLE_def)
  have s: "start segs k = ?s + ?c" using start_Suc [of "k - 1" segs] k False by simp
  have hq: "hd ?q = concat segs ! ?s" using concat_nth [of "k - 1" segs 0] c(2) k by (simp add: hd_conv_nth)
  have ch: "chain (link (sorted_list g)) (list_head g) (concat segs)" using l by (simp add: list_ok_def)
  have u: "unat ((of_nat ?c :: WORD) - 2) = ?c - 2"
    using c(3, 4) by (simp add: unat_sub word_le_nat_alt unsigned_of_nat take_bit_nat_eq_self)
  have nx: "(ML_list_get_val (sorted_list g) ^^ Suc (?c - 2)) (hd ?q) = concat segs ! (?s + Suc (?c - 2))"
    unfolding hq by (rule get_funpow [OF ch]) (use c(3) k False start_bound [of "k - 1" segs] in \<open>simp add: less_imp_diff_less\<close>)
  have e: "?s + Suc (?c - 2) = ?s + ?c - 1" using c(3) by simp
  note nx = nx [unfolded funpow_Suc_right o_apply e]
  show ?thesis
    using False c(2) unfolding previous_of_def c(1) Let_def prod.case u before_def s by (simp add: nx [simplified])
qed (simp add: previous_of_def before_def)

lemma temp_list_piece:
  assumes m: "marks_ok segs g" and l: "list_ok segs g" and k: "k < length segs"
  shows "temp_list g k = map (\<lambda>j. (before (concat segs) j, concat segs ! j, ML_list_get_val (sorted_list g) (concat segs ! j)))
     [start segs k..<start segs k + length (segs ! k)]"
proof -
  let ?q = "segs ! k"
  have c: "mark_table_index g ! k = (hd ?q, length ?q)" "?q \<noteq> []" using m k by (auto simp: marks_ok_def)
  have hq: "hd ?q = concat segs ! start segs k" using concat_nth [of k segs 0] c(2) k by (simp add: hd_conv_nth)
  have "0 < length ?q \<longrightarrow> collect (length ?q) (sorted_list g) (before (concat segs) (start segs k)) (concat segs ! start segs k) =
    map (\<lambda>j. (before (concat segs) j, concat segs ! j, ML_list_get_val (sorted_list g) (concat segs ! j)))
     [start segs k..<start segs k + length ?q]"
    by (rule collect_chain [where h = "list_head g"])
      (use l k list_ok_no_end [OF l] start_bound [of k segs] in \<open>auto simp: list_ok_def\<close>)
  then show ?thesis using c(2) by (simp add: temp_list_def c(1) previous_of_piece [OF m l k] hq)
qed

section \<open>Linking in an item\<close>

lemma splice_chain:
  assumes c: "chain (link l) h xs" and d: "distinct xs" and n: "n \<notin> set xs" "n \<noteq> INDEX_EOF" "INDEX_EOF \<notin> set xs"
    and a: "a \<le> length xs"
    and g: "\<And>i. ML_list_get_val l' i = (if i = n then (if a < length xs then xs ! a else INDEX_EOF)
       else if 0 < a \<and> i = xs ! (a - 1) then n else ML_list_get_val l i)"
  shows "chain (link l') (if a = 0 then Some n else h) (take a xs @ n # drop a xs)"
proof -
  have no_end: "b < length xs \<Longrightarrow> xs ! b \<noteq> INDEX_EOF" for b using n(3) by (metis nth_mem)
  have emp: "(take a xs = []) = (a = 0)" using a by (cases xs) auto
  have la: "last (take a xs) = xs ! (a - 1)" if "0 < a" using that a by (cases a) (simp_all add: take_Suc_conv_app_nth)
  have ch: "chain (link l') (if take a xs = [] then Some n else h) (take a xs @ n # drop a xs)"
  proof (rule chain_insert)
    show "chain (link l) h (take a xs @ drop a xs)" "distinct (take a xs @ drop a xs)" using c d by simp_all
    show "link l' n = (if drop a xs = [] then None else Some (hd (drop a xs)))"
      using a no_end [of a] by (auto simp: link_def Let_def g hd_drop_conv_nth)
    show "link l' (last (take a xs)) = Some n" if "take a xs \<noteq> []"
    proof -
      have "0 < a" using that emp by simp
      then have "xs ! (a - 1) \<noteq> n" using n(1) a nth_mem [of "a - 1" xs] by force
      then show ?thesis using \<open>0 < a\<close> n(2) by (simp add: la link_def Let_def g)
    qed
    show "link l' i = link l i" if "i \<in> set (butlast (take a xs)) \<union> set (drop a xs)" for i
    proof -
      have "i \<in> set xs" using that by (auto dest: in_set_butlastD in_set_takeD in_set_dropD)
      moreover have "i \<noteq> xs ! (a - 1)" if "0 < a"
      proof -
        have s: "take a xs = butlast (take a xs) @ [xs ! (a - 1)]"
          using that a emp la append_butlast_last_id [of "take a xs"] by simp
        have "distinct (butlast (take a xs) @ [xs ! (a - 1)] @ drop a xs)"
          using d s by (metis append.assoc append_take_drop_id)
        then show ?thesis using \<open>i \<in> set (butlast (take a xs)) \<union> set (drop a xs)\<close> by auto
      qed
      ultimately show ?thesis using n(1) by (auto simp: link_def Let_def g)
    qed
  qed
  then show ?thesis unfolding emp .
qed

text \<open>What \<open>link_item\<close> does to the list; the rest of the group stays.\<close>

lemma put_get:
  "pos < 2 * length l \<Longrightarrow> v < 4096 \<Longrightarrow> ML_list_get_val (ML_list_put_val l pos v) q = (if q = pos then v else ML_list_get_val l q)"
  by (simp add: ML_list_get_put)

lemma link_item_piece:
  assumes m: "marks_ok segs g" and l: "list_ok segs g" and k: "k < length segs" and j: "j \<le> length (segs ! k)"
    and n: "num_of_item g < MAX_NUM_OF_SONG" and a: "a = start segs k + j"
  defines "xs \<equiv> concat segs" and "g' \<equiv> link_item (temp_list g k) j g"
  shows "chain (link (sorted_list g')) (list_head g') (take a xs @ num_of_item g # drop a xs)"
    and "length (sorted_list g') = length (sorted_list g)"
    and "g' = g\<lparr>sorted_list := sorted_list g', sorted_list_hd := sorted_list_hd g'\<rparr>"
proof -
  let ?n = "num_of_item g" and ?l = "sorted_list g" and ?p = "segs ! k" and ?s = "start segs k"
  have len: "length xs = ?n" using list_ok_length [OF l] by (simp add: xs_def)
  have items: "set xs = {..<?n}" "distinct xs" "chain (link ?l) (list_head g) xs" "length ?l = 500"
    using l by (simp_all add: list_ok_def xs_def MAX_NUM_OF_SONG_def)
  have n1: "?n < 1000" using n by (simp add: MAX_NUM_OF_SONG_def)
  have eof: "INDEX_EOF \<notin> set xs" using list_ok_no_end [OF l] by (simp add: xs_def)
  have p: "?p \<noteq> []" using m k by (simp add: marks_ok_def)
  have ab: "a \<le> length xs" using start_bound [OF k] j a by (simp add: xs_def)
  have buf: "length (temp_list g k) = length ?p"
    "i < length ?p \<Longrightarrow> temp_list g k ! i = (before xs (?s + i), xs ! (?s + i), ML_list_get_val ?l (xs ! (?s + i)))" for i
    using temp_list_piece [OF m l k] by (simp_all add: xs_def)
  have small: "b < length xs \<Longrightarrow> xs ! b < ?n" for b using items(1) nth_mem [of b xs] by auto
  have no_end: "b < length xs \<Longrightarrow> xs ! b \<noteq> INDEX_EOF" for b using eof by (metis nth_mem)
  have bef: "(before xs a = INDEX_EOF) = (a = 0)" 
    using ab no_end [of "a - 1"] by (auto simp: before_def)
  have sm: "0 < a \<longrightarrow> xs ! (a - 1) < ?n" using small [of "a - 1"] ab by simp
  obtain l' where l': "sorted_list g' = l'" "length l' = length ?l"
    "sorted_list_hd g' = (if a = 0 then ?n else sorted_list_hd g)" "g' = g\<lparr>sorted_list := l', sorted_list_hd := sorted_list_hd g'\<rparr>"
    "ML_list_get_val l' i = (if i = ?n then (if a < length xs then xs ! a else INDEX_EOF)
       else if 0 < a \<and> i = xs ! (a - 1) then ?n else ML_list_get_val ?l i)" for i
  proof (cases "j < length ?p")
    case True
    then have al: "a < length xs" using start_bound [OF k] a by (simp add: xs_def)
    show ?thesis
      by (rule that [of "sorted_list g'"])
        (use True small [OF al] sm al n1 items(4) bef in
          \<open>auto simp: g'_def link_item_def Let_def buf a [symmetric] put_get before_def split: if_splits\<close>)
  next
    case False
    then have jp: "j = length ?p" "0 < j" "?s + (j - 1) = a - 1" "0 < a"
      using j p a by (auto simp flip: length_greater_0_conv)
    have nx: "ML_list_get_val ?l (xs ! (a - 1)) = (if a < length xs then xs ! a else INDEX_EOF)"
      using get_nth [OF items(3), of "a - 1"] ab jp(4) by simp
    have b: "temp_list g k ! (j - 1) = (before xs (a - 1), xs ! (a - 1), ML_list_get_val ?l (xs ! (a - 1)))"
      using buf(2) [of "j - 1"] jp(1, 2) unfolding jp(3) by simp
    have v: "ML_list_get_val ?l (xs ! (a - 1)) < 4096" by (rule get_val_less)
    have "\<not> j < length (temp_list g k)" "0 < length (temp_list g k)" using jp(1, 2) by (simp_all only: buf(1))
    then have g': "g' = g\<lparr>sorted_list := ML_list_put_val (ML_list_put_val ?l ?n (ML_list_get_val ?l (xs ! (a - 1)))) (xs ! (a - 1)) ?n\<rparr>"
      unfolding g'_def link_item_def Let_def b by simp
    show ?thesis
      by (rule that [of "sorted_list g'"])
        (use jp(4) sm ab n1 items(4) v nx in \<open>auto simp: g' put_get split: if_splits\<close>)
  qed
  have "chain (link l') (if a = 0 then Some ?n else list_head g) (take a xs @ ?n # drop a xs)"
    by (rule splice_chain [OF items(3, 2)]) (use items(1) n1 eof ab l'(5) in \<open>auto simp: INDEX_EOF_def\<close>)
  moreover have "list_head g' = (if a = 0 then Some ?n else list_head g)"
    using l'(3) n1 by (simp add: list_head_def INDEX_EOF_def)
  ultimately show "chain (link (sorted_list g')) (list_head g') (take a xs @ ?n # drop a xs)" using l'(1) by simp
  show "length (sorted_list g') = length ?l" "g' = g\<lparr>sorted_list := sorted_list g', sorted_list_hd := sorted_list_hd g'\<rparr>"
    using l'(1, 2, 4) by simp_all
qed

section \<open>The marks\<close>

text \<open>An item put into a piece, and a piece cut in two.\<close>

definition put_item :: "nat list list \<Rightarrow> nat \<Rightarrow> nat \<Rightarrow> nat \<Rightarrow> nat list list" where
  "put_item segs k j n = segs[k := take j (segs ! k) @ n # drop j (segs ! k)]"

definition cut_piece :: "nat list list \<Rightarrow> nat \<Rightarrow> nat \<Rightarrow> nat list list" where
  "cut_piece segs k c = take k segs @ [take c (segs ! k), drop c (segs ! k)] @ drop (Suc k) segs"

lemma concat_put_item:
  assumes "k < length segs" and "j \<le> length (segs ! k)" and "a = start segs k + j"
  shows "concat (put_item segs k j n) = take a (concat segs) @ n # drop a (concat segs)"
  using assms concat_split [OF assms(1)]
  by (simp add: put_item_def upd_conv_take_nth_drop start_def)

lemma concat_cut_piece: "k < length segs \<Longrightarrow> concat (cut_piece segs k c) = concat segs"
  by (subst concat_split [of k segs]) (simp_all add: cut_piece_def)

lemma put_item_nth:
  "k < length segs \<Longrightarrow> i < length segs \<Longrightarrow>
   put_item segs k j n ! i = (if i = k then take j (segs ! k) @ n # drop j (segs ! k) else segs ! i)"
  by (simp add: put_item_def)

lemma put_item_length [simp]: "length (put_item segs k j n) = length segs"
  by (simp add: put_item_def)

lemma cut_piece_length: "k < length segs \<Longrightarrow> length (cut_piece segs k c) = Suc (length segs)"
  by (simp add: cut_piece_def)

lemma cut_piece_nth:
  "k < length segs \<Longrightarrow> cut_piece segs k c ! i =
     (if i < k then segs ! i else if i = k then take c (segs ! k) else if i = Suc k then drop c (segs ! k) else segs ! (i - 1))"
  if "i < Suc (length segs)"
  using that by (auto simp: cut_piece_def nth_append nth_Cons' intro!: arg_cong [of _ _ "nth segs"])

lemma move_marks_ok:
  "stop \<le> M \<Longrightarrow> M < length xs \<Longrightarrow> (\<And>x y. P (c y x) x) \<Longrightarrow>
   length (move_marks c M stop xs) = length xs \<and>
   (\<forall>i < length xs. if stop < i \<and> i \<le> M then P (move_marks c M stop xs ! i) (xs ! (i - 1)) else move_marks c M stop xs ! i = xs ! i)"
proof (induction "M - stop" arbitrary: M xs)
  case 0
  then have "M = stop" by simp
  then show ?case by (auto simp: move_marks.simps [of c stop stop])
next
  case (Suc d)
  let ?y = "xs[M := c (xs ! M) (xs ! (M - 1))]"
  have "stop < M" using Suc.hyps(2) by linarith
  then have r: "move_marks c M stop xs = move_marks c (M - 1) stop ?y"
    by (subst move_marks.simps) simp
  have l: "M - 1 < length ?y" "stop \<le> M - 1" "d = M - 1 - stop" using Suc.prems(2) Suc.hyps(2) by simp_all
  have ih: "length (move_marks c (M - 1) stop ?y) = length xs"
    "i < length xs \<Longrightarrow> if stop < i \<and> i \<le> M - 1 then P (move_marks c (M - 1) stop ?y ! i) (?y ! (i - 1)) else move_marks c (M - 1) stop ?y ! i = ?y ! i" for i
    using Suc.hyps(1) [OF l(3, 2, 1) Suc.prems(3)] unfolding length_list_update by blast+
  show ?case unfolding r
  proof (intro conjI allI impI)
    fix i assume i: "i < length xs"
    consider "i = M" | "i < M" | "M < i" by linarith
    then show "if stop < i \<and> i \<le> M then P (move_marks c (M - 1) stop ?y ! i) (xs ! (i - 1)) else move_marks c (M - 1) stop ?y ! i = xs ! i"
    proof cases
      case 1
      then have no: "\<not> (stop < i \<and> i \<le> M - 1)" using \<open>stop < M\<close> by simp
      have "move_marks c (M - 1) stop ?y ! i = c (xs ! M) (xs ! (M - 1))"
        using ih(2) [OF i, unfolded if_not_P [OF no]] 1 i by simp
      then show ?thesis using 1 Suc.prems(3) \<open>stop < M\<close> by simp
    next
      case 2
      then have "i \<le> M - 1" "i \<le> M" "i - 1 \<noteq> M" "i \<noteq> M" by auto
      then show ?thesis using ih(2) [OF i] by (simp split: if_splits)
    next
      case 3
      then show ?thesis using ih(2) [OF i] by (simp split: if_splits)
    qed
  qed (rule ih(1))
qed

section \<open>Binary search\<close>

text \<open>
  The search among \<open>n\<close> items with keys \<open>f\<close> in order, for \<open>x\<close>; the comparison may change the state within \<open>I\<close>.
\<close>

lemma bsearch_ok:
  assumes cmp: "\<And>mid s. mid < n \<Longrightarrow> I s \<Longrightarrow> fst (cmp mid s) = compare_lists (f mid) x \<and> I (snd (cmp mid s))"
    and sorted: "\<And>i j. i \<le> j \<Longrightarrow> j < n \<Longrightarrow> f i \<le> f j"
  shows "lb < ub \<Longrightarrow> ub \<le> n \<Longrightarrow> I s \<Longrightarrow> \<forall>i < lb. f i < x \<Longrightarrow> \<forall>i. ub \<le> i \<and> i < n \<longrightarrow> x < f i \<Longrightarrow>
    bsearch cmp lb ub s = (found, lb', mid, s') \<Longrightarrow>
    I s' \<and> (if found then mid < n \<and> f mid = x
            else lb' = mid \<and> mid \<le> n \<and> (\<forall>i < mid. f i < x) \<and> (\<forall>i. mid \<le> i \<and> i < n \<longrightarrow> x < f i))"
proof (induction "ub - lb" arbitrary: lb ub s rule: less_induct)
  case less
  define m where "m = (ub + lb) div 2"
  obtain i t where it: "cmp m s = (i, t)" by fastforce
  have m: "lb \<le> m" "m < ub" "m < n" using less.prems(1, 2) by (auto simp: m_def)
  have i: "i = compare_lists (f m) x" "I t" using cmp [OF m(3) less.prems(3)] it by simp_all
  have r: "bsearch cmp lb ub s =
     (if f m < x then if m + 1 < ub then bsearch cmp (m + 1) ub t else (False, m + 1, (ub + (m + 1)) div 2, t)
      else if x < f m then if lb < m then bsearch cmp lb m t else (False, lb, (m + lb) div 2, t)
      else (True, lb, m, t))"
    by (subst bsearch.simps) (simp add: it i(1) Let_def flip: m_def)
  consider "f m < x" | "x < f m" | "f m = x" by fastforce
  then show ?case
  proof cases
    case 1
    then have low: "\<forall>i < m + 1. f i < x" using sorted [OF _ m(3)] by (auto simp: less_Suc_eq_le intro: le_less_trans)
    show ?thesis
    proof (cases "m + 1 < ub")
      case True
      then show ?thesis using less.hyps [of ub "m + 1" t] 1 low m less.prems i(2) unfolding r by simp
    next
      case False
      then have "m + 1 = ub" using m by simp
      then show ?thesis using 1 low m less.prems i(2) unfolding r by auto
    qed
  next
    case 2
    then have high: "\<forall>i. m \<le> i \<and> i < n \<longrightarrow> x < f i" using sorted by (auto intro: less_le_trans)
    show ?thesis
    proof (cases "lb < m")
      case True
      then have "bsearch cmp lb m t = (found, lb', mid, s')" using less.prems(6) by (simp only: r if_not_P [OF less_not_sym [OF 2]] if_P [OF 2] True if_True)
      moreover have "m - lb < ub - lb" "m \<le> n" using m by simp_all
      ultimately show ?thesis using less.hyps [of m lb t] True high less.prems(4) i(2) by blast
    next
      case False
      then have "m = lb" using m by simp
      moreover have "bsearch cmp lb ub s = (False, lb, (m + lb) div 2, t)" by (simp only: r if_not_P [OF less_not_sym [OF 2]] if_P [OF 2] if_not_P [OF False])
      ultimately show ?thesis using high m less.prems(2, 4, 6) i(2) by auto
    qed
  next
    case 3
    then show ?thesis using m less.prems i(2) unfolding r by auto
  qed
qed

end
