(* ===== verification/MlInsert.thy ===== *)
theory MlInsert imports MlPieces begin

text \<open>
  What adding a name does to a group of the music library. The flash is an interface here, the locale \<open>name_store\<close>:
  what is written as the name of an item is read back, and a read changes no name. Inside it are the two searches and
  the insertion, up to the theorem that a group stays a sorted list of all its items.
\<close>

section \<open>Keys\<close>

definition item_name :: "WORD list \<Rightarrow> WORD \<times> WORD list" where
  "item_name w = (w ! LEN_OF_FLASH_NAME_BUF, take LEN_OF_FLASH_NAME_BUF w)"

type_synonym 's store = "'s \<Rightarrow> nat \<Rightarrow> nat \<Rightarrow> WORD list"

definition item_key :: "'s store \<Rightarrow> nat \<Rightarrow> ('s, 'm) ml_scheme \<Rightarrow> nat \<Rightarrow> WORD list" where
  "item_key names gp s n =
     (if gp = YEAR_SORTLOOP then [ram_song_year s ! n] else name_key (item_name (names (ml_flash_state s) gp n)))"

definition insert_key :: "nat \<Rightarrow> ('s, 'm) ml_scheme \<Rightarrow> WORD list" where
  "insert_key gp s = (if gp = YEAR_SORTLOOP then [insert_name s ! 0] else zstring LEN_OF_NAME_IN_BYTE (insert_name s))"

text \<open>A mark string stands for a key by its first characters; a year is the first word of the string.\<close>

definition mark_of :: "nat \<Rightarrow> WORD list \<Rightarrow> WORD list \<Rightarrow> bool" where
  "mark_of gp m ky \<longleftrightarrow> (if gp = YEAR_SORTLOOP then [m ! 0] = ky else zstring LEN_OF_MTSTRING m = take LEN_OF_MTSTRING ky)"

definition item_before :: "nat \<Rightarrow> (nat \<Rightarrow> WORD list) \<Rightarrow> nat \<Rightarrow> nat \<Rightarrow> bool" where
  "item_before gp key i j \<longleftrightarrow> (if gp = SONG_SORTLOOP then key i \<le> key j else key i < key j)"

definition strings_ok :: "nat \<Rightarrow> (nat \<Rightarrow> WORD list) \<Rightarrow> nat list list \<Rightarrow> ml_group \<Rightarrow> bool" where
  "strings_ok gp key segs g \<longleftrightarrow> length (mark_table_string g) = NUM_OF_MARK_TABLE_ENTRY \<and>
     (\<forall>m \<in> set (mark_table_string g). length m = LEN_OF_MTSTRING) \<and>
     (\<forall>k < length segs. mark_of gp (mark_table_string g ! k) (key (hd (segs ! k))))"

definition group_ok :: "nat \<Rightarrow> (nat \<Rightarrow> WORD list) \<Rightarrow> nat list list \<Rightarrow> ml_group \<Rightarrow> bool" where
  "group_ok gp key segs g \<longleftrightarrow> marks_ok segs g \<and> list_ok segs g \<and> strings_ok gp key segs g \<and>
     length (associate_list g) = MAX_NUM_OF_SONG div 2 \<and> sorted_wrt (item_before gp key) (concat segs)"

lemma take_less: "take n xs < take n ys \<Longrightarrow> xs < ys" for xs ys :: "'a::linorder list"
proof (induction n arbitrary: xs ys)
  case (Suc n)
  then show ?case by (cases xs; cases ys) auto
qed simp

lemma compare_take: "take n xs \<noteq> take n ys \<Longrightarrow> compare_lists (take n xs) (take n ys) = compare_lists xs ys"
  using take_less [of n xs ys] take_less [of n ys xs] by (auto simp: compare_lists_def neq_iff)

lemma compare_differs: "xs \<noteq> ys \<Longrightarrow> compare_lists xs ys = ITEMCMP_ITEM0_SMALL \<or> compare_lists xs ys = ITEMCMP_ITEM0_LARGE"
  by (simp add: neq_iff)

lemma zstring_take: "n \<le> m \<Longrightarrow> zstring n xs = take n (zstring m xs)"
  by (simp add: zstring_def takeWhile_take min_def)

text \<open>The keys of a group are in order.\<close>

lemma sorted_keys:
  assumes "sorted_wrt (item_before gp key) xs" and "i \<le> j" and "j < length xs"
  shows "key (xs ! i) \<le> key (xs ! j)"
proof (cases "i = j")
  case False
  then have "item_before gp key (xs ! i) (xs ! j)" using assms by (auto intro: sorted_wrt_nth_less)
  then show ?thesis by (auto simp: item_before_def split: if_splits)
qed simp

lemma sorted_heads:
  assumes "group_ok gp key segs g" and "i \<le> j" and "j < length segs"
  shows "key (hd (segs ! i)) \<le> key (hd (segs ! j))"
proof -
  have h: "hd (segs ! k) = concat segs ! start segs k" "start segs k < length (concat segs)" if "k < length segs" for k
    using that assms(1) concat_nth [of k segs 0] start_bound [of k segs]
    by (auto simp: group_ok_def marks_ok_def hd_conv_nth simp flip: length_greater_0_conv simp del: length_concat)
  have "start segs i \<le> start segs j"
    using assms(2, 3) by (induction rule: dec_induct) (auto simp: start_Suc)
  then show ?thesis
    using sorted_keys [of gp key "concat segs" "start segs i" "start segs j"] assms h [of i] h [of j]
    by (simp add: group_ok_def del: length_concat)
qed

lemma head_nth: "marks_ok segs g \<Longrightarrow> k < length segs \<Longrightarrow> hd (segs ! k) = concat segs ! start segs k"
  using concat_nth [of k segs 0] by (simp add: marks_ok_def hd_conv_nth)

text \<open>Where a new item with key \<open>x\<close> belongs: a song behind the others of its name.\<close>

definition fits :: "nat \<Rightarrow> (nat \<Rightarrow> WORD list) \<Rightarrow> WORD list \<Rightarrow> nat list \<Rightarrow> nat \<Rightarrow> bool" where
  "fits gp key x xs a \<longleftrightarrow> (if gp = SONG_SORTLOOP
     then (\<forall>b < a. key (xs ! b) \<le> x) \<and> (\<forall>b. a \<le> b \<and> b < length xs \<longrightarrow> x \<le> key (xs ! b))
     else (\<forall>b < a. key (xs ! b) < x) \<and> (\<forall>b. a \<le> b \<and> b < length xs \<longrightarrow> x < key (xs ! b)))"

lemma fits_fresh: "fits gp key x xs a \<Longrightarrow> gp \<noteq> SONG_SORTLOOP \<Longrightarrow> b < length xs \<Longrightarrow> key (xs ! b) \<noteq> x"
  unfolding fits_def by (metis less_irrefl not_le)

text \<open>What is known of a piece is known of the list, because the pieces around it are in order.\<close>

lemma fits_piece:
  assumes m: "marks_ok segs g" and s: "sorted_wrt (item_before gp key) (concat segs)" and k: "mid < length segs" "k \<le> length (segs ! mid)"
    and low: "mid = 0 \<or> key (hd (segs ! mid)) < x \<or> gp = SONG_SORTLOOP \<and> key (hd (segs ! mid)) \<le> x"
    and high: "(\<forall>i. mid < i \<and> i < length segs \<longrightarrow> x < key (hd (segs ! i))) \<or> gp = SONG_SORTLOOP \<and> x \<le> key (hd (segs ! mid))"
    and p: "fits gp key x (segs ! mid) k"
  shows "fits gp key x (concat segs) (start segs mid + k)"
proof -
  let ?xs = "concat segs" and ?s = "start segs mid" and ?p = "segs ! mid"
  have nth: "?xs ! b = ?p ! (b - ?s)" if "?s \<le> b" "b < ?s + length ?p" for b
    using concat_nth [OF k(1), of "b - ?s"] that by simp
  note hd_mid = head_nth [OF m k(1)]
  have ne: "?p \<noteq> []" using m k(1) by (simp add: marks_ok_def)
  have ls: "?s < length ?xs" using start_bound [OF k(1)] ne by (metis add_lessD1 le_neq_implies_less length_0_conv less_add_same_cancel1 not_gr_zero order_less_le_trans)
  have lo: "if gp = SONG_SORTLOOP then key (?xs ! b) \<le> x else key (?xs ! b) < x" if b: "b < ?s + k" for b
  proof (cases "?s \<le> b")
    case True
    then show ?thesis using p b k(2) nth [of b] by (auto simp: fits_def)
  next
    case False
    then have "mid \<noteq> 0" by (cases mid) auto
    moreover have "key (?xs ! b) \<le> key (hd ?p)" unfolding hd_mid by (rule sorted_keys [OF s]) (use False ls in auto)
    ultimately show ?thesis using low by (auto intro: le_less_trans)
  qed
  have hi: "if gp = SONG_SORTLOOP then x \<le> key (?xs ! b) else x < key (?xs ! b)" if b: "?s + k \<le> b" "b < length ?xs" for b
  proof (cases "b < ?s + length ?p")
    case True
    have "k \<le> b - ?s" "b - ?s < length ?p" using True b by auto
    then show ?thesis using p b nth [of b] True by (auto simp: fits_def)
  next
    case False
    have later: "x < key (?xs ! b)" if h: "\<forall>i. mid < i \<and> i < length segs \<longrightarrow> x < key (hd (segs ! i))"
    proof -
      have "Suc mid < length segs"
      proof (rule ccontr)
        assume "\<not> Suc mid < length segs"
        then have "take (Suc mid) segs = segs" using k(1) by simp
        then have "length ?xs = ?s + length ?p" using start_Suc [OF k(1)] by (simp add: start_def del: length_concat)
        then show False using False b(2) by simp
      qed
      then have "x < key (?xs ! start segs (Suc mid))" using h head_nth [OF m, of "Suc mid"] by auto
      also have "\<dots> \<le> key (?xs ! b)"
        by (rule sorted_keys [OF s]) (use False b start_Suc [OF k(1)] in auto)
      finally show ?thesis .
    qed
    have "key (hd ?p) \<le> key (?xs ! b)" unfolding hd_mid by (rule sorted_keys [OF s]) (use False b in auto)
    then show ?thesis using high later by (auto intro: order.trans)
  qed
  show ?thesis using lo hi by (auto simp: fits_def)
qed

section \<open>Putting an item in\<close>

text \<open>A group that has the new item in its list and its marks, but not in its count.\<close>

definition grown :: "nat \<Rightarrow> (nat \<Rightarrow> WORD list) \<Rightarrow> nat list list \<Rightarrow> ml_group \<Rightarrow> bool" where
  "grown gp key segs g \<longleftrightarrow> chain (link (sorted_list g)) (list_head g) (concat segs) \<and>
     length (sorted_list g) = MAX_NUM_OF_SONG div 2 \<and> MarkTableID g = length segs \<and>
     length (mark_table_index g) = NUM_OF_MARK_TABLE_ENTRY \<and>
     (\<forall>i < length segs. mark_table_index g ! i = (hd (segs ! i), length (segs ! i))) \<and> strings_ok gp key segs g"

definition with_item :: "nat list list \<Rightarrow> nat \<Rightarrow> nat \<Rightarrow> nat \<Rightarrow> nat list list" where
  "with_item segs mid k n = (if segs = [] then [[n]] else put_item segs mid k n)"

lemma link_item_marks:
  "link_item buf k (g\<lparr>mark_table_index := a, mark_table_string := b\<rparr>) = (link_item buf k g)\<lparr>mark_table_index := a, mark_table_string := b\<rparr>"
  by (simp add: link_item_def Let_def split: prod.split)

lemma link_item_keeps [simp]:
  "mark_table_index (link_item buf k g) = mark_table_index g" "mark_table_string (link_item buf k g) = mark_table_string g"
  "num_of_item (link_item buf k g) = num_of_item g" "associate_list (link_item buf k g) = associate_list g"
  by (simp_all add: link_item_def Let_def split: prod.split)

definition first_marks :: "nat \<Rightarrow> nat \<Rightarrow> nat \<Rightarrow> nat \<Rightarrow> WORD list \<Rightarrow> ml_group \<Rightarrow> (nat \<times> nat) list \<times> WORD list list" where
  "first_marks gp lb mid k nm g = (let g = (if k = 0 then mark_first gp lb mid nm g else g) in (mark_table_index g, mark_table_string g))"

lemma grow_parts:
  "grow gp lb mid k buf nm g =
     (case first_marks gp lb mid k nm g of (ix, st) \<Rightarrow>
      (link_item buf k g)\<lparr>mark_table_index := ix[mid := (fst (ix ! mid), snd (ix ! mid) + 1)], mark_table_string := st\<rparr>)"
proof -
  have "link_item buf k (if k = 0 then mark_first gp lb mid nm g else g) =
      (case first_marks gp lb mid k nm g of (ix, st) \<Rightarrow> (link_item buf k g)\<lparr>mark_table_index := ix, mark_table_string := st\<rparr>)"
    by (simp add: first_marks_def mark_first_def Let_def link_item_marks)
  then show ?thesis unfolding grow_def Let_def
    by (cases "first_marks gp lb mid k nm g") (simp only: prod.case, simp)
qed

lemma first_marks_ok:
  assumes s: "strings_ok gp key segs g" and m: "marks_ok segs g" and l: "length segs \<le> NUM_OF_MARK_TABLE_ENTRY"
    and k: "if segs = [] then mid = 0 \<and> k = 0 else mid < length segs \<and> k \<le> length (segs ! mid)" and lb: "k = 0 \<longrightarrow> lb = mid"
    and n: "n = num_of_item g" and key: "length nm = LEN_OF_NAME_IN_BYTE"
      "key n = (if gp = YEAR_SORTLOOP then [nm ! 0] else zstring LEN_OF_NAME_IN_BYTE nm)"
    and f: "first_marks gp lb mid k nm g = (ix, st)"
  shows "length ix = NUM_OF_MARK_TABLE_ENTRY"
    and "strings_ok gp key (with_item segs mid k n) (g\<lparr>mark_table_string := st\<rparr>)"
    and "i < length (with_item segs mid k n) \<Longrightarrow> ix[mid := (fst (ix ! mid), snd (ix ! mid) + 1)] ! i =
      (hd (with_item segs mid k n ! i), length (with_item segs mid k n ! i))"
proof -
  let ?S = "mark_table_string g" and ?I = "mark_table_index g" and ?w = "with_item segs mid k n"
  have mid: "mid < NUM_OF_MARK_TABLE_ENTRY" using k l by (auto simp: NUM_OF_MARK_TABLE_ENTRY_def split: if_splits)
  have len: "length ?S = NUM_OF_MARK_TABLE_ENTRY" "length ?I = NUM_OF_MARK_TABLE_ENTRY" "length (?S ! mid) = LEN_OF_MTSTRING"
    using s m mid by (simp_all add: strings_ok_def marks_ok_def)
  have ix: "ix = (if k = 0 then ?I[mid := (n, snd (?I ! mid))] else ?I)"
    and st: "st = (if k = 0 then ?S[mid := if gp = YEAR_SORTLOOP then (?S ! mid)[0 := nm ! 0] else take LEN_OF_MTSTRING nm] else ?S)"
    using f lb len(3) n by (auto simp: first_marks_def mark_first_def Let_def)
  show "length ix = NUM_OF_MARK_TABLE_ENTRY" using len by (simp add: ix)
  have w: "length ?w = (if segs = [] then 1 else length segs)"
    "j < length ?w \<Longrightarrow> ?w ! j = (if segs = [] then [n] else if j = mid then take k (segs ! mid) @ n # drop k (segs ! mid) else segs ! j)" for j
    using k by (auto simp: with_item_def put_item_nth)
  have nm: "mark_of gp (if gp = YEAR_SORTLOOP then (?S ! mid)[0 := nm ! 0] else take LEN_OF_MTSTRING nm) (key n)"
    using len(3) key by (simp add: mark_of_def LEN_OF_MTSTRING_def LEN_OF_NAME_IN_BYTE_def zstring_take [of 10 120, symmetric])
      (simp add: zstring_def)
  show "strings_ok gp key ?w (g\<lparr>mark_table_string := st\<rparr>)"
    unfolding strings_ok_def
  proof (intro conjI allI impI)
    show "length (mark_table_string (g\<lparr>mark_table_string := st\<rparr>)) = NUM_OF_MARK_TABLE_ENTRY" using len by (simp add: st)
    show "\<forall>m \<in> set (mark_table_string (g\<lparr>mark_table_string := st\<rparr>)). length m = LEN_OF_MTSTRING"
      using s len key(1) by (auto simp: st strings_ok_def LEN_OF_MTSTRING_def LEN_OF_NAME_IN_BYTE_def dest!: set_update_subset_insert [THEN subsetD])
    fix i assume i: "i < length ?w"
    show "mark_of gp (mark_table_string (g\<lparr>mark_table_string := st\<rparr>) ! i) (key (hd (?w ! i)))"
    proof (cases "segs = []")
      case True
      then show ?thesis using i k nm w len mid by (simp add: st)
    next
      case False
      then have old: "mark_of gp (?S ! i) (key (hd (segs ! i)))" using s i w(1) by (simp add: strings_ok_def)
      have "hd (take k (segs ! mid) @ n # drop k (segs ! mid)) = (if k = 0 then n else hd (segs ! mid))"
        using k False by (cases "segs ! mid") (auto simp: hd_append)
      then show ?thesis using old nm w(2) [OF i] len mid False by (auto simp: st nth_list_update)
    qed
  qed
  show "ix[mid := (fst (ix ! mid), snd (ix ! mid) + 1)] ! i = (hd (?w ! i), length (?w ! i))" if i: "i < length ?w"
  proof (cases "segs = []")
    case True
    then show ?thesis using i k m mid len w by (simp add: ix marks_ok_def)
  next
    case False
    have "hd (take k (segs ! mid) @ n # drop k (segs ! mid)) = (if k = 0 then n else hd (segs ! mid))"
      using k False by (cases "segs ! mid") (auto simp: hd_append)
    moreover have "?I ! j = (hd (segs ! j), length (segs ! j))" if "j < length segs" for j using m that by (simp add: marks_ok_def)
    ultimately show ?thesis using i k mid len w False by (auto simp: ix nth_list_update)
  qed
qed

lemma grow_ok:
  assumes m: "marks_ok segs g" and l: "list_ok segs g" and s: "strings_ok gp key segs g" and n: "n = num_of_item g" "n < MAX_NUM_OF_SONG"
    and k: "if segs = [] then mid = 0 \<and> k = 0 else mid < length segs \<and> k \<le> length (segs ! mid)" and lb: "k = 0 \<longrightarrow> lb = mid"
    and key: "length nm = LEN_OF_NAME_IN_BYTE" "key n = (if gp = YEAR_SORTLOOP then [nm ! 0] else zstring LEN_OF_NAME_IN_BYTE nm)"
  defines "a \<equiv> start segs mid + k" and "g' \<equiv> grow gp lb mid k (temp_list g mid) nm g" and "w \<equiv> with_item segs mid k n"
  shows "concat w = take a (concat segs) @ n # drop a (concat segs)" and "grown gp key w g'"
    and "num_of_item g' = n" and "associate_list g' = associate_list g"
proof -
  obtain ix st where f: "first_marks gp lb mid k nm g = (ix, st)" by fastforce
  note fm = first_marks_ok [OF s m marks_bound [OF m l] k lb n(1) key f, folded w_def]
  let ?l = "link_item (temp_list g mid) k g"
  have g': "g' = ?l\<lparr>mark_table_index := ix[mid := (fst (ix ! mid), snd (ix ! mid) + 1)], mark_table_string := st\<rparr>"
    by (simp add: g'_def grow_parts f)
  show "num_of_item g' = n" "associate_list g' = associate_list g" by (simp_all add: g' n(1))
  show cc: "concat w = take a (concat segs) @ n # drop a (concat segs)"
    using k concat_put_item [of mid segs k a n] by (cases "segs = []") (simp_all add: w_def with_item_def a_def start_def)
  have list: "chain (link (sorted_list ?l)) (list_head ?l) (concat w) \<and> length (sorted_list ?l) = MAX_NUM_OF_SONG div 2 \<and>
      MarkTableID ?l = length w"
  proof (cases "segs = []")
    case True
    then have e: "temp_list g mid = []" "n = 0" "k = 0" "w = [[0]]" "mid = 0"
      using m l k n(1) by (auto simp: temp_list_def marks_ok_def list_ok_def w_def with_item_def lessThan_empty_iff)
    have len: "length (sorted_list g) = 500" using l by (simp add: list_ok_def MAX_NUM_OF_SONG_def)
    show ?thesis using e n(1) len put_get [of 0 "sorted_list g" INDEX_EOF 0]
      by (simp add: link_item_def Let_def list_head_def link_def INDEX_EOF_def MAX_NUM_OF_SONG_def)
  next
    case False
    then have k': "mid < length segs" "k \<le> length (segs ! mid)" using k by simp_all
    note li = link_item_piece [OF m l k' n(2) [unfolded n(1)] a_def [THEN meta_eq_to_obj_eq]]
    have "MarkTableID ?l = MarkTableID g" by (subst li(3)) simp
    then show ?thesis using li(1, 2) l m False unfolding cc n(1) by (simp add: list_ok_def marks_ok_def w_def with_item_def)
  qed
  show "grown gp key w g'"
  proof -
    have "list_head g' = list_head ?l" by (simp add: g' list_head_def)
    then show ?thesis using list fm by (simp add: grown_def g' strings_ok_def)
  qed
qed

lemma insert_order:
  assumes "distinct xs" and "set xs = {..<n}" and "sorted_wrt (item_before gp key) xs" and "fits gp key (key n) xs a" and "a \<le> length xs"
  defines "ys \<equiv> take a xs @ n # drop a xs"
  shows "distinct ys" and "set ys = {..<Suc n}" and "sorted_wrt (item_before gp key) ys"
proof -
  have p: "set (take a xs) \<union> set (drop a xs) = {..<n}" using assms(2) by (metis append_take_drop_id set_append)
  have "n \<notin> set (take a xs) \<union> set (drop a xs)" unfolding p by simp
  then show "distinct ys" using assms(1) set_take_disj_set_drop_if_distinct [OF assms(1), of a a] by (simp add: ys_def)
  have "set ys = insert n (set (take a xs) \<union> set (drop a xs))" by (simp add: ys_def)
  then show "set ys = {..<Suc n}" unfolding p by (simp add: lessThan_Suc)
  note assms(3) [THEN sorted_wrt_append [of _ "take a xs" "drop a xs", unfolded append_take_drop_id, THEN iffD1]]
  moreover have "item_before gp key i n" if "i \<in> set (take a xs)" for i
    using that assms(4, 5) by (auto simp: in_set_conv_nth item_before_def fits_def)
  moreover have "item_before gp key n i" if "i \<in> set (drop a xs)" for i
    using that assms(4, 5) by (auto simp: in_set_conv_nth item_before_def fits_def)
  ultimately show "sorted_wrt (item_before gp key) ys" unfolding ys_def by (auto simp: sorted_wrt_append)
qed

lemma with_item_sizes:
  assumes m: "marks_ok segs g" and k: "if segs = [] then mid = 0 \<and> k = 0 else mid < length segs \<and> k \<le> length (segs ! mid)"
    and w: "w = with_item segs mid k n"
  shows "mid < length w" and "i < length w \<Longrightarrow> w ! i \<noteq> []" and "i < length w \<Longrightarrow> i \<noteq> mid \<Longrightarrow> length (w ! i) \<le> 40"
    and "i < length w \<Longrightarrow> 1 < length w \<Longrightarrow> 20 \<le> length (w ! i)" and "length (w ! mid) \<le> 41"
    and "1 < length w \<Longrightarrow> length w = length segs \<and> 20 * length w < length (concat w)"
proof -
  have "length (concat w) = Suc (length (concat segs))" if "segs \<noteq> []"
  proof -
    have "mid < length segs" "k \<le> length (segs ! mid)" using k that by simp_all
    then have "concat w = take (start segs mid + k) (concat segs) @ n # drop (start segs mid + k) (concat segs)"
      using concat_put_item [of mid segs k _ n] that by (simp add: w with_item_def)
    then show ?thesis by simp
  qed
  then show "mid < length w" "i < length w \<Longrightarrow> w ! i \<noteq> []" "i < length w \<Longrightarrow> i \<noteq> mid \<Longrightarrow> length (w ! i) \<le> 40"
    "i < length w \<Longrightarrow> 1 < length w \<Longrightarrow> 20 \<le> length (w ! i)" "length (w ! mid) \<le> 41"
    "1 < length w \<Longrightarrow> length w = length segs \<and> 20 * length w < length (concat w)"
    using m k by (auto simp: w with_item_def put_item_nth marks_ok_def DISTANCE_IN_MARK_TABLE_def le_Suc_eq simp del: length_concat
      split: if_splits)
qed

lemma keep_ok:
  assumes m: "marks_ok segs g" and k: "if segs = [] then mid = 0 \<and> k = 0 else mid < length segs \<and> k \<le> length (segs ! mid)"
    and w: "w = with_item segs mid k n" and gr: "grown gp key w g'" and n: "n < MAX_NUM_OF_SONG"
    and c: "distinct (concat w)" "set (concat w) = {..<Suc n}" "sorted_wrt (item_before gp key) (concat w)"
    and a: "length (associate_list g') = MAX_NUM_OF_SONG div 2" and small: "length (w ! mid) \<le> DISTANCE_IN_MARK_TABLE"
  shows "group_ok gp key w (g'\<lparr>num_of_item := Suc n\<rparr>)"
proof -
  note z = with_item_sizes [OF m k w]
  have "length (w ! i) \<le> 40" if "i < length w" for i
    using z(3) [OF that] small by (cases "i = mid") (simp_all add: DISTANCE_IN_MARK_TABLE_def)
  moreover have "w \<noteq> []" using z(1) by auto
  moreover have "list_head (g'\<lparr>num_of_item := Suc n\<rparr>) = list_head g'" by (simp add: list_head_def)
  ultimately show ?thesis using gr n c a z(2, 4, 6)
    by (simp add: group_ok_def marks_ok_def list_ok_def grown_def strings_ok_def DISTANCE_IN_MARK_TABLE_def)
qed

lemma concat_at_least: "\<forall>p \<in> set ps. m \<le> length p \<Longrightarrow> m * length ps \<le> length (concat ps)"
  by (induction ps) auto

text \<open>The marks after a piece was cut at \<open>c\<close>.\<close>

lemma cut_table:
  assumes "mid < M" and "M < length xs"
  shows "length (move_marks (\<lambda>_ x. x) M (mid + 1) xs) = length xs"
    and "i \<le> M \<Longrightarrow> i \<noteq> mid + 1 \<Longrightarrow> move_marks (\<lambda>_ x. x) M (mid + 1) xs ! i = xs ! (if i \<le> mid then i else i - 1)"
    and "y \<in> set (move_marks (\<lambda>_ x. x) M (mid + 1) xs) \<Longrightarrow> y \<in> set xs"
proof -
  note md = move_marks_ok [of "mid + 1" M xs "\<lambda>y x. y = x" "\<lambda>_ x. x", OF _ assms(2)]
  show len: "length (move_marks (\<lambda>_ x. x) M (mid + 1) xs) = length xs" using md assms(1) by simp
  have nth: "move_marks (\<lambda>_ x. x) M (mid + 1) xs ! i = (if mid + 1 < i \<and> i \<le> M then xs ! (i - 1) else xs ! i)" if "i < length xs" for i
    using md assms(1) that by (auto split: if_splits)
  show "move_marks (\<lambda>_ x. x) M (mid + 1) xs ! i = xs ! (if i \<le> mid then i else i - 1)" if "i \<le> M" "i \<noteq> mid + 1"
    using nth [of i] that assms by auto
  show "y \<in> set xs" if "y \<in> set (move_marks (\<lambda>_ x. x) M (mid + 1) xs)"
  proof -
    from that obtain i where i: "i < length xs" "y = move_marks (\<lambda>_ x. x) M (mid + 1) xs ! i" using len by (auto simp: in_set_conv_nth)
    show ?thesis unfolding i(2) nth [OF i(1)] using i(1) by (simp add: less_imp_diff_less)
  qed
qed

lemma cut_room:
  assumes m: "marks_ok segs g" and k: "if segs = [] then mid = 0 \<and> k = 0 else mid < length segs \<and> k \<le> length (segs ! mid)"
    and w: "w = with_item segs mid k n" and n: "n < MAX_NUM_OF_SONG"
    and o: "distinct (concat w)" "set (concat w) = {..<Suc n}" and large: "length (w ! mid) = 41"
  shows "length w < NUM_OF_MARK_TABLE_ENTRY" and "20 * Suc (length w) < Suc n"
proof -
  note z = with_item_sizes [OF m k w]
  let ?M = "length w"
  have total: "length (concat w) = Suc n"
    using distinct_card [OF o(1)] o(2) by (simp del: length_concat set_concat)
  have "20 \<le> length p" if "p \<in> set (take mid w) \<union> set (drop (Suc mid) w)" for p
  proof -
    from that obtain i where "i < ?M" "i \<noteq> mid" "p = w ! i"
    proof
      assume "p \<in> set (drop (Suc mid) w)"
      then obtain i where "i < ?M - Suc mid" "p = w ! (Suc mid + i)" by (auto simp: in_set_conv_nth)
      then show ?thesis using that [of "Suc mid + i"] by simp
    next
      assume "p \<in> set (take mid w)"
      then obtain i where "i < mid" "p = w ! i" by (auto simp: in_set_conv_nth)
      then show ?thesis using that [of i] z(1) by simp
    qed
    then show ?thesis using z(1) z(4) [of i] by simp
  qed
  then have "20 * length (take mid w) \<le> length (concat (take mid w))" "20 * length (drop (Suc mid) w) \<le> length (concat (drop (Suc mid) w))"
    by (intro concat_at_least; simp)+
  then have big: "20 * (?M - 1) + 41 \<le> length (concat w)"
    using arg_cong [OF concat_split [OF z(1)], of length] large z(1) by (simp del: length_concat)
  then show "?M < NUM_OF_MARK_TABLE_ENTRY"
    using total n by (simp add: NUM_OF_MARK_TABLE_ENTRY_def MAX_NUM_OF_SONG_def)
  show "20 * Suc ?M < Suc n" using big z(1) total by (cases "length w") (simp_all del: length_concat)
qed

lemma cut_ok:
  assumes m: "marks_ok segs g" and k: "if segs = [] then mid = 0 \<and> k = 0 else mid < length segs \<and> k \<le> length (segs ! mid)"
    and w: "w = with_item segs mid k n" and gr: "grown gp key w g'" and n: "n < MAX_NUM_OF_SONG"
    and o: "distinct (concat w)" "set (concat w) = {..<Suc n}" "sorted_wrt (item_before gp key) (concat w)"
    and a: "length (associate_list g') = MAX_NUM_OF_SONG div 2" and large: "length (w ! mid) = 41"
    and c: "20 \<le> c" "c \<le> 21" and j: "j = w ! mid ! c" and new: "length new = LEN_OF_MTSTRING" "mark_of gp new (key j)"
  shows "group_ok gp key (cut_piece w mid c) (g'\<lparr>mark_table_index := cut_marks (length w) mid j (41 - c) c (mark_table_index g'),
     mark_table_string := (move_marks (\<lambda>_ x. x) (length w) (mid + 1) (mark_table_string g'))[mid + 1 := new],
     MarkTableID := length w + 1, num_of_item := Suc n\<rparr>)" (is "group_ok gp key ?v ?g")
proof -
  note z = with_item_sizes [OF m k w]
  let ?M = "length w"
  note room = cut_room [OF m k w n o(1, 2) large]
  have total: "length (concat w) = Suc n"
    using distinct_card [OF o(1)] o(2) by (simp del: length_concat set_concat)
  have M: "?M < NUM_OF_MARK_TABLE_ENTRY" by (rule room(1))
  have v: "i < Suc ?M \<Longrightarrow> ?v ! i = (if i < mid then w ! i else if i = mid then take c (w ! mid) else if i = Suc mid then drop c (w ! mid) else w ! (i - 1))" for i
    by (rule cut_piece_nth [OF _ z(1)])
  have hds: "hd (take c (w ! mid)) = hd (w ! mid)" "hd (drop c (w ! mid)) = j"
    using c large j by (simp_all add: hd_take hd_drop_conv_nth)
  have lens: "length (mark_table_index g') = NUM_OF_MARK_TABLE_ENTRY" "length (mark_table_string g') = NUM_OF_MARK_TABLE_ENTRY"
    using gr by (simp_all add: grown_def strings_ok_def)
  note ti = cut_table [OF z(1), of "mark_table_index g'", unfolded lens, OF M]
  note ts = cut_table [OF z(1), of "mark_table_string g'", unfolded lens, OF M]
  have sz: "?v ! i \<noteq> [] \<and> length (?v ! i) \<le> 40 \<and> 20 \<le> length (?v ! i)" if i: "i < Suc ?M" for i
    using v [OF i] i c large z(1) z(2-4) [of "if i < mid then i else i - 1"] by (auto split: if_splits)
  have ix: "mark_table_index ?g ! i = (hd (?v ! i), length (?v ! i))" if i: "i < Suc ?M" for i
  proof -
    have old: "mark_table_index g' ! i = (hd (w ! i), length (w ! i))" if "i < ?M" for i using gr that by (simp add: grown_def)
    show ?thesis using i v [OF i] ti(1) ti(2) [of i] old [of i] old [of "i - 1"] hds large c z(1) M lens
      by (auto simp: cut_marks_def Let_def nth_list_update)
  qed
  have st: "mark_of gp (mark_table_string ?g ! i) (key (hd (?v ! i)))" if i: "i < Suc ?M" for i
  proof -
    have old: "mark_of gp (mark_table_string g' ! i) (key (hd (w ! i)))" if "i < ?M" for i using gr that by (simp add: grown_def strings_ok_def)
    show ?thesis using i v [OF i] ts(1) ts(2) [of i] old [of i] old [of "i - 1"] hds new c z(1) M lens
      by (auto simp: nth_list_update)
  qed
  have strs: "length x = LEN_OF_MTSTRING" if "x \<in> set (mark_table_string ?g)" for x
    using that new(1) ts(3) gr by (auto simp: grown_def strings_ok_def dest!: set_update_subset_insert [THEN subsetD])
  have cv: "concat ?v = concat w" "length ?v = Suc ?M" using concat_cut_piece [OF z(1)] cut_piece_length [OF z(1)] by simp_all
  have lh: "list_head ?g = list_head g'" by (simp add: list_head_def)
  have vne: "?v \<noteq> []" using cv(2) by auto
  have bnd: "20 * Suc ?M < Suc n" by (rule room(2))
  have "marks_ok ?v ?g"
    using sz ix vne bnd total lens ti(1) unfolding marks_ok_def cv DISTANCE_IN_MARK_TABLE_def
    by (simp add: cut_marks_def Let_def del: length_concat)
  moreover have "list_ok ?v ?g" using gr n o lh unfolding list_ok_def grown_def cv by simp
  moreover have "strings_ok gp key ?v ?g" using st strs lens ts(1) unfolding strings_ok_def cv by simp
  ultimately show ?thesis using o(3) a cv(1) by (simp add: group_ok_def)
qed

section \<open>The interface to the flash\<close>

locale name_store =
  fixes F :: "('s, 'x) ml_flash_scheme" and Media_type :: nat and ok :: "'s \<Rightarrow> bool" and names :: "'s store"
  assumes read_name: "ok fl \<Longrightarrow> gp < YEAR_SORTLOOP \<Longrightarrow> n < MAX_NUM_OF_SONG \<Longrightarrow>
      fst (MemRead F Media_type gp n ML_SONG_NAME_STRUCT_SIZE fl) = Some (names fl gp n)"
    and read_keeps: "ok fl \<Longrightarrow> gp < YEAR_SORTLOOP \<Longrightarrow> n < MAX_NUM_OF_SONG \<Longrightarrow>
      ok (snd (MemRead F Media_type gp n ML_SONG_NAME_STRUCT_SIZE fl)) \<and>
      names (snd (MemRead F Media_type gp n ML_SONG_NAME_STRUCT_SIZE fl)) = names fl"
    and write_name: "ok fl \<Longrightarrow> gp < YEAR_SORTLOOP \<Longrightarrow> n < MAX_NUM_OF_SONG \<Longrightarrow> length w = ML_SONG_NAME_STRUCT_SIZE \<Longrightarrow>
      ok (MemWrite F Media_type gp n w fl) \<and>
      names (MemWrite F Media_type gp n w fl) = (names fl)(gp := (names fl gp)(n := w))"
begin

text \<open>A search leaves everything but the scratch buffers as it is.\<close>

definition same_lib :: "('s, 'm) ml_scheme \<Rightarrow> ('s, 'm) ml_scheme \<Rightarrow> bool" where
  "same_lib s0 s \<longleftrightarrow> (\<exists>t f y fl. ok fl \<and> names fl = names (ml_flash_state s0) \<and> length t = LEN_OF_NAME_IN_BYTE \<and>
     s = s0\<lparr>temp_name_buf := t, flash_group_name := f, flash_group_name_y := y, ml_flash_state := fl\<rparr>)"

lemma same_libE:
  assumes "same_lib s0 s"
  obtains t f y fl where "s = s0\<lparr>temp_name_buf := t, flash_group_name := f, flash_group_name_y := y, ml_flash_state := fl\<rparr>"
    "ok fl" "names fl = names (ml_flash_state s0)" "length t = LEN_OF_NAME_IN_BYTE"
  using assms unfolding same_lib_def by metis

lemma same_lib_fields:
  assumes "same_lib s0 s"
  shows "ram_group s = ram_group s0" "insert_name s = insert_name s0" "ram_song_year s = ram_song_year s0"
    "temp_song_info_name s = temp_song_info_name s0" "item_key names gp s = item_key names gp s0"
    "insert_key gp s = insert_key gp s0" "ok (ml_flash_state s)" "names (ml_flash_state s) = names (ml_flash_state s0)"
    "length (temp_name_buf s) = LEN_OF_NAME_IN_BYTE"
  using assms by (auto elim!: same_libE simp: item_key_def insert_key_def fun_eq_iff)

lemma same_lib_update:
  assumes "same_lib s0 s" and "ok fl" and "names fl = names (ml_flash_state s0)" and "length t = LEN_OF_NAME_IN_BYTE"
  shows "same_lib s0 (s\<lparr>temp_name_buf := t, flash_group_name := f, flash_group_name_y := y, ml_flash_state := fl\<rparr>)"
  using assms(1)
proof (rule same_libE)
  fix t' f' y' fl'
  assume "s = s0\<lparr>temp_name_buf := t', flash_group_name := f', flash_group_name_y := y', ml_flash_state := fl'\<rparr>"
  then have "s\<lparr>temp_name_buf := t, flash_group_name := f, flash_group_name_y := y, ml_flash_state := fl\<rparr> =
      s0\<lparr>temp_name_buf := t, flash_group_name := f, flash_group_name_y := y, ml_flash_state := fl\<rparr>" by simp
  then show ?thesis using assms(2-4) unfolding same_lib_def by metis
qed

lemma load_name_ok:
  assumes "same_lib s0 s" and "gp < YEAR_SORTLOOP" and "n < MAX_NUM_OF_SONG"
  defines "w \<equiv> names (ml_flash_state s0) gp n"
  shows "same_lib s0 (load_name F Media_type gp n s)"
    and "flash_group_name (load_name F Media_type gp n s) = (take LEN_OF_FLASH_NAME_BUF w, w ! LEN_OF_FLASH_NAME_BUF)"
proof -
  obtain r fl where r: "MemRead F Media_type gp n ML_SONG_NAME_STRUCT_SIZE (ml_flash_state s) = (r, fl)" by fastforce
  note ok = same_lib_fields [OF assms(1)]
  let ?y = "(take LEN_OF_FLASH_NAME_BUF w, w ! LEN_OF_FLASH_NAME_BUF)"
  have fl: "r = Some w" "ok fl" "names fl = names (ml_flash_state s0)"
    using read_name [OF ok(7) assms(2, 3)] read_keeps [OF ok(7) assms(2, 3)] r ok(8) by (simp_all add: w_def)
  have "load_name F Media_type gp n s =
      s\<lparr>temp_name_buf := temp_name_buf s, flash_group_name := ?y, flash_group_name_y := ?y, ml_flash_state := fl\<rparr>"
    by (simp add: load_name_def r Let_def fl(1))
  then show "same_lib s0 (load_name F Media_type gp n s)"
    "flash_group_name (load_name F Media_type gp n s) = (take LEN_OF_FLASH_NAME_BUF w, w ! LEN_OF_FLASH_NAME_BUF)"
    using same_lib_update [OF assms(1) fl(2, 3) ok(9)] by simp_all
qed

lemma load_key_ok:
  assumes "same_lib s0 s" and "gp < YEAR_SORTLOOP" and "n < MAX_NUM_OF_SONG"
  shows "same_lib s0 (load_key F Media_type gp n s)"
    and "zstring LEN_OF_NAME_IN_BYTE (temp_name_buf (load_key F Media_type gp n s)) = item_key names gp s0 n"
    and "length (temp_name_buf (load_key F Media_type gp n s)) = LEN_OF_NAME_IN_BYTE"
proof -
  let ?t = "load_name F Media_type gp n s" and ?w = "names (ml_flash_state s0) gp n"
  note t = load_name_ok [OF assms]
  note u = same_lib_fields [OF t(1)]
  obtain c b where e: "ML_extract_string (snd (flash_group_name ?t)) (temp_name_buf ?t) (fst (flash_group_name ?t)) LEN_OF_NAME_IN_BYTE = (c, b)"
    by fastforce
  note k = extract_string_key [OF u(9) e]
  have b: "load_key F Media_type gp n s = ?t\<lparr>temp_name_buf := b\<rparr>" by (simp add: load_key_def Let_def e)
  have "same_lib s0 (?t\<lparr>temp_name_buf := b, flash_group_name := flash_group_name ?t, flash_group_name_y := flash_group_name_y ?t,
      ml_flash_state := ml_flash_state ?t\<rparr>)"
    by (rule same_lib_update [OF t(1) u(7, 8) k(1)])
  then show "same_lib s0 (load_key F Media_type gp n s)" by (simp add: b)
  show "zstring LEN_OF_NAME_IN_BYTE (temp_name_buf (load_key F Media_type gp n s)) = item_key names gp s0 n"
    "length (temp_name_buf (load_key F Media_type gp n s)) = LEN_OF_NAME_IN_BYTE"
    using k(1, 2) assms(2) by (simp_all add: b t(2) item_key_def item_name_def)
qed


text \<open>A group that is searched, in the state \<open>s0\<close> before the search.\<close>

definition lib_ok :: "nat \<Rightarrow> nat list list \<Rightarrow> ('s, 'm) ml_scheme \<Rightarrow> bool" where
  "lib_ok gp segs s \<longleftrightarrow> ok (ml_flash_state s) \<and> length (temp_name_buf s) = LEN_OF_NAME_IN_BYTE \<and>
     length (insert_name s) = LEN_OF_NAME_IN_BYTE \<and> group_ok gp (item_key names gp s) segs (ram_group s gp) \<and>
     (if gp = YEAR_SORTLOOP
      then insert_name s ! 0 \<noteq> EOSTR \<and> length (ram_song_year s) = MAX_NUM_OF_SONG \<and>
        (\<forall>n < num_of_item (ram_group s gp). ram_song_year s ! n \<noteq> EOSTR)
      else gp < YEAR_SORTLOOP)"

lemma same_lib_self: "ok (ml_flash_state s) \<Longrightarrow> length (temp_name_buf s) = LEN_OF_NAME_IN_BYTE \<Longrightarrow> same_lib s s"
  unfolding same_lib_def
  by (rule exI [of _ "temp_name_buf s"], rule exI [of _ "flash_group_name s"], rule exI [of _ "flash_group_name_y s"],
      rule exI [of _ "ml_flash_state s"]) simp

lemma same_lib_refl: "lib_ok gp segs s \<Longrightarrow> same_lib s s"
  by (rule same_lib_self) (simp_all add: lib_ok_def)

lemma lib_ok_same: "same_lib s0 s \<Longrightarrow> lib_ok gp segs s = lib_ok gp segs s0" if "lib_ok gp segs s0"
  using that same_lib_fields [of s0 s] by (simp add: lib_ok_def)

lemma lib_item:
  assumes "lib_ok gp segs s" and "i \<in> set (concat segs)"
  shows "i < num_of_item (ram_group s gp)" "i < MAX_NUM_OF_SONG"
  using assms by (auto simp: lib_ok_def group_ok_def list_ok_def simp del: set_concat)

lemma value_cmp:
  "x \<noteq> EOSTR \<Longrightarrow> ys ! 0 \<noteq> EOSTR \<Longrightarrow> xs ! 0 = x \<Longrightarrow> ItemCmp UINT24_VAL_CMPTYPE xs ys = compare_lists [x] [ys ! 0]"
  by (auto simp: ItemCmp_def UINT24_STR_CMPTYPE_def UINT24_VAL_CMPTYPE_def compare_lists_def)

text \<open>Comparing a name with the one of an item, through the flash.\<close>

lemma name_cmp:
  assumes l: "lib_ok gp segs s0" and s: "same_lib s0 s" and gp: "gp < YEAR_SORTLOOP" and n: "n < MAX_NUM_OF_SONG"
  defines "t \<equiv> load_key F Media_type gp n s"
  shows "same_lib s0 t" and "ItemCmp UINT24_STR_CMPTYPE (temp_name_buf t) (insert_name t) = compare_lists (item_key names gp s0 n) (insert_key gp s0)"
proof -
  note k = load_key_ok [OF s gp n, folded t_def]
  show "same_lib s0 t" by (rule k(1))
  show "ItemCmp UINT24_STR_CMPTYPE (temp_name_buf t) (insert_name t) = compare_lists (item_key names gp s0 n) (insert_key gp s0)"
    using k(2, 3) l gp same_lib_fields(2) [OF k(1)] by (simp add: ItemCmp_strings lib_ok_def insert_key_def)
qed

lemma buf_cmp_ok:
  assumes l: "lib_ok gp segs s0" and s: "same_lib s0 s" and b: "buf ! mid = (pre, n, nx)" "n \<in> set (concat segs)"
  shows "fst (buf_cmp F Media_type gp buf mid s) = compare_lists (item_key names gp s0 n) (insert_key gp s0)
    \<and> same_lib s0 (snd (buf_cmp F Media_type gp buf mid s))"
proof (cases "gp = YEAR_SORTLOOP")
  case True
  have "ram_song_year s0 ! n \<noteq> EOSTR" "insert_name s0 ! 0 \<noteq> EOSTR"
    using l lib_item(1) [OF l b(2)] True by (auto simp: lib_ok_def)
  then show ?thesis using True s same_lib_fields(2, 3) [OF s]
    by (simp add: buf_cmp_def b(1) item_key_def insert_key_def value_cmp)
next
  case False
  then have gp: "gp < YEAR_SORTLOOP" using l by (simp add: lib_ok_def)
  show ?thesis using False name_cmp [OF l s gp lib_item(2) [OF l b(2)]] by (simp add: buf_cmp_def b(1) Let_def)
qed

lemma mark_cmp_ok:
  assumes l: "lib_ok gp segs s0" and s: "same_lib s0 s" and k: "k < length segs"
  shows "fst (mark_cmp F Media_type gp k s) = compare_lists (item_key names gp s0 (hd (segs ! k))) (insert_key gp s0)
    \<and> same_lib s0 (snd (mark_cmp F Media_type gp k s))"
proof -
  let ?g = "ram_group s0 gp" and ?n = "hd (segs ! k)"
  let ?m = "mark_table_string ?g ! k" and ?x = "insert_key gp s0"
  have g: "marks_ok segs ?g" "strings_ok gp (item_key names gp s0) segs ?g" "list_ok segs ?g" using l by (simp_all add: lib_ok_def group_ok_def)
  have ix: "mark_table_index ?g ! k = (?n, length (segs ! k))" "?n \<in> set (concat segs)"
    using g(1) k by (auto simp: marks_ok_def intro!: bexI [of _ "segs ! k"])
  have m: "length ?m = LEN_OF_MTSTRING" "mark_of gp ?m (item_key names gp s0 ?n)"
    using g(2) k marks_bound [OF g(1, 3)] by (simp_all add: strings_ok_def)
  note f = same_lib_fields [OF s]
  show ?thesis
  proof (cases "gp = YEAR_SORTLOOP")
    case True
    have "ram_song_year s0 ! ?n \<noteq> EOSTR" "insert_name s0 ! 0 \<noteq> EOSTR"
      using l lib_item(1) [OF l ix(2)] True by (auto simp: lib_ok_def)
    then show ?thesis using True s m(2) f
      by (simp add: mark_cmp_def Let_def item_key_def insert_key_def value_cmp mark_of_def)
  next
    case False
    then have gp: "gp < YEAR_SORTLOOP" using l by (simp add: lib_ok_def)
    have c: "ItemCmp UINT24_MARKTAB_CMPTYPE ?m (insert_name s0) =
        compare_lists (take LEN_OF_MTSTRING (item_key names gp s0 ?n)) (take LEN_OF_MTSTRING ?x)"
      using l m False ItemCmp_marks [OF m(1), of "insert_name s0"] zstring_take [of LEN_OF_MTSTRING LEN_OF_NAME_IN_BYTE "insert_name s0"]
      by (simp add: mark_of_def lib_ok_def insert_key_def LEN_OF_MTSTRING_def LEN_OF_NAME_IN_BYTE_def)
    note nm = name_cmp [OF l s gp lib_item(2) [OF l ix(2)]]
    show ?thesis
    proof (cases "take LEN_OF_MTSTRING (item_key names gp s0 ?n) = take LEN_OF_MTSTRING ?x")
      case True
      then show ?thesis using False nm c f ix(1) by (simp add: mark_cmp_def Let_def)
    next
      case ne: False
      then have d: "item_key names gp s0 ?n \<noteq> ?x" by metis
      obtain i where i: "compare_lists (item_key names gp s0 ?n) ?x = i" "i = ITEMCMP_ITEM0_SMALL \<or> i = ITEMCMP_ITEM0_LARGE"
        by (rule that [OF refl compare_differs [OF d]])
      have "ItemCmp UINT24_MARKTAB_CMPTYPE ?m (insert_name s0) = i" using c compare_take [OF ne] i(1) by (rule trans [OF trans])
      then have "mark_cmp F Media_type gp k s = (i, s)" using False i(2) f by (simp add: mark_cmp_def Let_def)
      then show ?thesis using s i(1) by simp
    qed
  qed
qed


section \<open>Searching a group\<close>

lemma find_mark_ok:
  assumes l: "lib_ok gp segs s0" and t0: "length (temp_name_buf s0) = LEN_OF_NAME_IN_BYTE" and f: "find_mark F Media_type gp s0 = (found, lb, mid, s)"
  shows "same_lib s0 s \<and>
    (if segs = [] then \<not> found \<and> lb = 0 \<and> mid = 0
     else mid < length segs \<and>
       (if found then item_key names gp s0 (hd (segs ! mid)) = insert_key gp s0
        else (if mid = 0 then True else item_key names gp s0 (hd (segs ! mid)) < insert_key gp s0) \<and>
          (\<forall>i. mid < i \<and> i < length segs \<longrightarrow> insert_key gp s0 < item_key names gp s0 (hd (segs ! i)))))
    \<and> (mid = 0 \<and> item_key names gp s0 (hd (segs ! mid)) > insert_key gp s0 \<longrightarrow> lb = 0)"
proof -
  let ?key = "item_key names gp s0" and ?x = "insert_key gp s0"
  have g: "group_ok gp ?key segs (ram_group s0 gp)" "MarkTableID (ram_group s0 gp) = length segs"
    using l by (simp_all add: lib_ok_def group_ok_def marks_ok_def)
  have s0: "same_lib s0 s0" using l by (rule same_lib_refl)
  show ?thesis
  proof (cases "length segs > 1")
    case False
    then have "(found, lb, mid, s) = (False, 0, 0, s0)" using f g(2) by (simp add: find_mark_def)
    then show ?thesis using s0 False by (cases segs) auto
  next
    case True
    obtain fd lo m t where b: "bsearch (mark_cmp F Media_type gp) 0 (length segs) s0 = (fd, lo, m, t)"
      by (metis prod_cases4)
    have r: "found = fd" "lb = lo" "mid = (if \<not> fd \<and> m > 0 then m - 1 else m)" "s = t"
      using f True g(2) b by (auto simp: find_mark_def)
    have ne: "segs \<noteq> []" using True by force
    have ok: "same_lib s0 t \<and> (if fd then m < length segs \<and> ?key (hd (segs ! m)) = ?x
            else lo = m \<and> m \<le> length segs \<and> (\<forall>i < m. ?key (hd (segs ! i)) < ?x) \<and>
              (\<forall>i. m \<le> i \<and> i < length segs \<longrightarrow> ?x < ?key (hd (segs ! i))))"
      by (rule bsearch_ok [where I = "same_lib s0", OF _ _ _ _ _ _ _ b])
        (use mark_cmp_ok [OF l] sorted_heads [OF g(1)] True s0 ne in auto)
    show ?thesis using ok True unfolding r by (cases fd; cases m) (auto split: if_splits)
  qed
qed

lemma find_place_ok:
  assumes l: "lib_ok gp segs s0" and s: "same_lib s0 s" and k: "mid < length segs"
    and f: "find_place F Media_type gp (temp_list (ram_group s0 gp) mid) s = (found, k, t)"
  defines "key \<equiv> item_key names gp s0" and "x \<equiv> insert_key gp s0" and "p \<equiv> segs ! mid"
  shows "same_lib s0 t" and "k \<le> length p"
    and "found \<Longrightarrow> gp \<noteq> SONG_SORTLOOP \<Longrightarrow> k < length p \<and> key (p ! k) = x"
    and "found \<Longrightarrow> gp = SONG_SORTLOOP \<Longrightarrow> 0 < k \<and> (\<forall>j < k. key (p ! j) \<le> x) \<and> (\<forall>j. k \<le> j \<and> j < length p \<longrightarrow> x \<le> key (p ! j))"
    and "\<not> found \<Longrightarrow> (\<forall>j < k. key (p ! j) < x) \<and> (\<forall>j. k \<le> j \<and> j < length p \<longrightarrow> x < key (p ! j))"
proof -
  let ?g = "ram_group s0 gp" and ?b = "temp_list (ram_group s0 gp) mid"
  have g: "marks_ok segs ?g" "list_ok segs ?g" "sorted_wrt (item_before gp key) (concat segs)"
    using l by (simp_all add: lib_ok_def group_ok_def key_def)
  have p: "p \<noteq> []" using g(1) k by (simp add: marks_ok_def p_def)
  have xs: "concat segs ! (start segs mid + j) = p ! j" if "j < length p" for j
    using that concat_nth [OF k] by (simp add: p_def)
  have b: "length ?b = length p" "?b ! j = (before (concat segs) (start segs mid + j), p ! j, ML_list_get_val (sorted_list ?g) (p ! j))"
    if "j < length p" for j
    using that temp_list_piece [OF g(1, 2) k] xs by (simp_all add: p_def)
  have lb: "length ?b = length p" using b(1) [of 0] p by simp
  have nb: "?b \<noteq> []" using lb p by force
  have srt: "key (p ! i) \<le> key (p ! j)" if "i \<le> j" "j < length p" for i j
    using that sorted_keys [OF g(3), of "start segs mid + i" "start segs mid + j"] start_bound [OF k] xs [of i] xs [of j]
    by (simp add: p_def)
  have mem: "p ! j \<in> set (concat segs)" if "j < length p" for j
    using that k nth_mem [of mid segs] nth_mem [of j p] by (auto simp: p_def simp del: nth_mem)
  obtain fd lo m u where r: "bsearch (buf_cmp F Media_type gp ?b) 0 (length p) s = (fd, lo, m, u)"
    by (metis prod_cases4)
  have e: "found = fd" "k = (if fd \<and> gp = SONG_SORTLOOP then m + 1 else m)" "t = u"
    using f unfolding find_place_def if_not_P [OF nb] lb r Let_def prod.case by (simp_all split: if_splits)
  have ok: "same_lib s0 u \<and> (if fd then m < length p \<and> key (p ! m) = x
      else lo = m \<and> m \<le> length p \<and> (\<forall>i < m. key (p ! i) < x) \<and> (\<forall>i. m \<le> i \<and> i < length p \<longrightarrow> x < key (p ! i)))"
    by (rule bsearch_ok [where I = "same_lib s0", OF _ _ _ _ _ _ _ r])
      (use buf_cmp_ok [OF l _ b(2) mem] srt p s in \<open>auto simp: key_def x_def\<close>)
  show "same_lib s0 t" "k \<le> length p" using ok e by (auto split: if_splits)
  show "k < length p \<and> key (p ! k) = x" if "found" "gp \<noteq> SONG_SORTLOOP" using that ok e by simp
  show "0 < k \<and> (\<forall>j < k. key (p ! j) \<le> x) \<and> (\<forall>j. k \<le> j \<and> j < length p \<longrightarrow> x \<le> key (p ! j))" if "found" "gp = SONG_SORTLOOP"
    using that ok e srt [of _ m] srt [of m] by (auto simp: less_Suc_eq_le)
  show "(\<forall>j < k. key (p ! j) < x) \<and> (\<forall>j. k \<le> j \<and> j < length p \<longrightarrow> x < key (p ! j))" if "\<not> found"
    using that ok e by simp
qed


section \<open>Adding a name\<close>

text \<open>Names whose first ten characters are in the mark table whole: those without an article, and the short ones.\<close>

definition plain_name :: "WORD \<times> WORD list \<Rightarrow> bool" where
  "plain_name nm \<longleftrightarrow> mark_key nm = take LEN_OF_MTSTRING (name_key nm)"

text \<open>What is to hold of the name that is added: a song's name is in the flash already.\<close>

definition new_item :: "nat \<Rightarrow> WORD \<Rightarrow> ('s, 'm) ml_scheme \<Rightarrow> bool" where
  "new_item gp u s \<longleftrightarrow>
     (if gp = YEAR_SORTLOOP then num_of_item (ram_group s gp) < DISTANCE_IN_MARK_TABLE
      else if gp = SONG_SORTLOOP then item_key names gp s (num_of_item (ram_group s gp)) = insert_key gp s
      else length (temp_song_info_name s) = LEN_OF_FLASH_NAME_BUF \<and> name_key (u, temp_song_info_name s) = insert_key gp s)"

definition plain_items :: "nat \<Rightarrow> ('s, 'm) ml_scheme \<Rightarrow> bool" where
  "plain_items gp s \<longleftrightarrow> gp = YEAR_SORTLOOP \<or>
     (\<forall>i < num_of_item (ram_group s gp). plain_name (item_name (names (ml_flash_state s) gp i)))"

text \<open>Everything of a state that a step for group \<open>gp\<close> may not touch.\<close>

definition frame :: "nat \<Rightarrow> ('s, 'm) ml_scheme \<Rightarrow> ('s, 'm) ml_scheme \<Rightarrow> bool" where
  "frame gp s t \<longleftrightarrow> ok (ml_flash_state t) \<and> length (temp_name_buf t) = LEN_OF_NAME_IN_BYTE \<and>
     (\<forall>gp'. gp' \<noteq> gp \<longrightarrow> ram_group t gp' = ram_group s gp' \<and> names (ml_flash_state t) gp' = names (ml_flash_state s) gp') \<and>
     (gp \<noteq> YEAR_SORTLOOP \<longrightarrow> ram_song_year t = ram_song_year s) \<and> length (ram_song_year t) = length (ram_song_year s) \<and>
     insert_name t = insert_name s \<and> temp_song_info_name t = temp_song_info_name s \<and> ml.more t = ml.more s"

lemma frame_same: "same_lib s0 s \<Longrightarrow> frame gp s0 s"
  by (auto elim!: same_libE simp: frame_def)

lemma frame_trans: "frame gp s t \<Longrightarrow> frame gp t u \<Longrightarrow> frame gp s u"
  by (auto simp: frame_def)

lemma frame_set_group: "ok (ml_flash_state s) \<Longrightarrow> length (temp_name_buf s) = LEN_OF_NAME_IN_BYTE \<Longrightarrow> frame gp s (set_group gp g s)"
  by (simp add: frame_def)

lemma store_item_ok:
  assumes l: "lib_ok gp segs s" and n: "n = num_of_item (ram_group s gp)" "n < MAX_NUM_OF_SONG" and i: "new_item gp u s"
  defines "t \<equiv> store_item F Media_type gp u s"
  shows "frame gp s t" and "ram_group t = ram_group s"
    and "item_key names gp t = (item_key names gp s)(n := insert_key gp s)"
    and "j \<noteq> n \<Longrightarrow> names (ml_flash_state t) gp j = names (ml_flash_state s) gp j"
    and "gp = SONG_SORTLOOP \<or> gp = YEAR_SORTLOOP \<Longrightarrow> names (ml_flash_state t) = names (ml_flash_state s)"
    and "gp \<noteq> SONG_SORTLOOP \<Longrightarrow> gp \<noteq> YEAR_SORTLOOP \<Longrightarrow> names (ml_flash_state t) gp n = temp_song_info_name s @ [u]"
proof -
  have ok: "ok (ml_flash_state s)" "length (temp_name_buf s) = LEN_OF_NAME_IN_BYTE" "gp = YEAR_SORTLOOP \<or> gp < YEAR_SORTLOOP"
    using l by (auto simp: lib_ok_def split: if_splits)
  consider (year) "gp = YEAR_SORTLOOP" | (song) "gp = SONG_SORTLOOP" "gp < YEAR_SORTLOOP"
    | (other) "gp < YEAR_SORTLOOP" "gp \<noteq> SONG_SORTLOOP" "gp \<noteq> YEAR_SORTLOOP"
    using ok(3) by (auto simp: loop_consts)
  then have "frame gp s t \<and> ram_group t = ram_group s \<and> item_key names gp t = (item_key names gp s)(n := insert_key gp s) \<and>
    (\<forall>j. j \<noteq> n \<longrightarrow> names (ml_flash_state t) gp j = names (ml_flash_state s) gp j) \<and>
    (if gp = SONG_SORTLOOP \<or> gp = YEAR_SORTLOOP then names (ml_flash_state t) = names (ml_flash_state s)
     else names (ml_flash_state t) gp n = temp_song_info_name s @ [u])"
  proof cases
    case year
    then have "n < length (ram_song_year s)" using l n by (simp add: lib_ok_def)
    then show ?thesis using year ok n(1)
      by (auto simp: t_def store_item_def frame_def item_key_def insert_key_def fun_eq_iff nth_list_update)
  next
    case song
    then show ?thesis using ok n(1) i
      by (auto simp: t_def store_item_def frame_def new_item_def fun_eq_iff loop_consts)
  next
    case other
    have w: "length (temp_song_info_name s @ [u]) = ML_SONG_NAME_STRUCT_SIZE" "length (temp_song_info_name s) = 40"
      using i other by (simp_all add: new_item_def ML_SONG_NAME_STRUCT_SIZE_def LEN_OF_FLASH_NAME_BUF_def)
    note wr = write_name [OF ok(1) other(1) n(2) w(1)]
    have "name_key (item_name (temp_song_info_name s @ [u])) = insert_key gp s"
      using i other w(2) by (simp add: new_item_def item_name_def LEN_OF_FLASH_NAME_BUF_def nth_append)
    then show ?thesis using other ok n(1) wr w(2)
      by (auto simp: t_def store_item_def Let_def frame_def item_key_def fun_eq_iff LEN_OF_FLASH_NAME_BUF_def)
  qed
  then show "frame gp s t" "ram_group t = ram_group s" "item_key names gp t = (item_key names gp s)(n := insert_key gp s)"
    "j \<noteq> n \<Longrightarrow> names (ml_flash_state t) gp j = names (ml_flash_state s) gp j"
    "gp = SONG_SORTLOOP \<or> gp = YEAR_SORTLOOP \<Longrightarrow> names (ml_flash_state t) = names (ml_flash_state s)"
    "gp \<noteq> SONG_SORTLOOP \<Longrightarrow> gp \<noteq> YEAR_SORTLOOP \<Longrightarrow> names (ml_flash_state t) gp n = temp_song_info_name s @ [u]"
    by simp_all
qed


lemma item_key_set [simp]: "item_key names gp (s\<lparr>ram_group := r\<rparr>) = item_key names gp s"
  by (simp add: item_key_def fun_eq_iff)

lemma group_ok_cong:
  assumes "strings_ok gp key segs g" and "sorted_wrt (item_before gp key) (concat segs)" and "marks_ok segs g"
    and "\<And>i. i \<in> set (concat segs) \<Longrightarrow> key' i = key i"
  shows "strings_ok gp key' segs g" and "sorted_wrt (item_before gp key') (concat segs)"
    and "fits gp key x (concat segs) a \<Longrightarrow> a \<le> length (concat segs) \<Longrightarrow> fits gp key' x (concat segs) a"
proof -
  have "key' (hd (segs ! i)) = key (hd (segs ! i))" if "i < length segs" for i
    by (rule assms(4)) (use that assms(3) in \<open>auto simp: marks_ok_def intro!: bexI [of _ "segs ! i"]\<close>)
  then show "strings_ok gp key' segs g" using assms(1) by (simp add: strings_ok_def)
  show "sorted_wrt (item_before gp key') (concat segs)"
    by (rule sorted_wrt_mono_rel [OF _ assms(2)]) (use assms(4) in \<open>simp add: item_before_def\<close>)
  have "key' (concat segs ! b) = key (concat segs ! b)" if "b < length (concat segs)" for b using that assms(4) by (metis nth_mem)
  then show "fits gp key x (concat segs) a \<Longrightarrow> a \<le> length (concat segs) \<Longrightarrow> fits gp key' x (concat segs) a"
    by (simp add: fits_def del: length_concat)
qed

text \<open>The cut: the mark of the new piece is extracted from the name in the flash.\<close>

lemma split_piece_ok:
  assumes gp: "gp < YEAR_SORTLOOP" and j: "fst (snd (buf ! 20)) = j" "j < MAX_NUM_OF_SONG" "plain_name (item_name (names (ml_flash_state s) gp j))"
    and s: "ok (ml_flash_state s)" "length (temp_name_buf s) = LEN_OF_NAME_IN_BYTE" and g: "g = ram_group s gp"
    and st: "\<forall>m \<in> set (mark_table_string g). length m = LEN_OF_MTSTRING" "mid < MarkTableID g" "MarkTableID g < length (mark_table_string g)"
    and c: "c = (if 20 < k then 20 else 21)"
  defines "t \<equiv> split_piece F Media_type gp mid k buf s"
  shows "\<exists>new s'. length new = LEN_OF_MTSTRING \<and> mark_of gp new (item_key names gp s j) \<and> same_lib s s' \<and>
    t = set_group gp (g\<lparr>mark_table_index := cut_marks (MarkTableID g) mid j (41 - c) c (mark_table_index g),
      mark_table_string := (move_marks (\<lambda>_ x. x) (MarkTableID g) (mid + 1) (mark_table_string g))[mid + 1 := new],
      MarkTableID := MarkTableID g + 1\<rparr>) s'"
proof -
  let ?st = "move_marks (\<lambda>_ x. x) (MarkTableID g) (mid + 1) (mark_table_string g)" and ?w = "names (ml_flash_state s) gp j"
  define s' where "s' = load_name F Media_type gp j s"
  note ld = load_name_ok [OF same_lib_self [OF s] gp j(2), folded s'_def]
  note ct = cut_table [OF st(2, 3)]
  have len: "length (?st ! (mid + 1)) = LEN_OF_MTSTRING"
    using st(1) ct(3) [of "?st ! (mid + 1)"] ct(1) st(2, 3) nth_mem [of "mid + 1" ?st] by simp
  obtain n new where e: "ML_extract_string (?w ! LEN_OF_FLASH_NAME_BUF) (?st ! (mid + 1)) (take LEN_OF_FLASH_NAME_BUF ?w) LEN_OF_MTSTRING = (n, new)"
    by fastforce
  note x = extract_string_mark [OF len e]
  have "mark_of gp new (item_key names gp s j)"
    using x(2) j(3) gp by (simp add: mark_of_def item_key_def plain_name_def item_name_def)
  moreover have "t = set_group gp (g\<lparr>mark_table_index := cut_marks (MarkTableID g) mid j (41 - c) c (mark_table_index g),
      mark_table_string := ?st[mid + 1 := new], MarkTableID := MarkTableID g + 1\<rparr>) s'"
    using gp j(1) ld(2) e unfolding t_def split_piece_def
    by (simp add: Let_def g c DISTANCE_IN_MARK_TABLE_def flip: s'_def)
  ultimately show ?thesis using x(1) ld(1) by blast
qed


lemma insert_item_ok:
  assumes l: "lib_ok gp segs s" and n: "n = num_of_item (ram_group s gp)" "n < MAX_NUM_OF_SONG" and i: "new_item gp u s" and pl: "plain_items gp s"
    and k: "if segs = [] then mid = 0 \<and> k = 0 else mid < length segs \<and> k \<le> length (segs ! mid)" and lb: "k = 0 \<longrightarrow> lb = mid"
    and fit: "fits gp (item_key names gp s) (insert_key gp s) (concat segs) a" and a: "a = start segs mid + k"
  defines "t \<equiv> insert_item F Media_type gp lb mid k (temp_list (ram_group s gp) mid) u s"
  shows "frame gp s t" and "item_key names gp t = (item_key names gp s)(n := insert_key gp s)"
    and "names (ml_flash_state t) = names (ml_flash_state (store_item F Media_type gp u s))"
    and "num_of_item (ram_group t gp) = n" and "associate_list (ram_group t gp) = associate_list (ram_group s gp)"
    and "\<exists>segs'. concat segs' = take a (concat segs) @ n # drop a (concat segs) \<and>
      group_ok gp (item_key names gp t) segs' ((ram_group t gp)\<lparr>num_of_item := Suc n\<rparr>)"
proof -
  let ?g = "ram_group s gp" and ?s1 = "store_item F Media_type gp u s" and ?w = "with_item segs mid k n"
  define s1 where "s1 = ?s1"
  note s1 = store_item_ok [OF l n i, folded s1_def]
  define key where "key = item_key names gp s1"
  have gr: "marks_ok segs ?g" "list_ok segs ?g" "strings_ok gp (item_key names gp s) segs ?g" "length (associate_list ?g) = 500"
    "sorted_wrt (item_before gp (item_key names gp s)) (concat segs)"
    using l by (simp_all add: lib_ok_def group_ok_def MAX_NUM_OF_SONG_def)
  have len: "length (concat segs) = n" using list_ok_length [OF gr(2)] n(1) by simp
  have an: "a \<le> length (concat segs)"
    using k start_bound [of mid segs] by (cases "segs = []") (simp_all add: a start_def del: length_concat)
  have old: "key j = item_key names gp s j" if "j \<in> set (concat segs)" for j
    using that lib_item(1) [OF l that] n(1) s1(3) by (simp add: key_def)
  have cg: "strings_ok gp key segs ?g" "sorted_wrt (item_before gp key) (concat segs)" "fits gp key (insert_key gp s) (concat segs) a"
    by (rule group_ok_cong [OF gr(3, 5, 1)]; use old fit an in \<open>simp del: length_concat set_concat\<close>)+
  have nm: "length (insert_name s1) = LEN_OF_NAME_IN_BYTE" "insert_name s1 = insert_name s"
    using l s1(1) by (simp_all add: lib_ok_def frame_def)
  have kn: "key n = insert_key gp s" by (simp add: key_def s1(3))
  then have kn': "key n = (if gp = YEAR_SORTLOOP then [insert_name s1 ! 0] else zstring LEN_OF_NAME_IN_BYTE (insert_name s1))"
    by (simp add: nm(2) insert_key_def)
  note gw = grow_ok [OF gr(1, 2) cg(1) n k lb nm(1) kn', folded a]
  define g' where "g' = grow gp lb mid k (temp_list ?g mid) (insert_name s1) ?g"
  note gw = gw [folded g'_def]
  have lo: "distinct (concat segs)" "set (concat segs) = {..<n}" using gr(2) n(1) by (simp_all add: list_ok_def del: set_concat)
  note o = insert_order [OF lo cg(2, 3) [folded kn] an, folded gw(1)]
  define s2 where "s2 = set_group gp g' s1"
  have f2: "ok (ml_flash_state s2)" "length (temp_name_buf s2) = LEN_OF_NAME_IN_BYTE" "frame gp s s2" "item_key names gp s2 = key"
    "ram_group s2 gp = g'" "names (ml_flash_state s2) = names (ml_flash_state s1)"
    using s1(1) by (auto simp: frame_def s2_def key_def)
  have t: "t = (if snd (mark_table_index g' ! mid) > DISTANCE_IN_MARK_TABLE then split_piece F Media_type gp mid k (temp_list ?g mid) s2 else s2)"
    by (simp add: t_def insert_item_def s1_def [symmetric] s1(2) g'_def [symmetric] s2_def)
  note z = with_item_sizes [OF gr(1) k refl, where n = n]
  have cnt: "snd (mark_table_index g' ! mid) = length (?w ! mid)" and ml: "MarkTableID g' = length ?w"
    using gw(2) z(1) by (simp_all add: grown_def)
  have as: "length (associate_list g') = MAX_NUM_OF_SONG div 2" using gw(4) gr(4) by (simp add: MAX_NUM_OF_SONG_def)
  have "frame gp s t \<and> item_key names gp t = key \<and> names (ml_flash_state t) = names (ml_flash_state s1) \<and>
    num_of_item (ram_group t gp) = n \<and> associate_list (ram_group t gp) = associate_list ?g \<and>
    (\<exists>segs'. concat segs' = take a (concat segs) @ n # drop a (concat segs) \<and> group_ok gp key segs' ((ram_group t gp)\<lparr>num_of_item := Suc n\<rparr>))"
  proof (cases "length (?w ! mid) \<le> DISTANCE_IN_MARK_TABLE")
    case True
    have "t = s2" using True cnt t by simp
    moreover have "group_ok gp key ?w (g'\<lparr>num_of_item := Suc n\<rparr>)"
      by (rule keep_ok [OF gr(1) k refl gw(2) n(2) o as True])
    ultimately show ?thesis using f2 gw(1, 3, 4) by auto
  next
    case False
    then have w41: "length (?w ! mid) = 41" using z(5) by (simp add: DISTANCE_IN_MARK_TABLE_def)
    then have ne: "segs \<noteq> []" using k by (auto simp: with_item_def split: if_splits)
    then have mk: "mid < length segs" "k \<le> length (segs ! mid)" using k by simp_all
    have p: "?w ! mid = take k (segs ! mid) @ n # drop k (segs ! mid)" using mk ne by (simp add: with_item_def put_item_nth)
    then have p40: "length (segs ! mid) = 40" using w41 mk by simp
    have "40 \<le> n" using start_bound [OF mk(1)] len p40 by simp
    then have gp: "gp < YEAR_SORTLOOP" "gp \<noteq> YEAR_SORTLOOP"
      using l i n(1) by (auto simp: lib_ok_def new_item_def DISTANCE_IN_MARK_TABLE_def split: if_splits)
    define c where "c = (if 20 < k then 20 else 21 :: nat)"
    define j where "j = segs ! mid ! 20"
    have jw: "?w ! mid ! c = j" using mk(2) p40 unfolding p by (simp add: c_def j_def nth_append min_def)
    have jm: "j \<in> set (concat segs)" using mk(1) p40 nth_mem [of mid segs] nth_mem [of 20 "segs ! mid"]
      by (auto simp: j_def simp del: nth_mem)
    have jn: "j < n" "j < MAX_NUM_OF_SONG" using lib_item [OF l jm] n(1) by simp_all
    have jb: "fst (snd (temp_list ?g mid ! 20)) = j"
      using temp_list_piece [OF gr(1, 2) mk(1)] p40 concat_nth [OF mk(1), of 20] by (simp add: j_def)
    have jp: "plain_name (item_name (names (ml_flash_state s2) gp j))"
      using pl jn gp(2) n(1) s1(4) [of j] f2(6) by (simp add: plain_items_def)
    have st: "\<forall>m \<in> set (mark_table_string g'). length m = LEN_OF_MTSTRING" "mid < MarkTableID g'"
      using gw(2) z(1) by (simp_all add: grown_def strings_ok_def)
    have ms: "MarkTableID g' < length (mark_table_string g')"
      using cut_room(1) [OF gr(1) k refl n(2) o(1, 2) w41] gw(2) by (simp add: grown_def strings_ok_def)
    from split_piece_ok [OF gp(1) jb jn(2) jp f2(1, 2) f2(5) [symmetric] st ms c_def]
    obtain new s' where sp: "length new = LEN_OF_MTSTRING" "mark_of gp new (key j)" "same_lib s2 s'"
        "t = set_group gp (g'\<lparr>mark_table_index := cut_marks (length ?w) mid j (41 - c) c (mark_table_index g'),
          mark_table_string := (move_marks (\<lambda>_ x. x) (length ?w) (mid + 1) (mark_table_string g'))[mid + 1 := new],
          MarkTableID := length ?w + 1\<rparr>) s'"
      using False cnt t f2(4) ml by auto
    note u = same_lib_fields [OF sp(3)]
    have fr: "frame gp s t"
      using frame_trans [OF frame_trans [OF f2(3) frame_same [OF sp(3)]] frame_set_group [OF u(7, 9)]] unfolding sp(4) .
    have cr: "20 \<le> c" "c \<le> 21" by (simp_all add: c_def)
    note cut = cut_ok [OF gr(1) k refl gw(2) n(2) o as w41 cr jw [symmetric] sp(1, 2)]
    have "concat (cut_piece ?w mid c) = concat ?w" by (rule concat_cut_piece [OF z(1)])
    then show ?thesis using fr cut gw(1, 3, 4) f2(4, 6) u(5, 8) unfolding sp(4) by auto
  qed
  then show "frame gp s t" "item_key names gp t = (item_key names gp s)(n := insert_key gp s)"
    "names (ml_flash_state t) = names (ml_flash_state ?s1)"
    "num_of_item (ram_group t gp) = n" "associate_list (ram_group t gp) = associate_list (ram_group s gp)"
    "\<exists>segs'. concat segs' = take a (concat segs) @ n # drop a (concat segs) \<and>
      group_ok gp (item_key names gp t) segs' ((ram_group t gp)\<lparr>num_of_item := Suc n\<rparr>)"
    using s1(3) by (simp_all add: key_def s1_def)
qed


text \<open>Where the two searches lead.\<close>

lemma search_ok:
  assumes l: "lib_ok gp segs s" and f: "find_mark F Media_type gp s = (found, lb, mid, s1)"
    and p: "find_place F Media_type gp (temp_list (ram_group s gp) mid) s1 = (found', k, s2)"
  defines "key \<equiv> item_key names gp s" and "x \<equiv> insert_key gp s"
  shows "same_lib s s1" and "found \<Longrightarrow> mid < length segs \<and> key (hd (segs ! mid)) = x"
    and "same_lib s s2" and "found' \<Longrightarrow> gp \<noteq> SONG_SORTLOOP \<Longrightarrow> mid < length segs \<and> k < length (segs ! mid) \<and> key (segs ! mid ! k) = x"
    and "gp = SONG_SORTLOOP \<or> \<not> found \<and> \<not> found' \<Longrightarrow>
      (if segs = [] then mid = 0 \<and> k = 0 else mid < length segs \<and> k \<le> length (segs ! mid)) \<and> (k = 0 \<longrightarrow> lb = mid) \<and>
      fits gp key x (concat segs) (start segs mid + k)"
proof -
  have g: "marks_ok segs (ram_group s gp)" "sorted_wrt (item_before gp key) (concat segs)"
    using l by (simp_all add: lib_ok_def group_ok_def key_def)
  have t0: "length (temp_name_buf s) = LEN_OF_NAME_IN_BYTE" using l by (simp add: lib_ok_def)
  note fm = find_mark_ok [OF l t0 f, folded key_def x_def]
  show s1: "same_lib s s1" "found \<Longrightarrow> mid < length segs \<and> key (hd (segs ! mid)) = x" using fm by (simp_all split: if_splits)
  have "same_lib s s2 \<and> (found' \<and> gp \<noteq> SONG_SORTLOOP \<longrightarrow> mid < length segs \<and> k < length (segs ! mid) \<and> key (segs ! mid ! k) = x) \<and>
    (gp = SONG_SORTLOOP \<or> \<not> found \<and> \<not> found' \<longrightarrow>
      (if segs = [] then mid = 0 \<and> k = 0 else mid < length segs \<and> k \<le> length (segs ! mid)) \<and> (k = 0 \<longrightarrow> lb = mid) \<and>
      fits gp key x (concat segs) (start segs mid + k))"
  proof (cases "segs = []")
    case True
    then have "temp_list (ram_group s gp) mid = []" "lb = 0" "mid = 0" using g(1) fm by (auto simp: temp_list_def marks_ok_def)
    then show ?thesis using True p s1(1) by (simp add: find_place_def fits_def)
  next
    case False
    then have mid: "mid < length segs" using fm by (simp split: if_splits)
    let ?p = "segs ! mid"
    have pne: "?p \<noteq> []" using g(1) mid by (simp add: marks_ok_def)
    note fp = find_place_ok [OF l s1(1) mid p, folded key_def x_def]
    have placed: "fits gp key x (concat segs) (start segs mid + k) \<and> (k = 0 \<longrightarrow> lb = mid)" if w: "gp = SONG_SORTLOOP \<or> \<not> found \<and> \<not> found'"
    proof
      have low: "mid = 0 \<or> key (hd ?p) < x \<or> gp = SONG_SORTLOOP \<and> key (hd ?p) \<le> x"
        using fm False w by (auto split: if_splits)
      show "fits gp key x (concat segs) (start segs mid + k)"
      proof (rule fits_piece [OF g mid fp(2) low])
        show "(\<forall>i. mid < i \<and> i < length segs \<longrightarrow> x < key (hd (segs ! i))) \<or> gp = SONG_SORTLOOP \<and> x \<le> key (hd ?p)"
          using fm False w by (auto split: if_splits)
        show "fits gp key x ?p k" using fp(4, 5) w by (cases found') (auto simp: fits_def)
      qed
      show "k = 0 \<longrightarrow> lb = mid"
      proof
        assume k: "k = 0"
        then have "\<not> found'" using fp(4) w by auto
        then have "x < key (hd ?p)" using fp(5) k pne by (simp add: hd_conv_nth)
        then show "lb = mid" using fm False low by (auto split: if_splits)
      qed
    qed
    show ?thesis using fp(1-3) placed mid False by simp
  qed
  then show "same_lib s s2" "found' \<Longrightarrow> gp \<noteq> SONG_SORTLOOP \<Longrightarrow> mid < length segs \<and> k < length (segs ! mid) \<and> key (segs ! mid ! k) = x"
    "gp = SONG_SORTLOOP \<or> \<not> found \<and> \<not> found' \<Longrightarrow>
      (if segs = [] then mid = 0 \<and> k = 0 else mid < length segs \<and> k \<le> length (segs ! mid)) \<and> (k = 0 \<longrightarrow> lb = mid) \<and>
      fits gp key x (concat segs) (start segs mid + k)" by simp_all
qed

lemma same_lib_props:
  assumes "same_lib s0 s" and "lib_ok gp segs s0"
  shows "lib_ok gp segs s" "new_item gp u s = new_item gp u s0" "plain_items gp s = plain_items gp s0"
  using same_lib_fields [OF assms(1)] lib_ok_same [OF assms(2, 1)] assms(2) by (simp_all add: new_item_def plain_items_def)

lemma group_ok_associate:
  "group_ok gp key segs g \<Longrightarrow> length a = MAX_NUM_OF_SONG div 2 \<Longrightarrow> group_ok gp key segs (g\<lparr>associate_list := a\<rparr>)"
proof -
  have "list_head (g\<lparr>associate_list := a\<rparr>) = list_head g" by (simp add: list_head_def)
  then show "group_ok gp key segs g \<Longrightarrow> length a = MAX_NUM_OF_SONG div 2 \<Longrightarrow> group_ok gp key segs (g\<lparr>associate_list := a\<rparr>)"
    by (simp add: group_ok_def marks_ok_def list_ok_def strings_ok_def)
qed

text \<open>What adding a name comes to: the group's list, its number of items, the names, and the item that is associated.\<close>

definition added :: "nat \<Rightarrow> nat \<Rightarrow> WORD \<Rightarrow> WORD \<Rightarrow> nat list list \<Rightarrow> ('s, 'm) ml_scheme \<Rightarrow> nat list list \<Rightarrow> ('s, 'm) ml_scheme \<Rightarrow> bool" where
  "added gp current track u segs s segs' t \<longleftrightarrow>
     (let key = item_key names gp s; x = insert_key gp s; n = num_of_item (ram_group s gp); N = names (ml_flash_state t) gp in
      group_ok gp (item_key names gp t) segs' (ram_group t gp) \<and>
      (if gp \<noteq> SONG_SORTLOOP \<and> x \<in> key ` {..<n}
       then concat segs' = concat segs \<and> num_of_item (ram_group t gp) = n \<and> item_key names gp t = key \<and> N = names (ml_flash_state s) gp
       else (\<exists>a \<le> length (concat segs). concat segs' = take a (concat segs) @ n # drop a (concat segs)) \<and>
         num_of_item (ram_group t gp) = Suc n \<and> item_key names gp t = key(n := x) \<and>
         N = (if gp < SONG_SORTLOOP then (names (ml_flash_state s) gp)(n := temp_song_info_name s @ [u]) else names (ml_flash_state s) gp)) \<and>
      (\<exists>i v. associate_list (ram_group t gp) = ML_list_put_val (associate_list (ram_group s gp)) i v \<and>
         (if gp = SONG_SORTLOOP then i = n \<and> v = unat track
          else i = current \<and> v < num_of_item (ram_group t gp) \<and> item_key names gp t v = x)))"

text \<open>A name that is there is only associated.\<close>

lemma associate_found:
  assumes l: "lib_ok gp segs s" and q: "same_lib s s'" and gp: "gp \<noteq> SONG_SORTLOOP" and v: "v \<in> set (concat segs)" "item_key names gp s v = insert_key gp s"
    and t: "t = set_group gp ((ram_group s' gp)\<lparr>associate_list := ML_list_put_val (associate_list (ram_group s' gp)) current v\<rparr>) s'"
  shows "frame gp s t \<and> added gp current track u segs s segs t"
proof -
  note f = same_lib_fields [OF q]
  have vn: "v < num_of_item (ram_group s gp)" by (rule lib_item(1) [OF l v(1)])
  have "frame gp s t" unfolding t by (rule frame_trans [OF frame_same [OF q] frame_set_group [OF f(7, 9)]])
  moreover have "group_ok gp (item_key names gp s) segs ((ram_group s gp)\<lparr>associate_list := ML_list_put_val (associate_list (ram_group s gp)) current v\<rparr>)"
    by (rule group_ok_associate) (use l in \<open>simp_all add: lib_ok_def group_ok_def\<close>)
  moreover have "insert_key gp s \<in> item_key names gp s ` {..<num_of_item (ram_group s gp)}"
    using vn v(2) by (metis imageI lessThan_iff)
  ultimately show ?thesis using vn v(2) gp f by (auto simp: added_def Let_def t)
qed

lemma add_to_group_ok:
  assumes l: "lib_ok gp segs s" and n: "n = num_of_item (ram_group s gp)" "n < MAX_NUM_OF_SONG" and i: "new_item gp u s" and pl: "plain_items gp s"
    and t: "t = add_to_group F Media_type gp current track u s"
  shows "\<exists>segs'. frame gp s t \<and> added gp current track u segs s segs' t"
proof -
  obtain found lb mid s1 where fm: "find_mark F Media_type gp s = (found, lb, mid, s1)" by (metis prod_cases4)
  obtain found' k s2 where fp: "find_place F Media_type gp (temp_list (ram_group s gp) mid) s1 = (found', k, s2)" by (metis prod_cases3)
  note so = search_ok [OF l fm fp]
  let ?b = "temp_list (ram_group s gp) mid" and ?key = "item_key names gp s" and ?x = "insert_key gp s"
  note f1 = same_lib_fields [OF so(1)] and f2 = same_lib_fields [OF so(3)]
  have g: "marks_ok segs (ram_group s gp)" "list_ok segs (ram_group s gp)" using l by (simp_all add: lib_ok_def group_ok_def)
  consider (mark) "found" "gp \<noteq> SONG_SORTLOOP" | (item) "\<not> found" "found'" "gp \<noteq> SONG_SORTLOOP" | (new) "gp = SONG_SORTLOOP \<or> \<not> found \<and> \<not> found'"
    by blast
  then show ?thesis
  proof cases
    case mark
    have m: "mid < length segs" "?key (hd (segs ! mid)) = ?x" using so(2) mark by simp_all
    have "hd (segs ! mid) \<in> set (concat segs)" using g(1) m(1) by (auto simp: marks_ok_def intro!: bexI [of _ "segs ! mid"])
    moreover have "t = set_group gp ((ram_group s1 gp)\<lparr>associate_list := ML_list_put_val (associate_list (ram_group s1 gp)) current (hd (segs ! mid))\<rparr>) s1"
      using mark g(1) m(1) f1(1) by (simp add: t add_to_group_def fm Let_def marks_ok_def)
    ultimately show ?thesis using associate_found [OF l so(1) mark(2) _ m(2)] by blast
  next
    case item
    have m: "mid < length segs" "k < length (segs ! mid)" "?key (segs ! mid ! k) = ?x" using so(4) item by simp_all
    have v: "fst (snd (?b ! k)) = segs ! mid ! k"
      using temp_list_piece [OF g m(1)] m(2) concat_nth [OF m(1, 2)] by simp
    have "segs ! mid ! k \<in> set (concat segs)" using m(1, 2) nth_mem [of mid segs] nth_mem [of k "segs ! mid"] by (auto simp del: nth_mem)
    moreover have "t = set_group gp ((ram_group s2 gp)\<lparr>associate_list := ML_list_put_val (associate_list (ram_group s2 gp)) current (segs ! mid ! k)\<rparr>) s2"
      using item f1(1) v by (simp add: t add_to_group_def fm fp Let_def)
    ultimately show ?thesis using associate_found [OF l so(3) item(3) _ m(3)] by blast
  next
    case new
    define s3 where "s3 = insert_item F Media_type gp lb mid k ?b u s2"
    note sl = same_lib_props [OF so(3) l]
    have n2: "n = num_of_item (ram_group s2 gp)" using n(1) f2(1) by simp
    have pl2: "plain_items gp s2" and i2: "new_item gp u s2" using pl i sl by simp_all
    note so5 = so(5) [OF new]
    have fit: "fits gp (item_key names gp s2) (insert_key gp s2) (concat segs) (start segs mid + k)" using so5 f2 by simp
    note ii = insert_item_ok [OF sl(1) n2 n(2) i2 pl2 so5 [THEN conjunct1] so5 [THEN conjunct2, THEN conjunct1] fit refl, unfolded f2(1), folded s3_def]
    obtain segs' where gs: "concat segs' = take (start segs mid + k) (concat segs) @ n # drop (start segs mid + k) (concat segs)"
      "group_ok gp (item_key names gp s3) segs' ((ram_group s3 gp)\<lparr>num_of_item := Suc n\<rparr>)" using ii(6) by blast
    let ?i = "if gp = SONG_SORTLOOP then n else current" and ?v = "if gp = SONG_SORTLOOP then unat track else n"
    let ?g3 = "ram_group s3 gp"
    define g4 where "g4 = ?g3\<lparr>num_of_item := Suc n, associate_list := ML_list_put_val (associate_list ?g3) ?i ?v\<rparr>"
    have comm: "g\<lparr>associate_list := a, num_of_item := m\<rparr> = g\<lparr>num_of_item := m, associate_list := a\<rparr>" for g :: ml_group and a m
      by (cases g) simp
    have te: "t = set_group gp g4 s3"
      using new ii(4) f1(1) by (auto simp: t add_to_group_def fm fp Let_def s3_def [symmetric] g4_def comm)
    moreover have "frame gp s3 (set_group gp g4 s3)" by (rule frame_set_group) (use ii(1) in \<open>simp_all add: frame_def\<close>)
    ultimately have fr: "frame gp s t" using frame_trans [OF frame_trans [OF frame_same [OF so(3)] ii(1)]] by simp
    have "group_ok gp (item_key names gp s3) segs' (?g3\<lparr>num_of_item := Suc n, associate_list := ML_list_put_val (associate_list ?g3) ?i ?v\<rparr>)"
      by (rule group_ok_associate [OF gs(2)]) (use ii(5) l in \<open>simp add: lib_ok_def group_ok_def\<close>)
    then have gr: "group_ok gp (item_key names gp s3) segs' g4" unfolding g4_def .
    have at: "start segs mid + k \<le> length (concat segs)"
      using so5 start_bound [of mid segs] by (cases "segs = []") (simp_all add: start_def del: length_concat)
    have fresh: "?x \<notin> ?key ` {..<n}" if "gp \<noteq> SONG_SORTLOOP"
    proof
      assume "?x \<in> ?key ` {..<n}"
      moreover have "set (concat segs) = {..<n}" using g(2) n(1) by (simp add: list_ok_def del: set_concat)
      ultimately obtain b where b: "b < length (concat segs)" "?key (concat segs ! b) = ?x" by (metis image_iff in_set_conv_nth)
      then show False using fits_fresh [OF so5 [THEN conjunct2, THEN conjunct2] that] by blast
    qed
    note st = store_item_ok [OF sl(1) n2 n(2) i2]
    have rng: "(gp < SONG_SORTLOOP) = (gp \<noteq> SONG_SORTLOOP \<and> gp \<noteq> YEAR_SORTLOOP)"
      using l by (auto simp: lib_ok_def loop_consts split: if_splits)
    have nm: "names (ml_flash_state t) gp =
        (if gp < SONG_SORTLOOP then (names (ml_flash_state s) gp)(n := temp_song_info_name s @ [u]) else names (ml_flash_state s) gp)"
      using st(4-6) ii(3) f2(4, 8) rng by (auto simp: te fun_eq_iff)
    have key: "item_key names gp t = ?key(n := ?x)" using ii(2) f2(5, 6) by (simp add: te)
    have "added gp current track u segs s segs' t"
      unfolding added_def Let_def
    proof (intro conjI)
      show "group_ok gp (item_key names gp t) segs' (ram_group t gp)" using gr by (simp add: te)
      show "\<exists>i v. associate_list (ram_group t gp) = ML_list_put_val (associate_list (ram_group s gp)) i v \<and>
         (if gp = SONG_SORTLOOP then i = num_of_item (ram_group s gp) \<and> v = unat track
          else i = current \<and> v < num_of_item (ram_group t gp) \<and> item_key names gp t v = ?x)"
        by (rule exI [of _ ?i], rule exI [of _ ?v]) (use ii(5) key n(1) in \<open>simp add: te g4_def\<close>)
    qed (use fresh gs(1) at key nm n(1) in \<open>auto simp: te g4_def\<close>)
    then show ?thesis using fr by blast
  qed
qed

end

end
