(* ===== verification/MlCache.thy ===== *)
theory MlCache imports Prelude begin

text \<open>
  The sector cache of the music library, \<^verbatim>\<open>musiclib_flash_function.c\<close>: nine sector buffers between the library and the
  data drive, written back when a buffer is needed for another sector or the cache is closed. Sector numbers and drive
  numbers are \<open>nat\<close>, the counters are words that are compared signed.

  The drive is the parameter \<open>D\<close>. A read gets the buffer as it was and gives the one it leaves, since a sector has fewer
  words than a buffer.
\<close>

definition "ML_MAXCACHES = (9::nat)"
definition "ML_CACHEBUFSIZE = (720::nat)"
definition "CACHE_READCOUNTER = (200::WORD)"
definition "CACHE_WRITECOUNTER = (100::WORD)"
definition "WRITE_TYPE_RANDOM = (0::nat)"

record 'd data_drive =
  DataDriveReadSector :: "nat \<Rightarrow> nat \<Rightarrow> WORD list \<Rightarrow> 'd \<Rightarrow> bool \<times> WORD list \<times> 'd"
  DataDriveWriteSector :: "nat \<Rightarrow> nat \<Rightarrow> WORD list \<Rightarrow> 'd \<Rightarrow> bool \<times> 'd"

record ML_tCACHEDESCR =
  CacheValid :: bool
  DeviceNum :: nat
  SectorNumber :: nat
  WriteAttribute :: bool
  Mode :: nat
  CacheCounter :: WORD
  CacheMem :: "WORD list"

record 'd ml_cache =
  ML_CacheDesc :: "ML_tCACHEDESCR list"
  ML_UseCache :: bool
  drive :: 'd

definition InitandUseCache :: "('d, 'm) ml_cache_scheme \<Rightarrow> ('d, 'm) ml_cache_scheme" where
  "InitandUseCache s =
     (if ML_UseCache s then s
      else s\<lparr>ML_CacheDesc := map (\<lambda>c. c\<lparr>CacheValid := False, WriteAttribute := False, SectorNumber := 0\<rparr>) (ML_CacheDesc s),
             ML_UseCache := True\<rparr>)"

text \<open>The result is whether all sectors were written; the loop stops at the first that is not.\<close>

fun flush_loop :: "('d, 'x) data_drive_scheme \<Rightarrow> nat \<Rightarrow> nat \<Rightarrow> ('d, 'm) ml_cache_scheme \<Rightarrow> bool \<times> ('d, 'm) ml_cache_scheme" where
  "flush_loop D 0 ix s = (True, s)"
| "flush_loop D (Suc n) ix s =
     (let c = ML_CacheDesc s ! ix in
      if CacheValid c \<and> WriteAttribute c
      then
        let (r, d) = DataDriveWriteSector D (DeviceNum c) (SectorNumber c) (CacheMem c) (drive s);
            s = s\<lparr>drive := d, ML_CacheDesc := (ML_CacheDesc s)[ix := c\<lparr>CacheValid := False, WriteAttribute := False, SectorNumber := 0\<rparr>]\<rparr>
        in if r then flush_loop D n (Suc ix) s else (False, s)
      else flush_loop D n (Suc ix) (s\<lparr>ML_CacheDesc := (ML_CacheDesc s)[ix := c\<lparr>CacheValid := False\<rparr>]\<rparr>))"

definition FlushAndCloseCache :: "('d, 'x) data_drive_scheme \<Rightarrow> ('d, 'm) ml_cache_scheme \<Rightarrow> bool \<times> ('d, 'm) ml_cache_scheme" where
  "FlushAndCloseCache D s =
     (let (r, s) = (if ML_UseCache s then flush_loop D ML_MAXCACHES 0 s else (True, s)) in (r, s\<lparr>ML_UseCache := False\<rparr>))"

definition IncrementCacheCounters :: "ML_tCACHEDESCR list \<Rightarrow> ML_tCACHEDESCR list" where
  "IncrementCacheCounters = map (\<lambda>c. c\<lparr>CacheCounter := CacheCounter c + 1\<rparr>)"

text \<open>The buffer of a sector, and the buffer to use for a new one: one that is not in use, or the one with the largest counter.\<close>

fun find_sector :: "nat \<Rightarrow> nat \<Rightarrow> nat \<Rightarrow> ML_tCACHEDESCR list \<Rightarrow> nat option" where
  "find_sector dwSectorNumber wDriveNumber i [] = None"
| "find_sector dwSectorNumber wDriveNumber i (c # cs) =
     (if CacheValid c \<and> SectorNumber c = dwSectorNumber \<and> DeviceNum c = wDriveNumber then Some i
      else find_sector dwSectorNumber wDriveNumber (Suc i) cs)"

fun select_buffer :: "nat \<Rightarrow> nat \<Rightarrow> WORD \<Rightarrow> ML_tCACHEDESCR list \<Rightarrow> nat" where
  "select_buffer i selection Counter [] = selection"
| "select_buffer i selection Counter (c # cs) =
     (if CacheValid c
      then if sint (CacheCounter c) > sint Counter then select_buffer (Suc i) i (CacheCounter c) cs
           else select_buffer (Suc i) selection Counter cs
      else i)"

text \<open>The buffer is taken into use, and written back if it has to be. The write goes to the drive of the request.\<close>

definition evict :: "('d, 'x) data_drive_scheme \<Rightarrow> nat \<Rightarrow> ('d, 'm) ml_cache_scheme \<Rightarrow> bool \<times> nat \<times> ('d, 'm) ml_cache_scheme" where
  "evict D wDriveNumber s =
     (let selection = select_buffer 0 0 0 (ML_CacheDesc s);
          c = (ML_CacheDesc s ! selection)\<lparr>CacheValid := True\<rparr>;
          s = s\<lparr>ML_CacheDesc := (ML_CacheDesc s)[selection := c]\<rparr>
      in if WriteAttribute c
         then let (r, d) = DataDriveWriteSector D wDriveNumber (SectorNumber c) (CacheMem c) (drive s) in (r, selection, s\<lparr>drive := d\<rparr>)
         else (True, selection, s))"

text \<open>A read gives the target buffer, or \<open>None\<close> when it fails and leaves the target alone.\<close>

definition DataDriveReadSectorCache ::
    "('d, 'x) data_drive_scheme \<Rightarrow> nat \<Rightarrow> nat \<Rightarrow> WORD list \<Rightarrow> ('d, 'm) ml_cache_scheme \<Rightarrow> bool \<times> WORD list \<times> ('d, 'm) ml_cache_scheme" where
  "DataDriveReadSectorCache D dwSectorNumber wDriveNumber Buffer s =
     (if ML_UseCache s
      then
        case find_sector dwSectorNumber wDriveNumber 0 (ML_CacheDesc s) of
          Some i \<Rightarrow>
            let c = ML_CacheDesc s ! i
            in (True, CacheMem c,
                s\<lparr>ML_CacheDesc := (ML_CacheDesc s)[i := c\<lparr>Mode := WRITE_TYPE_RANDOM,
                   CacheCounter := (if sint (CacheCounter c) > sint CACHE_READCOUNTER then CACHE_READCOUNTER else CacheCounter c)\<rparr>]\<rparr>)
        | None \<Rightarrow>
            let (r, i, s) = evict D wDriveNumber s in
            if \<not> r then (False, Buffer, s)
            else
              let c = ML_CacheDesc s ! i; (r, mem, d) = DataDriveReadSector D dwSectorNumber wDriveNumber (CacheMem c) (drive s);
                  c = c\<lparr>CacheMem := mem\<rparr>; s = s\<lparr>drive := d, ML_CacheDesc := (ML_CacheDesc s)[i := c]\<rparr>
              in if \<not> r then (False, Buffer, s)
                 else
                   let c = c\<lparr>DeviceNum := wDriveNumber, WriteAttribute := False, Mode := WRITE_TYPE_RANDOM, SectorNumber := dwSectorNumber\<rparr>;
                       cs = IncrementCacheCounters ((ML_CacheDesc s)[i := c])
                   in (True, mem, s\<lparr>ML_CacheDesc := cs[i := (cs ! i)\<lparr>CacheCounter := CACHE_READCOUNTER\<rparr>]\<rparr>)
      else let (r, b, d) = DataDriveReadSector D dwSectorNumber wDriveNumber Buffer (drive s) in (r, b, s\<lparr>drive := d\<rparr>))"

definition DataDriveWriteSectorCache ::
    "('d, 'x) data_drive_scheme \<Rightarrow> nat \<Rightarrow> nat \<Rightarrow> WORD list \<Rightarrow> ('d, 'm) ml_cache_scheme \<Rightarrow> bool \<times> ('d, 'm) ml_cache_scheme" where
  "DataDriveWriteSectorCache D wDriveNumber dwSectorNumber Buffer s =
     (if ML_UseCache s
      then
        let (r, i, s) =
              (case find_sector dwSectorNumber wDriveNumber 0 (ML_CacheDesc s) of
                 Some i \<Rightarrow> (True, i, s)
               | None \<Rightarrow>
                   let (r, i, s) = evict D wDriveNumber s
                   in (r, i, if r then s\<lparr>ML_CacheDesc := (ML_CacheDesc s)[i := (ML_CacheDesc s ! i)
                                \<lparr>SectorNumber := dwSectorNumber, Mode := WRITE_TYPE_RANDOM\<rparr>]\<rparr> else s))
        in if \<not> r then (False, s)
           else
             let c = (ML_CacheDesc s ! i)\<lparr>CacheMem := Buffer, WriteAttribute := True, CacheCounter := CACHE_WRITECOUNTER, DeviceNum := wDriveNumber\<rparr>
             in (True, s\<lparr>ML_CacheDesc := IncrementCacheCounters ((ML_CacheDesc s)[i := c])\<rparr>)
      else let (r, d) = DataDriveWriteSector D wDriveNumber dwSectorNumber Buffer (drive s) in (r, s\<lparr>drive := d\<rparr>))"

section \<open>What the cache is for\<close>

text \<open>
  A drive that works: it keeps \<open>L\<close> words for each sector, \<open>content\<close>. Through the cache the library sees the words of the
  buffer that has a sector, and the drive's for the other sectors.
\<close>

definition drive_ok :: "('d, 'x) data_drive_scheme \<Rightarrow> nat \<Rightarrow> nat \<Rightarrow> ('d \<Rightarrow> nat \<Rightarrow> WORD list) \<Rightarrow> bool" where
  "drive_ok D w L content \<longleftrightarrow> L \<le> ML_CACHEBUFSIZE \<and>
     (\<forall>n b d. length b = ML_CACHEBUFSIZE \<longrightarrow>
        (case DataDriveReadSector D n w b d of (r, b', d') \<Rightarrow>
           r \<and> length b' = ML_CACHEBUFSIZE \<and> take L b' = content d n \<and> content d' = content d)) \<and>
     (\<forall>n b d. length b = ML_CACHEBUFSIZE \<longrightarrow>
        (case DataDriveWriteSector D w n b d of (r, d') \<Rightarrow> r \<and> content d' = (content d)(n := take L b)))"

lemma drive_read:
  assumes "drive_ok D w L content" and "length b = ML_CACHEBUFSIZE" and "DataDriveReadSector D n w b d = (r, b', d')"
  shows "r \<and> length b' = ML_CACHEBUFSIZE \<and> take L b' = content d n \<and> content d' = content d"
  using assms unfolding drive_ok_def by (metis (mono_tags, lifting) case_prod_conv)

lemma drive_write:
  assumes "drive_ok D w L content" and "length b = ML_CACHEBUFSIZE" and "DataDriveWriteSector D w n b d = (r, d')"
  shows "r \<and> content d' = (content d)(n := take L b)"
  using assms unfolding drive_ok_def by (metis (mono_tags, lifting) case_prod_conv)

definition hit :: "nat \<Rightarrow> ML_tCACHEDESCR \<Rightarrow> bool" where
  "hit n c \<longleftrightarrow> CacheValid c \<and> SectorNumber c = n"

definition cache_ok :: "nat \<Rightarrow> nat \<Rightarrow> ('d \<Rightarrow> nat \<Rightarrow> WORD list) \<Rightarrow> ML_tCACHEDESCR list \<Rightarrow> 'd \<Rightarrow> bool" where
  "cache_ok w L content cs d \<longleftrightarrow> length cs = ML_MAXCACHES \<and>
     (\<forall>i < length cs. length (CacheMem (cs ! i)) = ML_CACHEBUFSIZE \<and>
        (if CacheValid (cs ! i) then DeviceNum (cs ! i) = w \<and>
           (WriteAttribute (cs ! i) \<or> take L (CacheMem (cs ! i)) = content d (SectorNumber (cs ! i)))
         else \<not> WriteAttribute (cs ! i))) \<and>
     (\<forall>i < length cs. \<forall>j < length cs. \<forall>n. hit n (cs ! i) \<and> hit n (cs ! j) \<longrightarrow> i = j)"

definition seen :: "nat \<Rightarrow> nat \<Rightarrow> ('d \<Rightarrow> nat \<Rightarrow> WORD list) \<Rightarrow> ML_tCACHEDESCR list \<Rightarrow> 'd \<Rightarrow> nat \<Rightarrow> WORD list" where
  "seen w L content cs d n = (case find_sector n w 0 cs of Some i \<Rightarrow> take L (CacheMem (cs ! i)) | None \<Rightarrow> content d n)"

lemma find_sector_Some:
  "find_sector n w i cs = Some j \<Longrightarrow> i \<le> j \<and> j - i < length cs \<and> hit n (cs ! (j - i)) \<and> DeviceNum (cs ! (j - i)) = w"
  by (induction n w i cs rule: find_sector.induct) (auto simp: hit_def nth_Cons' Suc_diff_Suc split: if_splits)

lemma find_sector_None:
  "find_sector n w i cs = None \<Longrightarrow> j < length cs \<Longrightarrow> \<not> (hit n (cs ! j) \<and> DeviceNum (cs ! j) = w)"
  by (induction n w i cs arbitrary: j rule: find_sector.induct) (auto simp: hit_def nth_Cons' split: if_splits)

lemma cache_unique:
  "cache_ok w L content cs d \<Longrightarrow> i < length cs \<Longrightarrow> j < length cs \<Longrightarrow> hit n (cs ! i) \<Longrightarrow> hit n (cs ! j) \<Longrightarrow> i = j"
  unfolding cache_ok_def by blast

lemma cache_entry:
  assumes "cache_ok w L content cs d" and "i < length cs"
  shows "length (CacheMem (cs ! i)) = ML_CACHEBUFSIZE" and "WriteAttribute (cs ! i) \<Longrightarrow> CacheValid (cs ! i)"
    and "CacheValid (cs ! i) \<Longrightarrow> DeviceNum (cs ! i) = w"
    and "CacheValid (cs ! i) \<Longrightarrow> \<not> WriteAttribute (cs ! i) \<Longrightarrow> take L (CacheMem (cs ! i)) = content d (SectorNumber (cs ! i))"
  using assms unfolding cache_ok_def by metis+

lemma cache_find:
  assumes "cache_ok w L content cs d"
  shows "find_sector n w 0 cs = Some i \<longleftrightarrow> i < length cs \<and> hit n (cs ! i)"
proof
  assume i: "i < length cs \<and> hit n (cs ! i)"
  then have "DeviceNum (cs ! i) = w" using assms by (auto simp: cache_ok_def hit_def)
  then obtain j where j: "find_sector n w 0 cs = Some j" using find_sector_None [of n w 0 cs i] i by (cases "find_sector n w 0 cs") auto
  then have "i = j" using find_sector_Some [OF j] i cache_unique [OF assms, of i j n] by simp
  then show "find_sector n w 0 cs = Some i" using j by simp
qed (use find_sector_Some [of n w 0 cs i] in auto)

lemma seen_hit: "cache_ok w L content cs d \<Longrightarrow> i < length cs \<Longrightarrow> hit n (cs ! i) \<Longrightarrow> seen w L content cs d n = take L (CacheMem (cs ! i))"
  using cache_find [of w L content cs d n i] by (simp add: seen_def)

lemma seen_miss: "cache_ok w L content cs d \<Longrightarrow> (\<And>i. i < length cs \<Longrightarrow> \<not> hit n (cs ! i)) \<Longrightarrow> seen w L content cs d n = content d n"
  using cache_find [of w L content cs d n] by (cases "find_sector n w 0 cs") (auto simp: seen_def)

text \<open>Counters and modes do not matter.\<close>

definition core :: "ML_tCACHEDESCR \<Rightarrow> ML_tCACHEDESCR" where
  "core c = c\<lparr>Mode := 0, CacheCounter := 0\<rparr>"

lemma core_fields:
  assumes "core c = core c'"
  shows "CacheValid c = CacheValid c'" "DeviceNum c = DeviceNum c'" "SectorNumber c = SectorNumber c'"
    "WriteAttribute c = WriteAttribute c'" "CacheMem c = CacheMem c'"
  using assms by (cases c; cases c'; simp add: core_def)+

lemma find_sector_cong: "map core cs' = map core cs \<Longrightarrow> find_sector n w i cs' = find_sector n w i cs"
proof (induction cs arbitrary: cs' i)
  case (Cons c cs)
  then obtain c' cs'' where "cs' = c' # cs''" "core c' = core c" "map core cs'' = map core cs" by auto
  then show ?case using Cons.IH [of cs'' "Suc i"] core_fields [of c' c] by simp
qed simp

lemma core_cong:
  assumes "map core cs' = map core cs"
  shows "cache_ok w L content cs' d = cache_ok w L content cs d" and "seen w L content cs' d = seen w L content cs d"
proof -
  have len: "length cs' = length cs" using assms by (rule map_eq_imp_length_eq)
  have f: "core (cs' ! i) = core (cs ! i)" if "i < length cs" for i using assms that len by (metis nth_map)
  show "cache_ok w L content cs' d = cache_ok w L content cs d"
    unfolding cache_ok_def len hit_def using core_fields [OF f] by (intro conj_cong refl all_cong1 imp_cong) simp_all
  have "find_sector n w 0 cs = Some i \<Longrightarrow> i < length cs" for n i using find_sector_Some [of n w 0 cs i] by simp
  then show "seen w L content cs' d = seen w L content cs d"
    using core_fields(5) [OF f] find_sector_cong [OF assms] by (auto simp: seen_def fun_eq_iff split: option.split)
qed

section \<open>Reading and writing through the cache\<close>

text \<open>A sector that is put into a buffer is seen from then on; the others are seen as before.\<close>

lemma install:
  assumes c: "cache_ok w L content cs d" and i: "i < length cs"
    and new: "CacheValid c" "SectorNumber c = n" "DeviceNum c = w" "length (CacheMem c) = ML_CACHEBUFSIZE"
      "\<not> WriteAttribute c \<Longrightarrow> take L (CacheMem c) = content d n"
    and free: "CacheValid (cs ! i) \<Longrightarrow> SectorNumber (cs ! i) = n" and other: "\<And>j. j < length cs \<Longrightarrow> j \<noteq> i \<Longrightarrow> \<not> hit n (cs ! j)"
  shows "cache_ok w L content (cs[i := c]) d" and "seen w L content (cs[i := c]) d = (seen w L content cs d)(n := take L (CacheMem c))"
proof -
  let ?cs = "cs[i := c]"
  have nth: "?cs ! j = (if j = i then c else cs ! j)" if "j < length cs" for j using that by (simp add: nth_list_update)
  have hits: "hit m (?cs ! j) = (if j = i then m = n else hit m (cs ! j))" if "j < length cs" for j m
    using that new(1, 2) by (auto simp: nth hit_def)
  have uniq: "j = k" if "j < length cs" "k < length cs" "hit m (?cs ! j)" "hit m (?cs ! k)" for j k m
    using that other [of j] other [of k] cache_unique [OF c, of j k m] by (auto simp: hits split: if_splits)
  have each: "length (CacheMem (?cs ! j)) = ML_CACHEBUFSIZE \<and> (if CacheValid (?cs ! j) then DeviceNum (?cs ! j) = w \<and>
      (WriteAttribute (?cs ! j) \<or> take L (CacheMem (?cs ! j)) = content d (SectorNumber (?cs ! j)))
     else \<not> WriteAttribute (?cs ! j))" if "j < length cs" for j
    using c that new by (cases "j = i") (auto simp: cache_ok_def nth)
  show ok: "cache_ok w L content ?cs d"
    using c each uniq unfolding cache_ok_def by (simp add: Ball_def) blast
  show "seen w L content ?cs d = (seen w L content cs d)(n := take L (CacheMem c))"
  proof
    fix m
    show "seen w L content ?cs d m = ((seen w L content cs d)(n := take L (CacheMem c))) m"
    proof (cases "\<exists>j < length cs. hit m (?cs ! j)")
      case True
      then obtain j where j: "j < length cs" "hit m (?cs ! j)" by blast
      then have "seen w L content ?cs d m = take L (CacheMem (?cs ! j))" using seen_hit [OF ok, of j m] by simp
      moreover have "seen w L content cs d m = take L (CacheMem (cs ! j))" if "j \<noteq> i"
        using seen_hit [OF c, of j m] j that hits [OF j(1)] by simp
      moreover have "j = i \<longleftrightarrow> m = n" using j(1) j(2) [unfolded hits [OF j(1)]] other [of j] by (auto split: if_splits)
      ultimately show ?thesis using j(1) by (cases "j = i") (simp_all add: nth)
    next
      case False
      then have mn: "m \<noteq> n" using i hits [OF i, of m] by auto
      have "\<not> hit m (cs ! j)" if "j < length cs" for j
      proof (cases "j = i")
        case True
        then show ?thesis using free mn by (auto simp: hit_def)
      next
        case ne: False
        then show ?thesis using False that hits [OF that, of m] by auto
      qed
      with mn show ?thesis using False seen_miss [OF ok, of m] seen_miss [OF c, of m] i by auto
    qed
  qed
qed

lemma select_bound: "select_buffer i sel cnt cs < i + length cs \<or> select_buffer i sel cnt cs = sel"
  by (induction i sel cnt cs rule: select_buffer.induct) auto

text \<open>A buffer that is given up, written back when it has to be, is not missed.\<close>

lemma release:
  assumes c: "cache_ok w L content cs d" and i: "i < length cs"
    and d': "content d' = (if WriteAttribute (cs ! i) then (content d)(SectorNumber (cs ! i) := take L (CacheMem (cs ! i))) else content d)"
    and new: "\<not> CacheValid c" "\<not> WriteAttribute c" "length (CacheMem c) = ML_CACHEBUFSIZE"
  shows "cache_ok w L content (cs[i := c]) d'" and "seen w L content (cs[i := c]) d' = seen w L content cs d"
proof -
  let ?cs = "cs[i := c]" and ?n = "SectorNumber (cs ! i)"
  have nth: "?cs ! j = (if j = i then c else cs ! j)" if "j < length cs" for j using that by (simp add: nth_list_update)
  have hits: "hit m (?cs ! j) \<longleftrightarrow> j \<noteq> i \<and> hit m (cs ! j)" if "j < length cs" for j m
    using that new(1) by (auto simp: nth hit_def)
  have valid: "CacheValid (cs ! i)" if "WriteAttribute (cs ! i)" using cache_entry(2) [OF c i that] .
  have rest: "content d' (SectorNumber (cs ! j)) = content d (SectorNumber (cs ! j))" if "j < length cs" "j \<noteq> i" "CacheValid (cs ! j)" for j
    using that valid cache_unique [OF c that(1) i, of ?n] by (auto simp: d' hit_def)
  have each: "length (CacheMem (?cs ! j)) = ML_CACHEBUFSIZE \<and> (if CacheValid (?cs ! j) then DeviceNum (?cs ! j) = w \<and>
      (WriteAttribute (?cs ! j) \<or> take L (CacheMem (?cs ! j)) = content d' (SectorNumber (?cs ! j)))
     else \<not> WriteAttribute (?cs ! j))" if "j < length cs" for j
    using c that new rest [OF that] by (cases "j = i") (auto simp: cache_ok_def nth)
  have uniq: "j = k" if "j < length cs" "k < length cs" "hit m (?cs ! j)" "hit m (?cs ! k)" for j k m
    using that cache_unique [OF c, of j k m] by (auto simp: hits)
  show ok: "cache_ok w L content ?cs d'" using c each uniq unfolding cache_ok_def by (simp add: Ball_def) blast
  show "seen w L content ?cs d' = seen w L content cs d"
  proof
    fix m
    show "seen w L content ?cs d' m = seen w L content cs d m"
    proof (cases "\<exists>j < length cs. hit m (?cs ! j)")
      case True
      then obtain j where j: "j < length cs" "hit m (?cs ! j)" by blast
      then have "j \<noteq> i" "hit m (cs ! j)" using hits by auto
      then show ?thesis using seen_hit [OF ok, of j m] seen_hit [OF c, of j m] j by (simp add: nth)
    next
      case False
      then have now: "seen w L content ?cs d' m = content d' m" using seen_miss [OF ok, of m] by simp
      show ?thesis
      proof (cases "hit m (cs ! i)")
        case True
        then have "seen w L content cs d m = take L (CacheMem (cs ! i))" using seen_hit [OF c i] by simp
        moreover have "content d' m = take L (CacheMem (cs ! i))" using True cache_entry(4) [OF c i] by (auto simp: d' hit_def)
        ultimately show ?thesis using now by simp
      next
        case no: False
        then have "\<not> hit m (cs ! j)" if "j < length cs" for j using that False hits by auto
        then have "seen w L content cs d m = content d m" using seen_miss [OF c] by simp
        moreover have "content d' m = content d m" using no valid by (auto simp: d' hit_def)
        ultimately show ?thesis using now by simp
      qed
    qed
  qed
qed

lemma evict_ok:
  assumes D: "drive_ok D w L content" and c: "cache_ok w L content (ML_CacheDesc s) (drive s)" and e: "evict D w s = (r, i, s')"
  obtains cs d a where "r" "i < length cs" "length cs = length (ML_CacheDesc s)"
    "s' = s\<lparr>ML_CacheDesc := cs[i := (cs ! i)\<lparr>CacheValid := True, WriteAttribute := a\<rparr>], drive := d\<rparr>"
    "cache_ok w L content cs d" "seen w L content cs d = seen w L content (ML_CacheDesc s) (drive s)" "\<not> CacheValid (cs ! i)"
    "\<And>n j. j < length cs \<Longrightarrow> hit n (cs ! j) \<Longrightarrow> hit n (ML_CacheDesc s ! j)"
proof -
  let ?cs0 = "ML_CacheDesc s"
  let ?c0 = "?cs0 ! i"
  define cs where "cs = ?cs0[i := ?c0\<lparr>CacheValid := False, WriteAttribute := False\<rparr>]"
  have sel: "i = select_buffer 0 0 0 ?cs0" using e by (auto simp: evict_def Let_def split: if_splits prod.splits)
  have i: "i < length ?cs0" using c select_bound [of 0 0 0 ?cs0] unfolding sel by (auto simp: cache_ok_def ML_MAXCACHES_def)
  have mem: "length (CacheMem ?c0) = ML_CACHEBUFSIZE" using c i by (simp add: cache_ok_def)
  obtain b d' where w: "DataDriveWriteSector D w (SectorNumber ?c0) (CacheMem ?c0) (drive s) = (b, d')" by fastforce
  have wr: "b" "content d' = (content (drive s))(SectorNumber ?c0 := take L (CacheMem ?c0))"
    using drive_write [OF D mem w] by simp_all
  define d where "d = (if WriteAttribute ?c0 then d' else drive s)"
  have "content d = (if WriteAttribute ?c0 then (content (drive s))(SectorNumber ?c0 := take L (CacheMem ?c0)) else content (drive s))"
    by (simp add: d_def wr(2))
  note rl = release [OF c i this, of "?c0\<lparr>CacheValid := False, WriteAttribute := False\<rparr>", folded cs_def]
  show thesis
  proof (rule that [of cs d "WriteAttribute ?c0"])
    show "r" "s' = s\<lparr>ML_CacheDesc := cs[i := (cs ! i)\<lparr>CacheValid := True, WriteAttribute := WriteAttribute ?c0\<rparr>], drive := d\<rparr>"
      using e i w wr(1) by (auto simp: evict_def Let_def sel [symmetric] cs_def d_def split: if_splits)
    show "cache_ok w L content cs d" "seen w L content cs d = seen w L content ?cs0 (drive s)" using rl mem by simp_all
    show "i < length cs" "length cs = length ?cs0" "\<not> CacheValid (cs ! i)" using i by (simp_all add: cs_def)
    show "hit n (?cs0 ! j)" if "j < length cs" "hit n (cs ! j)" for n j
      using that i by (auto simp: cs_def nth_list_update hit_def split: if_splits)
  qed
qed

text \<open>The state of the cache, and what the library sees of the sectors.\<close>

definition disk_ok :: "nat \<Rightarrow> nat \<Rightarrow> ('d \<Rightarrow> nat \<Rightarrow> WORD list) \<Rightarrow> ('d, 'm) ml_cache_scheme \<Rightarrow> bool" where
  "disk_ok w L content s \<longleftrightarrow> (if ML_UseCache s then cache_ok w L content (ML_CacheDesc s) (drive s)
     else length (ML_CacheDesc s) = ML_MAXCACHES \<and> (\<forall>c \<in> set (ML_CacheDesc s). length (CacheMem c) = ML_CACHEBUFSIZE))"

definition view :: "nat \<Rightarrow> nat \<Rightarrow> ('d \<Rightarrow> nat \<Rightarrow> WORD list) \<Rightarrow> ('d, 'm) ml_cache_scheme \<Rightarrow> nat \<Rightarrow> WORD list" where
  "view w L content s = (if ML_UseCache s then seen w L content (ML_CacheDesc s) (drive s) else content (drive s))"

lemma map_core_update: "core c = core (cs ! i) \<Longrightarrow> map core (cs[i := c]) = map core cs"
  by (metis list_update_id map_update)

lemma map_core_Increment [simp]: "map core (IncrementCacheCounters cs) = map core cs"
  by (simp add: IncrementCacheCounters_def core_def)

lemma read_ok:
  assumes D: "drive_ok D w L content" and s: "disk_ok w L content s" and b: "length Buffer = ML_CACHEBUFSIZE"
    and e: "DataDriveReadSectorCache D n w Buffer s = (r, b', s')"
  shows "r \<and> length b' = ML_CACHEBUFSIZE \<and> take L b' = view w L content s n \<and> disk_ok w L content s' \<and> view w L content s' = view w L content s
    \<and> ML_UseCache s' = ML_UseCache s \<and> ml_cache.more s' = ml_cache.more s"
proof (cases "ML_UseCache s")
  case False
  obtain r0 b0 d0 where rd: "DataDriveReadSector D n w Buffer (drive s) = (r0, b0, d0)" by (metis prod_cases3)
  then show ?thesis using drive_read [OF D b rd] False s e by (auto simp: DataDriveReadSectorCache_def disk_ok_def view_def)
next
  case True
  let ?cs = "ML_CacheDesc s"
  have c: "cache_ok w L content ?cs (drive s)" using s True by (simp add: disk_ok_def)
  show ?thesis
  proof (cases "find_sector n w 0 ?cs")
    case (Some i)
    then have i: "i < length ?cs" "hit n (?cs ! i)" using cache_find [OF c] by simp_all
    obtain c' where c': "s' = s\<lparr>ML_CacheDesc := ?cs[i := c']\<rparr>" "core c' = core (?cs ! i)" "b' = CacheMem (?cs ! i)" "r"
      using e True Some by (auto simp: DataDriveReadSectorCache_def Let_def core_def)
    note cg = core_cong [OF map_core_update [OF c'(2)], of w L content "drive s"]
    show ?thesis using cg True c c' cache_entry(1) [OF c i(1)] seen_hit [OF c i] by (simp add: disk_ok_def view_def)
  next
    case None
    then have miss: "\<not> hit n (?cs ! j)" if "j < length ?cs" for j using cache_find [OF c, of n j] that by simp
    obtain r1 i s1 where ev: "evict D w s = (r1, i, s1)" by (metis prod_cases3)
    obtain cs d a where E: "r1" "i < length cs" "length cs = length ?cs"
      "s1 = s\<lparr>ML_CacheDesc := cs[i := (cs ! i)\<lparr>CacheValid := True, WriteAttribute := a\<rparr>], drive := d\<rparr>"
      "cache_ok w L content cs d" "seen w L content cs d = seen w L content ?cs (drive s)" "\<not> CacheValid (cs ! i)"
      "\<And>n j. j < length cs \<Longrightarrow> hit n (cs ! j) \<Longrightarrow> hit n (?cs ! j)"
      by (rule evict_ok [OF D c ev]) blast
    obtain r2 mem d2 where rd: "DataDriveReadSector D n w (CacheMem (cs ! i)) d = (r2, mem, d2)" by (metis prod_cases3)
    note dr = drive_read [OF D cache_entry(1) [OF E(5, 2)] rd]
    define new where "new = (cs ! i)\<lparr>CacheValid := True, CacheMem := mem, DeviceNum := w, WriteAttribute := False, Mode := WRITE_TYPE_RANDOM, SectorNumber := n\<rparr>"
    have none: "\<not> hit n (cs ! j)" if "j < length cs" for j using E(3, 8) miss that by metis
    have c2: "cache_ok w L content cs d2" "seen w L content cs d2 = seen w L content cs d"
      using E(5) dr by (auto simp: cache_ok_def seen_def fun_eq_iff split: option.split)
    have sn: "seen w L content cs d n = content d n" by (rule seen_miss [OF E(5) none])
    note ins = install [OF c2(1) E(2), of new n]
    have in1: "cache_ok w L content (cs[i := new]) d2" "seen w L content (cs[i := new]) d2 = seen w L content cs d2"
      using ins dr E(7) none sn c2(2) by (auto simp: new_def)
    let ?l = "IncrementCacheCounters (cs[i := new])"
    have fin: "r" "b' = mem" "s' = s\<lparr>drive := d2, ML_CacheDesc := ?l[i := (?l ! i)\<lparr>CacheCounter := CACHE_READCOUNTER\<rparr>]\<rparr>"
      using e True None ev E(1-4) rd dr by (auto simp: DataDriveReadSectorCache_def Let_def new_def)
    have "map core (?l[i := (?l ! i)\<lparr>CacheCounter := CACHE_READCOUNTER\<rparr>]) = map core (cs[i := new])"
      by (subst map_core_update) (simp_all add: core_def)
    note cg = core_cong [OF this, of w L content d2]
    show ?thesis using cg in1 c2 E(6) sn dr fin True by (simp add: disk_ok_def view_def)
  qed
qed

lemma write_ok:
  assumes D: "drive_ok D w L content" and s: "disk_ok w L content s" and b: "length Buffer = ML_CACHEBUFSIZE"
    and e: "DataDriveWriteSectorCache D w n Buffer s = (r, s')"
  shows "r \<and> disk_ok w L content s' \<and> view w L content s' = (view w L content s)(n := take L Buffer)
    \<and> ML_UseCache s' = ML_UseCache s \<and> ml_cache.more s' = ml_cache.more s"
proof (cases "ML_UseCache s")
  case False
  obtain r0 d0 where wr: "DataDriveWriteSector D w n Buffer (drive s) = (r0, d0)" by fastforce
  then show ?thesis using drive_write [OF D b wr] False s e by (auto simp: DataDriveWriteSectorCache_def disk_ok_def view_def)
next
  case True
  let ?cs = "ML_CacheDesc s"
  have c: "cache_ok w L content ?cs (drive s)" using s True by (simp add: disk_ok_def)
  define upd where "upd = (\<lambda>c::ML_tCACHEDESCR. c\<lparr>CacheMem := Buffer, WriteAttribute := True, CacheCounter := CACHE_WRITECOUNTER, DeviceNum := w\<rparr>)"
  have fin: "disk_ok w L content t \<and> view w L content t = (seen w L content cs d)(n := take L Buffer)"
    if "cache_ok w L content (cs[i := new]) d" "seen w L content (cs[i := new]) d = (seen w L content cs d)(n := take L Buffer)"
      "t = s\<lparr>drive := d, ML_CacheDesc := IncrementCacheCounters (cs[i := new])\<rparr>" for cs d t i new
    using that True core_cong [OF map_core_Increment, of w L content "cs[i := new]" d] by (simp add: disk_ok_def view_def)
  show ?thesis
  proof (cases "find_sector n w 0 ?cs")
    case (Some i)
    then have i: "i < length ?cs" "hit n (?cs ! i)" using cache_find [OF c] by simp_all
    have "\<not> hit n (?cs ! j)" if "j < length ?cs" "j \<noteq> i" for j using cache_unique [OF c that(1) i(1) _ i(2)] that by blast
    note ins = install [OF c i(1), of "upd (?cs ! i)" n, OF _ _ _ _ _ _ this]
    have new: "cache_ok w L content (?cs[i := upd (?cs ! i)]) (drive s)"
      "seen w L content (?cs[i := upd (?cs ! i)]) (drive s) = (seen w L content ?cs (drive s))(n := take L Buffer)"
      using ins i b by (auto simp: upd_def hit_def)
    have s': "s' = s\<lparr>drive := drive s, ML_CacheDesc := IncrementCacheCounters (?cs[i := upd (?cs ! i)])\<rparr>" and r: r
      using e True Some by (auto simp: DataDriveWriteSectorCache_def Let_def upd_def)
    show ?thesis using fin [OF new s'] r True by (simp add: s') (simp add: view_def)
  next
    case None
    then have miss: "\<not> hit n (?cs ! j)" if "j < length ?cs" for j using cache_find [OF c, of n j] that by simp
    obtain r1 i s1 where ev: "evict D w s = (r1, i, s1)" by (metis prod_cases3)
    obtain cs d a where E: "r1" "i < length cs" "length cs = length ?cs"
      "s1 = s\<lparr>ML_CacheDesc := cs[i := (cs ! i)\<lparr>CacheValid := True, WriteAttribute := a\<rparr>], drive := d\<rparr>"
      "cache_ok w L content cs d" "seen w L content cs d = seen w L content ?cs (drive s)" "\<not> CacheValid (cs ! i)"
      "\<And>n j. j < length cs \<Longrightarrow> hit n (cs ! j) \<Longrightarrow> hit n (?cs ! j)"
      by (rule evict_ok [OF D c ev]) blast
    define new where "new = upd ((cs ! i)\<lparr>CacheValid := True, WriteAttribute := a, SectorNumber := n, Mode := WRITE_TYPE_RANDOM\<rparr>)"
    have none: "\<not> hit n (cs ! j)" if "j < length cs" for j using E(3, 8) miss that by metis
    have new: "cache_ok w L content (cs[i := new]) d" "seen w L content (cs[i := new]) d = (seen w L content cs d)(n := take L Buffer)"
      using install [OF E(5, 2), of new n] E(7) none b by (auto simp: new_def upd_def)
    have s': "s' = s\<lparr>drive := d, ML_CacheDesc := IncrementCacheCounters (cs[i := new])\<rparr>" and r: r
      using e True None ev E(1-4) by (auto simp: DataDriveWriteSectorCache_def Let_def new_def upd_def)
    show ?thesis using fin [OF new s'] E(6) r True by (simp add: s') (simp add: view_def)
  qed
qed

lemma flush_loop_ok:
  assumes D: "drive_ok D w L content"
  shows "flush_loop D n ix s = (r, s') \<Longrightarrow> ix + n = length (ML_CacheDesc s) \<Longrightarrow> cache_ok w L content (ML_CacheDesc s) (drive s) \<Longrightarrow>
    \<forall>i < ix. \<not> CacheValid (ML_CacheDesc s ! i) \<Longrightarrow>
    r \<and> cache_ok w L content (ML_CacheDesc s') (drive s') \<and>
    seen w L content (ML_CacheDesc s') (drive s') = seen w L content (ML_CacheDesc s) (drive s) \<and>
    (\<forall>i < length (ML_CacheDesc s'). \<not> CacheValid (ML_CacheDesc s' ! i)) \<and> ml_cache.more s' = ml_cache.more s"
proof (induction n arbitrary: ix s)
  case (Suc n)
  let ?cs = "ML_CacheDesc s" and ?c = "ML_CacheDesc s ! ix"
  have ix: "ix < length ?cs" using Suc.prems(2) by simp
  note en = cache_entry [OF Suc.prems(3) ix]
  show ?case
  proof (cases "CacheValid ?c \<and> WriteAttribute ?c")
    case True
    obtain b d where wr: "DataDriveWriteSector D (DeviceNum ?c) (SectorNumber ?c) (CacheMem ?c) (drive s) = (b, d)" by fastforce
    note dw = drive_write [OF D en(1), of "SectorNumber ?c" "drive s" b d]
    let ?n = "?c\<lparr>CacheValid := False, WriteAttribute := False, SectorNumber := 0\<rparr>"
    let ?t = "s\<lparr>drive := d, ML_CacheDesc := ?cs[ix := ?n]\<rparr>"
    have d: "b" "content d = (if WriteAttribute ?c then (content (drive s))(SectorNumber ?c := take L (CacheMem ?c)) else content (drive s))"
      using dw wr en(3) True by simp_all
    note rl = release [OF Suc.prems(3) ix d(2), of ?n]
    have t: "cache_ok w L content (?cs[ix := ?n]) d" "seen w L content (?cs[ix := ?n]) d = seen w L content ?cs (drive s)"
      using rl en(1) by simp_all
    have "flush_loop D n (Suc ix) ?t = (r, s')" using Suc.prems(1) True wr d(1) by (simp add: Let_def)
    then show ?thesis using Suc.IH [of "Suc ix" ?t] Suc.prems(2, 4) t by (auto simp: less_Suc_eq nth_list_update)
  next
    case False
    let ?n = "?c\<lparr>CacheValid := False\<rparr>"
    let ?t = "s\<lparr>ML_CacheDesc := ?cs[ix := ?n]\<rparr>"
    have wa: "\<not> WriteAttribute ?c" using False en(2) by blast
    note rl = release [OF Suc.prems(3) ix, of "drive s" ?n]
    have t: "cache_ok w L content (?cs[ix := ?n]) (drive s)" "seen w L content (?cs[ix := ?n]) (drive s) = seen w L content ?cs (drive s)"
      using rl wa en(1) by simp_all
    have "flush_loop D n (Suc ix) ?t = (r, s')" using Suc.prems(1) wa by (simp add: Let_def)
    then show ?thesis using Suc.IH [of "Suc ix" ?t] Suc.prems(2, 4) t by (auto simp: less_Suc_eq nth_list_update)
  qed
qed simp

lemma flush_ok:
  assumes D: "drive_ok D w L content" and s: "disk_ok w L content s" and e: "FlushAndCloseCache D s = (r, s')"
  shows "r \<and> disk_ok w L content s' \<and> \<not> ML_UseCache s' \<and> content (drive s') = view w L content s \<and> view w L content s' = view w L content s"
proof (cases "ML_UseCache s")
  case True
  obtain r1 t where f: "flush_loop D ML_MAXCACHES 0 s = (r1, t)" by fastforce
  have c: "cache_ok w L content (ML_CacheDesc s) (drive s)" using s True by (simp add: disk_ok_def)
  then have "0 + ML_MAXCACHES = length (ML_CacheDesc s)" by (simp add: cache_ok_def)
  note fl = flush_loop_ok [OF D f this c]
  have ok: "cache_ok w L content (ML_CacheDesc t) (drive t)" using fl by simp
  have "seen w L content (ML_CacheDesc t) (drive t) = content (drive t)"
    by (rule ext, rule seen_miss [OF ok]) (use fl in \<open>simp add: hit_def\<close>)
  then have "content (drive t) = view w L content s" using fl True by (simp add: view_def)
  moreover have "s' = t\<lparr>ML_UseCache := False\<rparr>" "r = r1" using e True f by (auto simp: FlushAndCloseCache_def)
  moreover have "disk_ok w L content (t\<lparr>ML_UseCache := False\<rparr>)" using ok by (auto simp: disk_ok_def cache_ok_def in_set_conv_nth)
  ultimately show ?thesis using fl by (simp add: view_def)
next
  case False
  then show ?thesis using e s by (auto simp: FlushAndCloseCache_def disk_ok_def view_def)
qed

lemma use_cache_ok:
  assumes s: "disk_ok w L content s"
  shows "disk_ok w L content (InitandUseCache s) \<and> ML_UseCache (InitandUseCache s) \<and> view w L content (InitandUseCache s) = view w L content s
    \<and> ml_cache.more (InitandUseCache s) = ml_cache.more s"
proof (cases "ML_UseCache s")
  case False
  let ?cs = "map (\<lambda>c. c\<lparr>CacheValid := False, WriteAttribute := False, SectorNumber := 0\<rparr>) (ML_CacheDesc s)"
  have ok: "cache_ok w L content ?cs (drive s)" using s False by (simp add: cache_ok_def disk_ok_def hit_def)
  have "seen w L content ?cs (drive s) = content (drive s)"
    by (rule ext, rule seen_miss [OF ok]) (simp add: hit_def)
  then show ?thesis using ok False by (simp add: InitandUseCache_def disk_ok_def view_def)
qed (use s in \<open>simp add: InitandUseCache_def\<close>)

section \<open>The cache is transparent\<close>

text \<open>A run of the library on the cache; the result is what the reads got.\<close>

datatype disk_op = Use | Close | Read nat | Write nat "WORD list"

fun disk_run :: "('d, 'x) data_drive_scheme \<Rightarrow> nat \<Rightarrow> WORD list \<Rightarrow> disk_op list \<Rightarrow> ('d, 'm) ml_cache_scheme \<Rightarrow> WORD list list \<times> ('d, 'm) ml_cache_scheme" where
  "disk_run D w b [] s = ([], s)"
| "disk_run D w b (Use # ops) s = disk_run D w b ops (InitandUseCache s)"
| "disk_run D w b (Close # ops) s = disk_run D w b ops (snd (FlushAndCloseCache D s))"
| "disk_run D w b (Read n # ops) s =
     (let (_, b', s) = DataDriveReadSectorCache D n w b s; (rs, s) = disk_run D w b ops s in (b' # rs, s))"
| "disk_run D w b (Write n b' # ops) s = disk_run D w b ops (snd (DataDriveWriteSectorCache D w n b' s))"

text \<open>The same run on an array of sectors.\<close>

fun array_run :: "nat \<Rightarrow> disk_op list \<Rightarrow> (nat \<Rightarrow> WORD list) \<Rightarrow> WORD list list \<times> (nat \<Rightarrow> WORD list)" where
  "array_run L [] f = ([], f)"
| "array_run L (Use # ops) f = array_run L ops f"
| "array_run L (Close # ops) f = array_run L ops f"
| "array_run L (Read n # ops) f = (let (rs, g) = array_run L ops f in (f n # rs, g))"
| "array_run L (Write n b # ops) f = array_run L ops (f(n := take L b))"

text \<open>
  C39. The cache is transparent: whatever sequence of reads, writes, openings and closings the library makes, every read
  gets what was last written to the sector, or what the drive had, as if the sectors were an array; and once the cache
  is closed the drive itself has all of it. This is for one drive, which does not fail.
\<close>

theorem cache_transparent:
  assumes "drive_ok D w L content" and "disk_ok w L content s" and "length b = ML_CACHEBUFSIZE"
    and "\<And>n b'. Write n b' \<in> set ops \<Longrightarrow> length b' = ML_CACHEBUFSIZE"
    and "disk_run D w b (ops @ [Close]) s = (rs, s')"
  shows "map (take L) rs = fst (array_run L ops (view w L content s)) \<and> content (drive s') = snd (array_run L ops (view w L content s))"
proof -
  have run: "disk_run D w b (ops @ [Close]) s = (rs, s') \<Longrightarrow> disk_ok w L content s \<Longrightarrow>
      (\<forall>n b'. Write n b' \<in> set ops \<longrightarrow> length b' = ML_CACHEBUFSIZE) \<Longrightarrow>
      map (take L) rs = fst (array_run L ops (view w L content s)) \<and> content (drive s') = snd (array_run L ops (view w L content s))"
    for s rs
  proof (induction ops arbitrary: s rs)
    case Nil
    obtain r t where f: "FlushAndCloseCache D s = (r, t)" by fastforce
    then show ?case using flush_ok [OF assms(1) Nil.prems(2) f] Nil.prems(1) by simp
  next
    case (Cons op ops)
    show ?case
    proof (cases op)
      case Use
      then show ?thesis using Cons.IH [of "InitandUseCache s" rs] Cons.prems use_cache_ok [OF Cons.prems(2)] by simp
    next
      case Close
      obtain r t where f: "FlushAndCloseCache D s = (r, t)" by fastforce
      then show ?thesis using flush_ok [OF assms(1) Cons.prems(2) f] Cons.IH [of t rs] Cons.prems Close by simp
    next
      case (Read n)
      obtain r b' t where f: "DataDriveReadSectorCache D n w b s = (r, b', t)" by (metis prod_cases3)
      obtain rs' t' where g: "disk_run D w b (ops @ [Close]) t = (rs', t')" by fastforce
      show ?thesis
        using read_ok [OF assms(1) Cons.prems(2) assms(3) f] Cons.IH [of t rs'] Cons.prems Read f g by (auto split: prod.split)
    next
      case (Write n b')
      obtain r t where f: "DataDriveWriteSectorCache D w n b' s = (r, t)" by fastforce
      have b': "length b' = ML_CACHEBUFSIZE" using Cons.prems(3) Write by simp
      show ?thesis
        using write_ok [OF assms(1) Cons.prems(2) b' f] Cons.IH [of t rs] Cons.prems Write f by (simp add: fun_upd_def)
    qed
  qed
  show ?thesis using run [OF assms(5, 2)] assms(4) by blast
qed

definition ram_read :: "(nat \<Rightarrow> WORD list) \<Rightarrow> nat \<Rightarrow> WORD list" where
  "ram_read d n = take 683 (d n @ replicate 683 0)"

definition ram_drive :: "(nat \<Rightarrow> WORD list) data_drive" where
  "ram_drive = \<lparr>DataDriveReadSector = (\<lambda>n w b d. (True, ram_read d n @ drop 683 b, d)),
     DataDriveWriteSector = (\<lambda>w n b d. (True, d(n := take 683 b)))\<rparr>"

lemma ram_drive_ok: "drive_ok ram_drive 0 683 ram_read"
  by (auto simp: drive_ok_def ram_drive_def ram_read_def ML_CACHEBUFSIZE_def)

definition closed_cache :: "'d \<Rightarrow> 'd ml_cache" where
  "closed_cache d = \<lparr>ML_CacheDesc = replicate ML_MAXCACHES
     \<lparr>CacheValid = False, DeviceNum = 0, SectorNumber = 0, WriteAttribute = False, Mode = 0, CacheCounter = 0,
      CacheMem = replicate ML_CACHEBUFSIZE 0\<rparr>, ML_UseCache = False, drive = d\<rparr>"

lemma closed_cache_ok: "disk_ok w L content (closed_cache d)" and closed_cache_view: "view w L content (closed_cache d) = content d"
  by (simp_all add: disk_ok_def closed_cache_def view_def)

text \<open>Twelve sectors are written through the nine buffers, and two of them read back.\<close>

lemma cache_transparent_witness:
  "\<exists>rs s'. disk_run ram_drive 0 (replicate 720 0)
      ((Use # map (\<lambda>n. Write n (replicate 720 (of_nat n))) [0..<12] @ [Read 1, Read 11]) @ [Close]) (closed_cache (\<lambda>_. [])) = (rs, s') \<and>
    map (take 683) rs = [replicate 683 1, replicate 683 11] \<and> ram_read (drive s') 5 = replicate 683 5"
proof -
  let ?ops = "Use # map (\<lambda>n. Write n (replicate 720 (of_nat n))) [0..<12] @ [Read 1, Read 11]" and ?s = "closed_cache (\<lambda>_. [])"
  obtain rs s' where r: "disk_run ram_drive 0 (replicate 720 0) (?ops @ [Close]) ?s = (rs, s')" by fastforce
  have "map (take 683) rs = fst (array_run 683 ?ops (view 0 683 ram_read ?s)) \<and>
      ram_read (drive s') = snd (array_run 683 ?ops (view 0 683 ram_read ?s))"
    by (rule cache_transparent [OF ram_drive_ok closed_cache_ok _ _ r]) (auto simp: ML_CACHEBUFSIZE_def)
  moreover have "[0..<12] = [0, 1, 2, 3, 4, 5, 6, 7, 8, 9, 10, 11::nat]" by (simp add: upt_rec)
  ultimately show ?thesis using r by simp
qed

end
