(* ===== verification/MlFlash.thy ===== *)
theory MlFlash imports MlLayout MlInsert MlCache begin

text \<open>
  The names of the music library in the flash, \<^verbatim>\<open>ML_MemRead\<close> and \<^verbatim>\<open>ML_MemWrite\<close> of
  \<^verbatim>\<open>musiclib_flash_function.c\<close>. The database is a file whose sectors are found through a table: its own sectors are in
  \<open>l2_sector_table\<close>, and the table has the drive's sector for each sector of the database. Both are read through the cache
  into \<open>sec_temp_buf_X\<close>. The interrupt level, which both functions raise, is not modelled; the item types that are not
  names or paths go to the parameter \<open>R\<close>.
\<close>

record 'd ml_sectors = "'d ml_cache" +
  l2_sector_table :: "nat list"
  SectorSize :: nat
  num_long_per_sec :: nat
  FIRSTDataSector :: nat
  sec_temp_buf_X :: "WORD list"
  flash_error_shown :: bool

definition cal_offset :: "nat \<Rightarrow> nat \<Rightarrow> nat" where
  "cal_offset sector_size index =
     (if sector_size = LB_BYTE_PER_SECTOR
      then
        let lb_offset = index - (index div 4) * 4
        in if lb_offset = 1 then 171 else if lb_offset = 2 then 342 else if lb_offset = 3 then 512 else 0
      else 0)"

definition cal_sec :: "nat \<Rightarrow> nat \<Rightarrow> nat \<Rightarrow> nat \<times> nat" where
  "cal_sec item_per_sec start_sec index = (index div item_per_sec + start_sec, index - (index div item_per_sec) * item_per_sec)"

text \<open>A long in a buffer of words: the low word first.\<close>

definition long_at :: "WORD list \<Rightarrow> nat \<Rightarrow> DWORD" where
  "long_at b i = push_bit 24 (ucast (b ! (2 * i + 1))) OR ucast (b ! (2 * i))"

definition table_start :: "nat \<Rightarrow> nat \<Rightarrow> nat" where
  "table_start Media_type sector_size =
     (if Media_type = MEDIA_TYPE_FLASH then 0
      else if sector_size = BYTE_PER_SECTOR then NUM_OF_LEVEL2_FLASHPART_SEC else NUM_OF_LEVEL2_FLASHPART_2048SEC)"

text \<open>A failed read of the table is not noticed, a sector below the first data sector is only shown.\<close>

definition get_map_sec ::
    "('d, 'x) data_drive_scheme \<Rightarrow> nat \<Rightarrow> nat \<Rightarrow> ('d, 'm) ml_sectors_scheme \<Rightarrow> nat \<times> ('d, 'm) ml_sectors_scheme" where
  "get_map_sec D Media_type dbsec_id s =
     (let (temp_sec, temp_in_sec) = cal_sec (num_long_per_sec s) (table_start Media_type (SectorSize s)) dbsec_id;
          (_, b, s) = DataDriveReadSectorCache D (l2_sector_table s ! temp_sec) FLASH_DRIVEID (sec_temp_buf_X s) s;
          sec_id = long_at b temp_in_sec
      in (unat sec_id, s\<lparr>sec_temp_buf_X := b, flash_error_shown := flash_error_shown s \<or> sint sec_id < int (FIRSTDataSector s)\<rparr>))"

definition get_item_sec ::
    "('d, 'x) data_drive_scheme \<Rightarrow> nat \<Rightarrow> nat \<Rightarrow> nat \<Rightarrow> nat \<Rightarrow> ('d, 'm) ml_sectors_scheme \<Rightarrow>
     nat \<times> nat \<times> nat \<times> ('d, 'm) ml_sectors_scheme" where
  "get_item_sec D Media_type item_per_sec start_sec index s =
     (let (sec, in_sec_id) = cal_sec item_per_sec start_sec index;
          lb_off = cal_offset (SectorSize s) sec;
          (map_sec_id, s) = get_map_sec D Media_type sec s
      in (map_sec_id, in_sec_id, lb_off, s))"

text \<open>A read gives the words, or \<open>None\<close> when it fails and leaves the target alone.\<close>

definition ML_MemRead ::
    "('d, 'x) data_drive_scheme \<Rightarrow> ('d ml_sectors, 'y) ml_flash_scheme \<Rightarrow> nat \<Rightarrow> nat \<Rightarrow> nat \<Rightarrow> nat \<Rightarrow> 'd ml_sectors \<Rightarrow>
     WORD list option \<times> 'd ml_sectors" where
  "ML_MemRead D R media_type item_type item_id cpylen s =
     (if media_type \<ge> NUM_OF_MEDIA then (None, s)
      else if item_type \<in> set read_name_types
      then
        let (spsec, start_sec, struct_size) = read_slot item_type;
            (dwSector, in_sec_id, lb_offset, s) = get_item_sec D media_type spsec start_sec item_id s;
            (r, b, s) = DataDriveReadSectorCache D dwSector FLASH_DRIVEID (sec_temp_buf_X s) s;
            s = s\<lparr>sec_temp_buf_X := b\<rparr>
        in (if r then Some (take cpylen (drop (struct_size * in_sec_id + lb_offset) b)) else None, s)
      else MemRead R media_type item_type item_id cpylen s)"

definition ML_MemWrite ::
    "('d, 'x) data_drive_scheme \<Rightarrow> ('d ml_sectors, 'y) ml_flash_scheme \<Rightarrow> nat \<Rightarrow> nat \<Rightarrow> nat \<Rightarrow> WORD list \<Rightarrow> 'd ml_sectors \<Rightarrow> 'd ml_sectors" where
  "ML_MemWrite D R media_type item_type item_id dbuf s =
     (if media_type \<ge> NUM_OF_MEDIA then s
      else if item_type \<in> set write_name_types
      then
        case write_slot item_type item_id of
          None \<Rightarrow> s
        | Some (nsec, start_sec, struct_size) \<Rightarrow>
            let (dwSector, in_sec_id, lb_offset, s) = get_item_sec D media_type nsec start_sec item_id s;
                (r, b, s) = DataDriveReadSectorCache D dwSector FLASH_DRIVEID (sec_temp_buf_X s) s;
                s = s\<lparr>sec_temp_buf_X := b\<rparr>
            in if \<not> r then s
               else
                 let p = struct_size * in_sec_id + lb_offset;
                     b = take p b @ dbuf @ drop (p + length dbuf) b;
                     s = s\<lparr>sec_temp_buf_X := b\<rparr>
                 in snd (DataDriveWriteSectorCache D FLASH_DRIVEID dwSector b s)
      else MemWrite R media_type item_type item_id dbuf s)"

definition sector_flash :: "('d, 'x) data_drive_scheme \<Rightarrow> ('d ml_sectors, 'y) ml_flash_scheme \<Rightarrow> 'd ml_sectors ml_flash" where
  "sector_flash D R = \<lparr>MemRead = ML_MemRead D R, MemWrite = ML_MemWrite D R\<rparr>"

section \<open>The layout of a database\<close>

text \<open>
  What the tables say: the drive's sector of a sector of the database. The sectors of the table are not in it, and two
  sectors of the database are two sectors of the drive or two parts of one.
\<close>

definition table_sec :: "nat \<Rightarrow> 'd ml_sectors \<Rightarrow> nat \<Rightarrow> nat" where
  "table_sec m s k = l2_sector_table s ! (k div num_long_per_sec s + table_start m (SectorSize s))"

definition map_sec :: "nat \<Rightarrow> ('d \<Rightarrow> nat \<Rightarrow> WORD list) \<Rightarrow> nat \<Rightarrow> 'd ml_sectors \<Rightarrow> nat \<Rightarrow> nat" where
  "map_sec L content m s k = unat (long_at (view FLASH_DRIVEID L content s (table_sec m s k)) (k mod num_long_per_sec s))"

definition layout_ok :: "nat \<Rightarrow> ('d \<Rightarrow> nat \<Rightarrow> WORD list) \<Rightarrow> nat \<Rightarrow> 'd ml_sectors \<Rightarrow> bool" where
  "layout_ok L content m s \<longleftrightarrow>
     (if SectorSize s = LB_BYTE_PER_SECTOR then num_long_per_sec s = NUM_OF_LONG_PER_2048SEC \<and> 682 \<le> L
      else SectorSize s = BYTE_PER_SECTOR \<and> num_long_per_sec s = NUM_OF_LONG_PER_512SEC \<and> 170 \<le> L) \<and>
     (\<forall>k < TRACKNUM_ARRAY_START_SEC. \<forall>k' < TRACKNUM_ARRAY_START_SEC. map_sec L content m s k \<noteq> table_sec m s k' \<and>
        (k \<noteq> k' \<and> cal_offset (SectorSize s) k = cal_offset (SectorSize s) k' \<longrightarrow> map_sec L content m s k \<noteq> map_sec L content m s k'))"

definition flash_ok :: "('d, 'x) data_drive_scheme \<Rightarrow> nat \<Rightarrow> ('d \<Rightarrow> nat \<Rightarrow> WORD list) \<Rightarrow> nat \<Rightarrow> 'd ml_sectors \<Rightarrow> bool" where
  "flash_ok D L content m s \<longleftrightarrow> drive_ok D FLASH_DRIVEID L content \<and> disk_ok FLASH_DRIVEID L content s \<and>
     length (sec_temp_buf_X s) = ML_CACHEBUFSIZE \<and> m < NUM_OF_MEDIA \<and> layout_ok L content m s"

text \<open>The words of an item.\<close>

definition flash_item :: "nat \<Rightarrow> ('d \<Rightarrow> nat \<Rightarrow> WORD list) \<Rightarrow> nat \<Rightarrow> 'd ml_sectors \<Rightarrow> nat \<Rightarrow> nat \<Rightarrow> nat \<Rightarrow> WORD list" where
  "flash_item L content m s t n len =
     (case read_slot t of (p, st, sz) \<Rightarrow>
        take len (drop (sz * (n mod p) + cal_offset (SectorSize s) (st + n div p))
          (view FLASH_DRIVEID L content s (map_sec L content m s (st + n div p)))))"

section \<open>Through the cache\<close>

lemma more_fields:
  assumes "ml_cache.more (s' :: 'd ml_sectors) = ml_cache.more s"
  shows "l2_sector_table s' = l2_sector_table s" "SectorSize s' = SectorSize s" "num_long_per_sec s' = num_long_per_sec s"
    "sec_temp_buf_X s' = sec_temp_buf_X s"
  using assms by (cases s; cases s'; simp)+

text \<open>Nothing that the database is made of has changed.\<close>

definition same_db :: "nat \<Rightarrow> ('d \<Rightarrow> nat \<Rightarrow> WORD list) \<Rightarrow> 'd ml_sectors \<Rightarrow> 'd ml_sectors \<Rightarrow> bool" where
  "same_db L content s s' \<longleftrightarrow> view FLASH_DRIVEID L content s' = view FLASH_DRIVEID L content s \<and>
     l2_sector_table s' = l2_sector_table s \<and> SectorSize s' = SectorSize s \<and> num_long_per_sec s' = num_long_per_sec s"

lemma same_db_fields:
  assumes "same_db L content s s'"
  shows "view FLASH_DRIVEID L content s' = view FLASH_DRIVEID L content s" "SectorSize s' = SectorSize s"
    "table_sec m s' = table_sec m s" "map_sec L content m s' = map_sec L content m s" "layout_ok L content m s' = layout_ok L content m s"
    "flash_item L content m s' = flash_item L content m s"
  using assms by (auto simp: same_db_def table_sec_def map_sec_def layout_ok_def flash_item_def fun_eq_iff)

lemma same_db_trans: "same_db L content s s' \<Longrightarrow> same_db L content s' s'' \<Longrightarrow> same_db L content s s''"
  by (simp add: same_db_def)

lemma buffer_same: "same_db L content s (s\<lparr>sec_temp_buf_X := b, flash_error_shown := e\<rparr>)" "same_db L content s (s\<lparr>sec_temp_buf_X := b\<rparr>)"
  by (simp_all add: same_db_def view_def)

lemma disk_ok_buffer [simp]: "disk_ok w L content (s\<lparr>sec_temp_buf_X := b\<rparr>) = disk_ok w L content s"
  by (simp add: disk_ok_def)

lemma sector_read:
  assumes f: "flash_ok D L content m s" and e: "DataDriveReadSectorCache D n FLASH_DRIVEID (sec_temp_buf_X s) s = (r, b, s1)"
  shows "r \<and> take L b = view FLASH_DRIVEID L content s n \<and> length b = ML_CACHEBUFSIZE \<and> same_db L content s s1 \<and>
    flash_ok D L content m (s1\<lparr>sec_temp_buf_X := b\<rparr>) \<and> flash_ok D L content m (s1\<lparr>sec_temp_buf_X := b, flash_error_shown := y\<rparr>)"
proof -
  have a: "drive_ok D FLASH_DRIVEID L content" "disk_ok FLASH_DRIVEID L content s" "length (sec_temp_buf_X s) = ML_CACHEBUFSIZE"
    using f by (simp_all add: flash_ok_def)
  note r = read_ok [OF a e]
  have s: "same_db L content s s1" using r more_fields [of s1 s] by (simp add: same_db_def)
  have "same_db L content s (s1\<lparr>sec_temp_buf_X := b\<rparr>)" "same_db L content s (s1\<lparr>sec_temp_buf_X := b, flash_error_shown := y\<rparr>)"
    using s buffer_same same_db_trans by blast+
  note same_db_fields(5) [OF this(1)] same_db_fields(5) [OF this(2)]
  moreover have "disk_ok FLASH_DRIVEID L content (s1\<lparr>sec_temp_buf_X := b, flash_error_shown := y\<rparr>)" using r by (simp add: disk_ok_def)
  ultimately show ?thesis using f r s by (simp add: flash_ok_def)
qed

lemma long_at_take: "2 * i + 1 < L \<Longrightarrow> long_at (take L b) i = long_at b i"
  by (simp add: long_at_def)

lemma cal_sec_mod: "cal_sec p st n = (n div p + st, n mod p)"
  by (simp add: cal_sec_def minus_div_mult_eq_mod)

lemma offset_values: "cal_offset z k \<in> {0, 171, 342, 512}"
  by (simp add: cal_offset_def Let_def)

lemma offset_bound: "cal_offset z k \<le> 512" and offset_small: "z \<noteq> LB_BYTE_PER_SECTOR \<Longrightarrow> cal_offset z k = 0"
  by (auto simp: cal_offset_def Let_def)

lemma layout_sizes:
  assumes "layout_ok L content m s"
  shows "k mod num_long_per_sec s < num_long_per_sec s" "2 * (k mod num_long_per_sec s) + 1 < L" "cal_offset (SectorSize s) k + 170 \<le> L"
proof -
  have n: "0 < num_long_per_sec s" "2 * num_long_per_sec s \<le> L" using assms by (auto simp: layout_ok_def sector_consts split: if_splits)
  then show "k mod num_long_per_sec s < num_long_per_sec s" by simp
  then show "2 * (k mod num_long_per_sec s) + 1 < L" using n(2) by linarith
  show "cal_offset (SectorSize s) k + 170 \<le> L"
    using assms offset_bound [of "SectorSize s" k] offset_small [of "SectorSize s" k] by (auto simp: layout_ok_def split: if_splits)
qed

lemma get_map_sec_ok:
  assumes f: "flash_ok D L content m s" and e: "get_map_sec D m k s = (p, s')"
  shows "p = map_sec L content m s k \<and> flash_ok D L content m s' \<and> same_db L content s s'"
proof -
  obtain r b s1 where r: "DataDriveReadSectorCache D (table_sec m s k) FLASH_DRIVEID (sec_temp_buf_X s) s = (r, b, s1)" by (metis prod_cases3)
  note sr = sector_read [OF f r]
  have l: "layout_ok L content m s" using f by (simp add: flash_ok_def)
  have b: "long_at b (k mod num_long_per_sec s) = long_at (view FLASH_DRIVEID L content s (table_sec m s k)) (k mod num_long_per_sec s)"
    using sr long_at_take [OF layout_sizes(2) [OF l], of b k] by simp
  obtain y where p: "p = unat (long_at b (k mod num_long_per_sec s))" "s' = s1\<lparr>sec_temp_buf_X := b, flash_error_shown := y\<rparr>"
    using e r by (auto simp: get_map_sec_def cal_sec_mod table_sec_def Let_def)
  have "same_db L content s s'" unfolding p(2) using sr buffer_same same_db_trans by blast
  then show ?thesis using sr p b by (simp add: map_sec_def)
qed

lemma get_item_sec_ok:
  assumes f: "flash_ok D L content m s" and e: "get_item_sec D m p st n s = (d, i, o', s')"
  shows "d = map_sec L content m s (st + n div p) \<and> i = n mod p \<and> o' = cal_offset (SectorSize s) (st + n div p) \<and>
    flash_ok D L content m s' \<and> same_db L content s s'"
proof -
  obtain d' s1 where g: "get_map_sec D m (st + n div p) s = (d', s1)" by fastforce
  show ?thesis using get_map_sec_ok [OF f g] e g by (simp add: get_item_sec_def cal_sec_mod add.commute)
qed

lemma area_types: "has_area t n \<Longrightarrow> t \<in> set read_name_types \<and> t \<in> set write_name_types"
  by (simp add: has_area_def read_name_types_def)

lemma area_slot: "has_area t n \<Longrightarrow> write_slot t n = Some (read_slot t)"
  using read_slot_write [of t n] by (auto simp: has_area_def)

text \<open>An item's words are inside its sector.\<close>

lemma item_inside:
  assumes a: "has_area t n" and s: "read_slot t = (p, st, sz)" and l: "layout_ok L content m s" and len: "len \<le> sz"
  shows "sz * (n mod p) + cal_offset (SectorSize s) (st + n div p) + len \<le> L"
proof -
  have "sz * (n mod p) + sz \<le> 170" using slot_fits(2) [OF a] area_slot [OF a] s by simp
  then show ?thesis using layout_sizes(3) [OF l, of "st + n div p"] len by linarith
qed

lemma read_item:
  assumes f: "flash_ok D L content m s" and a: "has_area t n" and len: "len \<le> snd (snd (read_slot t))"
    and e: "ML_MemRead D R m t n len s = (x, s')"
  shows "x = Some (flash_item L content m s t n len) \<and> flash_ok D L content m s' \<and> same_db L content s s'"
proof -
  obtain p st sz where s: "read_slot t = (p, st, sz)" by (metis prod_cases3)
  obtain d i o' s1 where g: "get_item_sec D m p st n s = (d, i, o', s1)" by (metis prod_cases4)
  note gi = get_item_sec_ok [OF f g]
  have f1: "flash_ok D L content m s1" using gi by simp
  obtain r b s2 where r: "DataDriveReadSectorCache D d FLASH_DRIVEID (sec_temp_buf_X s1) s1 = (r, b, s2)" by (metis prod_cases3)
  note sr = sector_read [OF f1 r]
  have l: "layout_ok L content m s" "m < NUM_OF_MEDIA" using f by (simp_all add: flash_ok_def)
  have xs: "x = Some (take len (drop (sz * i + o') b))" "s' = s2\<lparr>sec_temp_buf_X := b\<rparr>"
    using e s g r sr l(2) area_types [OF a] by (auto simp: ML_MemRead_def Let_def)
  have in': "sz * i + o' + len \<le> L" using item_inside [OF a s l(1), of len] len s gi by simp
  have "take len (drop (sz * i + o') (take L b)) = take len (drop (sz * i + o') b)" using in' by (simp add: drop_take min_def)
  then have "take len (drop (sz * i + o') b) = take len (drop (sz * i + o') (view FLASH_DRIVEID L content s d))"
    using sr gi by (simp add: same_db_def)
  then have "x = Some (flash_item L content m s t n len)" using gi xs(1) by (simp add: flash_item_def s)
  moreover have "same_db L content s s'" unfolding xs(2) using sr gi buffer_same(2) by (metis same_db_trans)
  ultimately show ?thesis using sr xs(2) by simp
qed

text \<open>Words put into a buffer.\<close>

definition put_words :: "nat \<Rightarrow> 'a list \<Rightarrow> 'a list \<Rightarrow> 'a list" where
  "put_words p w b = take p b @ w @ drop (p + length w) b"

lemma put_words_length [simp]: "p + length w \<le> length b \<Longrightarrow> length (put_words p w b) = length b"
  by (simp add: put_words_def)

lemma put_words_take: "p + length w \<le> L \<Longrightarrow> L \<le> length b \<Longrightarrow> take L (put_words p w b) = put_words p w (take L b)"
  by (cases "L \<le> p") (auto simp: put_words_def min_def drop_take dest: le_antisym)

lemma put_words_nth:
  "p + length w \<le> length b \<Longrightarrow> j < length b \<Longrightarrow> put_words p w b ! j = (if j < p \<or> p + length w \<le> j then b ! j else w ! (j - p))"
  by (auto simp: put_words_def nth_append)

lemma put_words_same: "p + length w \<le> length b \<Longrightarrow> take (length w) (drop p (put_words p w b)) = w"
  by (simp add: put_words_def)

lemma put_words_other:
  assumes "p + length w \<le> length b" and "q + len \<le> p \<or> p + length w \<le> q" and "q + len \<le> length b"
  shows "take len (drop q (put_words p w b)) = take len (drop q b)"
proof (rule nth_equalityI)
  show "length (take len (drop q (put_words p w b))) = length (take len (drop q b))" using assms(1) by simp
  fix i assume "i < length (take len (drop q (put_words p w b)))"
  then have "i < len" "q + i < length b" using assms by simp_all
  then have "q + i < p \<or> p + length w \<le> q + i" using assms(2) by linarith
  then show "take len (drop q (put_words p w b)) ! i = take len (drop q b) ! i"
    using assms(1) \<open>i < len\<close> \<open>q + i < length b\<close> by (auto simp: put_words_nth)
qed

text \<open>Two items share no words.\<close>

lemma items_apart:
  assumes a: "has_area t n" "has_area t' n'" and ne: "(t, n) \<noteq> (t', n')" and l: "layout_ok L content m s"
    and s: "read_slot t = (p, st, sz)" "read_slot t' = (p', st', sz')"
    and d: "map_sec L content m s (st + n div p) = map_sec L content m s (st' + n' div p')"
  defines "q \<equiv> sz * (n mod p) + cal_offset (SectorSize s) (st + n div p)"
    and "q' \<equiv> sz' * (n' mod p') + cal_offset (SectorSize s) (st' + n' div p')"
  shows "q + sz \<le> q' \<or> q' + sz' \<le> q"
proof (cases "st + n div p = st' + n' div p'")
  case True
  then show ?thesis using slots_apart [OF a _ _ ne, of p st sz p' st' sz'] area_slot [OF a(1)] area_slot [OF a(2)] s
    by (auto simp: q_def q'_def)
next
  case False
  have w: "write_slot t n = Some (p, st, sz)" "write_slot t' n' = Some (p', st', sz')"
    using area_slot [OF a(1)] area_slot [OF a(2)] s by simp_all
  note f = slot_fits [OF a(1) w(1)] slot_fits [OF a(2) w(2)]
  have "cal_offset (SectorSize s) (st + n div p) \<noteq> cal_offset (SectorSize s) (st' + n' div p')"
    using l False d f(5, 10) by (auto simp: layout_ok_def)
  then have "cal_offset (SectorSize s) (st + n div p) + 170 \<le> cal_offset (SectorSize s) (st' + n' div p') \<or>
      cal_offset (SectorSize s) (st' + n' div p') + 170 \<le> cal_offset (SectorSize s) (st + n div p)"
    using offset_values [of "SectorSize s" "st + n div p"] offset_values [of "SectorSize s" "st' + n' div p'"] by auto
  then show ?thesis using f(2, 7) by (auto simp: q_def q'_def)
qed

lemma ML_MemWrite_slot:
  assumes a: "has_area t n" and m: "m < NUM_OF_MEDIA" and s: "read_slot t = (p, st, sz)" and g: "get_item_sec D m p st n s = (d, i, o', s1)"
    and r: "DataDriveReadSectorCache D d FLASH_DRIVEID (sec_temp_buf_X s1) s1 = (True, b, s2)"
  shows "ML_MemWrite D R m t n w s = snd (DataDriveWriteSectorCache D FLASH_DRIVEID d (put_words (sz * i + o') w b)
    (s2\<lparr>sec_temp_buf_X := put_words (sz * i + o') w b\<rparr>))"
  using area_slot [OF a] area_types [OF a] s g r m by (simp add: ML_MemWrite_def put_words_def Let_def)

lemma write_item:
  assumes f: "flash_ok D L content m s" and a: "has_area t n" and len: "length w \<le> snd (snd (read_slot t))" and e: "s' = ML_MemWrite D R m t n w s"
  shows "flash_ok D L content m s' \<and> flash_item L content m s' t n (length w) = w \<and>
    (\<forall>t' n' len'. has_area t' n' \<and> (t', n') \<noteq> (t, n) \<and> len' \<le> snd (snd (read_slot t')) \<longrightarrow>
      flash_item L content m s' t' n' len' = flash_item L content m s t' n' len')"
proof -
  obtain p st sz where s: "read_slot t = (p, st, sz)" by (metis prod_cases3)
  obtain d i o' s1 where g: "get_item_sec D m p st n s = (d, i, o', s1)" by (metis prod_cases4)
  note gi = get_item_sec_ok [OF f g]
  have f1: "flash_ok D L content m s1" using gi by simp
  obtain r b s2 where r: "DataDriveReadSectorCache D d FLASH_DRIVEID (sec_temp_buf_X s1) s1 = (r, b, s2)" by (metis prod_cases3)
  note sr = sector_read [OF f1 r]
  have l: "layout_ok L content m s" "m < NUM_OF_MEDIA" using f by (simp_all add: flash_ok_def)
  let ?q = "sz * i + o'"
  define b' where "b' = put_words ?q w b"
  define s3 where "s3 = s2\<lparr>sec_temp_buf_X := b'\<rparr>"
  have qL: "?q + length w \<le> L" using item_inside [OF a s l(1), of "length w"] len s gi by simp
  have Lb: "L \<le> ML_CACHEBUFSIZE" using f by (simp add: flash_ok_def drive_ok_def)
  have lb: "length b = ML_CACHEBUFSIZE" "length b' = ML_CACHEBUFSIZE" using sr qL Lb by (simp_all add: b'_def)
  have same: "same_db L content s s3" unfolding s3_def using sr gi buffer_same(2) by (metis same_db_trans)
  let ?V = "view FLASH_DRIVEID L content s"
  have tb: "take L b = ?V d" using sr same_db_fields(1) [of L content s s1] gi by simp
  have s3: "drive_ok D FLASH_DRIVEID L content" "disk_ok FLASH_DRIVEID L content s3" "sec_temp_buf_X s3 = b'"
    using sr f by (simp_all add: flash_ok_def s3_def)
  obtain r' s4 where w: "DataDriveWriteSectorCache D FLASH_DRIVEID d b' s3 = (r', s4)" by fastforce
  have s': "s' = s4" using ML_MemWrite_slot [OF a l(2) s g, of b s2 R w] r sr w by (simp add: e b'_def s3_def)
  note wo = write_ok [OF s3(1, 2) lb(2) w]
  note mf = more_fields [OF wo [THEN conjunct2, THEN conjunct2, THEN conjunct2, THEN conjunct2]]
  have V': "view FLASH_DRIVEID L content s' = ?V(d := put_words ?q w (?V d))"
    using wo same_db_fields(1) [OF same] put_words_take [OF qL, of b] Lb lb(1) tb by (simp add: s' b'_def)
  have eqs: "SectorSize s' = SectorSize s" "num_long_per_sec s' = num_long_per_sec s" "table_sec m s' = table_sec m s"
    using mf same by (simp_all add: s' same_db_def table_sec_def fun_eq_iff)
  have w0: "write_slot t n = Some (p, st, sz)" using area_slot [OF a] s by simp
  have kd: "st + n div p < TRACKNUM_ARRAY_START_SEC" "d = map_sec L content m s (st + n div p)"
    using slot_fits(5) [OF a w0] gi by simp_all
  have ms: "map_sec L content m s' k = map_sec L content m s k" if "k < TRACKNUM_ARRAY_START_SEC" for k
  proof -
    have "table_sec m s k \<noteq> d" using l(1) kd that unfolding layout_ok_def by metis
    then show ?thesis by (simp add: map_sec_def eqs V')
  qed
  have l': "layout_ok L content m s'" using l(1) ms by (auto simp: layout_ok_def eqs)
  have ok: "flash_ok D L content m s'" using f wo l' mf(4) lb(2) s3(3) by (simp add: flash_ok_def s')
  have Vd: "length (?V d) = L" using arg_cong [OF tb, of length] lb(1) Lb by simp
  have own: "flash_item L content m s' t n (length w) = w"
    using put_words_same [of ?q w "?V d"] qL Vd ms [OF kd(1)] kd(2) gi by (simp add: flash_item_def s V' eqs)
  have "flash_item L content m s' t' n' len' = flash_item L content m s t' n' len'"
    if o: "has_area t' n'" "(t', n') \<noteq> (t, n)" "len' \<le> snd (snd (read_slot t'))" for t' n' len'
  proof -
    obtain p' st' sz' where s': "read_slot t' = (p', st', sz')" by (metis prod_cases3)
    have w': "write_slot t' n' = Some (p', st', sz')" using area_slot [OF o(1)] s' by simp
    note k' = slot_fits(5) [OF o(1) w']
    let ?q' = "sz' * (n' mod p') + cal_offset (SectorSize s) (st' + n' div p')"
    have q': "?q' + len' \<le> L" using item_inside [OF o(1) s' l(1), of len'] o(3) s' by simp
    show ?thesis
    proof (cases "map_sec L content m s (st' + n' div p') = d")
      case True
      have "?q' + len' \<le> ?q \<or> ?q + length w \<le> ?q'"
        using items_apart [OF a o(1) _ l(1) s s'] o(2, 3) True kd(2) gi len s s' by fastforce
      then show ?thesis using put_words_other [of ?q w "?V d" ?q' len'] qL q' Vd True ms [OF k'] by (simp add: flash_item_def s' V' eqs)
    next
      case False
      then show ?thesis using ms [OF k'] by (simp add: flash_item_def s' V' eqs)
    qed
  qed
  then show ?thesis using ok own by blast
qed

section \<open>The flash as a store of names\<close>

text \<open>A flash for the examples: sectors of 2048 bytes, four sectors of the database in each, the table from sector 5000.\<close>

definition demo_drive :: "nat \<Rightarrow> WORD list" where
  "demo_drive n = (if 5000 \<le> n \<and> n < 5013
     then map (\<lambda>w. if even w then of_nat (1000 + (341 * (n - 5000) + w div 2) div 4) else 0) [0..<682] else [])"

definition demo_sectors :: "(nat \<Rightarrow> WORD list) ml_sectors" where
  "demo_sectors = InitandUseCache \<lparr>ML_CacheDesc = ML_CacheDesc (closed_cache demo_drive), ML_UseCache = False, drive = demo_drive,
     l2_sector_table = [5000..<5013], SectorSize = 2048, num_long_per_sec = 341, FIRSTDataSector = 100,
     sec_temp_buf_X = replicate ML_CACHEBUFSIZE 0, flash_error_shown = False\<rparr>"

lemma small_word: "n < 16777216 \<Longrightarrow> unat (of_nat n :: WORD) = n"
  by (simp add: unsigned_of_nat take_bit_nat_eq_self)

lemma long_word: "unat (ucast (w :: WORD) :: DWORD) = unat w"
proof -
  have "unat w < 16777216" using unsigned_less [of w] by simp
  then show ?thesis by (simp add: unsigned_ucast_eq take_bit_nat_eq_self)
qed

lemma demo_long: "k < 4400 \<Longrightarrow> unat (long_at (ram_read demo_drive (5000 + k div 341)) (k mod 341)) = 1000 + k div 4"
proof -
  assume k: "k < 4400"
  let ?j = "k div 341" and ?i = "k mod 341"
  have j: "?j < 13" using k by simp
  have nth: "ram_read demo_drive (5000 + ?j) ! w = (if even w then of_nat (1000 + (341 * ?j + w div 2) div 4) else 0)" if "w < 682" for w
    using that j by (simp add: ram_read_def demo_drive_def nth_append)
  have i: "2 * ?i + 1 < 682"
  proof -
    have "?i < 341" by simp
    then show ?thesis by linarith
  qed
  have "ram_read demo_drive (5000 + ?j) ! (2 * ?i) = of_nat (1000 + k div 4)" "ram_read demo_drive (5000 + ?j) ! (2 * ?i + 1) = 0"
    using nth [of "2 * ?i"] nth [of "2 * ?i + 1"] i by (simp_all add: mult_div_mod_eq)
  moreover have "unat (ucast (of_nat (1000 + k div 4) :: WORD) :: DWORD) = 1000 + k div 4"
  proof -
    have "1000 + k div 4 < 16777216" using k by simp
    then have "unat (of_nat (1000 + k div 4) :: WORD) = 1000 + k div 4" by (rule small_word)
    then show ?thesis by (simp only: long_word)
  qed
  ultimately show ?thesis by (simp add: long_at_def)
qed

lemma demo_flash_ok: "flash_ok ram_drive 683 ram_read 0 demo_sectors"
proof -
  define s where "s = \<lparr>ML_CacheDesc = ML_CacheDesc (closed_cache demo_drive), ML_UseCache = False, drive = demo_drive,
     l2_sector_table = [5000..<5013], SectorSize = 2048, num_long_per_sec = 341, FIRSTDataSector = 100,
     sec_temp_buf_X = replicate ML_CACHEBUFSIZE 0, flash_error_shown = False\<rparr>"
  have s0: "disk_ok FLASH_DRIVEID 683 ram_read s" using closed_cache_ok [of FLASH_DRIVEID 683 ram_read demo_drive]
    by (simp add: s_def disk_ok_def closed_cache_def)
  have tab: "table_sec 0 s k = 5000 + k div 341" if "k < TRACKNUM_ARRAY_START_SEC" for k
    using that by (simp add: table_sec_def s_def table_start_def sector_consts del: upt_rec_numeral)
  have mp: "map_sec 683 ram_read 0 s k = 1000 + k div 4" if "k < TRACKNUM_ARRAY_START_SEC" for k
  proof -
    have "num_long_per_sec s = 341" "view FLASH_DRIVEID 683 ram_read s = ram_read demo_drive" "k < 4400"
      using that by (simp_all add: s_def view_def sector_consts)
    then show ?thesis using demo_long [of k] by (simp add: map_sec_def tab [OF that])
  qed
  have off: "k mod 4 = k' mod 4" if "cal_offset 2048 k = cal_offset 2048 k'" for k k'
  proof -
    have "cal_offset 2048 k = (if k mod 4 = 1 then 171 else if k mod 4 = 2 then 342 else if k mod 4 = 3 then 512 else 0)" for k
      by (simp add: cal_offset_def sector_consts Let_def minus_div_mult_eq_mod)
    moreover have "k mod 4 < 4" "k' mod 4 < 4" by simp_all
    ultimately show ?thesis using that by (auto split: if_splits)
  qed
  have "layout_ok 683 ram_read 0 s"
    unfolding layout_ok_def
  proof (intro conjI allI impI)
    fix k k' assume k: "k < TRACKNUM_ARRAY_START_SEC" "k' < TRACKNUM_ARRAY_START_SEC"
    have "k div 4 < 4000" using k(1) by (simp add: sector_consts)
    then show "map_sec 683 ram_read 0 s k \<noteq> table_sec 0 s k'" using mp [OF k(1)] tab [OF k(2)] by simp
    assume kk: "k \<noteq> k' \<and> cal_offset (SectorSize s) k = cal_offset (SectorSize s) k'"
    have "SectorSize s = 2048" by (simp add: s_def)
    then have "k mod 4 = k' mod 4" "k \<noteq> k'" using off [of k k'] kk by simp_all
    then have "k div 4 \<noteq> k' div 4" by (metis div_mult_mod_eq)
    then show "map_sec 683 ram_read 0 s k \<noteq> map_sec 683 ram_read 0 s k'" using mp k by simp
  qed (simp add: s_def sector_consts)
  moreover have d: "demo_sectors = InitandUseCache s" by (simp add: demo_sectors_def s_def)
  moreover note use_cache_ok [OF s0]
  moreover from this have "same_db 683 ram_read s (InitandUseCache s)" using more_fields [of "InitandUseCache s" s] by (simp add: same_db_def)
  ultimately show ?thesis
    using ram_drive_ok same_db_fields(5) [of 683 ram_read s "InitandUseCache s" 0] more_fields(4) [of "InitandUseCache s" s]
    by (simp add: flash_ok_def s_def [symmetric] sector_consts) (simp add: s_def ML_CACHEBUFSIZE_def)
qed



definition flash_names :: "nat \<Rightarrow> ('d \<Rightarrow> nat \<Rightarrow> WORD list) \<Rightarrow> nat \<Rightarrow> 'd ml_sectors \<Rightarrow> nat \<Rightarrow> nat \<Rightarrow> WORD list" where
  "flash_names L content m s gp n =
     (if gp < YEAR_SORTLOOP \<and> n < MAX_NUM_OF_SONG then flash_item L content m s gp n ML_SONG_NAME_STRUCT_SIZE else [])"

lemma name_slot: "gp < YEAR_SORTLOOP \<Longrightarrow> n < MAX_NUM_OF_SONG \<Longrightarrow> has_area gp n \<and> ML_SONG_NAME_STRUCT_SIZE \<le> snd (snd (read_slot gp))"
  by (auto simp: has_area_def write_types write_slot_def read_slot_def sector_consts Let_def loop_consts ML_SONG_NAME_STRUCT_SIZE_def)

interpretation flash: name_store "sector_flash D R" m "flash_ok D L content m" "flash_names L content m" for D R m L content
proof
  fix fl gp n
  assume a: "flash_ok D L content m fl" "gp < YEAR_SORTLOOP" "n < MAX_NUM_OF_SONG"
  note ri = read_item [OF a(1) _ _ prod.collapse [symmetric], of gp n ML_SONG_NAME_STRUCT_SIZE R]
  show "fst (MemRead (sector_flash D R) m gp n ML_SONG_NAME_STRUCT_SIZE fl) = Some (flash_names L content m fl gp n)"
    using ri name_slot [OF a(2, 3)] a by (simp add: sector_flash_def flash_names_def)
  show "flash_ok D L content m (snd (MemRead (sector_flash D R) m gp n ML_SONG_NAME_STRUCT_SIZE fl)) \<and>
      flash_names L content m (snd (MemRead (sector_flash D R) m gp n ML_SONG_NAME_STRUCT_SIZE fl)) = flash_names L content m fl"
    using ri name_slot [OF a(2, 3)] same_db_fields(6) [of L content fl _ m] by (simp add: sector_flash_def flash_names_def fun_eq_iff)
  fix w :: "WORD list"
  assume w: "length w = ML_SONG_NAME_STRUCT_SIZE"
  have lw: "length w \<le> snd (snd (read_slot gp))" using name_slot [OF a(2, 3)] w by simp
  note wi = write_item [OF a(1) _ lw refl, of n R]
  show "flash_ok D L content m (MemWrite (sector_flash D R) m gp n w fl) \<and>
      flash_names L content m (MemWrite (sector_flash D R) m gp n w fl) = (flash_names L content m fl)(gp := (flash_names L content m fl gp)(n := w))"
    using wi name_slot a(2, 3) w by (auto simp: sector_flash_def flash_names_def fun_eq_iff)
qed

end
