(* ===== verification/Spec2Isabelle.thy ===== *)
theory Spec2Isabelle
  imports Prelude MsgQueue Kernel Overlay Database FileStore DatabaseRing DatabaseAlloc DatabaseBuffer
    BatteryCharge SoftTimers Fat FatTable BitTable Chkdsk ChkdskChains ChkdskProps
    Nand NandCrc NandBoot Id3 Id3Safe Id3Tag Id3Frame Id3Check
    Usb UsbCh9 UsbEvents UsbDesc UsbQueue UsbSound UsbApp UsbComplete UsbLoop UsbReset UsbConfig UsbReach UsbAnswer UsbProps
    MlName MlList MlBuild MlLayout MlPieces MlInsert MlCache MlFlash
begin

text \<open>
  A verification development for the STMP3xxx player SDK.
\<close>

end
